(* ===== verification/Prelude.thy ===== *)
theory Prelude
  imports Complex_Main "HOL-Library.Multiset" "HOL-Library.AList" "HOL-Library.List_Lexorder" "HOL-Library.Char_ord"
begin

text \<open>
  Shared material of the development: the HTTP exceptions the services throw, the JavaScript
  containers they use (\<open>Set\<close> and \<open>Map\<close> keep insertion order), slicing loops, and the
  generic "keep the best element seen so far" loop with its interface, which the rule
  selections of the pricing engine instantiate.
  Strings are lists of code units; \<open>List_Lexorder\<close> and \<open>Char_ord\<close> give them the
  code-unit order of the JavaScript operator \<open><\<close>.
\<close>

section \<open>Hint collections\<close>

named_theorems js_list_simps \<open>facts on the JavaScript container models\<close>
named_theorems table_simps \<open>facts on reads after writes of database tables\<close>

section \<open>Errors\<close>

text \<open>The NestJS HTTP exceptions, with the message they carry, and any other throw.\<close>

datatype exn =
    BadRequestException string
  | UnauthorizedException string
  | ForbiddenException string
  | NotFoundException string
  | ConflictException string
  | UnprocessableEntity string
  | BadGatewayException string
  | ServiceUnavailableException string
  | DuplicateDeliveryRepublishError string
  | Error string

fun exn_message :: "exn \<Rightarrow> string" where
  "exn_message (BadRequestException s) = s"
| "exn_message (UnauthorizedException s) = s"
| "exn_message (ForbiddenException s) = s"
| "exn_message (NotFoundException s) = s"
| "exn_message (ConflictException s) = s"
| "exn_message (UnprocessableEntity s) = s"
| "exn_message (BadGatewayException s) = s"
| "exn_message (ServiceUnavailableException s) = s"
| "exn_message (DuplicateDeliveryRepublishError s) = s"
| "exn_message (Error s) = s"

type_synonym 'a outcome = "exn + 'a"

definition bind_outcome :: "'a outcome \<Rightarrow> ('a \<Rightarrow> 'b outcome) \<Rightarrow> 'b outcome" where
  "bind_outcome m f = (case m of Inl e \<Rightarrow> Inl e | Inr x \<Rightarrow> f x)"

lemma bind_outcome_simps [simp]:
  "bind_outcome (Inl e) f = Inl e"
  "bind_outcome (Inr x) f = f x"
  by (simp_all add: bind_outcome_def)

lemma bind_outcome_Inr_iff:
  "bind_outcome m f = Inr y \<longleftrightarrow> (\<exists>x. m = Inr x \<and> f x = Inr y)"
  by (cases m) simp_all

section \<open>Table updates\<close>

text \<open>\<open>UPDATE t SET ... WHERE ...\<close>: the rows that satisfy the condition, in place.\<close>

definition update_where :: "('a \<Rightarrow> bool) \<Rightarrow> ('a \<Rightarrow> 'a) \<Rightarrow> 'a list \<Rightarrow> 'a list" where
  "update_where P f = map (\<lambda>x. if P x then f x else x)"

lemma length_update_where [simp, table_simps]: "length (update_where P f xs) = length xs"
  by (simp add: update_where_def)

lemma nth_update_where [table_simps]:
  "k < length xs \<Longrightarrow> update_where P f xs ! k = (if P (xs ! k) then f (xs ! k) else xs ! k)"
  by (simp add: update_where_def)

lemma map_update_where [table_simps]:
  "(\<And>x. x \<in> set xs \<Longrightarrow> P x \<Longrightarrow> g (f x) = g x) \<Longrightarrow> map g (update_where P f xs) = map g xs"
  by (simp add: update_where_def)

lemma set_update_where [table_simps]:
  "set (update_where P f xs) = (\<lambda>x. if P x then f x else x) ` set xs"
  by (simp add: update_where_def)

lemma update_where_none [table_simps]: "(\<And>x. x \<in> set xs \<Longrightarrow> \<not> P x) \<Longrightarrow> update_where P f xs = xs"
  by (simp add: update_where_def map_idI)

section \<open>JavaScript containers\<close>

text \<open>\<open>[...new Set(xs)]\<close>: the first occurrence of every element, in order.\<close>

definition dedup :: "'a list \<Rightarrow> 'a list" where
  "dedup xs = rev (remdups (rev xs))"

lemma set_dedup [simp, js_list_simps]: "set (dedup xs) = set xs"
  by (simp add: dedup_def)

lemma distinct_dedup [simp, js_list_simps]: "distinct (dedup xs)"
  by (simp add: dedup_def)

lemma dedup_Nil_iff [simp]: "dedup xs = [] \<longleftrightarrow> xs = []"
  by (simp add: dedup_def)

lemma length_dedup_le: "length (dedup xs) \<le> length xs"
  using length_remdups_leq [of "rev xs"] by (simp add: dedup_def)

text \<open>
  \<open>new Map(entries)\<close>: setting a present key keeps its position and replaces its value,
  setting a new key appends it. \<open>AList.update\<close> is that operation.
\<close>

definition map_of_entries :: "('k \<times> 'v) list \<Rightarrow> ('k \<times> 'v) list" where
  "map_of_entries es = fold (\<lambda>(k, v). AList.update k v) es []"

lemma distinct_map_of_entries [simp]: "distinct (map fst (map_of_entries es))"
proof -
  have "distinct (map fst acc) \<Longrightarrow> distinct (map fst (fold (\<lambda>(k, v). AList.update k v) es acc))" for acc
    by (induction es arbitrary: acc) (auto simp: distinct_update)
  then show ?thesis by (simp add: map_of_entries_def)
qed

lemma map_of_fold_update:
  "map_of (fold (\<lambda>(k, v). AList.update k v) es acc) = map_of acc ++ map_of (rev es)"
proof (induction es arbitrary: acc)
  case Nil
  then show ?case by simp
next
  case (Cons e es)
  then show ?case
    by (cases e) (simp add: update_conv' map_add_upd_left flip: fun_upd_def)
qed

text \<open>The map holds the last entry of every key.\<close>

lemma map_of_map_of_entries: "map_of (map_of_entries es) = map_of (rev es)"
  by (simp add: map_of_entries_def map_of_fold_update)

lemma set_map_of_entries_subset: "set (map_of_entries es) \<subseteq> set es"
proof
  fix p assume p: "p \<in> set (map_of_entries es)"
  obtain k v where kv: "p = (k, v)" by (cases p)
  have "map_of (map_of_entries es) k = Some v"
    using p kv by (simp add: map_of_eq_Some_iff)
  then have "map_of (rev es) k = Some v" by (simp add: map_of_map_of_entries)
  then show "p \<in> set es" using kv by (auto dest: map_of_SomeD)
qed

lemma keys_map_of_entries: "fst ` set (map_of_entries es) = fst ` set es"
proof -
  have "dom (map_of (map_of_entries es)) = dom (map_of (rev es))"
    by (simp add: map_of_map_of_entries)
  then show ?thesis by (simp add: dom_map_of_conv_image_fst)
qed

section \<open>Slicing loops\<close>

text \<open>
  \<open>for (let i = 0; i < xs.length; i += n) ... xs.slice(i, i + n)\<close>. The sources call it
  with positive constants only; \<open>n = 0\<close>, where the loop would not end, is the empty list.
\<close>

function chunks :: "nat \<Rightarrow> 'a list \<Rightarrow> 'a list list" where
  "chunks n xs = (if n = 0 \<or> xs = [] then [] else take n xs # chunks n (drop n xs))"
  by pat_completeness auto
termination
  by (relation "measure (\<lambda>(n, xs). length xs)") auto

declare chunks.simps [simp del]

lemma chunks_Nil [simp]: "chunks n [] = []"
  by (subst chunks.simps) simp

lemma concat_chunks [js_list_simps]: "0 < n \<Longrightarrow> concat (chunks n xs) = xs"
proof (induction n xs rule: chunks.induct)
  case (1 n xs)
  then show ?case by (cases "xs = []") (simp_all add: chunks.simps [of n xs])
qed

lemma chunks_elem:
  "0 < n \<Longrightarrow> c \<in> set (chunks n xs) \<Longrightarrow> c \<noteq> [] \<and> length c \<le> n"
proof (induction n xs rule: chunks.induct)
  case (1 n xs)
  then show ?case by (cases "xs = []") (auto simp: chunks.simps [of n xs])
qed

lemma length_chunks: "0 < n \<Longrightarrow> length (chunks n xs) = (length xs + n - 1) div n"
proof (induction n xs rule: chunks.induct)
  case (1 n xs)
  show ?case
  proof (cases "xs = []")
    case True
    with "1.prems" show ?thesis by (simp add: chunks.simps [of n xs])
  next
    case False
    have IH: "length (chunks n (drop n xs)) = (length xs - n + n - 1) div n"
      using 1 False by simp
    have "length xs > 0" using False by simp
    then have "(length xs + n - 1) div n = Suc ((length xs - n + n - 1) div n)"
    proof (cases "n \<le> length xs")
      case True
      then have "length xs + n - 1 = (length xs - 1) + n" and "length xs - n + n - 1 = length xs - 1"
        using \<open>length xs > 0\<close> by simp_all
      moreover have "((length xs - 1) + n) div n = Suc ((length xs - 1) div n)"
        using \<open>0 < n\<close> by (simp add: div_add_self2)
      ultimately show ?thesis by (simp only:)
    next
      case f: False
      have "n \<le> length xs + n - 1 \<and> length xs + n - 1 < n + n"
        using f \<open>length xs > 0\<close> by linarith
      then have "(length xs + n - 1) div n = 1" by (intro div_nat_eqI) auto
      moreover have "(length xs - n + n - 1) div n = 0" using f \<open>0 < n\<close> by simp
      ultimately show ?thesis by simp
    qed
    with IH False \<open>0 < n\<close> show ?thesis by (simp add: chunks.simps [of n xs])
  qed
qed

section \<open>The best element seen so far\<close>

text \<open>
  The loop \<open>for (x of xs) if (best === null || x beats best) best = x\<close>.
\<close>

definition pick_step :: "('a \<Rightarrow> 'a \<Rightarrow> bool) \<Rightarrow> 'a option \<Rightarrow> 'a \<Rightarrow> 'a option" where
  "pick_step beats best x =
     (case best of None \<Rightarrow> Some x | Some b \<Rightarrow> if beats x b then Some x else Some b)"

definition pick_best :: "('a \<Rightarrow> 'a \<Rightarrow> bool) \<Rightarrow> 'a list \<Rightarrow> 'a option" where
  "pick_best beats xs = foldl (pick_step beats) None xs"

text \<open>The interface: what a comparison must satisfy for the loop to find an optimum.\<close>

locale preference =
  fixes beats :: "'a \<Rightarrow> 'a \<Rightarrow> bool"
  assumes asym: "beats x y \<Longrightarrow> \<not> beats y x"
    and negatively_transitive: "beats x z \<Longrightarrow> beats x y \<or> beats y z"
begin

lemma irrefl: "\<not> beats x x"
  using asym by blast

lemma not_beats_trans: "\<not> beats x y \<Longrightarrow> \<not> beats y z \<Longrightarrow> \<not> beats x z"
  using negatively_transitive [of x z y] by blast

lemma foldl_pick_Some:
  "\<exists>r. foldl (pick_step beats) (Some b) xs = Some r \<and> r \<in> insert b (set xs)
       \<and> (\<forall>y \<in> insert b (set xs). \<not> beats y r)"
proof (induction xs arbitrary: b)
  case Nil
  then show ?case by (simp add: irrefl)
next
  case (Cons x xs)
  define c where "c = (if beats x b then x else b)"
  from Cons [of c] obtain r where r: "foldl (pick_step beats) (Some c) xs = Some r"
      "r \<in> insert c (set xs)" "\<forall>y \<in> insert c (set xs). \<not> beats y r"
    by blast
  have step: "pick_step beats (Some b) x = Some c"
    by (simp add: pick_step_def c_def)
  have "\<not> beats b c" and "\<not> beats x c"
    using irrefl asym by (auto simp: c_def)
  with r(3) have "\<not> beats b r" and "\<not> beats x r"
    using not_beats_trans by blast+
  with r step show ?case by (auto simp: c_def split: if_splits)
qed

lemma pick_best_None: "pick_best beats xs = None \<longleftrightarrow> xs = []"
proof (cases xs)
  case Nil
  then show ?thesis by (simp add: pick_best_def)
next
  case (Cons x ys)
  then show ?thesis
    using foldl_pick_Some [of x ys] by (auto simp: pick_best_def pick_step_def)
qed

lemma pick_best_Some:
  assumes "pick_best beats xs = Some r"
  shows "r \<in> set xs \<and> (\<forall>y \<in> set xs. \<not> beats y r)"
proof (cases xs)
  case Nil
  with assms show ?thesis by (simp add: pick_best_def)
next
  case (Cons x ys)
  then show ?thesis
    using foldl_pick_Some [of x ys] assms by (auto simp: pick_best_def pick_step_def)
qed

end

text \<open>A comparison that tells any two distinct candidates apart has one optimum.\<close>

locale strict_preference = preference +
  fixes ident :: "'a \<Rightarrow> 'b"
  assumes separates: "\<not> beats x y \<Longrightarrow> \<not> beats y x \<Longrightarrow> ident x = ident y"
begin

lemma pick_best_order_independent:
  assumes "set xs = set ys" and "inj_on ident (set xs)"
  shows "pick_best beats xs = pick_best beats ys"
proof (cases "pick_best beats xs")
  case None
  then show ?thesis using assms(1) pick_best_None by simp
next
  case (Some r)
  then obtain q where q: "pick_best beats ys = Some q"
    using assms(1) pick_best_None by (metis not_None_eq set_empty2)
  from pick_best_Some [OF Some] pick_best_Some [OF q] assms(1)
  have "r \<in> set xs" "q \<in> set xs" "\<not> beats q r" "\<not> beats r q" by auto
  then have "r = q" using separates assms(2) by (meson inj_onD)
  with Some q show ?thesis by simp
qed

end

section \<open>Leases\<close>

text \<open>
  A claim with a lease: after one success, every claim inside the window is refused and changes
  nothing. Clients only need this law: of a burst of claims inside one window at most the first
  success counts.
\<close>

fun claim_all :: "(int \<Rightarrow> 's \<Rightarrow> 's \<times> bool) \<Rightarrow> int list \<Rightarrow> 's \<Rightarrow> 's \<times> bool list" where
  "claim_all claim [] s = (s, [])"
| "claim_all claim (now # ts) s =
     (case claim now s of (s', ok) \<Rightarrow> case claim_all claim ts s' of (s'', oks) \<Rightarrow> (s'', ok # oks))"

locale lease =
  fixes claim :: "int \<Rightarrow> 's \<Rightarrow> 's \<times> bool" and window :: int
  assumes exclusive:
    "claim now s = (s', True) \<Longrightarrow> now \<le> now' \<Longrightarrow> now' - now < window \<Longrightarrow> claim now' s' = (s', False)"
begin

lemma claim_all_excluded:
  assumes "claim now s = (s', True)" "\<forall>u \<in> set ts. now \<le> u \<and> u - now < window"
  shows "claim_all claim ts s' = (s', replicate (length ts) False)"
  using assms(2)
  by (induction ts) (simp_all add: exclusive [OF assms(1)])

lemma burst_has_one_winner:
  assumes "claim now s = (s', True)" "\<forall>u \<in> set ts. now \<le> u \<and> u - now < window"
  shows "claim_all claim (now # ts) s = (s', True # replicate (length ts) False)"
  using claim_all_excluded [OF assms] assms(1) by simp

end

section \<open>Counting rows across an update of one row\<close>

lemma update_where_absent: "z \<notin> g ` set xs \<Longrightarrow> update_where (\<lambda>y. g y = z) f xs = xs"
  by (auto intro: update_where_none)

lemma count_update_one [table_simps]:
  assumes "distinct (map g xs)" "x \<in> set xs"
  shows "int (length (filter Q (update_where (\<lambda>y. g y = g x) f xs))) =
    int (length (filter Q xs)) - of_bool (Q x) + of_bool (Q (f x))"
  using assms
proof (induction xs)
  case (Cons a xs)
  show ?case
  proof (cases "g a = g x")
    case True
    then have "a = x" using Cons.prems by force
    moreover have "update_where (\<lambda>y. g y = g x) f xs = xs"
      using Cons.prems True by (intro update_where_absent) (auto simp: image_iff)
    ultimately show ?thesis by (simp add: update_where_def)
  next
    case False
    then have "x \<in> set xs" using Cons.prems(2) by auto
    then show ?thesis using Cons False by (simp add: update_where_def)
  qed
qed simp

section \<open>Positions\<close>

lemma chunks_nth:
  "0 < n \<Longrightarrow> k < length xs \<Longrightarrow> k div n < length (chunks n xs) \<and> xs ! k \<in> set (chunks n xs ! (k div n))"
proof (induction n xs arbitrary: k rule: chunks.induct)
  case (1 n xs)
  have ne: "xs \<noteq> []" using "1.prems" by auto
  show ?case
  proof (cases "k < n")
    case True
    then have "xs ! k \<in> set (take n xs)" using "1.prems" by (auto simp: in_set_conv_nth intro!: exI [of _ k])
    then show ?thesis using True ne "1.prems"(1) by (simp add: chunks.simps [of n xs])
  next
    case False
    then have "k - n < length (drop n xs)" "drop n xs ! (k - n) = xs ! k" using "1.prems"(2) by simp_all
    moreover have "k div n = Suc ((k - n) div n)" using False "1.prems"(1) le_div_geq [of n k] by simp
    ultimately show ?thesis using "1.IH" [of "k - n"] ne "1.prems"(1) by (simp add: chunks.simps [of n xs])
  qed
qed

lemma rank_in_sorted:
  "sorted xs \<Longrightarrow> distinct xs \<Longrightarrow> r < length xs \<Longrightarrow> length (filter (\<lambda>j. j < xs ! r) xs) = (r :: nat)"
proof (induction xs arbitrary: r)
  case (Cons a xs)
  show ?case
  proof (cases r)
    case 0
    then have "\<forall>j \<in> set xs. \<not> j < a" using Cons.prems(1) by auto
    then show ?thesis using 0 by simp
  next
    case (Suc q)
    then have q: "q < length xs" using Cons.prems(3) by simp
    then have "a < xs ! q" using Cons.prems(1,2) nth_mem [OF q] by (auto simp: order.strict_iff_order)
    then show ?thesis using Cons Suc q by simp
  qed
qed simp

lemma length_filter_sort: "length (filter P (sort xs)) = length (filter P xs)"
  by (metis mset_filter mset_sort size_mset)

end
