(* ===== verification/Classification_Index.thy ===== *)
theory Classification_Index
  imports Prelude
begin

text \<open>
  The in-memory classification tree of \<open>src/tenant-api/classification/classification-index.ts\<close>:
  \<open>buildClassificationIndex\<close> with its memoised depths, the ancestor chain behind \<open>isUnder\<close>
  and \<open>idsOverlap\<close>, and the explicit-stack traversal \<open>expandSubtree\<close>.
  The two walks up the tree follow parent references read from the database, so they end only
  on acyclic rows. They carry fuel (one unit per row and one more); \<open>None\<close> is the walk that
  does not end. \<open>depths_return\<close> shows the fuel is enough on every acyclic table.
\<close>

record classification_row =
  row_id :: string
  row_name :: string
  row_parentId :: "string option"

type_synonym row_map = "string \<Rightarrow> classification_row option"

text \<open>\<open>new Map(rows.map((r) => [r.id, r]))\<close>: the last row of an id wins.\<close>

definition by_id :: "classification_row list \<Rightarrow> row_map" where
  "by_id rows = map_of (rev (map (\<lambda>r. (row_id r, r)) rows))"

text \<open>A parent reference counts when it is neither null nor the empty string.\<close>

definition parent_ref :: "classification_row \<Rightarrow> string option" where
  "parent_ref r = (case row_parentId r of None \<Rightarrow> None | Some p \<Rightarrow> if p = [] then None else Some p)"

definition parent_of :: "row_map \<Rightarrow> string \<Rightarrow> string option" where
  "parent_of m i = (case m i of None \<Rightarrow> None | Some r \<Rightarrow> parent_ref r)"

section \<open>Depths, with the memo table\<close>

fun memo_depth :: "nat \<Rightarrow> row_map \<Rightarrow> (string \<Rightarrow> nat option) \<Rightarrow> string \<Rightarrow> ((string \<Rightarrow> nat option) \<times> nat) option" where
  "memo_depth 0 m cache i = None"
| "memo_depth (Suc fuel) m cache i =
     (case cache i of
        Some d \<Rightarrow> Some (cache, d)
      | None \<Rightarrow>
          (case m i of
             None \<Rightarrow> Some (cache, 0)
           | Some r \<Rightarrow>
               (case parent_ref r of
                  None \<Rightarrow> Some (cache(i \<mapsto> 0), 0)
                | Some p \<Rightarrow>
                    (case memo_depth fuel m cache p of
                       None \<Rightarrow> None
                     | Some (cache', d) \<Rightarrow> Some (cache'(i \<mapsto> d + 1), d + 1)))))"

fun memo_depths :: "nat \<Rightarrow> row_map \<Rightarrow> (string \<Rightarrow> nat option) \<Rightarrow> classification_row list \<Rightarrow> (string \<Rightarrow> nat option) option" where
  "memo_depths fuel m cache [] = Some cache"
| "memo_depths fuel m cache (r # rs) =
     (case memo_depth fuel m cache (row_id r) of
        None \<Rightarrow> None
      | Some (cache', d) \<Rightarrow> memo_depths fuel m cache' rs)"

section \<open>The ancestor chain\<close>

text \<open>\<open>ancestorsOf\<close>: the node, its parent, and so on, a dangling parent id included.\<close>

fun ancestors_of :: "nat \<Rightarrow> row_map \<Rightarrow> string \<Rightarrow> string list option" where
  "ancestors_of 0 m i = None"
| "ancestors_of (Suc fuel) m i =
     (case parent_of m i of
        None \<Rightarrow> Some [i]
      | Some p \<Rightarrow> map_option ((#) i) (ancestors_of fuel m p))"

definition walk_fuel :: "classification_row list \<Rightarrow> nat" where
  "walk_fuel rows = Suc (length rows)"

definition is_under_rows :: "classification_row list \<Rightarrow> string option \<Rightarrow> string \<Rightarrow> bool" where
  "is_under_rows rows node anc =
     (case node of
        None \<Rightarrow> False
      | Some n \<Rightarrow>
          n \<noteq> [] \<and> by_id rows anc \<noteq> None \<and>
          (case ancestors_of (walk_fuel rows) (by_id rows) n of
             None \<Rightarrow> False
           | Some chain \<Rightarrow> anc \<in> set chain))"

definition ids_overlap_rows :: "classification_row list \<Rightarrow> string \<Rightarrow> string \<Rightarrow> bool" where
  "ids_overlap_rows rows a b =
     (a = b \<or> is_under_rows rows (Some a) b \<or> is_under_rows rows (Some b) a)"

section \<open>Subtrees\<close>

definition children_of :: "classification_row list \<Rightarrow> string \<Rightarrow> string list" where
  "children_of rows p = map row_id (filter (\<lambda>r. parent_ref r = Some p) rows)"

text \<open>The stack loop; the head of the list is the top of the stack.\<close>

function expand_loop :: "classification_row list \<Rightarrow> string set \<Rightarrow> string list \<Rightarrow> string set" where
  "expand_loop rows out [] = out"
| "expand_loop rows out (i # stack) =
     (if i \<in> out then expand_loop rows out stack
      else expand_loop rows (insert i out) (rev (children_of rows i) @ stack))"
  by pat_completeness auto
termination
proof (relation "measures [\<lambda>(rows, out, stack). card ((row_id ` set rows \<union> set stack) - out),
                           \<lambda>(rows, out, stack). length stack]", goal_cases)
  case 1
  then show ?case by simp
next
  case (2 rows out i stack)
  have "card ((row_id ` set rows \<union> set stack) - out) \<le> card ((row_id ` set rows \<union> set (i # stack)) - out)"
    by (intro card_mono) auto
  then show ?case by auto
next
  case (3 rows out i stack)
  have "set (children_of rows i) \<subseteq> row_id ` set rows" by (auto simp: children_of_def)
  then have "card ((row_id ` set rows \<union> set (rev (children_of rows i) @ stack)) - insert i out)
      < card ((row_id ` set rows \<union> set (i # stack)) - out)"
    using 3 by (intro psubset_card_mono) auto
  then show ?case by simp
qed

definition expand_subtree_rows :: "classification_row list \<Rightarrow> string list \<Rightarrow> string set" where
  "expand_subtree_rows rows roots = expand_loop rows {} (rev roots)"

section \<open>The index\<close>

record classification_index =
  depthById :: "string \<Rightarrow> nat option"
  isUnder :: "string option \<Rightarrow> string \<Rightarrow> bool"
  idsOverlap :: "string \<Rightarrow> string \<Rightarrow> bool"
  expandSubtree :: "string list \<Rightarrow> string set"

definition index_of :: "classification_row list \<Rightarrow> (string \<Rightarrow> nat option) \<Rightarrow> classification_index" where
  "index_of rows depths =
     \<lparr>depthById = depths, isUnder = is_under_rows rows,
      idsOverlap = ids_overlap_rows rows, expandSubtree = expand_subtree_rows rows\<rparr>"

definition build_classification_index :: "classification_row list \<Rightarrow> classification_index option" where
  "build_classification_index rows =
     map_option (index_of rows) (memo_depths (walk_fuel rows) (by_id rows) Map.empty rows)"

section \<open>Chains\<close>

lemma ancestors_of_mono:
  "ancestors_of f m i = Some c \<Longrightarrow> f \<le> g \<Longrightarrow> ancestors_of g m i = Some c"
proof (induction f m i arbitrary: c g rule: ancestors_of.induct)
  case (2 f m i)
  obtain g' where g: "g = Suc g'" "f \<le> g'" using "2.prems"(2) by (cases g) auto
  show ?case
  proof (cases "parent_of m i")
    case None
    with "2.prems" g show ?thesis by simp
  next
    case (Some p)
    with "2.prems" obtain r where "ancestors_of f m p = Some r" "c = i # r" by auto
    with "2.IH" [OF Some] g Some show ?thesis by simp
  qed
qed simp

lemma ancestors_of_head: "ancestors_of f m i = Some c \<Longrightarrow> \<exists>r. c = i # r"
  by (cases f) (auto split: option.splits)

text \<open>The chain of any member is the rest of the chain.\<close>

lemma ancestors_of_suffix:
  "ancestors_of f m i = Some c \<Longrightarrow> k < length c \<Longrightarrow> ancestors_of f m (c ! k) = Some (drop k c)"
proof (induction f m i arbitrary: c k rule: ancestors_of.induct)
  case (2 f m i)
  show ?case
  proof (cases k)
    case 0
    obtain r where "c = i # r" using ancestors_of_head [OF "2.prems"(1)] by blast
    with 0 "2.prems"(1) show ?thesis by (simp del: ancestors_of.simps)
  next
    case (Suc j)
    from 2 Suc obtain p r where p: "parent_of m i = Some p" and r: "ancestors_of f m p = Some r" "c = i # r"
      by (auto split: option.splits)
    then have "ancestors_of f m (r ! j) = Some (drop j r)"
      using "2.IH" [OF p r(1), of j] "2.prems"(2) Suc by simp
    then have "ancestors_of (Suc f) m (r ! j) = Some (drop j r)"
      by (rule ancestors_of_mono) simp
    then show ?thesis using r Suc by (simp del: ancestors_of.simps)
  qed
qed simp

lemma ancestors_of_members_linear:
  assumes "ancestors_of f m n = Some c" "a \<in> set c" "b \<in> set c"
  shows "(\<exists>ca. ancestors_of f m a = Some ca \<and> b \<in> set ca) \<or> (\<exists>cb. ancestors_of f m b = Some cb \<and> a \<in> set cb)"
proof -
  obtain i j where i: "i < length c" "a = c ! i" and j: "j < length c" "b = c ! j"
    using assms by (auto simp: in_set_conv_nth)
  have mem: "c ! l \<in> set (drop k c)" if "k \<le> l" "l < length c" for k l
  proof -
    have "drop k c ! (l - k) = c ! l" "l - k < length (drop k c)" using that by simp_all
    then show ?thesis by (metis nth_mem)
  qed
  show ?thesis
    using ancestors_of_suffix [OF assms(1) i(1)] ancestors_of_suffix [OF assms(1) j(1)] i j
      mem [of i j] mem [of j i]
    by (cases "i \<le> j") auto
qed

section \<open>Fuel\<close>

text \<open>A walk that runs out of fuel has met a parent in the table at every step.\<close>

lemma ancestors_of_None:
  "ancestors_of f m i = None \<Longrightarrow>
     \<exists>c. length c = f \<and> (\<forall>x \<in> set c. parent_of m x \<noteq> None) \<and>
         (\<forall>k. Suc k < length c \<longrightarrow> parent_of m (c ! k) = Some (c ! Suc k)) \<and> (f \<noteq> 0 \<longrightarrow> c ! 0 = i)"
proof (induction f m i rule: ancestors_of.induct)
  case (1 m i)
  show ?case by (rule exI [of _ "[]"]) simp
next
  case (2 f m i)
  then obtain p where p: "parent_of m i = Some p" and none: "ancestors_of f m p = None"
    by (auto split: option.splits)
  from "2.IH" [OF p none] obtain c where c: "length c = f" "\<forall>x \<in> set c. parent_of m x \<noteq> None"
      "\<forall>k. Suc k < length c \<longrightarrow> parent_of m (c ! k) = Some (c ! Suc k)" "f \<noteq> 0 \<longrightarrow> c ! 0 = p"
    by blast
  have "parent_of m ((i # c) ! k) = Some ((i # c) ! Suc k)" if "Suc k < length (i # c)" for k
    using that c p by (cases k) auto
  with c p show ?case by (intro exI [of _ "i # c"]) auto
qed

definition parent_rel :: "row_map \<Rightarrow> (string \<times> string) set" where
  "parent_rel m = {(x, p). parent_of m x = Some p}"

lemma chain_trancl:
  assumes "\<forall>k. Suc k < length c \<longrightarrow> parent_of m (c ! k) = Some (c ! Suc k)"
    and "i < j" "j < length c"
  shows "(c ! i, c ! j) \<in> (parent_rel m)\<^sup>+"
  using assms(2,3)
proof (induction j)
  case (Suc j)
  then have s: "(c ! j, c ! Suc j) \<in> parent_rel m" using assms(1) by (simp add: parent_rel_def)
  show ?case
  proof (cases "i = j")
    case True
    with s show ?thesis by blast
  next
    case False
    with Suc have "(c ! i, c ! j) \<in> (parent_rel m)\<^sup>+" by simp
    from this s show ?thesis by (rule trancl_into_trancl)
  qed
qed simp

lemma parent_of_by_id: "parent_of (by_id rows) x \<noteq> None \<Longrightarrow> x \<in> row_id ` set rows"
  by (auto simp: parent_of_def by_id_def split: option.splits dest!: map_of_SomeD)

lemma ancestors_of_returns:
  assumes "acyclic (parent_rel (by_id rows))"
  shows "\<exists>c. ancestors_of (walk_fuel rows) (by_id rows) i = Some c"
proof (rule ccontr)
  assume "\<nexists>c. ancestors_of (walk_fuel rows) (by_id rows) i = Some c"
  then have "ancestors_of (walk_fuel rows) (by_id rows) i = None" by auto
  from ancestors_of_None [OF this] obtain c where c: "length c = walk_fuel rows"
      "\<forall>x \<in> set c. parent_of (by_id rows) x \<noteq> None"
      "\<forall>k. Suc k < length c \<longrightarrow> parent_of (by_id rows) (c ! k) = Some (c ! Suc k)"
    by blast
  have "distinct c"
  proof (rule ccontr)
    assume "\<not> distinct c"
    then obtain i j where ij: "i < length c" "j < length c" "i \<noteq> j" "c ! i = c ! j"
      by (auto simp: distinct_conv_nth)
    then consider "i < j" | "j < i" by linarith
    then have "(c ! i, c ! i) \<in> (parent_rel (by_id rows))\<^sup>+"
      by cases (use chain_trancl [OF c(3)] ij in metis)+
    with assms show False by (simp add: acyclic_def)
  qed
  moreover have "set c \<subseteq> row_id ` set rows" using c(2) parent_of_by_id by blast
  ultimately have "length c \<le> card (row_id ` set rows)"
    by (metis card_mono distinct_card finite_imageI finite_set)
  also have "\<dots> \<le> length rows"
    using card_image_le [of "set rows" row_id] card_length [of rows] by simp
  finally show False using c(1) by (simp add: walk_fuel_def)
qed

section \<open>The memoised depths\<close>

definition depth_cache_ok :: "row_map \<Rightarrow> (string \<Rightarrow> nat option) \<Rightarrow> bool" where
  "depth_cache_ok m cache \<longleftrightarrow> dom cache \<subseteq> dom m \<and>
     (\<forall>i d. cache i = Some d \<longrightarrow> (\<exists>f c. ancestors_of f m i = Some c \<and> length c = d + 1))"

lemma depth_cache_ok_upd:
  "depth_cache_ok m cache \<Longrightarrow> m i \<noteq> None \<Longrightarrow> ancestors_of f m i = Some c \<Longrightarrow> length c = d + 1 \<Longrightarrow>
     depth_cache_ok m (cache(i \<mapsto> d))"
  unfolding depth_cache_ok_def by (auto simp del: ancestors_of.simps)

lemma memo_depth_sound:
  "memo_depth f m cache i = Some (cache', d) \<Longrightarrow> depth_cache_ok m cache \<Longrightarrow>
     depth_cache_ok m cache' \<and> dom cache \<subseteq> dom cache' \<and> (m i \<noteq> None \<longrightarrow> i \<in> dom cache') \<and>
     (\<exists>g c. ancestors_of g m i = Some c \<and> length c = d + 1)"
proof (induction f m cache i arbitrary: cache' d rule: memo_depth.induct)
  case (2 f m cache i)
  show ?case
  proof (cases "cache i")
    case (Some e)
    with 2 show ?thesis by (auto simp: depth_cache_ok_def)
  next
    case ci: None
    show ?thesis
    proof (cases "m i")
      case None
      then have "ancestors_of 1 m i = Some [i]" by (simp add: parent_of_def)
      moreover have "cache' = cache" "d = 0" using "2.prems" ci None by auto
      ultimately show ?thesis using "2.prems"(2) None by (metis One_nat_def add_0 length_Cons list.size(3) subset_refl)
    next
      case mi: (Some r)
      show ?thesis
      proof (cases "parent_ref r")
        case None
        then have a: "ancestors_of 1 m i = Some [i]" using mi by (simp add: parent_of_def)
        have c': "cache' = cache(i \<mapsto> 0)" "d = 0" using "2.prems" ci mi None by auto
        have "depth_cache_ok m cache'"
          unfolding c' using "2.prems"(2) mi by (intro depth_cache_ok_upd [OF _ _ a]) auto
        moreover have "\<exists>g c. ancestors_of g m i = Some c \<and> length c = d + 1"
          using a c' by (intro exI [of _ 1] exI [of _ "[i]"]) simp
        moreover have "dom cache \<subseteq> dom cache'" "i \<in> dom cache'" using c'(1) by auto
        ultimately show ?thesis by blast
      next
        case (Some p)
        with "2.prems" ci mi obtain k e where k: "memo_depth f m cache p = Some (k, e)"
            and c': "cache' = k(i \<mapsto> e + 1)" "d = e + 1"
          by (auto split: option.splits)
        from "2.IH" [OF ci mi Some k "2.prems"(2)] obtain g c where
          ok: "depth_cache_ok m k" "dom cache \<subseteq> dom k" and g: "ancestors_of g m p = Some c" "length c = e + 1"
          by blast
        have a: "ancestors_of (Suc g) m i = Some (i # c)" using g mi Some by (simp add: parent_of_def)
        have "depth_cache_ok m cache'"
          unfolding c' using ok(1) mi a g(2) by (intro depth_cache_ok_upd [OF _ _ a]) auto
        moreover have "\<exists>g c. ancestors_of g m i = Some c \<and> length c = d + 1"
          using a c' g(2) by (intro exI [of _ "Suc g"] exI [of _ "i # c"]) (simp del: ancestors_of.simps)
        moreover have "dom cache \<subseteq> dom cache'" "i \<in> dom cache'" using c'(1) ok(2) by auto
        ultimately show ?thesis by blast
      qed
    qed
  qed
qed simp

lemma memo_depth_returns:
  "ancestors_of f m i = Some c \<Longrightarrow> \<exists>r. memo_depth f m cache i = Some r"
proof (induction f m i arbitrary: c rule: ancestors_of.induct)
  case (2 f m i)
  show ?case
  proof (cases "parent_of m i")
    case None
    then show ?thesis by (auto simp: parent_of_def split: option.splits)
  next
    case (Some p)
    with "2.prems" obtain r where "ancestors_of f m p = Some r" by auto
    from "2.IH" [OF Some this] obtain k e where "memo_depth f m cache p = Some (k, e)" by auto
    then show ?thesis using Some by (auto simp: parent_of_def split: option.splits)
  qed
qed simp

lemma memo_depths_sound:
  "memo_depths f m cache rs = Some cache' \<Longrightarrow> depth_cache_ok m cache \<Longrightarrow>
     depth_cache_ok m cache' \<and> dom cache \<subseteq> dom cache' \<and>
     (\<forall>r \<in> set rs. m (row_id r) \<noteq> None \<longrightarrow> row_id r \<in> dom cache')"
proof (induction rs arbitrary: cache)
  case (Cons r rs)
  then obtain k d where k: "memo_depth f m cache (row_id r) = Some (k, d)"
    and rest: "memo_depths f m k rs = Some cache'" by (auto split: option.splits)
  from memo_depth_sound [OF k Cons.prems(2)] Cons.IH [OF rest] show ?case by auto
qed (simp add: depth_cache_ok_def)

lemma memo_depths_returns:
  assumes "\<forall>i. \<exists>c. ancestors_of f m i = Some c"
  shows "\<exists>cache'. memo_depths f m cache rs = Some cache'"
proof (induction rs arbitrary: cache)
  case (Cons r rs)
  obtain k d where "memo_depth f m cache (row_id r) = Some (k, d)"
    using memo_depth_returns assms by fast
  with Cons show ?case by simp
qed simp

lemma dom_by_id: "dom (by_id rows) = row_id ` set rows"
  by (simp add: by_id_def dom_map_of_conv_image_fst image_image)

section \<open>Subtrees and chains agree\<close>

definition child_rel :: "classification_row list \<Rightarrow> (string \<times> string) set" where
  "child_rel rows = {(p, c). c \<in> set (children_of rows p)}"

lemma expand_loop_sub:
  "x \<in> expand_loop rows out stack \<Longrightarrow> x \<in> out \<or> (\<exists>s \<in> set stack. (s, x) \<in> (child_rel rows)\<^sup>*)"
proof (induction rows out stack rule: expand_loop.induct)
  case (2 rows out i stack)
  show ?case
  proof (cases "i \<in> out")
    case True
    with 2 show ?thesis by auto
  next
    case False
    with 2 have "x \<in> insert i out \<or> (\<exists>s \<in> set (rev (children_of rows i) @ stack). (s, x) \<in> (child_rel rows)\<^sup>*)"
      by simp
    moreover have "(i, x) \<in> (child_rel rows)\<^sup>*"
      if "s \<in> set (children_of rows i)" "(s, x) \<in> (child_rel rows)\<^sup>*" for s
      using that by (auto simp: child_rel_def intro: converse_rtrancl_into_rtrancl)
    ultimately show ?thesis by auto
  qed
qed simp

lemma expand_loop_super: "out \<union> set stack \<subseteq> expand_loop rows out stack"
proof (induction rows out stack rule: expand_loop.induct)
  case (2 rows out i stack)
  then show ?case by (cases "i \<in> out") auto
qed simp

lemma expand_loop_closed:
  "(\<forall>x \<in> out. set (children_of rows x) \<subseteq> out \<union> set stack) \<Longrightarrow>
     \<forall>x \<in> expand_loop rows out stack. set (children_of rows x) \<subseteq> expand_loop rows out stack"
proof (induction rows out stack rule: expand_loop.induct)
  case (2 rows out i stack)
  show ?case
  proof (cases "i \<in> out")
    case True
    then have "\<forall>x \<in> out. set (children_of rows x) \<subseteq> out \<union> set stack" using "2.prems" by auto
    with "2.IH"(1) [OF True] True show ?thesis by simp
  next
    case False
    have "\<forall>x \<in> insert i out. set (children_of rows x)
        \<subseteq> insert i out \<union> set (rev (children_of rows i) @ stack)"
      using "2.prems" by auto
    with "2.IH"(2) [OF False] False show ?thesis by simp
  qed
qed simp

lemma expand_subtree_reach:
  "expand_subtree_rows rows roots = {x. \<exists>r \<in> set roots. (r, x) \<in> (child_rel rows)\<^sup>*}" (is "?E = ?R")
proof
  show "?E \<subseteq> ?R" using expand_loop_sub by (fastforce simp: expand_subtree_rows_def)
next
  have cl: "\<forall>x \<in> ?E. set (children_of rows x) \<subseteq> ?E"
    unfolding expand_subtree_rows_def by (rule expand_loop_closed) simp
  have "x \<in> ?E" if "(r, x) \<in> (child_rel rows)\<^sup>*" "r \<in> set roots" for r x
    using that
  proof (induction rule: rtrancl_induct)
    case base
    then show ?case using expand_loop_super [of "{}" "rev roots" rows] by (auto simp: expand_subtree_rows_def)
  next
    case (step y z)
    then show ?case using cl by (auto simp: child_rel_def)
  qed
  then show "?R \<subseteq> ?E" by auto
qed

lemma ancestors_of_set:
  "ancestors_of f m x = Some c \<Longrightarrow> set c = {y. (x, y) \<in> (parent_rel m)\<^sup>*}"
proof (induction f m x arbitrary: c rule: ancestors_of.induct)
  case (2 f m i)
  have only: "(i, y) \<in> (parent_rel m)\<^sup>* \<longleftrightarrow> y = i \<or> (\<exists>p. parent_of m i = Some p \<and> (p, y) \<in> (parent_rel m)\<^sup>*)" for y
  proof
    assume "(i, y) \<in> (parent_rel m)\<^sup>*"
    then show "y = i \<or> (\<exists>p. parent_of m i = Some p \<and> (p, y) \<in> (parent_rel m)\<^sup>*)"
      by (cases rule: converse_rtranclE) (auto simp: parent_rel_def)
  next
    assume "y = i \<or> (\<exists>p. parent_of m i = Some p \<and> (p, y) \<in> (parent_rel m)\<^sup>*)"
    then show "(i, y) \<in> (parent_rel m)\<^sup>*"
    proof (elim disjE exE conjE)
      fix p assume "parent_of m i = Some p" and py: "(p, y) \<in> (parent_rel m)\<^sup>*"
      then have "(i, p) \<in> parent_rel m" by (simp add: parent_rel_def)
      from this py show ?thesis by (rule converse_rtrancl_into_rtrancl)
    qed simp
  qed
  show ?case
  proof (cases "parent_of m i")
    case None
    have "(i, y) \<in> (parent_rel m)\<^sup>* \<longleftrightarrow> y = i" for y using only [of y] None by simp
    then have "{y. (i, y) \<in> (parent_rel m)\<^sup>*} = {i}" by simp
    moreover have "c = [i]" using "2.prems" None by simp
    ultimately show ?thesis by simp
  next
    case (Some p)
    have eq: "(i, y) \<in> (parent_rel m)\<^sup>* \<longleftrightarrow> y = i \<or> (p, y) \<in> (parent_rel m)\<^sup>*" for y
      using only [of y] Some by simp
    from "2.prems" Some obtain r where r: "ancestors_of f m p = Some r" "c = i # r" by auto
    have "set c = insert i {y. (p, y) \<in> (parent_rel m)\<^sup>*}"
      using "2.IH" [OF Some r(1)] r(2) by simp
    also have "\<dots> = {y. (i, y) \<in> (parent_rel m)\<^sup>*}" using eq by blast
    finally show ?thesis .
  qed
qed simp

lemma child_rel_converse:
  assumes "distinct (map row_id rows)"
  shows "child_rel rows = (parent_rel (by_id rows))\<inverse>"
proof -
  have "distinct (map fst (rev (map (\<lambda>r. (row_id r, r)) rows)))"
    using assms by (simp add: rev_map [symmetric] comp_def)
  then have m: "by_id rows c = Some r \<longleftrightarrow> r \<in> set rows \<and> row_id r = c" for c r
    unfolding by_id_def by (auto simp: map_of_eq_Some_iff)
  have u: "r = s" if "r \<in> set rows" "s \<in> set rows" "row_id r = row_id s" for r s
    using that assms by (simp add: distinct_map inj_on_def)
  have d: "by_id rows (row_id r) = Some r" if "r \<in> set rows" for r
    using that m by simp
  have "parent_of (by_id rows) c = Some p \<longleftrightarrow> c \<in> set (children_of rows p)" for c p
  proof
    assume "parent_of (by_id rows) c = Some p"
    then show "c \<in> set (children_of rows p)"
      by (auto simp: parent_of_def children_of_def m split: option.splits)
  next
    assume "c \<in> set (children_of rows p)"
    then show "parent_of (by_id rows) c = Some p"
      by (auto simp: parent_of_def children_of_def d)
  qed
  then show ?thesis by (auto simp: child_rel_def parent_rel_def)
qed

section \<open>The interface of the index\<close>

text \<open>
  What the rule validation of the offer books relies on: two filters that cover a common
  node overlap.
\<close>

locale subtree_filter =
  fixes under :: "string option \<Rightarrow> string \<Rightarrow> bool"
    and overlap :: "string \<Rightarrow> string \<Rightarrow> bool"
  assumes common_node: "under n a \<Longrightarrow> under n b \<Longrightarrow> overlap a b"
    and overlap_sym: "overlap a b \<Longrightarrow> overlap b a"
begin

text \<open>Two filter lists that each cover the node have an overlapping pair.\<close>

lemma some_pair_overlaps:
  "\<exists>a \<in> set as. under n a \<Longrightarrow> \<exists>b \<in> set bs. under n b \<Longrightarrow> \<exists>a \<in> set as. \<exists>b \<in> set bs. overlap a b"
  using common_node by blast

end

lemma parent_of_nonempty: "parent_of m i = Some p \<Longrightarrow> p \<noteq> []"
  by (auto simp: parent_of_def parent_ref_def split: option.splits if_splits)

lemma ancestors_of_nonempty:
  "ancestors_of f m i = Some c \<Longrightarrow> i \<noteq> [] \<Longrightarrow> x \<in> set c \<Longrightarrow> x \<noteq> []"
proof (induction f m i arbitrary: c rule: ancestors_of.induct)
  case (2 f m i)
  show ?case
  proof (cases "parent_of m i")
    case None
    with 2 show ?thesis by auto
  next
    case (Some p)
    with "2.prems" obtain r where "ancestors_of f m p = Some r" "c = i # r" by auto
    with "2.IH" [OF Some _ parent_of_nonempty [OF Some]] "2.prems" show ?thesis by auto
  qed
qed simp

lemma is_under_rows_common:
  assumes "is_under_rows rows n a" "is_under_rows rows n b"
  shows "ids_overlap_rows rows a b"
proof -
  obtain x c where x: "x \<noteq> []" and c: "ancestors_of (walk_fuel rows) (by_id rows) x = Some c"
      "a \<in> set c" "b \<in> set c" "by_id rows a \<noteq> None" "by_id rows b \<noteq> None"
    using assms by (auto simp: is_under_rows_def split: option.splits)
  from ancestors_of_members_linear [OF c(1-3)] ancestors_of_nonempty [OF c(1) x] c show ?thesis
    by (auto simp: ids_overlap_rows_def is_under_rows_def)
qed

interpretation tree: subtree_filter "is_under_rows rows" "ids_overlap_rows rows" for rows
  by unfold_locales (auto simp: is_under_rows_common, auto simp: ids_overlap_rows_def)

section \<open>What the index is, on the tables it accepts\<close>

lemma build_returns:
  assumes "acyclic (parent_rel (by_id rows))"
  shows "\<exists>idx. build_classification_index rows = Some idx"
proof -
  have "\<forall>i. \<exists>c. ancestors_of (walk_fuel rows) (by_id rows) i = Some c"
    using ancestors_of_returns [OF assms] by blast
  from memo_depths_returns [OF this] show ?thesis
    by (auto simp: build_classification_index_def)
qed

lemma build_depths:
  assumes "build_classification_index rows = Some idx"
  shows "dom (depthById idx) = row_id ` set rows"
    and "depthById idx i = Some d \<Longrightarrow> \<exists>f c. ancestors_of f (by_id rows) i = Some c \<and> length c = d + 1"
proof -
  from assms obtain ds where ds: "memo_depths (walk_fuel rows) (by_id rows) Map.empty rows = Some ds"
    and idx: "idx = index_of rows ds"
    by (auto simp: build_classification_index_def)
  have "depth_cache_ok (by_id rows) Map.empty" by (simp add: depth_cache_ok_def)
  from memo_depths_sound [OF ds this] have ok: "depth_cache_ok (by_id rows) ds"
    "\<forall>r \<in> set rows. by_id rows (row_id r) \<noteq> None \<longrightarrow> row_id r \<in> dom ds"
    by auto
  have "by_id rows (row_id r) \<noteq> None" if "r \<in> set rows" for r
    using that dom_by_id [of rows] by auto
  with ok have "row_id ` set rows \<subseteq> dom ds" by auto
  moreover have "dom ds \<subseteq> row_id ` set rows"
    using ok(1) dom_by_id [of rows] by (auto simp: depth_cache_ok_def)
  ultimately show "dom (depthById idx) = row_id ` set rows"
    using idx by (simp add: index_of_def)
  show "depthById idx i = Some d \<Longrightarrow> \<exists>f c. ancestors_of f (by_id rows) i = Some c \<and> length c = d + 1"
    using ok(1) idx by (simp add: index_of_def depth_cache_ok_def)
qed

lemma is_under_rows_iff:
  assumes "acyclic (parent_rel (by_id rows))"
  shows "is_under_rows rows (Some x) a \<longleftrightarrow> x \<noteq> [] \<and> a \<in> row_id ` set rows \<and> (x, a) \<in> (parent_rel (by_id rows))\<^sup>*"
proof -
  obtain c where c: "ancestors_of (walk_fuel rows) (by_id rows) x = Some c"
    using ancestors_of_returns [OF assms] by blast
  have "by_id rows a \<noteq> None \<longleftrightarrow> a \<in> row_id ` set rows" using dom_by_id [of rows] by blast
  then show ?thesis using c ancestors_of_set [OF c] by (simp add: is_under_rows_def)
qed

text \<open>
  C5. On a table of classifications whose parent references are acyclic, building the index
  returns; every row gets a depth, which is the number of its proper ancestors.
\<close>

theorem index_builds_on_acyclic_rows:
  assumes "acyclic (parent_rel (by_id rows))"
  shows "\<exists>idx. build_classification_index rows = Some idx \<and> dom (depthById idx) = row_id ` set rows \<and>
    (\<forall>i c. i \<in> row_id ` set rows \<and> ancestors_of (walk_fuel rows) (by_id rows) i = Some c \<longrightarrow>
       depthById idx i = Some (length c - 1))"
proof -
  obtain idx where idx: "build_classification_index rows = Some idx" using build_returns [OF assms] by blast
  have "depthById idx i = Some (length c - 1)"
    if "i \<in> row_id ` set rows" "ancestors_of (walk_fuel rows) (by_id rows) i = Some c" for i c
  proof -
    have "i \<in> dom (depthById idx)" using build_depths(1) [OF idx] that(1) by simp
    then obtain d where d: "depthById idx i = Some d" by (auto simp: domIff)
    then obtain f c' where c': "ancestors_of f (by_id rows) i = Some c'" "length c' = d + 1"
      using build_depths(2) [OF idx] by blast
    have "c' = c"
      using ancestors_of_mono [OF c'(1), of "max f (walk_fuel rows)"]
        ancestors_of_mono [OF that(2), of "max f (walk_fuel rows)"] by simp
    with c' d show ?thesis by simp
  qed
  with idx build_depths(1) [OF idx] show ?thesis by blast
qed

text \<open>
  C6. The stack traversal and the upward walk agree: a node lies in the expanded subtree of
  some roots exactly when the index reports it under one of them.
\<close>

theorem expand_subtree_iff_under:
  assumes "acyclic (parent_rel (by_id rows))" "distinct (map row_id rows)"
    and "set roots \<subseteq> row_id ` set rows" "x \<noteq> []"
  shows "x \<in> expand_subtree_rows rows roots \<longleftrightarrow> (\<exists>r \<in> set roots. is_under_rows rows (Some x) r)"
proof -
  have "(r, x) \<in> (child_rel rows)\<^sup>* \<longleftrightarrow> (x, r) \<in> (parent_rel (by_id rows))\<^sup>*" for r
    by (simp add: child_rel_converse [OF assms(2)] rtrancl_converse)
  then show ?thesis
    using is_under_rows_iff [OF assms(1)] assms(3,4) by (auto simp: expand_subtree_reach)
qed

text \<open>A tree of three rows the witnesses evaluate.\<close>

definition sample_rows :: "classification_row list" where
  "sample_rows = [\<lparr>row_id = ''a'', row_name = ''A'', row_parentId = None\<rparr>,
     \<lparr>row_id = ''b'', row_name = ''B'', row_parentId = Some ''a''\<rparr>,
     \<lparr>row_id = ''c'', row_name = ''C'', row_parentId = Some ''b''\<rparr>]"

lemma acyclic_sample_rows: "acyclic (parent_rel (by_id sample_rows))"
proof (rule acyclic_subset)
  show "parent_rel (by_id sample_rows) \<subseteq> {(''b'', ''a''), (''c'', ''b'')}"
    by (auto simp: parent_rel_def parent_of_def parent_ref_def by_id_def sample_rows_def split: if_splits)
  show "acyclic {(''b'', ''a''), (''c'', ''b'')}"
    by (auto simp: acyclic_insert acyclic_def dest: rtranclD tranclD elim: converse_rtranclE)
qed

theorem index_builds_on_acyclic_rows_witness:
  "\<exists>idx. build_classification_index sample_rows = Some idx \<and> depthById idx ''c'' = Some 2"
proof -
  have "ancestors_of (walk_fuel sample_rows) (by_id sample_rows) ''c'' = Some [''c'', ''b'', ''a'']"
    by code_simp
  moreover have "''c'' \<in> row_id ` set sample_rows" by (simp add: sample_rows_def)
  ultimately show ?thesis
    using index_builds_on_acyclic_rows [OF acyclic_sample_rows] by fastforce
qed

theorem expand_subtree_iff_under_witness:
  "''c'' \<in> expand_subtree_rows sample_rows [''a''] \<and> is_under_rows sample_rows (Some ''c'') ''a''"
proof -
  have "is_under_rows sample_rows (Some ''c'') ''a''" by code_simp
  moreover have "distinct (map row_id sample_rows)" "set [''a''] \<subseteq> row_id ` set sample_rows"
    by (simp_all add: sample_rows_def)
  ultimately show ?thesis
    using expand_subtree_iff_under [OF acyclic_sample_rows, of "[''a'']" "''c''"] by simp
qed

end
