(* ===== verification/Js_Number.thy ===== *)
theory Js_Number
  imports Prelude "HOL-Library.Log_Nat"
begin

text \<open>
  The JavaScript \<open>number\<close>: IEEE 754 binary64, as exact rationals and three special values.
  Every arithmetic operation of the pricing code is the exact operation followed by
  \<open>round_double\<close> (round to nearest, ties to even, gradual underflow from \<open>2\<^bsup>-1074\<^esup>\<close>) and
  by the overflow test at \<open>2\<^bsup>1024\<^esup>\<close>. The sign of a zero is not kept: the modelled code
  never divides by a zero whose sign could be negative. The locale \<open>rounding\<close> states what
  the pricing lemmas need of the rounding; \<open>round_double\<close> interprets it.
\<close>

section \<open>Rounding to 53 significant bits\<close>

definition binade :: "rat \<Rightarrow> int" where
  "binade x = (case quotient_of x of (n, d) \<Rightarrow>
     let k = bitlen n - bitlen d in if x < 2 powi k then k - 1 else k)"

text \<open>Nearest integer, ties to even.\<close>

definition rne :: "rat \<Rightarrow> int" where
  "rne q = (let f = \<lfloor>q\<rfloor>; r = q - of_int f in
     if r < 1/2 then f else if r > 1/2 then f + 1 else if even f then f else f + 1)"

definition ulp :: "rat \<Rightarrow> rat" where
  "ulp x = 2 powi (max (binade \<bar>x\<bar> - 52) (-1074))"

definition round_double :: "rat \<Rightarrow> rat" where
  "round_double x = (if x = 0 then 0 else of_int (rne (x / ulp x)) * ulp x)"

lemma binade_bounds:
  assumes "0 < x"
  shows "2 powi binade x \<le> x \<and> x < 2 powi (binade x + 1)"
proof -
  obtain n d where q: "quotient_of x = (n, d)" by (cases "quotient_of x")
  have d: "0 < d" and x: "x = of_int n / of_int d"
    using q quotient_of_denom_pos quotient_of_div by blast+
  have n: "0 < n" using assms d x by (simp add: zero_less_divide_iff)
  define bn bd where "bn = bitlen n" and "bd = bitlen d"
  have pos: "0 < bn" "0 < bd"
    using n d by (simp_all add: bn_def bd_def bitlen_alt_def)
  have n1: "2 ^ nat (bn - 1) \<le> n" "n < 2 ^ nat bn"
    and d1: "2 ^ nat (bd - 1) \<le> d" "d < 2 ^ nat bd"
    using bitlen_bounds n d by (auto simp: bn_def bd_def)
  have pw: "(2::rat) powi k = of_int (2 ^ nat k)" if "0 \<le> k" for k
    using that by (simp add: power_int_def)
  have n2: "2 powi (bn - 1) \<le> (of_int n::rat)" "(of_int n::rat) < 2 powi bn"
    using n1 pos by (simp_all only: pw of_int_le_iff of_int_less_iff)
  have d2: "2 powi (bd - 1) \<le> (of_int d::rat)" "(of_int d::rat) < 2 powi bd"
    using d1 pos by (simp_all only: pw of_int_le_iff of_int_less_iff)
  have p2: "(0::rat) < 2 powi k" for k by simp
  have lo: "2 powi (bn - bd - 1) < x"
  proof -
    have "2 powi (bn - bd - 1) * of_int d < 2 powi (bn - bd - 1) * (2 powi bd :: rat)"
      using d2(2) p2 by simp
    also have "\<dots> = 2 powi (bn - 1)" by (simp flip: power_int_add)
    also have "\<dots> \<le> of_int n" by (rule n2)
    finally show ?thesis using d x by (simp add: pos_less_divide_eq)
  qed
  have hi: "x < 2 powi (bn - bd + 1)"
  proof -
    have "of_int n < (2 powi bn :: rat)" by (rule n2)
    also have "\<dots> = 2 powi (bn - bd + 1) * 2 powi (bd - 1)" by (simp flip: power_int_add)
    also have "\<dots> \<le> 2 powi (bn - bd + 1) * of_int d"
      using d2(1) p2 by simp
    finally show ?thesis using d x by (simp add: pos_divide_less_eq)
  qed
  show ?thesis
    using lo hi unfolding binade_def q by (auto simp: Let_def bn_def bd_def)
qed

lemma binade_mono: "0 < x \<Longrightarrow> x \<le> y \<Longrightarrow> binade x \<le> binade y"
proof (rule ccontr)
  assume a: "0 < x" "x \<le> y" "\<not> binade x \<le> binade y"
  have "y < 2 powi (binade y + 1)" using a binade_bounds [of y] by simp
  also have "\<dots> \<le> 2 powi binade x" using a by (intro power_int_increasing) auto
  also have "\<dots> \<le> x" using a binade_bounds by blast
  finally show False using a by simp
qed

lemma ulp_pos [simp]: "0 < ulp x"
  by (simp add: ulp_def)

lemma ulp_nonzero [simp]: "ulp x \<noteq> 0"
  using ulp_pos [of x] by linarith

lemma ulp_minus [simp]: "ulp (- x) = ulp x"
  by (simp add: ulp_def)

subsection \<open>Nearest integers\<close>

lemma rne_error: "\<bar>of_int (rne q) - q\<bar> \<le> 1/2"
proof -
  have "of_int \<lfloor>q\<rfloor> \<le> q" "q < of_int \<lfloor>q\<rfloor> + 1" by linarith+
  then show ?thesis by (auto simp: rne_def Let_def abs_le_iff)
qed

lemma rne_of_int [simp]: "rne (of_int k) = k"
  by (simp add: rne_def)

lemma rne_mono: "p \<le> q \<Longrightarrow> rne p \<le> rne q"
proof -
  assume le: "p \<le> q"
  then have f: "\<lfloor>p\<rfloor> \<le> \<lfloor>q\<rfloor>" by (rule floor_mono)
  show ?thesis
  proof (cases "\<lfloor>p\<rfloor> = \<lfloor>q\<rfloor>")
    case True
    with le show ?thesis by (auto simp: rne_def Let_def)
  next
    case False
    with f have "\<lfloor>p\<rfloor> + 1 \<le> \<lfloor>q\<rfloor>" by simp
    moreover have "rne p \<le> \<lfloor>p\<rfloor> + 1" "\<lfloor>q\<rfloor> \<le> rne q" by (auto simp: rne_def Let_def)
    ultimately show ?thesis by linarith
  qed
qed

lemma rne_unique: "\<bar>of_int k - q\<bar> < 1/2 \<Longrightarrow> rne q = k"
proof -
  assume "\<bar>of_int k - q\<bar> < 1/2"
  with rne_error [of q] have "\<bar>(of_int (rne q) :: rat) - of_int k\<bar> < 1" by linarith
  then have "\<bar>rne q - k\<bar> < 1" by linarith
  then show ?thesis by simp
qed

lemma rne_minus: "rne (- q) = - rne q"
proof (cases "q - of_int \<lfloor>q\<rfloor> = 1/2")
  case True
  then have q: "q = of_int \<lfloor>q\<rfloor> + 1/2" by simp
  then have "\<lfloor>- q\<rfloor> = - \<lfloor>q\<rfloor> - 1" by linarith
  then show ?thesis using q True by (auto simp: rne_def Let_def)
next
  case False
  have "of_int \<lfloor>q\<rfloor> \<le> q" "q < of_int \<lfloor>q\<rfloor> + 1" by linarith+
  with False have "\<bar>of_int (- rne q) - (- q)\<bar> < 1/2"
    by (auto simp: rne_def Let_def abs_less_iff)
  then show ?thesis by (rule rne_unique)
qed

subsection \<open>The rounding function\<close>

lemma round_double_0 [simp]: "round_double 0 = 0"
  by (simp add: round_double_def)

lemma round_double_minus: "round_double (- x) = - round_double x"
  by (simp add: round_double_def rne_minus)

lemma round_double_ulp_error: "\<bar>round_double x - x\<bar> \<le> ulp x / 2"
proof (cases "x = 0")
  case False
  have "\<bar>of_int (rne (x / ulp x)) - x / ulp x\<bar> * ulp x \<le> 1/2 * ulp x"
    by (intro mult_right_mono rne_error) (simp add: less_imp_le)
  moreover have "\<bar>of_int (rne (x / ulp x)) - x / ulp x\<bar> * ulp x = \<bar>round_double x - x\<bar>"
  proof -
    have "round_double x - x = (of_int (rne (x / ulp x)) - x / ulp x) * ulp x"
      using False by (simp add: round_double_def left_diff_distrib)
    then show ?thesis by (simp add: abs_mult abs_of_pos)
  qed
  ultimately show ?thesis by simp
qed (simp add: less_imp_le)

lemma ulp_le:
  assumes "x \<noteq> 0"
  shows "ulp x \<le> \<bar>x\<bar> * 2 powi (-52) + 2 powi (-1074)"
proof (cases "binade \<bar>x\<bar> - 52 \<le> -1074")
  case True
  then show ?thesis by (simp add: ulp_def max_def)
next
  case False
  then have "ulp x = 2 powi (binade \<bar>x\<bar> + (-52))" by (simp add: ulp_def max_def)
  also have "\<dots> = 2 powi binade \<bar>x\<bar> * 2 powi (-52)" by (rule power_int_add) simp
  also have "\<dots> \<le> \<bar>x\<bar> * 2 powi (-52)"
    using binade_bounds [of "\<bar>x\<bar>"] assms by (intro mult_right_mono) auto
  also have "\<dots> \<le> \<bar>x\<bar> * 2 powi (-52) + 2 powi (-1074)" by simp
  finally show ?thesis .
qed

lemma round_double_error:
  "\<bar>round_double x - x\<bar> \<le> \<bar>x\<bar> * 2 powi (-53) + 2 powi (-1075)"
proof (cases "x = 0")
  case False
  have "ulp x / 2 \<le> (\<bar>x\<bar> * 2 powi (-52) + 2 powi (-1074)) / 2"
    using ulp_le [OF False] by (rule divide_right_mono) simp
  also have "\<dots> = \<bar>x\<bar> * (2 powi (-52) / 2) + 2 powi (-1074) / 2"
    by (simp add: add_divide_distrib)
  also have "\<dots> = \<bar>x\<bar> * 2 powi (-53) + 2 powi (-1075)"
  proof -
    have "(2::rat) powi (- 52 - 1) = 2 powi (- 52) / 2 powi 1"
      and "(2::rat) powi (- 1074 - 1) = 2 powi (- 1074) / 2 powi 1"
      by (rule power_int_diff, simp)+
    then have "(2::rat) powi (- 52) / 2 = 2 powi (- 53)" "(2::rat) powi (- 1074) / 2 = 2 powi (- 1075)"
      by (simp_all only: power_int_1_right) simp_all
    then show ?thesis by (simp only:)
  qed
  finally show ?thesis using round_double_ulp_error [of x] by linarith
qed simp

lemma round_double_mono_pos:
  assumes "0 < x" "x \<le> y"
  shows "round_double x \<le> round_double y"
proof -
  have rx: "round_double x = of_int (rne (x / ulp x)) * ulp x"
    and ry: "round_double y = of_int (rne (y / ulp y)) * ulp y"
    using assms by (simp_all add: round_double_def)
  have bm: "binade x \<le> binade y" using assms by (rule binade_mono)
  define ex ey where "ex = max (binade x - 52) (-1074)" and "ey = max (binade y - 52) (-1074)"
  have ux: "ulp x = 2 powi ex" and uy: "ulp y = 2 powi ey"
    using assms by (simp_all add: ulp_def ex_def ey_def)
  show ?thesis
  proof (cases "ex = ey")
    case True
    then have "x / ulp x \<le> y / ulp y"
      using assms ux uy by (simp add: divide_right_mono)
    then have "rne (x / ulp x) \<le> rne (y / ulp y)" by (rule rne_mono)
    with True rx ry ux uy show ?thesis by (simp add: mult_right_mono)
  next
    case False
    with bm have lt: "ex + 1 \<le> ey" and ey: "ey = binade y - 52"
      by (auto simp: ex_def ey_def max_def split: if_splits)
    have "x < 2 powi (binade x + 1)" using assms binade_bounds by blast
    also have "\<dots> \<le> 2 powi (53 + ex)"
      by (rule power_int_increasing) (auto simp: ex_def)
    also have "\<dots> = 2 powi 53 * 2 powi ex" by (rule power_int_add) simp
    finally have "x / ulp x \<le> of_int (2 ^ 53)"
      using ux by (simp add: pos_divide_le_eq)
    then have "rne (x / ulp x) \<le> 2 ^ 53" using rne_mono rne_of_int by metis
    then have "round_double x \<le> of_int (2 ^ 53) * ulp x"
      unfolding rx by (intro mult_right_mono) (simp_all only: of_int_le_iff less_imp_le ulp_pos)
    also have "\<dots> = 2 powi 52 * 2 powi (ex + 1)"
      using ux by (simp add: power_int_add)
    also have "\<dots> \<le> 2 powi 52 * 2 powi ey"
      using lt by (intro mult_left_mono power_int_increasing) auto
    also have "\<dots> \<le> round_double y"
    proof -
      have "2 powi 52 * 2 powi ey \<le> y"
      proof -
        have "(2::rat) powi (52 + ey) = 2 powi 52 * 2 powi ey" by (rule power_int_add) simp
        moreover have "2 powi (52 + ey) \<le> y" using binade_bounds [of y] assms ey by simp
        ultimately show ?thesis by simp
      qed
      then have "of_int (2 ^ 52) \<le> y / ulp y"
        using uy by (simp add: pos_le_divide_eq)
      then have "2 ^ 52 \<le> rne (y / ulp y)" using rne_mono rne_of_int by metis
      then have "of_int (2 ^ 52) * ulp y \<le> round_double y"
        unfolding ry by (intro mult_right_mono) (simp_all only: of_int_le_iff less_imp_le ulp_pos)
      then show ?thesis using uy by simp
    qed
    finally show ?thesis .
  qed
qed

lemma round_double_nonneg: "0 \<le> x \<Longrightarrow> 0 \<le> round_double x"
proof -
  assume "0 \<le> x"
  then have "rne 0 \<le> rne (x / ulp x)" by (intro rne_mono) (simp add: less_imp_le)
  then show ?thesis using rne_of_int [of 0] by (simp add: round_double_def less_imp_le)
qed

lemma round_double_mono: "x \<le> y \<Longrightarrow> round_double x \<le> round_double y"
proof -
  assume le: "x \<le> y"
  consider "0 < x" | "x \<le> 0" "0 \<le> y" | "y < 0" using le by linarith
  then show ?thesis
  proof cases
    case 1 then show ?thesis using le by (rule round_double_mono_pos)
  next
    case 2
    then have "0 \<le> round_double (- x)" "0 \<le> round_double y"
      by (simp_all add: round_double_nonneg)
    then show ?thesis by (simp add: round_double_minus)
  next
    case 3
    then have "round_double (- y) \<le> round_double (- x)"
      using le by (intro round_double_mono_pos) auto
    then show ?thesis by (simp add: round_double_minus)
  qed
qed

text \<open>Integers up to \<open>2\<^bsup>53\<^esup>\<close> are represented exactly.\<close>

lemma round_double_of_int:
  assumes "\<bar>k\<bar> \<le> 2 ^ 53"
  shows "round_double (of_int k) = of_int k"
proof -
  have pos: "round_double (of_int k) = of_int k" if k: "0 < k" "k \<le> 2 ^ 53" for k
  proof -
    define e where "e = max (binade (of_int k) - 52) (-1074)"
    have b: "2 powi binade (of_int k) \<le> (of_int k :: rat)"
      using binade_bounds k by simp
    have ule: "ulp (of_int k) = 2 powi e" using k by (simp add: ulp_def e_def)
    show ?thesis
    proof (cases "e \<le> 0")
      case True
      then have "of_int k / ulp (of_int k) = (of_int (k * 2 ^ nat (- e)) :: rat)"
        by (simp add: ule power_int_def inverse_eq_divide power_divide)
      then have "rne (of_int k / ulp (of_int k)) = k * 2 ^ nat (- e)"
        by (simp only: rne_of_int)
      then show ?thesis using k True
        by (simp add: round_double_def ule power_int_def inverse_eq_divide power_divide)
    next
      case False
      then have e: "binade (of_int k) = e + 52" by (auto simp: e_def max_def split: if_splits)
      have low: "2 powi (e + 52) \<le> (of_int k :: rat)" using b e by simp
      have "(of_int k :: rat) \<le> of_int (2 ^ 53)" using k by (simp only: of_int_le_iff)
      then have high: "(of_int k :: rat) \<le> 2 powi 53" by (simp add: power_int_def)
      have "e + 52 = 53"
      proof (rule ccontr)
        assume "e + 52 \<noteq> 53"
        then have "(2::rat) powi 53 < 2 powi (e + 52)"
          using False by (intro power_int_strict_increasing) auto
        then show False using low high by linarith
      qed
      then have ke: "of_int k = (2::rat) powi 53" using low high by simp
      have "e + 52 = 53" by fact
      then have "e = 1" by simp
      have "of_int k / ulp (of_int k) = (of_int k :: rat) / 2 powi 1"
        by (simp only: ule \<open>e = 1\<close>)
      also have "\<dots> = 2 powi 53 / 2 powi 1" by (simp only: ke)
      also have "\<dots> = of_int (2 ^ 52)" by simp
      finally have "rne (of_int k / ulp (of_int k)) = 2 ^ 52" by (simp only: rne_of_int)
      then have "round_double (of_int k) = of_int (2 ^ 52) * ulp (of_int k)"
        using k by (simp add: round_double_def)
      also have "\<dots> = of_int (2 ^ 52) * 2 powi 1" by (simp only: ule \<open>e = 1\<close>)
      also have "\<dots> = 2 powi 53" by simp
      finally show ?thesis by (simp only: ke)
    qed
  qed
  consider "0 < k" | "k = 0" | "k < 0" by linarith
  then show ?thesis
  proof cases
    case 1 then show ?thesis using pos assms by simp
  next
    case 2 then show ?thesis by simp
  next
    case 3
    then have "round_double (of_int (- k)) = of_int (- k)" using assms by (intro pos) auto
    then show ?thesis by (simp add: round_double_minus)
  qed
qed

lemma powers_of_ten:
  "(10::rat) ^ 5 = 100000" "(10::rat) ^ 6 = 1000000" "(10::rat) ^ 7 = 10000000"
  "(10::rat) ^ 8 = 100000000" "(10::rat) ^ 9 = 1000000000"
  by simp_all

section \<open>What the clients rely on\<close>

text \<open>
  The contract of a correctly rounding arithmetic: monotone, odd, exact on the integers up to
  \<open>2\<^bsup>53\<^esup>\<close>, and within half a unit in the last place.
\<close>

locale rounding =
  fixes rd :: "rat \<Rightarrow> rat"
  assumes rd_mono: "x \<le> y \<Longrightarrow> rd x \<le> rd y"
    and rd_minus: "rd (- x) = - rd x"
    and rd_of_int: "\<bar>k\<bar> \<le> 2 ^ 53 \<Longrightarrow> rd (of_int k) = of_int k"
    and rd_error: "\<bar>rd x - x\<bar> \<le> \<bar>x\<bar> * 2 powi (-53) + 2 powi (-1075)"
begin

lemma rd_0 [simp]: "rd 0 = 0"
  using rd_of_int [of 0] by simp

lemma rd_1 [simp]: "rd 1 = 1"
  using rd_of_int [of 1] by simp

lemma rd_numeral: "numeral n \<le> (2 ^ 53 :: int) \<Longrightarrow> rd (numeral n) = numeral n"
  using rd_of_int [of "numeral n"] by simp

lemma rd_nonneg: "0 \<le> x \<Longrightarrow> 0 \<le> rd x"
  using rd_mono [of 0 x] by simp

lemma rd_nonpos: "x \<le> 0 \<Longrightarrow> rd x \<le> 0"
  using rd_mono [of x 0] by simp

lemma rd_le_of_int: "x \<le> of_int k \<Longrightarrow> \<bar>k\<bar> \<le> 2 ^ 53 \<Longrightarrow> rd x \<le> of_int k"
  using rd_mono rd_of_int by metis

lemma rd_ge_of_int: "of_int k \<le> x \<Longrightarrow> \<bar>k\<bar> \<le> 2 ^ 53 \<Longrightarrow> of_int k \<le> rd x"
  using rd_mono rd_of_int by metis

text \<open>Below one tenth of a billion the absolute error is under \<open>10\<^bsup>-7\<^esup>\<close>.\<close>

lemma rd_error_small:
  assumes "\<bar>x\<bar> \<le> 10 ^ 8"
  shows "\<bar>rd x - x\<bar> \<le> 1 / 10 ^ 7"
proof -
  have tiny: "(2::rat) powi (-1075) \<le> 2 powi (-60)"
    by (rule power_int_increasing) simp_all
  have "\<bar>x\<bar> * 2 powi (-53) \<le> 10 ^ 8 * 2 powi (-53)"
    using assms by (rule mult_right_mono) simp
  with tiny rd_error [of x] have "\<bar>rd x - x\<bar> \<le> 10 ^ 8 * 2 powi (-53) + 2 powi (-60)" by linarith
  also have "\<dots> \<le> (1 / 10 ^ 7 :: rat)" by (simp add: power_int_def power_one_over)
  finally show ?thesis .
qed

text \<open>
  The two-decimals rounding of the code, \<open>Math.round(x * 100) / 100\<close>, over any such
  arithmetic: monotone, and within half a cent and \<open>2 \<cdot> 10\<^bsup>-7\<^esup>\<close> of its argument.
\<close>

lemma cents_mono:
  "x \<le> y \<Longrightarrow> rd (of_int \<lfloor>rd (x * 100) + 1/2\<rfloor> / 100) \<le> rd (of_int \<lfloor>rd (y * 100) + 1/2\<rfloor> / 100)"
  by (intro rd_mono divide_right_mono) (simp_all add: floor_mono rd_mono)

lemma cents_error:
  assumes "\<bar>x\<bar> \<le> 10 ^ 6"
  shows "\<bar>rd (of_int \<lfloor>rd (x * 100) + 1/2\<rfloor> / 100) - x\<bar> \<le> 1/200 + 2 / 10 ^ 7"
proof -
  define c where "c = \<lfloor>rd (x * 100) + 1/2\<rfloor>"
  have a: "\<bar>rd (x * 100) - x * 100\<bar> \<le> 1 / 10 ^ 7"
    by (rule rd_error_small) (use assms in \<open>simp add: abs_mult\<close>)
  have b: "\<bar>of_int c - rd (x * 100)\<bar> \<le> 1/2"
    unfolding c_def by linarith
  from a b have d: "\<bar>of_int c - x * 100\<bar> \<le> 1/2 + 1 / 10 ^ 7" by linarith
  then have e: "\<bar>of_int c / 100 - x\<bar> \<le> 1/200 + 1 / 10 ^ 9" by (simp add: field_simps abs_le_iff)
  have "\<bar>of_int c / 100\<bar> \<le> (10 ^ 8 :: rat)"
    using e assms unfolding powers_of_ten by linarith
  then have "\<bar>rd (of_int c / 100) - of_int c / 100\<bar> \<le> 1 / 10 ^ 7" by (rule rd_error_small)
  with e show ?thesis unfolding c_def [symmetric] powers_of_ten by linarith
qed

end

interpretation dbl: rounding round_double
  by unfold_locales
    (fact round_double_mono round_double_minus round_double_of_int round_double_error)+

section \<open>Numbers and their operations\<close>

datatype jsnum = NaN | PosInf | NegInf | Num rat

text \<open>The number nearest to an exact value; it overflows to an infinity.\<close>

definition js_of_rat :: "rat \<Rightarrow> jsnum" where
  "js_of_rat x = (let r = round_double x in
     if r \<ge> 2 ^ 1024 then PosInf else if r \<le> - (2 ^ 1024) then NegInf else Num r)"

lemma binade_ge_iff:
  assumes "0 < x" "0 \<le> k"
  shows "k \<le> binade x \<longleftrightarrow> 2 ^ nat k \<le> x"
proof
  assume "k \<le> binade x"
  then have "(2::rat) powi k \<le> 2 powi binade x" by (rule power_int_increasing) simp
  also have "\<dots> \<le> x" using binade_bounds [OF assms(1)] by blast
  finally show "2 ^ nat k \<le> x" using assms(2) by (simp add: power_int_def)
next
  assume le: "2 ^ nat k \<le> x"
  show "k \<le> binade x"
  proof (rule ccontr)
    assume "\<not> k \<le> binade x"
    then have "(2::rat) powi (binade x + 1) \<le> 2 powi k" by (intro power_int_increasing) auto
    also have "\<dots> \<le> x" using le assms(2) by (simp add: power_int_def)
    finally show False using binade_bounds [OF assms(1)] by simp
  qed
qed

lemma round_double_code [code]:
  "round_double x = (if x = 0 then 0 else let u = ulp x in of_int (rne (x / u)) * u)"
  by (simp add: round_double_def Let_def)

text \<open>The overflow test for evaluation: a look at the exponent.\<close>

lemma js_of_rat_code [code]:
  "js_of_rat x = (let r = round_double x in
     if r = 0 \<or> binade \<bar>r\<bar> < 1024 then Num r else if 0 < r then PosInf else NegInf)"
proof -
  define r where "r = round_double x"
  have p: "(0::rat) < 2 ^ 1024" by (rule zero_less_power) simp
  have b: "binade \<bar>r\<bar> < 1024 \<longleftrightarrow> \<not> 2 ^ 1024 \<le> \<bar>r\<bar>" if "r \<noteq> 0"
  proof -
    have "(1024 \<le> binade \<bar>r\<bar>) = (2 ^ nat 1024 \<le> \<bar>r\<bar>)"
      by (rule binade_ge_iff) (use that in simp_all)
    moreover have "nat 1024 = 1024" by simp
    ultimately show ?thesis by (metis not_le)
  qed
  have key: "(if 2 ^ 1024 \<le> r then PosInf else if r \<le> - (2 ^ 1024) then NegInf else Num r) =
      (if r = 0 \<or> \<not> 2 ^ 1024 \<le> \<bar>r\<bar> then Num r else if 0 < r then PosInf else NegInf)"
  proof -
    have le0: "\<not> 2 ^ 1024 \<le> (0::rat)" and neg: "- (2 ^ 1024) < (0::rat)"
      using p by (meson not_le, meson neg_less_0_iff_less)
    consider "r = 0" | "0 < r" | "r < 0" by linarith
    then show ?thesis
    proof cases
      case 1
      then show ?thesis using le0 neg by (simp only: if_False if_True simp_thms not_le refl) (meson not_le)
    next
      case 2
      then have "\<not> r \<le> - (2 ^ 1024)" using neg by (meson not_le order.strict_trans)
      then show ?thesis using 2 by (simp only: abs_of_pos if_False if_True simp_thms) auto
    next
      case 3
      then have "\<not> 2 ^ 1024 \<le> r" using p by (meson not_le order.strict_trans)
      moreover have "r \<le> - (2 ^ 1024) \<longleftrightarrow> 2 ^ 1024 \<le> \<bar>r\<bar>"
        using 3 le_minus_iff [of r "2 ^ 1024"] by (simp only: abs_of_neg)
      ultimately show ?thesis using 3 by (simp only: if_False) auto
    qed
  qed
  have cond: "(r = 0 \<or> binade \<bar>r\<bar> < 1024) = (r = 0 \<or> \<not> 2 ^ 1024 \<le> \<bar>r\<bar>)"
    using b by blast
  show ?thesis
    unfolding js_of_rat_def Let_def r_def [symmetric] key cond by (rule refl)
qed

fun js_neg :: "jsnum \<Rightarrow> jsnum" where
  "js_neg NaN = NaN"
| "js_neg PosInf = NegInf"
| "js_neg NegInf = PosInf"
| "js_neg (Num x) = Num (- x)"

fun js_add :: "jsnum \<Rightarrow> jsnum \<Rightarrow> jsnum" where
  "js_add (Num x) (Num y) = js_of_rat (x + y)"
| "js_add NaN _ = NaN"
| "js_add _ NaN = NaN"
| "js_add PosInf NegInf = NaN"
| "js_add NegInf PosInf = NaN"
| "js_add PosInf _ = PosInf"
| "js_add _ PosInf = PosInf"
| "js_add NegInf _ = NegInf"
| "js_add _ NegInf = NegInf"

definition js_sub :: "jsnum \<Rightarrow> jsnum \<Rightarrow> jsnum" where
  "js_sub x y = js_add x (js_neg y)"

definition js_inf_of_sign :: "rat \<Rightarrow> jsnum" where
  "js_inf_of_sign s = (if s > 0 then PosInf else if s < 0 then NegInf else NaN)"

fun js_sign :: "jsnum \<Rightarrow> rat" where
  "js_sign NaN = 0"
| "js_sign PosInf = 1"
| "js_sign NegInf = -1"
| "js_sign (Num x) = sgn x"

fun js_mul :: "jsnum \<Rightarrow> jsnum \<Rightarrow> jsnum" where
  "js_mul (Num x) (Num y) = js_of_rat (x * y)"
| "js_mul NaN _ = NaN"
| "js_mul _ NaN = NaN"
| "js_mul x y = js_inf_of_sign (js_sign x * js_sign y)"

fun js_div :: "jsnum \<Rightarrow> jsnum \<Rightarrow> jsnum" where
  "js_div (Num x) (Num y) = (if y = 0 then js_inf_of_sign x else js_of_rat (x / y))"
| "js_div NaN _ = NaN"
| "js_div _ NaN = NaN"
| "js_div (Num x) _ = Num 0"
| "js_div PosInf (Num y) = (if y < 0 then NegInf else PosInf)"
| "js_div NegInf (Num y) = (if y < 0 then PosInf else NegInf)"
| "js_div _ _ = NaN"

fun js_lt :: "jsnum \<Rightarrow> jsnum \<Rightarrow> bool" where
  "js_lt NaN _ = False"
| "js_lt _ NaN = False"
| "js_lt (Num x) (Num y) = (x < y)"
| "js_lt NegInf y = (y \<noteq> NegInf)"
| "js_lt x NegInf = False"
| "js_lt PosInf _ = False"
| "js_lt _ PosInf = True"

fun js_eq :: "jsnum \<Rightarrow> jsnum \<Rightarrow> bool" where
  "js_eq NaN _ = False"
| "js_eq x y = (x = y)"

definition js_le :: "jsnum \<Rightarrow> jsnum \<Rightarrow> bool" where
  "js_le x y = (js_lt x y \<or> js_eq x y)"

fun js_is_finite :: "jsnum \<Rightarrow> bool" where
  "js_is_finite (Num _) = True"
| "js_is_finite _ = False"

fun js_abs :: "jsnum \<Rightarrow> jsnum" where
  "js_abs NaN = NaN"
| "js_abs (Num x) = Num \<bar>x\<bar>"
| "js_abs _ = PosInf"

fun js_floor :: "jsnum \<Rightarrow> jsnum" where
  "js_floor (Num x) = Num (of_int \<lfloor>x\<rfloor>)"
| "js_floor x = x"

text \<open>\<open>Math.round\<close>: the nearest integer, ties towards \<open>+\<infinity>\<close>.\<close>

fun js_round :: "jsnum \<Rightarrow> jsnum" where
  "js_round (Num x) = Num (of_int \<lfloor>x + 1/2\<rfloor>)"
| "js_round x = x"

text \<open>Truthiness of a number: neither zero nor \<open>NaN\<close>.\<close>

definition js_truthy :: "jsnum \<Rightarrow> bool" where
  "js_truthy x = (x \<noteq> NaN \<and> x \<noteq> Num 0)"

fun js_min :: "jsnum \<Rightarrow> jsnum \<Rightarrow> jsnum" where
  "js_min NaN _ = NaN"
| "js_min _ NaN = NaN"
| "js_min x y = (if js_lt y x then y else x)"

text \<open>\<open>Math.min(...xs)\<close>.\<close>

definition js_min_list :: "jsnum list \<Rightarrow> jsnum" where
  "js_min_list xs = foldl js_min PosInf xs"

lemma js_lt_Num [simp]: "js_lt (Num x) (Num y) \<longleftrightarrow> x < y"
  by simp

lemma js_le_Num [simp]: "js_le (Num x) (Num y) \<longleftrightarrow> x \<le> y"
  by (auto simp: js_le_def)

lemma js_sub_Num [simp]: "js_sub (Num x) (Num y) = js_of_rat (x - y)"
  by (simp add: js_sub_def)

lemma js_lt_cases: "js_lt x y \<longleftrightarrow>
   (\<exists>a b. x = Num a \<and> y = Num b \<and> a < b) \<or> (x = NegInf \<and> y \<noteq> NegInf \<and> y \<noteq> NaN) \<or>
   (y = PosInf \<and> x \<noteq> PosInf \<and> x \<noteq> NaN)"
  by (cases x; cases y) auto

lemma js_lt_irrefl [simp]: "\<not> js_lt x x"
  by (cases x) auto

lemma js_lt_trans: "js_lt x y \<Longrightarrow> js_lt y z \<Longrightarrow> js_lt x z"
  by (cases x; cases y; cases z) auto

lemma js_not_lt_le: "x \<noteq> NaN \<Longrightarrow> y \<noteq> NaN \<Longrightarrow> \<not> js_lt x y \<longleftrightarrow> js_le y x"
  by (cases x; cases y) (auto simp: js_le_def)

lemma js_is_finite_iff: "js_is_finite x \<longleftrightarrow> (\<exists>r. x = Num r)"
  by (cases x) auto

lemma js_of_rat_not_NaN [simp]: "js_of_rat x \<noteq> NaN"
  by (simp add: js_of_rat_def Let_def)

lemma js_of_rat_small:
  assumes "\<bar>x\<bar> \<le> 2 ^ 1000"
  shows "js_of_rat x = Num (round_double x)"
proof -
  define B :: rat where "B = 2 ^ 1000"
  have B: "1 \<le> B" by (simp only: B_def one_le_power)
  have "(2::rat) powi (-53) \<le> 2 powi 0" and "(2::rat) powi (-1075) \<le> 2 powi 0"
    by (rule power_int_increasing; simp)+
  then have p: "(2::rat) powi (-53) \<le> 1" "(2::rat) powi (-1075) \<le> 1" by simp_all
  have "\<bar>x\<bar> * 2 powi (-53) \<le> B * 1"
    using assms p(1) unfolding B_def by (intro mult_mono) simp_all
  then have "\<bar>round_double x\<bar> < 4 * B"
    using round_double_error [of x] p(2) assms B unfolding B_def [symmetric] by linarith
  also have "4 * B = 2 ^ (2 + 1000)" by (simp only: B_def power_add) simp
  also have "(2::rat) ^ (2 + 1000) \<le> 2 ^ 1024" by (rule power_increasing) simp_all
  finally have lt: "\<bar>round_double x\<bar> < 2 ^ 1024" .
  have "\<not> 2 ^ 1024 \<le> round_double x" and "\<not> round_double x \<le> - (2 ^ 1024)"
    using lt minus_less_iff [of "round_double x" "2 ^ 1024"]
    unfolding abs_less_iff not_le by blast+
  then show ?thesis by (simp only: js_of_rat_def Let_def if_False)
qed

text \<open>\<open>round2\<close> of the pricing code: two decimals, halves up.\<close>

definition round2 :: "jsnum \<Rightarrow> jsnum" where
  "round2 n = js_div (js_round (js_mul n (Num 100))) (Num 100)"

lemma round2_Num:
  assumes "\<bar>x\<bar> \<le> 10 ^ 6"
  shows "round2 (Num x) = Num (round_double (of_int \<lfloor>round_double (x * 100) + 1/2\<rfloor> / 100))"
proof -
  have big: "(10 ^ 9 :: rat) \<le> 2 ^ 1000"
  proof -
    have "(10 ^ 9 :: rat) \<le> 2 ^ 30" by simp
    also have "\<dots> \<le> 2 ^ 1000" by (rule power_increasing) simp_all
    finally show ?thesis .
  qed
  have x100: "\<bar>x * 100\<bar> \<le> 10 ^ 8" using assms by (simp add: abs_mult)
  then have m: "js_mul (Num x) (Num 100) = Num (round_double (x * 100))"
    using big by (simp add: js_of_rat_small)
  have "\<bar>round_double (x * 100) - x * 100\<bar> \<le> 1 / 10 ^ 7"
    using x100 by (rule dbl.rd_error_small)
  then have "\<bar>of_int \<lfloor>round_double (x * 100) + 1/2\<rfloor>\<bar> \<le> (10 ^ 9 :: rat)"
    using x100 unfolding powers_of_ten by linarith
  then have "\<bar>of_int \<lfloor>round_double (x * 100) + 1/2\<rfloor> / 100\<bar> \<le> (2 ^ 1000 :: rat)"
    using big by linarith
  then show ?thesis
    unfolding round2_def m js_round.simps js_div.simps by (simp add: js_of_rat_small)
qed

text \<open>\<open>round2\<close> moves a price of at most a million by about half a cent.\<close>

lemma round2_error:
  assumes "\<bar>x\<bar> \<le> 10 ^ 6"
  shows "\<exists>r. round2 (Num x) = Num r \<and> \<bar>r - x\<bar> \<le> 1/200 + 2 / 10 ^ 7"
  using round2_Num [OF assms] dbl.cents_error [OF assms] by simp

lemma js_of_rat_mono: "x \<le> y \<Longrightarrow> js_le (js_of_rat x) (js_of_rat y)"
proof -
  assume "x \<le> y"
  then have "round_double x \<le> round_double y" by (rule round_double_mono)
  moreover have "(0::rat) < 2 ^ 1024" by (rule zero_less_power) simp
  ultimately show ?thesis
    unfolding js_of_rat_def Let_def by (auto simp: js_le_def simp del: power_numeral)
qed

lemma js_of_rat_cases:
  obtains (Num) "js_of_rat x = Num (round_double x)"
  | (PosInf) "js_of_rat x = PosInf" "0 < x"
  | (NegInf) "js_of_rat x = NegInf" "x < 0"
proof -
  have p: "(0::rat) < 2 ^ 1024" by (rule zero_less_power) simp
  have pos: "0 < x" if "2 ^ 1024 \<le> round_double x"
  proof (rule ccontr)
    assume "\<not> 0 < x"
    then have "round_double x \<le> 0" using dbl.rd_nonpos [of x] by simp
    with that p show False by (meson not_less order_less_le_trans order_trans)
  qed
  have neg: "x < 0" if "round_double x \<le> - (2 ^ 1024)"
  proof (rule ccontr)
    assume "\<not> x < 0"
    then have "0 \<le> round_double x" using dbl.rd_nonneg [of x] by simp
    then have "0 \<le> - (2 ^ 1024 :: rat)" using that by (rule order_trans)
    then have "(2 ^ 1024 :: rat) \<le> 0" by (simp only: neg_0_le_iff_le)
    then show False using p by (meson not_le)
  qed
  show ?thesis
    using that pos neg unfolding js_of_rat_def Let_def by presburger
qed

lemma js_le_Num_PosInf [simp]: "js_le (Num x) PosInf" "js_le NegInf (Num x)" "js_le PosInf PosInf"
    "js_le NegInf NegInf" "js_le NegInf PosInf"
    "\<not> js_le PosInf (Num x)" "\<not> js_le (Num x) NegInf" "\<not> js_le PosInf NegInf"
    "\<not> js_le NaN z" "\<not> js_le z NaN"
  by (simp_all add: js_le_def) (cases z; simp)+

lemma js_le_trans: "js_le x y \<Longrightarrow> js_le y z \<Longrightarrow> js_le x z"
  by (cases x; cases y; cases z) (auto simp: js_le_def)

lemma js_div_100_mono: "js_le x y \<Longrightarrow> js_le (js_div x (Num 100)) (js_div y (Num 100))"
proof -
  assume le: "js_le x y"
  have lo: "js_le NegInf (js_of_rat r)" and hi: "js_le (js_of_rat r) PosInf" for r
    by (cases r rule: js_of_rat_cases; simp)+
  show ?thesis
    using le lo hi by (cases x; cases y) (auto simp: js_of_rat_mono divide_right_mono)
qed

text \<open>\<open>round2\<close> is monotone, overflow included.\<close>

lemma round2_mono:
  assumes "x \<le> y"
  shows "js_le (round2 (Num x)) (round2 (Num y))"
proof -
  have "js_le (js_of_rat (x * 100)) (js_of_rat (y * 100))"
    using assms by (simp add: js_of_rat_mono)
  then have "js_le (js_round (js_of_rat (x * 100))) (js_round (js_of_rat (y * 100)))"
    by (cases "js_of_rat (x * 100)"; cases "js_of_rat (y * 100)") (simp_all add: floor_mono)
  then show ?thesis unfolding round2_def js_mul.simps by (rule js_div_100_mono)
qed

lemma round2_of_int:
  assumes "\<bar>k\<bar> \<le> 10 ^ 6"
  shows "round2 (Num (of_int k)) = Num (of_int k)"
proof -
  have k: "\<bar>of_int k\<bar> \<le> (10 ^ 6 :: rat)"
    using assms by (metis of_int_abs of_int_le_iff of_int_numeral of_int_power)
  have "round_double (of_int (k * 100)) = of_int (k * 100)"
    using assms by (intro dbl.rd_of_int) (simp add: abs_mult)
  then have a: "round_double (of_int k * 100) = of_int (k * 100)" by simp
  have b: "\<lfloor>(of_int (k * 100) :: rat) + 1/2\<rfloor> = k * 100" by linarith
  have "round_double (of_int k) = of_int k"
    using assms by (intro dbl.rd_of_int) simp
  then show ?thesis
    unfolding round2_Num [OF k] a b by simp
qed

text \<open>A price with two decimals is not moved again.\<close>

lemma round2_idem:
  assumes "\<bar>x\<bar> \<le> 10 ^ 6 - 1"
  shows "round2 (round2 (Num x)) = round2 (Num x)"
proof -
  define c where "c = \<lfloor>round_double (x * 100) + 1/2\<rfloor>"
  define r where "r = round_double (of_int c / 100)"
  have x: "\<bar>x\<bar> \<le> 10 ^ 6" using assms by linarith
  have r: "round2 (Num x) = Num r" unfolding r_def c_def by (rule round2_Num [OF x])
  have "\<bar>r - x\<bar> \<le> 1/200 + 2 / 10 ^ 7" using round2_error [OF x] r by simp
  then have rx: "\<bar>r\<bar> \<le> 10 ^ 6" using assms unfolding powers_of_ten by linarith
  have a: "\<bar>round_double (x * 100) - x * 100\<bar> \<le> 1 / 10 ^ 7"
    by (rule dbl.rd_error_small) (use x in \<open>simp add: abs_mult\<close>)
  have "\<bar>of_int c - round_double (x * 100)\<bar> \<le> 1/2" unfolding c_def by linarith
  then have c: "\<bar>of_int c / 100\<bar> \<le> (10 ^ 6 :: rat)" using a assms unfolding powers_of_ten by linarith
  have "\<bar>r - of_int c / 100\<bar> \<le> 1 / 10 ^ 7"
    unfolding r_def by (rule dbl.rd_error_small) (use c in \<open>unfold powers_of_ten, linarith\<close>)
  moreover have "\<bar>round_double (r * 100) - r * 100\<bar> \<le> 1 / 10 ^ 7"
    by (rule dbl.rd_error_small) (use rx in \<open>simp add: abs_mult\<close>)
  ultimately have "\<bar>round_double (r * 100) - of_int c\<bar> < 1/2" unfolding powers_of_ten by linarith
  then have "\<lfloor>round_double (r * 100) + 1/2\<rfloor> = c" by linarith
  then show ?thesis unfolding r round2_Num [OF rx] by (simp add: r_def)
qed

end
