(* ===== verification/Js_String.thy ===== *)
theory Js_String
  imports Js_Number
begin

text \<open>
  What the code uses of JavaScript strings: trimming, first-occurrence replacement, digit
  filters, and the conversion \<open>Number(text)\<close>. A string is a list of code units below 256.
\<close>

definition code_unit :: "char \<Rightarrow> nat" where
  "code_unit c = of_char c"

definition is_js_space :: "char \<Rightarrow> bool" where
  "is_js_space c = (code_unit c \<in> {9, 10, 11, 12, 13, 32, 160})"

definition js_trim :: "string \<Rightarrow> string" where
  "js_trim s = rev (dropWhile is_js_space (rev (dropWhile is_js_space s)))"

definition is_digit :: "char \<Rightarrow> bool" where
  "is_digit c = (48 \<le> code_unit c \<and> code_unit c \<le> 57)"

text \<open>\<open>s.replace(/\<close>\<open>\D/g, '')\<close>: keep the digits.\<close>

definition digits_of :: "string \<Rightarrow> string" where
  "digits_of s = filter is_digit s"

text \<open>\<open>s.replace(a, b)\<close> with single-character strings: the first occurrence only.\<close>

fun replace_first :: "char \<Rightarrow> string \<Rightarrow> string \<Rightarrow> string" where
  "replace_first a b [] = []"
| "replace_first a b (c # cs) = (if c = a then b @ cs else c # replace_first a b cs)"

definition digit_value :: "char \<Rightarrow> nat" where
  "digit_value c = (let n = code_unit c in
     if 48 \<le> n \<and> n \<le> 57 then n - 48 else if 97 \<le> n \<and> n \<le> 122 then n - 87
     else if 65 \<le> n \<and> n \<le> 90 then n - 55 else 99)"

definition nat_of_digits :: "nat \<Rightarrow> string \<Rightarrow> nat" where
  "nat_of_digits base s = foldl (\<lambda>acc c. acc * base + digit_value c) 0 s"

definition split_sign :: "string \<Rightarrow> bool \<times> string" where
  "split_sign s = (case s of [] \<Rightarrow> (False, [])
     | c # cs \<Rightarrow> if c = CHR ''-'' then (True, cs) else if c = CHR ''+'' then (False, cs) else (False, s))"

text \<open>The exponent part: nothing, or \<open>e\<close> with an optional sign and at least one digit.\<close>

definition parse_exponent :: "string \<Rightarrow> int option" where
  "parse_exponent s = (case s of [] \<Rightarrow> Some 0
     | c # cs \<Rightarrow>
         if c = CHR ''e'' \<or> c = CHR ''E'' then
           (case split_sign cs of (neg, ds) \<Rightarrow>
              if ds \<noteq> [] \<and> list_all is_digit ds
              then Some ((if neg then -1 else 1) * int (nat_of_digits 10 ds)) else None)
         else None)"

text \<open>An unsigned decimal literal, as the exact rational it denotes.\<close>

definition parse_decimal :: "string \<Rightarrow> rat option" where
  "parse_decimal s =
     (let ip = takeWhile is_digit s; r = dropWhile is_digit s;
          (fp, r2) = (case r of [] \<Rightarrow> ([], [])
             | c # cs \<Rightarrow> if c = CHR ''.'' then (takeWhile is_digit cs, dropWhile is_digit cs) else ([], r))
      in if ip = [] \<and> fp = [] then None
         else map_option (\<lambda>e. of_nat (nat_of_digits 10 (ip @ fp)) * 10 powi (e - int (length fp)))
                (parse_exponent r2))"

definition radix_literal :: "string \<Rightarrow> (nat \<times> string) option" where
  "radix_literal s = (case s of
       z # x # ds \<Rightarrow>
         if z = CHR ''0'' then
           (if x = CHR ''x'' \<or> x = CHR ''X'' then Some (16, ds)
            else if x = CHR ''o'' \<or> x = CHR ''O'' then Some (8, ds)
            else if x = CHR ''b'' \<or> x = CHR ''B'' then Some (2, ds) else None)
         else None
     | _ \<Rightarrow> None)"

text \<open>\<open>Number(text)\<close>.\<close>

definition number_of_string :: "string \<Rightarrow> jsnum" where
  "number_of_string text =
     (let s = js_trim text in
      if s = [] then Num 0
      else (case radix_literal s of
          Some (b, ds) \<Rightarrow>
            if ds \<noteq> [] \<and> list_all (\<lambda>c. digit_value c < b) ds then js_of_rat (of_nat (nat_of_digits b ds)) else NaN
        | None \<Rightarrow>
            (case split_sign s of (neg, u) \<Rightarrow>
               if u = ''Infinity'' then (if neg then NegInf else PosInf)
               else (case parse_decimal u of
                   None \<Rightarrow> NaN
                 | Some r \<Rightarrow> js_of_rat (if neg then - r else r)))))"

lemma js_trim_idem: "js_trim (js_trim s) = js_trim s"
proof -
  define t where "t = dropWhile is_js_space s"
  define u where "u = rev (dropWhile is_js_space (rev t))"
  have ju: "js_trim s = u" by (simp add: js_trim_def t_def u_def)
  have "dropWhile is_js_space u = u"
  proof (cases u)
    case Nil
    then show ?thesis by simp
  next
    case (Cons c cs)
    have "rev (takeWhile is_js_space (rev t) @ dropWhile is_js_space (rev t)) = t" by simp
    then have "t = u @ rev (takeWhile is_js_space (rev t))"
      unfolding u_def by (simp only: rev_append)
    then have "\<exists>zs. t = c # zs" using Cons by auto
    then have "\<not> is_js_space c" unfolding t_def by (metis hd_dropWhile list.distinct(1) list.sel(1))
    then show ?thesis using Cons by simp
  qed
  moreover have "rev (dropWhile is_js_space (rev u)) = u" by (simp add: u_def)
  ultimately show ?thesis unfolding ju by (simp add: js_trim_def)
qed

lemma digits_of_digits [simp]: "list_all is_digit (digits_of s)"
  by (simp add: digits_of_def list_all_iff)

text \<open>\<open>String(n)\<close> of a count.\<close>

fun show_nat :: "nat \<Rightarrow> string" where
  "show_nat n = (if n < 10 then [char_of (48 + n)] else show_nat (n div 10) @ [char_of (48 + n mod 10)])"

declare show_nat.simps [simp del]

text \<open>\<open>String(n)\<close> of an integer.\<close>

definition show_int :: "int \<Rightarrow> string" where
  "show_int i = (if i < 0 then CHR 0x2D # show_nat (nat (- i)) else show_nat (nat i))"

text \<open>\<open>xs.join(sep)\<close>.\<close>

fun join_with :: "string \<Rightarrow> string list \<Rightarrow> string" where
  "join_with sep [] = []"
| "join_with sep [x] = x"
| "join_with sep (x # y # xs) = x @ sep @ join_with sep (y # xs)"

text \<open>\<open>s.split(sep)\<close> of a non-empty separator.\<close>

function split_on :: "string \<Rightarrow> string \<Rightarrow> string list" where
  "split_on sep s =
     (if s = [] then [[]]
      else if sep \<noteq> [] \<and> take (length sep) s = sep then [] # split_on sep (drop (length sep) s)
      else (case split_on sep (tl s) of [] \<Rightarrow> [[hd s]] | p # ps \<Rightarrow> (hd s # p) # ps))"
  by pat_completeness auto
termination by (relation "measure (length \<circ> snd)") auto

declare split_on.simps [simp del]

end
