(* ===== verification/Suggestion_Engine.thy ===== *)
theory Suggestion_Engine
  imports Js_String Classification_Index
begin

text \<open>
  The price-suggestion engine, \<open>src/tenant-api/pricing/pricing-suggestion.engine.ts\<close>:
  which rule governs a product, the price the rule suggests or the reason it suggests none,
  decimal-bucket rounding, and the percentage change. The engine is pure; every arithmetic
  step is the binary64 step of \<open>Js_Number\<close>.
\<close>

section \<open>Data\<close>

datatype suggestion_target = PrecoVenda | PrecoOferta
datatype strategy = Margem | Concorrencia
datatype competitor_mode = Weighted | Cascade | Lowest

text \<open>A numeric field that may arrive as text from the database.\<close>

datatype numeric = JNumber jsnum | JString string

record competitor_weight =
  competitor :: string
  weight :: numeric

record suggestion_product =
  sp_ean :: string
  sp_classificationId :: "string option"
  sp_classificacao :: string
  sp_custo :: jsnum
  sp_precoVenda :: jsnum
  sp_precoOferta :: jsnum
  sp_competitorPrices :: "string \<Rightarrow> jsnum option"
  sp_pbm :: bool

record suggestion_rule =
  sr_id :: string
  sr_name :: string
  sr_classifications :: "string list"
  sr_clusterId :: "string option"
  sr_clusterName :: "string option"
  sr_excludeClusterIds :: "string list"
  sr_strategy :: strategy
  sr_minMargin :: numeric
  sr_competitorMode :: competitor_mode
  sr_competitors :: "competitor_weight list"
  sr_variationPct :: numeric
  sr_noCompetitorMargin :: "numeric option"
  sr_priceControlled :: bool
  sr_ignorePbm :: bool
  sr_blockPbmInMargin :: bool
  sr_cascadeByPriority :: bool
  sr_applyRounding :: bool
  sr_active :: bool
  sr_createdAt :: string

record price_rounding_rule =
  decimal_min :: jsnum
  decimal_max :: jsnum
  round_to :: jsnum

record price_rounding_range =
  price_min :: jsnum
  price_max :: jsnum
  range_rules :: "price_rounding_rule list"

datatype basis = BasisConcorrencia | BasisMargemMinima | BasisMargemSemConcorrente

record quote =
  qt_competitor :: string
  qt_price :: jsnum
  qt_weight :: jsnum

record price_suggestion =
  ps_price :: jsnum
  ps_margin :: jsnum
  ps_rule :: suggestion_rule
  ps_target :: suggestion_target
  ps_basis :: basis
  ps_lockApplied :: bool
  ps_priceComposition :: "quote list option"

datatype no_suggestion_reason =
  SemRegra | SemCusto | MargemOk | SemConcorrente | Pbm | AcimaDoVenda | JaNoAlvo

datatype suggestion_result =
    Suggestion price_suggestion
  | NoSuggestion no_suggestion_reason "suggestion_rule option"

section \<open>Helpers\<close>

definition to_finite_number :: "numeric \<Rightarrow> jsnum \<Rightarrow> jsnum" where
  "to_finite_number value fallback =
     (case value of
        JNumber n \<Rightarrow> if js_is_finite n then n else fallback
      | JString s \<Rightarrow>
          let parsed = number_of_string (replace_first (CHR '','') ''.'' (replace_first (CHR ''%'') '''' s))
          in if js_is_finite parsed then parsed else fallback)"

definition competitor_price :: "suggestion_product \<Rightarrow> string \<Rightarrow> jsnum" where
  "competitor_price product c =
     (case sp_competitorPrices product c of None \<Rightarrow> Num 0 | Some p \<Rightarrow> p)"

definition is_excluded :: "suggestion_rule \<Rightarrow> string list \<Rightarrow> bool" where
  "is_excluded rule productClusterIds =
     (sr_excludeClusterIds rule \<noteq> [] \<and>
      list_ex (\<lambda>i. i \<in> set productClusterIds) (sr_excludeClusterIds rule))"

definition truthy_string :: "string option \<Rightarrow> bool" where
  "truthy_string s = (case s of None \<Rightarrow> False | Some t \<Rightarrow> t \<noteq> [])"

section \<open>Which rule governs a product\<close>

text \<open>
  The specificity of a rule for a product: 0 for a rule of every classification, the depth of
  its deepest matching classification otherwise, and -1 where none matches.
\<close>

definition match_specificity ::
  "suggestion_product \<Rightarrow> classification_index option \<Rightarrow> suggestion_rule \<Rightarrow> int" where
  "match_specificity product idx rule =
     (if sr_classifications rule = [] then 0
      else if truthy_string (sp_classificationId product) then
        (case idx of
           None \<Rightarrow> -1
         | Some ix \<Rightarrow>
             foldl (\<lambda>m c. if \<not> isUnder ix (sp_classificationId product) c then m
                          else let depth = (case depthById ix c of None \<Rightarrow> 0 | Some d \<Rightarrow> int d)
                               in if depth > m then depth else m)
               (-1) (sr_classifications rule))
      else -1)"

definition older :: "suggestion_rule \<Rightarrow> suggestion_rule \<Rightarrow> bool" where
  "older rule best =
     (sr_createdAt rule < sr_createdAt best \<or>
      (sr_createdAt rule = sr_createdAt best \<and> sr_id rule < sr_id best))"

definition find_rule_step ::
  "suggestion_product \<Rightarrow> string list \<Rightarrow> classification_index option \<Rightarrow>
   suggestion_rule option \<times> int \<Rightarrow> suggestion_rule \<Rightarrow> suggestion_rule option \<times> int" where
  "find_rule_step product clusterIds idx acc rule =
     (case acc of (best, bestSpecificity) \<Rightarrow>
        if \<not> sr_active rule then acc
        else if is_excluded rule clusterIds then acc
        else let m = match_specificity product idx rule in
          if m < 0 then acc
          else let winsTie = (m = bestSpecificity \<and>
                 (case best of None \<Rightarrow> False | Some b \<Rightarrow> older rule b))
            in if m > bestSpecificity \<or> winsTie then (Some rule, m) else acc)"

definition find_rule_for_product ::
  "suggestion_product \<Rightarrow> suggestion_rule list \<Rightarrow> string list \<Rightarrow> classification_index option \<Rightarrow> suggestion_rule option" where
  "find_rule_for_product product rules clusterIds idx =
     fst (foldl (find_rule_step product clusterIds idx) (None, -1) rules)"

definition find_cluster_rule_step ::
  "string list \<Rightarrow> suggestion_rule option \<Rightarrow> suggestion_rule \<Rightarrow> suggestion_rule option" where
  "find_cluster_rule_step clusterIds best rule =
     (if \<not> sr_active rule then best
      else if \<not> truthy_string (sr_clusterId rule) \<or> the (sr_clusterId rule) \<notin> set clusterIds then best
      else if is_excluded rule clusterIds then best
      else (case best of
              None \<Rightarrow> Some rule
            | Some b \<Rightarrow> if older rule b then Some rule else best))"

definition find_cluster_rule_for_product ::
  "suggestion_rule list \<Rightarrow> string list \<Rightarrow> suggestion_rule option" where
  "find_cluster_rule_for_product clusterRules clusterIds =
     foldl (find_cluster_rule_step clusterIds) None clusterRules"

text \<open>The winner and the classification rule it overrode.\<close>

definition resolve_winner ::
  "suggestion_rule option \<Rightarrow> suggestion_rule option \<Rightarrow> suggestion_rule option \<times> suggestion_rule option" where
  "resolve_winner clusterRule classRule =
     (case clusterRule of
        Some r \<Rightarrow> (Some r, classRule)
      | None \<Rightarrow> (classRule, None))"

section \<open>Prices\<close>

definition price_for_margin :: "jsnum \<Rightarrow> jsnum \<Rightarrow> jsnum" where
  "price_for_margin custo marginPct = js_div custo (js_sub (Num 1) (js_div marginPct (Num 100)))"

definition apply_price_rounding ::
  "jsnum \<Rightarrow> price_rounding_range list \<Rightarrow> jsnum option \<Rightarrow> jsnum" where
  "apply_price_rounding price ranges minPrice =
     (case find (\<lambda>r. js_le (price_min r) price \<and> js_le price (price_max r)) ranges of
        None \<Rightarrow> price
      | Some rng \<Rightarrow>
          let integer = js_floor price;
              decimal = round2 (js_sub price integer)
          in (case find (\<lambda>r. js_le (decimal_min r) decimal \<and> js_le decimal (decimal_max r)) (range_rules rng) of
                None \<Rightarrow> price
              | Some rule \<Rightarrow>
                  let rounded = round2 (js_add integer (round_to rule))
                  in (case minPrice of
                        Some m \<Rightarrow>
                          if js_lt rounded m
                          then round2 (js_add (js_add integer (Num 1)) (round_to rule))
                          else rounded
                      | None \<Rightarrow> rounded)))"

text \<open>The three ways to combine competitor prices: the aimed price and its composition.\<close>

definition with_variation :: "jsnum \<Rightarrow> jsnum \<Rightarrow> jsnum" where
  "with_variation price variationPct = js_mul price (js_add (Num 1) (js_div variationPct (Num 100)))"

definition cascade_alvo :: "suggestion_product \<Rightarrow> competitor_weight list \<Rightarrow> jsnum \<Rightarrow> (jsnum \<times> quote list) option" where
  "cascade_alvo product cs variationPct =
     map_option (\<lambda>c. let price = competitor_price product (competitor c) in
         (with_variation price variationPct,
          [\<lparr>qt_competitor = competitor c, qt_price = price, qt_weight = Num 1\<rparr>]))
       (find (\<lambda>c. js_lt (Num 0) (competitor_price product (competitor c))) cs)"

definition cheapest_step :: "suggestion_product \<Rightarrow> (string \<times> jsnum) option \<Rightarrow> competitor_weight \<Rightarrow> (string \<times> jsnum) option" where
  "cheapest_step product cheapest c =
     (let price = competitor_price product (competitor c) in
      if js_lt (Num 0) price \<and> (case cheapest of None \<Rightarrow> True | Some (_, p) \<Rightarrow> js_lt price p)
      then Some (competitor c, price) else cheapest)"

definition lowest_alvo :: "suggestion_product \<Rightarrow> competitor_weight list \<Rightarrow> jsnum \<Rightarrow> (jsnum \<times> quote list) option" where
  "lowest_alvo product cs variationPct =
     map_option (\<lambda>(c, price).
         (with_variation price variationPct,
          [\<lparr>qt_competitor = c, qt_price = price, qt_weight = Num 1\<rparr>]))
       (foldl (cheapest_step product) None cs)"

definition weighted_quotes :: "suggestion_product \<Rightarrow> competitor_weight list \<Rightarrow> quote list" where
  "weighted_quotes product cs =
     filter (\<lambda>q. js_lt (Num 0) (qt_price q) \<and> js_lt (Num 0) (qt_weight q))
       (map (\<lambda>c. \<lparr>qt_competitor = competitor c,
                  qt_price = competitor_price product (competitor c),
                  qt_weight = to_finite_number (weight c) (Num 0)\<rparr>) cs)"

definition weighted_alvo :: "suggestion_product \<Rightarrow> competitor_weight list \<Rightarrow> jsnum \<Rightarrow> (jsnum \<times> quote list) option" where
  "weighted_alvo product cs variationPct =
     (let quotes = weighted_quotes product cs in
      if quotes = [] then None
      else
        let totalWeight = foldl (\<lambda>acc q. js_add acc (qt_weight q)) (Num 0) quotes;
            weightedAvg = js_div (foldl (\<lambda>acc q. js_add acc (js_mul (qt_price q) (qt_weight q))) (Num 0) quotes) totalWeight
        in Some (with_variation weightedAvg variationPct, quotes))"

definition competitor_alvo :: "suggestion_product \<Rightarrow> suggestion_rule \<Rightarrow> jsnum \<Rightarrow> (jsnum \<times> quote list) option" where
  "competitor_alvo product rule variationPct =
     (case sr_competitorMode rule of
        Cascade \<Rightarrow> cascade_alvo product (sr_competitors rule) variationPct
      | Lowest \<Rightarrow> lowest_alvo product (sr_competitors rule) variationPct
      | Weighted \<Rightarrow> weighted_alvo product (sr_competitors rule) variationPct)"

definition base_price :: "suggestion_product \<Rightarrow> jsnum" where
  "base_price product =
     (if js_lt (Num 0) (sp_precoOferta product) then sp_precoOferta product else sp_precoVenda product)"

text \<open>The margin lock: an aim below the floor is lifted to it.\<close>

definition lock_to_floor :: "jsnum \<Rightarrow> jsnum \<Rightarrow> jsnum \<times> bool" where
  "lock_to_floor alvo piso = (if js_lt alvo piso then (piso, True) else (alvo, False))"

text \<open>
  The aimed price of a product that passed the guards, with its basis, whether the lock
  applied, and its composition; or the reason there is none.
\<close>

definition aim ::
  "suggestion_product \<Rightarrow> suggestion_rule \<Rightarrow> no_suggestion_reason + (jsnum \<times> basis \<times> bool \<times> quote list option)" where
  "aim product rule =
     (let custo = sp_custo product;
          basePrice = base_price product;
          minMargin = to_finite_number (sr_minMargin rule) (Num 0);
          variationPct = to_finite_number (sr_variationPct rule) (Num 0);
          piso = price_for_margin custo minMargin;
          found = (if sr_strategy rule = Concorrencia then competitor_alvo product rule variationPct else None)
      in (case found of
            Some (alvo, compo) \<Rightarrow>
              (case lock_to_floor alvo piso of (t, lck) \<Rightarrow> Inr (t, BasisConcorrencia, lck, Some compo))
          | None \<Rightarrow>
              (case (sr_strategy rule, sr_noCompetitorMargin rule) of
                 (Concorrencia, Some ncm) \<Rightarrow>
                   (case lock_to_floor (price_for_margin custo (to_finite_number ncm minMargin)) piso of
                      (t, lck) \<Rightarrow> Inr (t, BasisMargemSemConcorrente, lck, None))
               | _ \<Rightarrow>
                   let currentMargin = js_mul (js_div (js_sub basePrice custo) basePrice) (Num 100) in
                   if js_le minMargin currentMargin
                   then Inl (if sr_strategy rule = Concorrencia then SemConcorrente else MargemOk)
                   else Inr (piso, BasisMargemMinima, False, None))))"

definition suggestion_target_of :: "suggestion_product \<Rightarrow> suggestion_rule \<Rightarrow> suggestion_target" where
  "suggestion_target_of product rule =
     (if sr_priceControlled rule \<or> js_lt (Num 0) (sp_precoOferta product) then PrecoOferta else PrecoVenda)"

definition blocked_by_pbm :: "suggestion_product \<Rightarrow> suggestion_rule \<Rightarrow> bool" where
  "blocked_by_pbm product rule =
     (sp_pbm product \<and>
      (sr_strategy rule = Concorrencia \<or> sr_ignorePbm rule \<or>
       (sr_strategy rule = Margem \<and> sr_blockPbmInMargin rule)))"

definition js_epsilon :: jsnum where
  "js_epsilon = js_of_rat (5 / 1000)"

definition compute_suggestion ::
  "suggestion_product \<Rightarrow> suggestion_rule \<Rightarrow> price_rounding_range list \<Rightarrow> suggestion_result" where
  "compute_suggestion product rule roundingRanges =
     (let custo = sp_custo product;
          basePrice = base_price product;
          minMargin = to_finite_number (sr_minMargin rule) (Num 0)
      in if js_le custo (Num 0) \<or> js_le basePrice (Num 0) \<or> js_le (Num 100) minMargin
         then NoSuggestion SemCusto (Some rule)
         else if blocked_by_pbm product rule then NoSuggestion Pbm (Some rule)
         else (case aim product rule of
             Inl reason \<Rightarrow> NoSuggestion reason (Some rule)
           | Inr (target, bs, lck, compo) \<Rightarrow>
               let piso = price_for_margin custo minMargin;
                   price0 = round2 target;
                   price = (if sr_applyRounding rule
                            then apply_price_rounding price0 roundingRanges (Some piso) else price0)
               in if \<not> js_is_finite price \<or> js_le price (Num 0) then NoSuggestion SemCusto (Some rule)
                  else if js_lt (js_abs (js_sub price basePrice)) js_epsilon
                  then NoSuggestion JaNoAlvo (Some rule)
                  else if suggestion_target_of product rule = PrecoOferta \<and>
                          js_lt (Num 0) (sp_precoVenda product) \<and> js_lt (sp_precoVenda product) price
                  then NoSuggestion AcimaDoVenda (Some rule)
                  else Suggestion \<lparr>ps_price = price,
                         ps_margin = round2 (js_mul (js_div (js_sub price custo) price) (Num 100)),
                         ps_rule = rule, ps_target = suggestion_target_of product rule,
                         ps_basis = bs, ps_lockApplied = lck, ps_priceComposition = compo\<rparr>))"

definition suggestion_delta :: "suggestion_product \<Rightarrow> suggestion_result \<Rightarrow> jsnum option" where
  "suggestion_delta product result =
     (case result of
        NoSuggestion _ _ \<Rightarrow> None
      | Suggestion s \<Rightarrow>
          let base = base_price product in
          if js_le base (Num 0) then None
          else let pct = js_mul (js_div (js_sub (ps_price s) base) base) (Num 100) in
            if js_lt (js_abs pct) (js_of_rat (5 / 100)) then None else Some pct)"

section \<open>The selection loops find the preferred rule\<close>

definition eligible :: "suggestion_product \<Rightarrow> string list \<Rightarrow> classification_index option \<Rightarrow> suggestion_rule \<Rightarrow> bool" where
  "eligible product clusterIds idx rule =
     (sr_active rule \<and> \<not> is_excluded rule clusterIds \<and> 0 \<le> match_specificity product idx rule)"

definition outranks :: "suggestion_product \<Rightarrow> classification_index option \<Rightarrow> suggestion_rule \<Rightarrow> suggestion_rule \<Rightarrow> bool" where
  "outranks product idx r b =
     (match_specificity product idx b < match_specificity product idx r \<or>
      (match_specificity product idx r = match_specificity product idx b \<and> older r b))"

definition covers :: "string list \<Rightarrow> suggestion_rule \<Rightarrow> bool" where
  "covers clusterIds rule =
     (sr_active rule \<and> truthy_string (sr_clusterId rule) \<and> the (sr_clusterId rule) \<in> set clusterIds \<and>
      \<not> is_excluded rule clusterIds)"

lemma older_asym: "older r b \<Longrightarrow> \<not> older b r"
  by (auto simp: older_def)

lemma older_negatively_transitive: "older r b \<Longrightarrow> older r c \<or> older c b"
  by (auto simp: older_def)

lemma older_separates: "\<not> older r b \<Longrightarrow> \<not> older b r \<Longrightarrow> sr_id r = sr_id b"
  by (auto simp: older_def)

interpretation age: strict_preference older sr_id
  by unfold_locales (fact older_asym older_negatively_transitive older_separates)+

interpretation rank: strict_preference "outranks product idx" sr_id for product idx
proof (unfold_locales, goal_cases)
  case (1 x y)
  then show ?case using older_asym by (auto simp: outranks_def)
next
  case (2 x z y)
  then show ?case using older_negatively_transitive [of x z y] by (auto simp: outranks_def)
next
  case (3 x y)
  then show ?case using older_separates [of x y] by (auto simp: outranks_def)
qed

lemma find_rule_fold:
  assumes "best = None \<and> sp = -1 \<or> (\<exists>b. best = Some b \<and> sp = match_specificity product idx b \<and> 0 \<le> sp)"
  shows "fst (foldl (find_rule_step product clusterIds idx) (best, sp) rules) =
    foldl (pick_step (outranks product idx)) best (filter (eligible product clusterIds idx) rules)"
  using assms
proof (induction rules arbitrary: best sp)
  case (Cons r rs)
  show ?case
  proof (cases "eligible product clusterIds idx r")
    case False
    then have "find_rule_step product clusterIds idx (best, sp) r = (best, sp)"
      by (auto simp: find_rule_step_def eligible_def Let_def)
    with False Cons show ?thesis by simp
  next
    case True
    define m where "m = match_specificity product idx r"
    have m: "0 \<le> m" using True by (simp add: eligible_def m_def)
    have st: "find_rule_step product clusterIds idx (best, sp) r =
        (if pick_step (outranks product idx) best r = Some r \<and> (best = None \<or> outranks product idx r (the best)) then (Some r, m) else (best, sp))"
      using True Cons.prems m
      by (auto simp: find_rule_step_def eligible_def Let_def pick_step_def outranks_def m_def)
    show ?thesis
    proof (cases "best = None \<or> outranks product idx r (the best)")
      case t: True
      then have p: "pick_step (outranks product idx) best r = Some r"
        by (cases best) (auto simp: pick_step_def)
      have "find_rule_step product clusterIds idx (best, sp) r = (Some r, m)" using st p t by simp
      moreover have "fst (foldl (find_rule_step product clusterIds idx) (Some r, m) rs) =
          foldl (pick_step (outranks product idx)) (Some r) (filter (eligible product clusterIds idx) rs)"
        by (rule Cons.IH) (simp add: m_def m [unfolded m_def])
      ultimately show ?thesis using True p by simp
    next
      case f: False
      then have p: "pick_step (outranks product idx) best r = best"
        by (cases best) (auto simp: pick_step_def)
      have "find_rule_step product clusterIds idx (best, sp) r = (best, sp)" using st f by simp
      with True p Cons.IH [OF Cons.prems] show ?thesis by simp
    qed
  qed
qed simp

lemma find_rule_pick_best:
  "find_rule_for_product product rules clusterIds idx =
     pick_best (outranks product idx) (filter (eligible product clusterIds idx) rules)"
  unfolding find_rule_for_product_def pick_best_def by (rule find_rule_fold) simp

lemma find_cluster_rule_pick_best:
  "find_cluster_rule_for_product rules clusterIds = pick_best older (filter (covers clusterIds) rules)"
proof -
  have "foldl (find_cluster_rule_step clusterIds) best rules =
      foldl (pick_step older) best (filter (covers clusterIds) rules)" for best
  proof (induction rules arbitrary: best)
    case (Cons r rs)
    then show ?case
      by (cases "covers clusterIds r")
        (auto simp: find_cluster_rule_step_def covers_def pick_step_def split: option.splits)
  qed simp
  then show ?thesis by (simp add: find_cluster_rule_for_product_def pick_best_def)
qed

section \<open>Prices never undercut the margin floor by more than half a cent\<close>

lemma js_of_rat_of_int:
  assumes "\<bar>k\<bar> \<le> 2 ^ 53"
  shows "js_of_rat (of_int k) = Num (of_int k)"
proof -
  have "\<bar>of_int k :: rat\<bar> \<le> of_int (2 ^ 53)" using assms by (metis of_int_abs of_int_le_iff)
  also have "\<dots> = (2::rat) ^ 53" by simp
  also have "\<dots> \<le> 2 ^ 1000" by (rule power_increasing) simp_all
  finally show ?thesis using round_double_of_int [OF assms] by (simp only: js_of_rat_small)
qed

lemma js_of_rat_ge_of_int:
  "of_int k \<le> x \<Longrightarrow> \<bar>k\<bar> \<le> 2 ^ 53 \<Longrightarrow> js_le (Num (of_int k)) (js_of_rat x)"
  using js_of_rat_mono [of "of_int k" x] js_of_rat_of_int [of k] by simp

lemma round2_ge_of_int:
  assumes "js_le (Num (of_int k)) x" "\<bar>k\<bar> \<le> 10 ^ 6"
  shows "js_le (Num (of_int k)) (round2 x)"
proof (cases x)
  case (Num y)
  then show ?thesis using assms round2_mono [of "of_int k" y] round2_of_int [OF assms(2)] by simp
next
  case PosInf
  then show ?thesis by (simp add: round2_def js_inf_of_sign_def)
qed (use assms in simp_all)

lemma js_add_nonneg_ge:
  assumes "js_le (Num (of_int k)) x" "\<bar>k\<bar> \<le> 10 ^ 6" "0 \<le> r"
  shows "js_le (Num (of_int k)) (js_add x (Num r))"
proof (cases x)
  case (Num y)
  then show ?thesis using assms by (simp add: js_of_rat_ge_of_int)
qed (use assms in simp_all)

definition half_cent :: rat where
  "half_cent = 1 / 200 + 2 / 10 ^ 7"

lemma round2_ge_floor:
  assumes "js_le (Num f) t" "0 \<le> f" "f \<le> 10 ^ 6"
  shows "js_le (Num (f - half_cent)) (round2 t)"
proof (cases t)
  case (Num x)
  have "\<bar>f\<bar> \<le> 10 ^ 6" using assms by simp
  from round2_error [OF this] obtain r where rr: "round2 (Num f) = Num r" "\<bar>r - f\<bar> \<le> half_cent"
    unfolding half_cent_def by blast
  then have r: "round2 (Num f) = Num r" "f - half_cent \<le> r" by (simp_all add: abs_le_iff)
  moreover have "js_le (round2 (Num f)) (round2 (Num x))" using assms Num by (simp add: round2_mono)
  ultimately show ?thesis using Num js_le_trans [of "Num (f - half_cent)" "Num r"] by simp
next
  case PosInf
  then show ?thesis by (simp add: round2_def js_inf_of_sign_def)
qed (use assms in simp_all)

definition nonneg_buckets :: "price_rounding_range list \<Rightarrow> bool" where
  "nonneg_buckets ranges =
     list_all (\<lambda>g. list_all (\<lambda>b. case round_to b of Num r \<Rightarrow> 0 \<le> r | _ \<Rightarrow> False) (range_rules g)) ranges"

text \<open>A bucket that dips below the minimum moves up one whole unit, which clears it.\<close>

lemma apply_price_rounding_ge_floor:
  assumes p: "js_le (Num (f - half_cent)) (Num p)" and f: "0 \<le> f" "f \<le> 10 ^ 6 - 1"
    and buckets: "nonneg_buckets ranges"
    and q: "apply_price_rounding (Num p) ranges (Some (Num f)) = Num q"
  shows "f - half_cent \<le> q"
proof (cases "find (\<lambda>r. js_le (price_min r) (Num p) \<and> js_le (Num p) (price_max r)) ranges")
  case None
  with q p show ?thesis by (simp add: apply_price_rounding_def)
next
  case (Some g)
  define i where "i = js_floor (Num p)"
  define d where "d = round2 (js_sub (Num p) i)"
  have g: "g \<in> set ranges" using Some by (auto simp: find_Some_iff)
  show ?thesis
  proof (cases "find (\<lambda>r. js_le (decimal_min r) d \<and> js_le d (decimal_max r)) (range_rules g)")
    case None
    with Some q p show ?thesis by (simp add: apply_price_rounding_def i_def d_def Let_def)
  next
    case (Some b)
    then have b: "b \<in> set (range_rules g)" by (auto simp: find_Some_iff)
    with buckets g have "case round_to b of Num r \<Rightarrow> 0 \<le> r | _ \<Rightarrow> False"
      by (auto simp: nonneg_buckets_def list_all_iff)
    then obtain r where r: "round_to b = Num r" "0 \<le> r" by (cases "round_to b") auto
    have "(if js_lt (round2 (js_add i (round_to b))) (Num f)
        then round2 (js_add (js_add i (Num 1)) (round_to b)) else round2 (js_add i (round_to b))) = Num q"
      using q Some \<open>find _ ranges = Some g\<close> unfolding apply_price_rounding_def i_def [symmetric] d_def [symmetric]
      by (simp add: Let_def d_def [symmetric])
    note q' = this [unfolded r(1)]
    show ?thesis
    proof (cases "js_lt (round2 (js_add i (Num r))) (Num f)")
      case False
      then have "f \<le> q" using q' by simp
      then show ?thesis by (simp add: half_cent_def)
    next
      case True
      define k where "k = min (\<lfloor>p\<rfloor> + 1) (10 ^ 6)"
      have "f - half_cent \<le> p" using p by simp
      then have k: "f - half_cent \<le> of_int k" "\<bar>k\<bar> \<le> 10 ^ 6"
      proof -
        have h: "0 \<le> half_cent" "half_cent \<le> 1" by (simp_all add: half_cent_def)
        have "-1 \<le> \<lfloor>p\<rfloor>" using \<open>f - half_cent \<le> p\<close> f h by linarith
        then show "\<bar>k\<bar> \<le> 10 ^ 6" by (simp add: k_def)
        have "f - half_cent \<le> of_int (\<lfloor>p\<rfloor> + 1)" using \<open>f - half_cent \<le> p\<close> by linarith
        moreover have "f - half_cent \<le> of_int (10 ^ 6)" using f h by simp
        ultimately show "f - half_cent \<le> of_int k" unfolding k_def by (simp add: min_def)
      qed
      have "js_le (Num (of_int k)) (js_add i (Num 1))"
      proof -
        have "(of_int k :: rat) \<le> of_int (\<lfloor>p\<rfloor> + 1)" by (simp add: k_def)
        then show ?thesis using k(2) by (simp add: i_def js_of_rat_ge_of_int)
      qed
      then have "js_le (Num (of_int k)) (round2 (js_add (js_add i (Num 1)) (Num r)))"
        using round2_ge_of_int [OF js_add_nonneg_ge [OF _ k(2) r(2)] k(2)] by blast
      then show ?thesis using q' True k(1) by simp
    qed
  qed
qed

lemma lock_to_floor_ge:
  "lock_to_floor alvo (Num f) = (t, lck) \<Longrightarrow> t = NaN \<or> js_le (Num f) t"
  by (cases alvo) (auto simp: lock_to_floor_def split: if_splits)

lemma aim_ge_floor:
  assumes "aim product rule = Inr (t, bs, lck, compo)"
    and "price_for_margin (sp_custo product) (to_finite_number (sr_minMargin rule) (Num 0)) = Num f"
  shows "t = NaN \<or> js_le (Num f) t"
  using assms(1) lock_to_floor_ge [of _ f] unfolding aim_def Let_def assms(2)
  by (auto split: option.splits prod.splits strategy.splits if_splits)

lemma compute_suggestion_inv:
  assumes "compute_suggestion product rule ranges = Suggestion s"
  obtains t bs lck compo where "aim product rule = Inr (t, bs, lck, compo)"
    and "ps_price s = (if sr_applyRounding rule
           then apply_price_rounding (round2 t) ranges
                  (Some (price_for_margin (sp_custo product) (to_finite_number (sr_minMargin rule) (Num 0))))
           else round2 t)"
    and "js_is_finite (ps_price s)" "\<not> js_le (ps_price s) (Num 0)"
    and "\<not> js_lt (js_abs (js_sub (ps_price s) (base_price product))) js_epsilon"
    and "ps_target s = suggestion_target_of product rule" "ps_rule s = rule"
    and "\<not> (ps_target s = PrecoOferta \<and> js_lt (Num 0) (sp_precoVenda product) \<and>
            js_lt (sp_precoVenda product) (ps_price s))"
    and "\<not> js_le (sp_custo product) (Num 0)" "\<not> js_le (base_price product) (Num 0)"
    and "\<not> blocked_by_pbm product rule" "ps_basis s = bs" "ps_lockApplied s = lck" "ps_priceComposition s = compo"
    and "ps_margin s = round2 (js_mul (js_div (js_sub (ps_price s) (sp_custo product)) (ps_price s)) (Num 100))"
  using assms that
  by (auto simp: compute_suggestion_def Let_def split: if_splits sum.splits prod.splits)

section \<open>Properties\<close>

text \<open>A product and a rule the witnesses evaluate.\<close>

definition sample_product :: suggestion_product where
  "sample_product = \<lparr>sp_ean = ''7891000100103'', sp_classificationId = Some ''c1'', sp_classificacao = '''',
     sp_custo = Num 10, sp_precoVenda = Num 30, sp_precoOferta = Num 0,
     sp_competitorPrices = [''DROGAL'' \<mapsto> Num 11, ''DROGASIL'' \<mapsto> Num 15], sp_pbm = False\<rparr>"

definition sample_rule :: suggestion_rule where
  "sample_rule = \<lparr>sr_id = ''r1'', sr_name = ''regra'', sr_classifications = [],
     sr_clusterId = None, sr_clusterName = None, sr_excludeClusterIds = [], sr_strategy = Concorrencia,
     sr_minMargin = JNumber (Num 50), sr_competitorMode = Lowest,
     sr_competitors = [\<lparr>competitor = ''DROGAL'', weight = JNumber (Num 1)\<rparr>, \<lparr>competitor = ''DROGASIL'', weight = JNumber (Num 1)\<rparr>],
     sr_variationPct = JNumber (Num 0), sr_noCompetitorMargin = None, sr_priceControlled = False,
     sr_ignorePbm = False, sr_blockPbmInMargin = False, sr_cascadeByPriority = False,
     sr_applyRounding = True, sr_active = True, sr_createdAt = ''2026-01-01''\<rparr>"

definition sample_ranges :: "price_rounding_range list" where
  "sample_ranges = [\<lparr>price_min = Num 0, price_max = Num 100,
     range_rules = [\<lparr>decimal_min = Num 0, decimal_max = Num 1, round_to = Num (1/2)\<rparr>]\<rparr>]"

definition sample_suggestion :: price_suggestion where
  "sample_suggestion =
     (case compute_suggestion sample_product sample_rule sample_ranges of Suggestion s \<Rightarrow> s
      | NoSuggestion _ _ \<Rightarrow> \<lparr>ps_price = NaN, ps_margin = NaN, ps_rule = sample_rule, ps_target = PrecoVenda,
          ps_basis = BasisConcorrencia, ps_lockApplied = False, ps_priceComposition = None\<rparr>)"

lemma sample_suggestion_computed:
  "compute_suggestion sample_product sample_rule sample_ranges = Suggestion sample_suggestion"
proof -
  have "(case compute_suggestion sample_product sample_rule sample_ranges of Suggestion s \<Rightarrow> True | NoSuggestion _ _ \<Rightarrow> False)"
    by code_simp
  then show ?thesis by (simp add: sample_suggestion_def split: suggestion_result.splits)
qed

text \<open>What is not finite stays so through the rounding to a bucket.\<close>

lemma rounding_needs_finite: "apply_price_rounding x ranges fl = Num q \<Longrightarrow> js_is_finite x"
  by (cases x) (auto simp: apply_price_rounding_def Let_def round2_def js_sub_def js_inf_of_sign_def js_is_finite_iff
      js_le_def split: option.splits if_splits dest!: find_Some_iff [THEN iffD1])

lemma rounded_number:
  assumes "js_le (Num f) t \<or> t = NaN" "0 \<le> f" "f \<le> 10 ^ 6 - 1" "nonneg_buckets ranges"
    and "(if rounds then apply_price_rounding (round2 t) ranges (Some (Num f)) else round2 t) = Num q"
  shows "f - half_cent \<le> q"
proof -
  have "js_is_finite (round2 t)" using assms(5) rounding_needs_finite by (auto simp: js_is_finite_iff split: if_splits)
  then obtain p where p: "round2 t = Num p" by (auto simp: js_is_finite_iff)
  then have "js_le (Num f) t" using assms(1) by (auto simp: round2_def)
  then have "js_le (Num (f - half_cent)) (round2 t)" using assms(2,3) by (intro round2_ge_floor) simp_all
  then show ?thesis
    using apply_price_rounding_ge_floor [of f p ranges q] assms(2-5) p by (auto split: if_splits)
qed

text \<open>
  C1. The margin floor. Whatever the strategy, the competitor mode and the rounding buckets
  (with non-negative targets), a suggested price is a positive finite number and lies at most
  half a cent (and the binary64 error of the two-decimals rounding) below the price of the
  rule's minimum margin.
\<close>

theorem suggestion_respects_margin_floor:
  assumes "compute_suggestion product rule ranges = Suggestion s"
    and "price_for_margin (sp_custo product) (to_finite_number (sr_minMargin rule) (Num 0)) = Num f"
    and "f \<le> 10 ^ 6 - 1" and "nonneg_buckets ranges"
  shows "\<exists>q. ps_price s = Num q \<and> 0 < q \<and> f - half_cent \<le> q"
proof -
  from compute_suggestion_inv [OF assms(1)] obtain t bs lck compo where
    t: "aim product rule = Inr (t, bs, lck, compo)"
    and ps: "ps_price s = (if sr_applyRounding rule
        then apply_price_rounding (round2 t) ranges (Some (Num f)) else round2 t)"
    and fin: "js_is_finite (ps_price s)" "\<not> js_le (ps_price s) (Num 0)"
    unfolding assms(2) by metis
  obtain q where q: "ps_price s = Num q" "0 < q" using fin by (auto simp: js_is_finite_iff)
  have "f - half_cent \<le> q"
  proof (cases "f < 0")
    case True
    then show ?thesis using q(2) by (simp add: half_cent_def)
  next
    case False
    then show ?thesis using rounded_number [of f t ranges] aim_ge_floor [OF t assms(2)] assms(3,4) ps q(1) by force
  qed
  with q show ?thesis by blast
qed

theorem suggestion_respects_margin_floor_witness:
  "\<exists>f q. price_for_margin (Num 10) (Num 50) = Num f \<and> ps_price sample_suggestion = Num q \<and> f - half_cent \<le> q"
proof -
  have "js_is_finite (price_for_margin (Num 10) (Num 50)) \<and> js_le (price_for_margin (Num 10) (Num 50)) (Num 100)"
    by code_simp
  then obtain f where f: "price_for_margin (Num 10) (Num 50) = Num f" "f \<le> 100"
    by (auto simp: js_is_finite_iff)
  have "to_finite_number (sr_minMargin sample_rule) (Num 0) = Num 50" "sp_custo sample_product = Num 10"
    "nonneg_buckets sample_ranges"
    by code_simp+
  then show ?thesis
    using suggestion_respects_margin_floor [OF sample_suggestion_computed, of f] f by auto
qed

text \<open>
  C2. The rule that governs a product is an eligible rule that no eligible rule outranks (deeper
  matching classification first, then older, then smaller id); there is none only when no rule
  is eligible.
\<close>

theorem governing_rule_is_best:
  "(find_rule_for_product product rules clusterIds idx = None \<longleftrightarrow>
      (\<forall>r \<in> set rules. \<not> eligible product clusterIds idx r)) \<and>
   (\<forall>r. find_rule_for_product product rules clusterIds idx = Some r \<longrightarrow>
      r \<in> set rules \<and> eligible product clusterIds idx r \<and>
      (\<forall>q \<in> set rules. eligible product clusterIds idx q \<longrightarrow> \<not> outranks product idx q r))"
proof (intro conjI allI impI)
  show "find_rule_for_product product rules clusterIds idx = None \<longleftrightarrow>
      (\<forall>r \<in> set rules. \<not> eligible product clusterIds idx r)"
    by (simp only: find_rule_pick_best rank.pick_best_None filter_empty_conv)
next
  fix r
  assume "find_rule_for_product product rules clusterIds idx = Some r"
  from rank.pick_best_Some [OF this [unfolded find_rule_pick_best]]
  show "r \<in> set rules" "eligible product clusterIds idx r"
    "\<forall>q \<in> set rules. eligible product clusterIds idx q \<longrightarrow> \<not> outranks product idx q r"
    by simp_all
qed

theorem governing_rule_is_best_witness:
  "find_rule_for_product sample_product [sample_rule] [] None = Some sample_rule \<and>
   eligible sample_product [] None sample_rule \<and> \<not> outranks sample_product None sample_rule sample_rule"
proof -
  have "find_rule_for_product sample_product [sample_rule] [] None = Some sample_rule"
    by (simp add: find_rule_for_product_def find_rule_step_def sample_rule_def is_excluded_def match_specificity_def)
  then show ?thesis
    using governing_rule_is_best [of sample_product "[sample_rule]" "[]" None] by auto
qed

text \<open>
  The winner between the cluster rules and the classification rules, and the rule it
  overrides, do not depend on the order in which the database returns the rules.
\<close>

lemma winner_order_independent:
  assumes "set clusterRules = set clusterRules'" "inj_on sr_id (set clusterRules)"
    and "set rules = set rules'" "inj_on sr_id (set rules)"
  shows "resolve_winner (find_cluster_rule_for_product clusterRules clusterIds)
      (find_rule_for_product product rules clusterIds idx) =
    resolve_winner (find_cluster_rule_for_product clusterRules' clusterIds)
      (find_rule_for_product product rules' clusterIds idx)"
proof -
  have "find_cluster_rule_for_product clusterRules clusterIds = find_cluster_rule_for_product clusterRules' clusterIds"
    unfolding find_cluster_rule_pick_best
    by (rule age.pick_best_order_independent) (use assms in \<open>auto intro: inj_on_subset\<close>)
  moreover have "find_rule_for_product product rules clusterIds idx = find_rule_for_product product rules' clusterIds idx"
    unfolding find_rule_pick_best
    by (rule rank.pick_best_order_independent) (use assms in \<open>auto intro: inj_on_subset\<close>)
  ultimately show ?thesis by simp
qed

definition sample_rule2 :: suggestion_rule where
  "sample_rule2 = sample_rule\<lparr>sr_id := ''r2''\<rparr>"

text \<open>
  C3. What a suggestion promises: the product has a cost and a current price, no PBM block
  applies, the price differs from the current one by at least half a cent, and an offer
  price never exceeds the sale price.
\<close>

theorem suggestion_is_actionable:
  assumes "compute_suggestion product rule ranges = Suggestion s"
  shows "js_lt (Num 0) (ps_price s) \<and> js_is_finite (ps_price s) \<and>
    \<not> js_lt (js_abs (js_sub (ps_price s) (base_price product))) js_epsilon \<and>
    (ps_target s = PrecoOferta \<longrightarrow> js_lt (Num 0) (sp_precoVenda product) \<longrightarrow>
       \<not> js_lt (sp_precoVenda product) (ps_price s)) \<and>
    (ps_target s = PrecoVenda \<longleftrightarrow> \<not> sr_priceControlled rule \<and> \<not> js_lt (Num 0) (sp_precoOferta product)) \<and>
    \<not> (sp_pbm product \<and> (sr_strategy rule = Concorrencia \<or> sr_ignorePbm rule \<or> sr_blockPbmInMargin rule))"
proof -
  from compute_suggestion_inv [OF assms]
  have h: "js_is_finite (ps_price s)" "\<not> js_le (ps_price s) (Num 0)"
    "\<not> js_lt (js_abs (js_sub (ps_price s) (base_price product))) js_epsilon"
    "ps_target s = suggestion_target_of product rule"
    "\<not> (ps_target s = PrecoOferta \<and> js_lt (Num 0) (sp_precoVenda product) \<and>
        js_lt (sp_precoVenda product) (ps_price s))"
    "\<not> blocked_by_pbm product rule"
    by metis+
  have "js_lt (Num 0) (ps_price s)" using h(1,2) by (auto simp: js_is_finite_iff)
  moreover have "sr_strategy rule = Concorrencia \<or> sr_strategy rule = Margem"
    by (cases "sr_strategy rule") auto
  ultimately show ?thesis
    using h by (auto simp: suggestion_target_of_def blocked_by_pbm_def split: if_splits)
qed

theorem suggestion_is_actionable_witness:
  "js_lt (Num 0) (ps_price sample_suggestion) \<and> js_is_finite (ps_price sample_suggestion)"
  using suggestion_is_actionable [OF sample_suggestion_computed] by simp

text \<open>The lowest mode, as the preference for the lower price with \<open>NaN\<close> last.\<close>

definition cheaper :: "string \<times> jsnum \<Rightarrow> string \<times> jsnum \<Rightarrow> bool" where
  "cheaper x y = (js_lt (snd x) (snd y) \<or> (snd x \<noteq> NaN \<and> snd y = NaN))"

interpretation cheap: preference cheaper
proof (unfold_locales, goal_cases)
  case (1 x y)
  then show ?case by (cases "snd x"; cases "snd y") (auto simp: cheaper_def)
next
  case (2 x z y)
  then show ?case by (cases "snd x"; cases "snd y"; cases "snd z") (auto simp: cheaper_def)
qed

definition priced :: "suggestion_product \<Rightarrow> competitor_weight list \<Rightarrow> (string \<times> jsnum) list" where
  "priced product cs = filter (\<lambda>q. js_lt (Num 0) (snd q))
     (map (\<lambda>c. (competitor c, competitor_price product (competitor c))) cs)"

lemma cheapest_pick_best:
  "foldl (cheapest_step product) None cs = pick_best cheaper (priced product cs)"
proof -
  have nan: "js_lt (Num 0) p \<Longrightarrow> p \<noteq> NaN" for p by (cases p) auto
  have "(case best of None \<Rightarrow> True | Some q \<Rightarrow> snd q \<noteq> NaN) \<Longrightarrow>
    foldl (cheapest_step product) best cs = foldl (pick_step cheaper) best (priced product cs)" for best
  proof (induction cs arbitrary: best)
    case (Cons c cs)
    let ?p = "competitor_price product (competitor c)"
    have st: "cheapest_step product best c =
        (if js_lt (Num 0) ?p then pick_step cheaper best (competitor c, ?p) else best)"
      using Cons.prems by (auto simp: cheapest_step_def pick_step_def cheaper_def Let_def split: option.splits)
    have ok: "case cheapest_step product best c of None \<Rightarrow> True | Some q \<Rightarrow> snd q \<noteq> NaN"
      using Cons.prems nan [of ?p] by (auto simp: st pick_step_def split: option.splits)
    show ?case using Cons.IH [OF ok] by (simp add: st priced_def)
  qed (simp add: priced_def)
  from this [of None] show ?thesis by (simp add: pick_best_def)
qed

text \<open>
  The mode \<open>lowest\<close> follows a competitor of the rule whose price is positive and not above
  any other positive price, and records exactly that competitor as the composition; it finds
  none only when no competitor of the rule has a positive price.
\<close>

lemma lowest_follows_the_minimum:
  "(lowest_alvo product cs v = None \<longleftrightarrow>
      (\<forall>c \<in> set cs. \<not> js_lt (Num 0) (competitor_price product (competitor c)))) \<and>
   (\<forall>alvo compo. lowest_alvo product cs v = Some (alvo, compo) \<longrightarrow>
      (\<exists>c \<in> set cs. \<exists>p. p = competitor_price product (competitor c) \<and> js_lt (Num 0) p \<and>
         alvo = with_variation p v \<and>
         compo = [\<lparr>qt_competitor = competitor c, qt_price = p, qt_weight = Num 1\<rparr>] \<and>
         (\<forall>d \<in> set cs. js_lt (Num 0) (competitor_price product (competitor d)) \<longrightarrow>
            \<not> js_lt (competitor_price product (competitor d)) p)))"
proof (intro conjI allI impI)
  show "lowest_alvo product cs v = None \<longleftrightarrow>
      (\<forall>c \<in> set cs. \<not> js_lt (Num 0) (competitor_price product (competitor c)))"
    by (simp add: lowest_alvo_def cheapest_pick_best cheap.pick_best_None priced_def filter_empty_conv)
next
  fix alvo compo
  assume "lowest_alvo product cs v = Some (alvo, compo)"
  then obtain n p where q: "pick_best cheaper (priced product cs) = Some (n, p)"
    and a: "alvo = with_variation p v" "compo = [\<lparr>qt_competitor = n, qt_price = p, qt_weight = Num 1\<rparr>]"
    by (auto simp: lowest_alvo_def cheapest_pick_best Let_def)
  from cheap.pick_best_Some [OF q] obtain c where c: "c \<in> set cs" "n = competitor c"
    "p = competitor_price product (competitor c)" "js_lt (Num 0) p"
    by (auto simp: priced_def)
  have "\<not> js_lt (competitor_price product (competitor d)) p"
    if "d \<in> set cs" "js_lt (Num 0) (competitor_price product (competitor d))" for d
  proof -
    have "(competitor d, competitor_price product (competitor d)) \<in> set (priced product cs)"
      using that by (simp add: priced_def)
    then show ?thesis using cheap.pick_best_Some [OF q] by (auto simp: cheaper_def)
  qed
  with c a show "\<exists>c \<in> set cs. \<exists>p. p = competitor_price product (competitor c) \<and> js_lt (Num 0) p \<and>
         alvo = with_variation p v \<and>
         compo = [\<lparr>qt_competitor = competitor c, qt_price = p, qt_weight = Num 1\<rparr>] \<and>
         (\<forall>d \<in> set cs. js_lt (Num 0) (competitor_price product (competitor d)) \<longrightarrow>
            \<not> js_lt (competitor_price product (competitor d)) p)"
    by blast
qed

end
