(* ===== verification/Queue_Constants.thy ===== *)
theory Queue_Constants
  imports Prelude
begin

text \<open>
  The steps of the pipeline and the names of their queues: \<open>src/queue/constants.ts\<close>,
  \<open>src/database/enums/pipeline-step.enum.ts\<close>, \<open>src/database/enums/competitor-origin.enum.ts\<close>
  and the channel table of \<open>src/queue/queue.module.ts\<close>. A routing key is the tenant slug, a
  dot and a queue name; the module shows what splitting one gives back.
\<close>

section \<open>Steps and origins\<close>

datatype pipeline_step =
    SYNC_BASE_PRODUCT | SYNC_BASE_PRODUCT_STOCK | SYNC_OFFER_BOOKS_INFO | IMPORT_COMPETITOR_PRODUCTS
  | CALC_BASE_PRODUCT_METRICS | UPDATE_BASE_PRODUCT_PROPERTIES | SYNC_STORES | SYNC_PRODUCT_ITEMS
  | APPLY_PRICE | EXECUTE_OFFER_BOOK_RULE

fun step_value :: "pipeline_step \<Rightarrow> string" where
  "step_value SYNC_BASE_PRODUCT = ''sync-base-product''"
| "step_value SYNC_BASE_PRODUCT_STOCK = ''sync-base-product-stock''"
| "step_value SYNC_OFFER_BOOKS_INFO = ''sync-offer-books-info''"
| "step_value IMPORT_COMPETITOR_PRODUCTS = ''import-competitor-products''"
| "step_value CALC_BASE_PRODUCT_METRICS = ''calc-base-product-metrics''"
| "step_value UPDATE_BASE_PRODUCT_PROPERTIES = ''update-base-product-properties''"
| "step_value SYNC_STORES = ''sync-stores''"
| "step_value SYNC_PRODUCT_ITEMS = ''sync-product-items''"
| "step_value APPLY_PRICE = ''apply-price''"
| "step_value EXECUTE_OFFER_BOOK_RULE = ''execute-offer-book-rule''"

datatype competitor_origin =
  DROGAL | DROGASIL | PAGUE_MENOS | IKESAKI | MICHELASSI | PACHECO | SAO_PAULO | VENANCIO | INDIANA

fun origin_value :: "competitor_origin \<Rightarrow> string" where
  "origin_value DROGAL = ''DROGAL''"
| "origin_value DROGASIL = ''DROGASIL''"
| "origin_value PAGUE_MENOS = ''PAGUE_MENOS''"
| "origin_value IKESAKI = ''IKESAKI''"
| "origin_value MICHELASSI = ''MICHELASSI''"
| "origin_value PACHECO = ''PACHECO''"
| "origin_value SAO_PAULO = ''SAO_PAULO''"
| "origin_value VENANCIO = ''VENANCIO''"
| "origin_value INDIANA = ''INDIANA''"

section \<open>Exchanges and queues\<close>

text \<open>The deployment environment, \<open>process.env.NODE_ENV\<close>, is a parameter.\<close>

definition EXCHANGE_NAME :: "string option \<Rightarrow> string" where
  "EXCHANGE_NAME node_env = ''pipeline.'' @ (case node_env of None \<Rightarrow> ''development'' | Some e \<Rightarrow> e)"

definition DLX_NAME :: "string option \<Rightarrow> string" where
  "DLX_NAME node_env = EXCHANGE_NAME node_env @ ''.dlx''"

definition STEP_QUEUES :: "pipeline_step list" where
  "STEP_QUEUES = [SYNC_OFFER_BOOKS_INFO, SYNC_STORES, EXECUTE_OFFER_BOOK_RULE]"

definition PIPELINE_START_QUEUE :: string where
  "PIPELINE_START_QUEUE = ''pipeline.start''"

definition MIGRATE_TENANT_QUEUE :: string where
  "MIGRATE_TENANT_QUEUE = ''migrate-tenant''"

definition BATCHED_STEPS :: "pipeline_step list" where
  "BATCHED_STEPS = [SYNC_BASE_PRODUCT, SYNC_BASE_PRODUCT_STOCK, CALC_BASE_PRODUCT_METRICS,
     UPDATE_BASE_PRODUCT_PROPERTIES, APPLY_PRICE, SYNC_PRODUCT_ITEMS]"

definition PER_ORIGIN_STEPS :: "(pipeline_step \<times> competitor_origin list) list" where
  "PER_ORIGIN_STEPS = [(IMPORT_COMPETITOR_PRODUCTS,
     [DROGAL, DROGASIL, MICHELASSI, PAGUE_MENOS, IKESAKI, PACHECO, SAO_PAULO, VENANCIO, INDIANA])]"

definition dispatch_step :: "pipeline_step \<Rightarrow> string" where
  "dispatch_step step = step_value step @ ''.dispatch''"

definition batch_step :: "pipeline_step \<Rightarrow> string" where
  "batch_step step = step_value step @ ''.batch''"

definition origin_step :: "pipeline_step \<Rightarrow> competitor_origin \<Rightarrow> string" where
  "origin_step step origin = step_value step @ ''.'' @ origin_value origin"

definition per_origin_queue_names :: "string list" where
  "per_origin_queue_names =
     concat (map (\<lambda>(step, origins). dispatch_step step # map (origin_step step) origins) PER_ORIGIN_STEPS)"

definition all_step_queue_names :: "string list" where
  "all_step_queue_names =
     map step_value STEP_QUEUES @ [PIPELINE_START_QUEUE, MIGRATE_TENANT_QUEUE] @
     concat (map (\<lambda>step. [dispatch_step step, batch_step step]) BATCHED_STEPS) @
     concat (map (\<lambda>(step, origins). dispatch_step step # map (origin_step step) origins) PER_ORIGIN_STEPS)"

definition STEP_PREFETCH :: "string \<Rightarrow> nat option" where
  "STEP_PREFETCH = map_of (
     map (\<lambda>s. (step_value s, 1)) [SYNC_OFFER_BOOKS_INFO, SYNC_STORES, EXECUTE_OFFER_BOOK_RULE] @
     map (\<lambda>s. (dispatch_step s, 1)) [SYNC_BASE_PRODUCT, SYNC_BASE_PRODUCT_STOCK, CALC_BASE_PRODUCT_METRICS,
       UPDATE_BASE_PRODUCT_PROPERTIES, IMPORT_COMPETITOR_PRODUCTS, SYNC_PRODUCT_ITEMS] @
     map (\<lambda>s. (batch_step s, 1)) [SYNC_BASE_PRODUCT, SYNC_BASE_PRODUCT_STOCK, CALC_BASE_PRODUCT_METRICS,
       UPDATE_BASE_PRODUCT_PROPERTIES, SYNC_PRODUCT_ITEMS] @
     [(dispatch_step APPLY_PRICE, 1), (batch_step APPLY_PRICE, 1)] @
     map (\<lambda>(o', n). (origin_step IMPORT_COMPETITOR_PRODUCTS o', n))
       [(DROGAL, 2), (DROGASIL, 2), (MICHELASSI, 1), (PAGUE_MENOS, 1), (IKESAKI, 1), (PACHECO, 1),
        (SAO_PAULO, 1), (VENANCIO, 1), (INDIANA, 1)])"

text \<open>
  The channels the module opens, with their prefetch (\<open>None\<close> is no limit): a missing entry of
  \<open>STEP_PREFETCH\<close> stays undefined for single and batched steps and becomes 1 per origin.
\<close>

definition module_channels :: "(string \<times> nat option) list" where
  "module_channels =
     map (\<lambda>step. (step_value step, STEP_PREFETCH (step_value step))) STEP_QUEUES @
     concat (map (\<lambda>step. [(dispatch_step step, STEP_PREFETCH (dispatch_step step)),
                          (batch_step step, STEP_PREFETCH (batch_step step))]) BATCHED_STEPS) @
     map (\<lambda>q. (q, Some (case STEP_PREFETCH q of None \<Rightarrow> 1 | Some n \<Rightarrow> n))) per_origin_queue_names @
     [(MIGRATE_TENANT_QUEUE, Some 10)]"

text \<open>The entry queue of a step that is triggered on its own.\<close>

definition entry_queue :: "pipeline_step \<Rightarrow> string" where
  "entry_queue step = (if step \<in> set STEP_QUEUES then step_value step else dispatch_step step)"

section \<open>Routing keys\<close>

definition routing_key :: "string \<Rightarrow> string \<Rightarrow> string" where
  "routing_key tenantId segment = tenantId @ ''.'' @ segment"

text \<open>\<open>key.split('.')\<close> and \<open>parts.join('.')\<close>.\<close>

fun split_dot :: "string \<Rightarrow> string list" where
  "split_dot [] = [[]]"
| "split_dot (c # cs) =
     (if c = CHR ''.'' then [] # split_dot cs
      else (case split_dot cs of [] \<Rightarrow> [[c]] | p # ps \<Rightarrow> (c # p) # ps))"

fun join_dot :: "string list \<Rightarrow> string" where
  "join_dot [] = []"
| "join_dot [p] = p"
| "join_dot (p # q # ps) = p @ ''.'' @ join_dot (q # ps)"

text \<open>\<open>row.routingKey.split('.').slice(1).join('.')\<close>\<close>

definition target_queue :: "string \<Rightarrow> string" where
  "target_queue key = join_dot (drop 1 (split_dot key))"

lemma split_dot_not_Nil [simp]: "split_dot s \<noteq> []"
  by (cases s) (auto split: list.splits)

lemma join_split_dot [simp]: "join_dot (split_dot s) = s"
proof (induction s)
  case (Cons c cs)
  then show ?case by (cases "split_dot cs"; cases "tl (split_dot cs)") (auto split: list.splits)
qed simp

lemma split_dot_append:
  "CHR ''.'' \<notin> set t \<Longrightarrow> split_dot (t @ ''.'' @ s) = t # split_dot s"
  by (induction t) auto

lemma step_value_no_dot: "CHR ''.'' \<notin> set (step_value s)"
  by (cases s) simp_all

lemma step_value_inject [simp]: "step_value s = step_value s' \<longleftrightarrow> s = s'"
  by (cases s; cases s') simp_all

text \<open>Names of queues are compared by their step and their suffix.\<close>

lemma append_dot_inject:
  assumes "CHR ''.'' \<notin> set s" "CHR ''.'' \<notin> set s'"
  shows "s @ CHR ''.'' # u = s' @ CHR ''.'' # u' \<longleftrightarrow> s = s' \<and> u = u'"
proof
  assume e: "s @ CHR ''.'' # u = s' @ CHR ''.'' # u'"
  have "takeWhile (\<lambda>c. c \<noteq> CHR ''.'') (t @ CHR ''.'' # v) = t" if "CHR ''.'' \<notin> set t" for t v
    using that by (induction t) auto
  with assms e have "s = s'" by metis
  with e show "s = s' \<and> u = u'" by simp
qed simp

lemma origin_value_inject [simp]: "origin_value q = origin_value q' \<longleftrightarrow> q = q'"
  by (cases q; cases q') simp_all

lemma origin_value_not_suffix [simp]:
  "origin_value q \<noteq> ''dispatch''" "origin_value q \<noteq> ''batch''"
  "''dispatch'' \<noteq> origin_value q" "''batch'' \<noteq> origin_value q"
  by (cases q; simp)+

lemma queue_name_inject [simp]:
  "dispatch_step s = dispatch_step s' \<longleftrightarrow> s = s'"
  "batch_step s = batch_step s' \<longleftrightarrow> s = s'"
  "origin_step s q = origin_step s' q' \<longleftrightarrow> s = s' \<and> q = q'"
  by (simp_all add: dispatch_step_def batch_step_def origin_step_def append_dot_inject step_value_no_dot)

lemma queue_name_distinct [simp]:
  "dispatch_step s \<noteq> batch_step s'" "batch_step s' \<noteq> dispatch_step s"
  "dispatch_step s \<noteq> origin_step s' q" "origin_step s' q \<noteq> dispatch_step s"
  "batch_step s \<noteq> origin_step s' q" "origin_step s' q \<noteq> batch_step s"
  by (simp_all add: dispatch_step_def batch_step_def origin_step_def append_dot_inject step_value_no_dot)

lemma step_value_not_dotted: "step_value s \<noteq> t @ CHR ''.'' # u"
  using step_value_no_dot [of s] by auto

lemma step_value_not_queue [simp]:
  "step_value s \<noteq> dispatch_step s'" "dispatch_step s' \<noteq> step_value s"
  "step_value s \<noteq> batch_step s'" "batch_step s' \<noteq> step_value s"
  "step_value s \<noteq> origin_step s' q" "origin_step s' q \<noteq> step_value s"
  using step_value_not_dotted [of s] by (auto simp: dispatch_step_def batch_step_def origin_step_def) metis+

lemma special_queue_names [simp]:
  "PIPELINE_START_QUEUE \<noteq> MIGRATE_TENANT_QUEUE"
  "step_value s \<noteq> PIPELINE_START_QUEUE" "step_value s \<noteq> MIGRATE_TENANT_QUEUE"
  "dispatch_step s \<noteq> PIPELINE_START_QUEUE" "dispatch_step s \<noteq> MIGRATE_TENANT_QUEUE"
  "batch_step s \<noteq> PIPELINE_START_QUEUE" "batch_step s \<noteq> MIGRATE_TENANT_QUEUE"
  "origin_step s q \<noteq> PIPELINE_START_QUEUE" "origin_step s q \<noteq> MIGRATE_TENANT_QUEUE"
  by (cases s; simp add: PIPELINE_START_QUEUE_def MIGRATE_TENANT_QUEUE_def dispatch_step_def batch_step_def origin_step_def)+

lemmas special_queue_names' [simp] = special_queue_names [symmetric]

lemmas queue_name_defs = all_step_queue_names_def STEP_QUEUES_def BATCHED_STEPS_def PER_ORIGIN_STEPS_def
  per_origin_queue_names_def

section \<open>Properties\<close>

text \<open>
  The outbox publisher recovers the queue from a routing key: for a tenant slug without a
  dot, splitting the key that the repository built gives back the queue, dots included.
\<close>

lemma target_queue_of_routing_key:
  assumes "CHR ''.'' \<notin> set tenantId"
  shows "target_queue (routing_key tenantId segment) = segment"
  using assms by (simp add: target_queue_def routing_key_def split_dot_append [simplified])

text \<open>
  The queue table is consistent: no name is listed twice, the entry queue of every step and
  every queue a dispatcher or a batch consumer listens to is listed (so its dead letters can be
  replayed), and every listed queue but the start queue has a bounded prefetch.
\<close>

lemma queue_table_consistent:
  "distinct all_step_queue_names \<and>
   (\<forall>step. entry_queue step \<in> set all_step_queue_names) \<and>
   (\<forall>q n. (q, n) \<in> set module_channels \<longrightarrow> q \<in> set all_step_queue_names \<and> n \<noteq> None \<and> n \<noteq> Some 0) \<and>
   set all_step_queue_names = insert PIPELINE_START_QUEUE (fst ` set module_channels)"
proof -
  have 1: "distinct all_step_queue_names" by (simp add: queue_name_defs del: step_value.simps)
  have 2: "entry_queue step \<in> set all_step_queue_names" for step
    by (cases step) (simp_all add: entry_queue_def queue_name_defs del: step_value.simps)
  have 3: "list_all (\<lambda>(q, n). q \<in> set all_step_queue_names \<and> n \<noteq> None \<and> n \<noteq> Some 0) module_channels"
    by (simp add: module_channels_def STEP_PREFETCH_def queue_name_defs del: step_value.simps)
  have "list_all (\<lambda>q. q = PIPELINE_START_QUEUE \<or> q \<in> set (map fst module_channels)) all_step_queue_names"
    "PIPELINE_START_QUEUE \<in> set all_step_queue_names"
    by (simp_all add: module_channels_def queue_name_defs del: step_value.simps)
  then have "set all_step_queue_names \<subseteq> insert PIPELINE_START_QUEUE (fst ` set module_channels)"
    by (auto simp: list_all_iff)
  moreover have "insert PIPELINE_START_QUEUE (fst ` set module_channels) \<subseteq> set all_step_queue_names"
    using 3 \<open>PIPELINE_START_QUEUE \<in> set all_step_queue_names\<close> by (auto simp: list_all_iff)
  ultimately show ?thesis using 1 2 3 by (auto simp: list_all_iff)
qed

end
