(* ===== verification/Pipeline_Runs.thy ===== *)
theory Pipeline_Runs
  imports Prelude
begin

text \<open>
  The bookkeeping of pipeline runs: the table \<open>core.pipeline_run\<close> of
  \<open>src/database/entities/core/pipeline-run.entity.ts\<close>, the operations of
  \<open>src/queue/pipeline-run.service.ts\<close>, and the join of \<open>src/pipeline/pipeline-join.service.ts\<close>.
  The table is a map from its unique key (run, step, batch sequence) to the row; a repository
  call is one step on the table. Instants are milliseconds. The fan-in of a step is a
  transition system whose steps are the calls the workers make, in any interleaving.
\<close>

section \<open>The table\<close>

datatype run_status = RUNNING | COMPLETED | FAILED

record run_row =
  rr_tenantId :: string
  rr_status :: run_status
  rr_attempt :: nat
  rr_batchesPlanned :: "nat option"
  rr_batchesDone :: nat
  rr_lastPublishedBatchSeq :: int
  rr_startedAt :: int
  rr_finishedAt :: "int option"
  rr_error :: "string option"

type_synonym run_key = "string \<times> string \<times> int"
type_synonym run_table = "run_key \<Rightarrow> run_row option"

datatype start_outcome = Started | AlreadyCompleted | InProgress

record batch_increment =
  bi_done :: nat
  bi_planned :: nat
  bi_isLast :: bool

definition DISPATCH_BATCH_SEQ :: int where
  "DISPATCH_BATCH_SEQ = 0"

definition ACTIVE_BATCH_LOCK_MS :: int where
  "ACTIVE_BATCH_LOCK_MS = 5 * 60 * 1000"

text \<open>\<open>repo.update(where, set)\<close> on the unique key: no row, no effect.\<close>

definition update_row :: "run_key \<Rightarrow> (run_row \<Rightarrow> run_row) \<Rightarrow> run_table \<Rightarrow> run_table" where
  "update_row k f t = (case t k of None \<Rightarrow> t | Some r \<Rightarrow> t(k \<mapsto> f r))"

lemma update_row_same [simp, table_simps]: "update_row k f t k = map_option f (t k)"
  by (simp add: update_row_def split: option.splits)

lemma update_row_other [simp, table_simps]: "k' \<noteq> k \<Longrightarrow> update_row k f t k' = t k'"
  by (simp add: update_row_def split: option.splits)

lemma dom_update_row [simp, table_simps]: "dom (update_row k f t) = dom t"
  by (auto simp: update_row_def split: option.splits)

section \<open>The operations of the service\<close>

definition new_run_row :: "string \<Rightarrow> nat \<Rightarrow> int \<Rightarrow> run_row" where
  "new_run_row tenantId attempt now =
     \<lparr>rr_tenantId = tenantId, rr_status = RUNNING, rr_attempt = attempt, rr_batchesPlanned = None,
      rr_batchesDone = 0, rr_lastPublishedBatchSeq = 0, rr_startedAt = now, rr_finishedAt = None,
      rr_error = None\<rparr>"

definition start :: "int \<Rightarrow> string \<Rightarrow> string \<Rightarrow> string \<Rightarrow> nat \<Rightarrow> int \<Rightarrow> run_table \<Rightarrow> run_table \<times> start_outcome" where
  "start now run tenantId step attempt batchSeq t =
     (let k = (run, step, batchSeq) in
      case t k of
        None \<Rightarrow> (t(k \<mapsto> new_run_row tenantId attempt now), Started)
      | Some existing \<Rightarrow>
          if rr_status existing = COMPLETED then (t, AlreadyCompleted)
          else if rr_status existing = RUNNING \<and> now - rr_startedAt existing < ACTIVE_BATCH_LOCK_MS
          then (t, InProgress)
          else (t(k \<mapsto> existing\<lparr>rr_tenantId := tenantId, rr_attempt := attempt, rr_status := RUNNING,
                     rr_startedAt := now, rr_finishedAt := None, rr_error := None\<rparr>), Started))"

text \<open>
  The two statements of \<open>start\<close> apart: the \<open>findOne\<close> with the early returns on the row it read,
  and the write chosen by that row. Nothing joins them (no transaction, no lock, no condition
  on the status), so a write may meet a row that has changed since. The update sets its columns
  whatever the row holds now; the insert fails on the unique key when the row exists by now.
\<close>

definition start_check :: "int \<Rightarrow> run_row option \<Rightarrow> start_outcome option" where
  "start_check now existing =
     (case existing of
        None \<Rightarrow> None
      | Some e \<Rightarrow>
          if rr_status e = COMPLETED then Some AlreadyCompleted
          else if rr_status e = RUNNING \<and> now - rr_startedAt e < ACTIVE_BATCH_LOCK_MS then Some InProgress
          else None)"

definition insert_run_row :: "run_key \<Rightarrow> run_row \<Rightarrow> run_table \<Rightarrow> run_table outcome" where
  "insert_run_row k r t = (if t k = None then Inr (t(k \<mapsto> r)) else Inl (Error ''23505''))"

definition start_write ::
  "int \<Rightarrow> string \<Rightarrow> string \<Rightarrow> string \<Rightarrow> nat \<Rightarrow> int \<Rightarrow> run_row option \<Rightarrow> run_table \<Rightarrow> run_table outcome" where
  "start_write now run tenantId step attempt batchSeq existing t =
     (case existing of
        None \<Rightarrow> insert_run_row (run, step, batchSeq) (new_run_row tenantId attempt now) t
      | Some _ \<Rightarrow>
          Inr (update_row (run, step, batchSeq)
            (\<lambda>r. r\<lparr>rr_tenantId := tenantId, rr_attempt := attempt, rr_status := RUNNING,
                   rr_startedAt := now, rr_finishedAt := None, rr_error := None\<rparr>) t))"

lemma start_is_check_then_write:
  "start now run tenantId step attempt s t =
     (case start_check now (t (run, step, s)) of
        Some out \<Rightarrow> (t, out)
      | None \<Rightarrow> (case start_write now run tenantId step attempt s (t (run, step, s)) t of
          Inr t' \<Rightarrow> (t', Started)
        | Inl e \<Rightarrow> (t, Started)))"
  by (auto simp: start_def start_check_def start_write_def insert_run_row_def update_row_def Let_def
      split: option.splits)

lemma uninterrupted_start_writes:
  "\<exists>t'. start_write now run tenantId step attempt s (t (run, step, s)) t = Inr t'"
  by (auto simp: start_write_def insert_run_row_def split: option.splits)

definition complete :: "int \<Rightarrow> string \<Rightarrow> string \<Rightarrow> int \<Rightarrow> run_table \<Rightarrow> run_table" where
  "complete now run step batchSeq =
     update_row (run, step, batchSeq) (\<lambda>r. r\<lparr>rr_status := COMPLETED, rr_finishedAt := Some now\<rparr>)"

definition fail_run :: "int \<Rightarrow> string \<Rightarrow> string \<Rightarrow> string \<Rightarrow> int \<Rightarrow> run_table \<Rightarrow> run_table" where
  "fail_run now run step err batchSeq =
     update_row (run, step, batchSeq)
       (\<lambda>r. r\<lparr>rr_status := FAILED, rr_finishedAt := Some now, rr_error := Some (take 4000 err)\<rparr>)"

definition record_dispatch :: "string \<Rightarrow> string \<Rightarrow> nat \<Rightarrow> run_table \<Rightarrow> run_table" where
  "record_dispatch run step planned =
     update_row (run, step, DISPATCH_BATCH_SEQ) (\<lambda>r. r\<lparr>rr_batchesPlanned := Some planned\<rparr>)"

definition start_or_restart_dispatch ::
  "int \<Rightarrow> string \<Rightarrow> string \<Rightarrow> string \<Rightarrow> nat \<Rightarrow> run_table \<Rightarrow> run_table \<times> start_outcome" where
  "start_or_restart_dispatch now run tenantId step attempt t =
     (let k = (run, step, DISPATCH_BATCH_SEQ) in
      case t k of
        None \<Rightarrow> (t(k \<mapsto> new_run_row tenantId attempt now), Started)
      | Some existing \<Rightarrow>
          if rr_status existing = COMPLETED then (t, AlreadyCompleted)
          else (t(k \<mapsto> existing\<lparr>rr_status := RUNNING, rr_attempt := attempt, rr_startedAt := now,
                     rr_finishedAt := None, rr_error := None\<rparr>), Started))"

text \<open>The same two statements of \<open>startOrRestartDispatch\<close>.\<close>

definition restart_check :: "run_row option \<Rightarrow> start_outcome option" where
  "restart_check existing =
     (case existing of
        None \<Rightarrow> None
      | Some e \<Rightarrow> if rr_status e = COMPLETED then Some AlreadyCompleted else None)"

definition restart_write ::
  "int \<Rightarrow> string \<Rightarrow> string \<Rightarrow> string \<Rightarrow> nat \<Rightarrow> run_row option \<Rightarrow> run_table \<Rightarrow> run_table outcome" where
  "restart_write now run tenantId step attempt existing t =
     (case existing of
        None \<Rightarrow> insert_run_row (run, step, DISPATCH_BATCH_SEQ) (new_run_row tenantId attempt now) t
      | Some _ \<Rightarrow>
          Inr (update_row (run, step, DISPATCH_BATCH_SEQ)
            (\<lambda>r. r\<lparr>rr_status := RUNNING, rr_attempt := attempt, rr_startedAt := now,
                   rr_finishedAt := None, rr_error := None\<rparr>) t))"

lemma restart_is_check_then_write:
  "start_or_restart_dispatch now run tenantId step attempt t =
     (case restart_check (t (run, step, DISPATCH_BATCH_SEQ)) of
        Some out \<Rightarrow> (t, out)
      | None \<Rightarrow> (case restart_write now run tenantId step attempt (t (run, step, DISPATCH_BATCH_SEQ)) t of
          Inr t' \<Rightarrow> (t', Started)
        | Inl e \<Rightarrow> (t, Started)))"
  by (auto simp: start_or_restart_dispatch_def restart_check_def restart_write_def insert_run_row_def
      update_row_def Let_def split: option.splits)

lemma uninterrupted_restart_writes:
  "\<exists>t'. restart_write now run tenantId step attempt (t (run, step, DISPATCH_BATCH_SEQ)) t = Inr t'"
  by (auto simp: restart_write_def insert_run_row_def split: option.splits)

definition is_batch_completed :: "string \<Rightarrow> string \<Rightarrow> int \<Rightarrow> run_table \<Rightarrow> bool" where
  "is_batch_completed run step batchSeq t =
     (case t (run, step, batchSeq) of None \<Rightarrow> False | Some r \<Rightarrow> rr_status r = COMPLETED)"

text \<open>The set of completed batches, as its membership test.\<close>

definition completed_batch_seqs :: "string \<Rightarrow> string \<Rightarrow> run_table \<Rightarrow> int \<Rightarrow> bool" where
  "completed_batch_seqs run step t s = (s > DISPATCH_BATCH_SEQ \<and> is_batch_completed run step s t)"

definition last_published_batch_seq :: "string \<Rightarrow> string \<Rightarrow> run_table \<Rightarrow> int" where
  "last_published_batch_seq run step t =
     (case t (run, step, DISPATCH_BATCH_SEQ) of None \<Rightarrow> 0 | Some r \<Rightarrow> rr_lastPublishedBatchSeq r)"

definition update_last_published_batch_seq :: "string \<Rightarrow> string \<Rightarrow> int \<Rightarrow> run_table \<Rightarrow> run_table" where
  "update_last_published_batch_seq run step batchSeq =
     update_row (run, step, DISPATCH_BATCH_SEQ) (\<lambda>r. r\<lparr>rr_lastPublishedBatchSeq := batchSeq\<rparr>)"

text \<open>
  One SQL statement: the batch row goes from running to completed, and the dispatch row's
  counter grows by the number of rows that did. Both updates read the table as it was before
  the statement.
\<close>

definition complete_batch_and_increment ::
  "int \<Rightarrow> string \<Rightarrow> string \<Rightarrow> int \<Rightarrow> run_table \<Rightarrow> (run_table \<times> batch_increment) outcome" where
  "complete_batch_and_increment now run step batchSeq t =
     (let kb = (run, step, batchSeq);
          k0 = (run, step, DISPATCH_BATCH_SEQ);
          hit = (case t kb of None \<Rightarrow> False | Some r \<Rightarrow> rr_status r = RUNNING);
          t1 = (if hit then update_row kb (\<lambda>r. r\<lparr>rr_status := COMPLETED, rr_finishedAt := Some now\<rparr>) t else t)
      in (case t k0 of
            None \<Rightarrow> Inl (Error ''completeBatchAndIncrement: no dispatch row'')
          | Some d \<Rightarrow>
              let n = rr_batchesDone d + (if hit then 1 else 0);
                  planned = (case rr_batchesPlanned d of None \<Rightarrow> 0 | Some p \<Rightarrow> p)
              in Inr (update_row k0 (\<lambda>r. r\<lparr>rr_batchesDone := n\<rparr>) t1,
                      \<lparr>bi_done = n, bi_planned = planned, bi_isLast = (planned > 0 \<and> n \<ge> planned)\<rparr>)))"

section \<open>The join of the two stock branches\<close>

datatype join_branch = StockA | StockB
datatype join_result = Wait | Fire

definition branch_step :: "join_branch \<Rightarrow> string" where
  "branch_step b = (case b of StockA \<Rightarrow> ''branch.stock-a'' | StockB \<Rightarrow> ''branch.stock-b'')"

definition mark_branch_complete ::
  "int \<Rightarrow> string \<Rightarrow> string \<Rightarrow> join_branch \<Rightarrow> run_table \<Rightarrow> run_table \<times> join_result" where
  "mark_branch_complete now run tenantId branch t =
     (let k = (run, branch_step branch, DISPATCH_BATCH_SEQ);
          t1 = (case t k of
                  Some r \<Rightarrow> t
                | None \<Rightarrow> t(k \<mapsto> (new_run_row tenantId 1 now)\<lparr>rr_status := COMPLETED, rr_finishedAt := Some now\<rparr>));
          n = length (filter (\<lambda>b. is_batch_completed run (branch_step b) DISPATCH_BATCH_SEQ t1) [StockA, StockB])
      in (t1, if n \<ge> 2 then Fire else Wait))"

section \<open>The lock of a running batch\<close>

definition try_start :: "string \<Rightarrow> string \<Rightarrow> string \<Rightarrow> nat \<Rightarrow> int \<Rightarrow> int \<Rightarrow> run_table \<Rightarrow> run_table \<times> bool" where
  "try_start run tenantId step attempt batchSeq now t =
     (case start now run tenantId step attempt batchSeq t of (t', out) \<Rightarrow> (t', out = Started))"

lemma start_Started_row:
  assumes "start now run tenantId step attempt batchSeq t = (t', Started)"
  shows "\<exists>r. t' (run, step, batchSeq) = Some r \<and> rr_status r = RUNNING \<and> rr_startedAt r = now"
  using assms by (auto simp: start_def Let_def new_run_row_def split: option.splits if_splits)

lemma start_in_progress:
  assumes "t (run, step, batchSeq) = Some r" "rr_status r = RUNNING" "now' - rr_startedAt r < ACTIVE_BATCH_LOCK_MS"
  shows "start now' run tenantId' step attempt' batchSeq t = (t, InProgress)"
  using assms by (simp add: start_def)

interpretation start_lease: lease "try_start run tenantId step attempt batchSeq" ACTIVE_BATCH_LOCK_MS
  for run tenantId step attempt batchSeq
proof
  fix now t t' now'
  assume "try_start run tenantId step attempt batchSeq now t = (t', True)"
    and "now \<le> now'" and w: "now' - now < ACTIVE_BATCH_LOCK_MS"
  then have "start now run tenantId step attempt batchSeq t = (t', Started)"
    by (auto simp: try_start_def split: prod.splits)
  from start_Started_row [OF this] show "try_start run tenantId step attempt batchSeq now' t' = (t', False)"
    using w start_in_progress by (auto simp: try_start_def)
qed

text \<open>
  Of a burst of deliveries of one batch within the five-minute lock, each of which starts after
  the one before has written, and while no worker closes or fails it, at most the first starts
  it; every later one is refused and leaves the table alone.
\<close>

lemma start_excludes_duplicates:
  assumes "start now run tenantId step attempt batchSeq t = (t', Started)"
    and "\<forall>u \<in> set ts. now \<le> u \<and> u - now < ACTIVE_BATCH_LOCK_MS"
  shows "claim_all (try_start run tenantId step attempt batchSeq) (now # ts) t =
    (t', True # replicate (length ts) False)"
  using assms by (intro start_lease.burst_has_one_winner) (simp_all add: try_start_def)

section \<open>The fan-in of a step\<close>

definition completed_set :: "string \<Rightarrow> string \<Rightarrow> run_table \<Rightarrow> int set" where
  "completed_set run step t = {s. completed_batch_seqs run step t s}"

text \<open>
  The statements that touch the rows of one (run, step) with batches \<open>1..n\<close>, in any interleaving.
  Beside the table stand the calls of \<open>start\<close> and \<open>startOrRestartDispatch\<close> between their two
  statements, by worker, with the row each has read. A call may also be lost there (a crash,
  or the insert refused by the unique key). With \<open>guarded\<close> neither a failure nor the write of
  a start lands on a row that is already completed; the code checks neither, so both relations
  are of interest.
\<close>

record fan_world =
  fw_table :: run_table
  fw_starts :: "nat \<Rightarrow> (int \<times> run_row option) option"
  fw_restarts :: "nat \<Rightarrow> run_row option option"

definition fan_in_init :: "string \<Rightarrow> string \<Rightarrow> fan_world \<Rightarrow> bool" where
  "fan_in_init run step w \<longleftrightarrow> (\<forall>s. fw_table w (run, step, s) = None) \<and>
     fw_starts w = Map.empty \<and> fw_restarts w = Map.empty"

inductive fan_in_step :: "bool \<Rightarrow> nat \<Rightarrow> string \<Rightarrow> string \<Rightarrow> fan_world \<Rightarrow> fan_world \<Rightarrow> bool"
  for guarded n run step where
  start_reads: "1 \<le> s \<Longrightarrow> s \<le> int n \<Longrightarrow> fw_starts w k = None \<Longrightarrow>
     start_check now (fw_table w (run, step, s)) = None \<Longrightarrow>
     fan_in_step guarded n run step w (w\<lparr>fw_starts := (fw_starts w)(k \<mapsto> (s, fw_table w (run, step, s)))\<rparr>)"
| start_writes: "fw_starts w k = Some (s, existing) \<Longrightarrow>
     (guarded \<longrightarrow> \<not> is_batch_completed run step s (fw_table w)) \<Longrightarrow>
     start_write now run tenantId step attempt s existing (fw_table w) = Inr t' \<Longrightarrow>
     fan_in_step guarded n run step w (w\<lparr>fw_table := t', fw_starts := (fw_starts w)(k := None)\<rparr>)"
| start_lost: "fan_in_step guarded n run step w (w\<lparr>fw_starts := (fw_starts w)(k := None)\<rparr>)"
| batch_close: "1 \<le> s \<Longrightarrow> s \<le> int n \<Longrightarrow>
     complete_batch_and_increment now run step s (fw_table w) = Inr (t', inc) \<Longrightarrow>
     fan_in_step guarded n run step w (w\<lparr>fw_table := t'\<rparr>)"
| batch_fail: "1 \<le> s \<Longrightarrow> s \<le> int n \<Longrightarrow> (guarded \<longrightarrow> \<not> is_batch_completed run step s (fw_table w)) \<Longrightarrow>
     fan_in_step guarded n run step w (w\<lparr>fw_table := fail_run now run step err s (fw_table w)\<rparr>)"
| restart_reads: "fw_restarts w k = None \<Longrightarrow>
     restart_check (fw_table w (run, step, DISPATCH_BATCH_SEQ)) = None \<Longrightarrow>
     fan_in_step guarded n run step w
       (w\<lparr>fw_restarts := (fw_restarts w)(k \<mapsto> fw_table w (run, step, DISPATCH_BATCH_SEQ))\<rparr>)"
| restart_writes: "fw_restarts w k = Some existing \<Longrightarrow>
     restart_write now run tenantId step attempt existing (fw_table w) = Inr t' \<Longrightarrow>
     fan_in_step guarded n run step w (w\<lparr>fw_table := t', fw_restarts := (fw_restarts w)(k := None)\<rparr>)"
| restart_lost: "fan_in_step guarded n run step w (w\<lparr>fw_restarts := (fw_restarts w)(k := None)\<rparr>)"
| dispatch_plan: "fan_in_step guarded n run step w (w\<lparr>fw_table := record_dispatch run step n (fw_table w)\<rparr>)"
| dispatch_checkpoint: "fan_in_step guarded n run step w
     (w\<lparr>fw_table := update_last_published_batch_seq run step s (fw_table w)\<rparr>)"
| dispatch_complete: "fan_in_step guarded n run step w
     (w\<lparr>fw_table := complete now run step DISPATCH_BATCH_SEQ (fw_table w)\<rparr>)"
| dispatch_fail: "fan_in_step guarded n run step w
     (w\<lparr>fw_table := fail_run now run step err DISPATCH_BATCH_SEQ (fw_table w)\<rparr>)"
| elsewhere: "(\<And>s. t' (run, step, s) = fw_table w (run, step, s)) \<Longrightarrow>
     fan_in_step guarded n run step w (w\<lparr>fw_table := t'\<rparr>)"

inductive_cases fan_in_stepE: "fan_in_step guarded n run step w w'"

text \<open>The counter of the dispatch row against the completed rows.\<close>

definition fan_in_ok :: "bool \<Rightarrow> nat \<Rightarrow> string \<Rightarrow> string \<Rightarrow> run_table \<Rightarrow> bool" where
  "fan_in_ok guarded n run step t =
     (completed_set run step t \<subseteq> {1..int n} \<and>
      (case t (run, step, DISPATCH_BATCH_SEQ) of
         None \<Rightarrow> completed_set run step t = {}
       | Some d \<Rightarrow> (if guarded then rr_batchesDone d = card (completed_set run step t)
                   else card (completed_set run step t) \<le> rr_batchesDone d) \<and>
                  rr_batchesPlanned d \<in> {None, Some n}))"

lemma completed_set_cong:
  "(\<And>s. 1 \<le> s \<Longrightarrow> t' (run, step, s) = t (run, step, s)) \<Longrightarrow> completed_set run step t' = completed_set run step t"
  by (auto simp: completed_set_def completed_batch_seqs_def is_batch_completed_def DISPATCH_BATCH_SEQ_def)

lemma completed_set_upd:
  assumes "1 \<le> s" "\<And>u. 1 \<le> u \<Longrightarrow> u \<noteq> s \<Longrightarrow> t' (run, step, u) = t (run, step, u)"
  shows "completed_set run step t' =
    (if is_batch_completed run step s t' then insert s (completed_set run step t) else completed_set run step t - {s})"
proof -
  have other: "is_batch_completed run step u t' = is_batch_completed run step u t" if "1 \<le> u" "u \<noteq> s" for u
    using assms(2) [OF that] by (simp add: is_batch_completed_def)
  have o: "u \<in> completed_set run step t' \<longleftrightarrow> u \<in> completed_set run step t" if "u \<noteq> s" for u
    using other [OF _ that] by (auto simp: completed_set_def completed_batch_seqs_def DISPATCH_BATCH_SEQ_def)
  have m: "s \<in> completed_set run step t' \<longleftrightarrow> is_batch_completed run step s t'"
    using assms(1) by (simp add: completed_set_def completed_batch_seqs_def DISPATCH_BATCH_SEQ_def)
  show ?thesis
  proof (rule set_eqI)
    fix u
    show "u \<in> completed_set run step t' \<longleftrightarrow> u \<in> (if is_batch_completed run step s t'
        then insert s (completed_set run step t) else completed_set run step t - {s})"
      by (cases "u = s") (simp_all add: o m)
  qed
qed

lemma fan_in_ok_cong:
  assumes "fan_in_ok guarded n run step t"
    and "completed_set run step t' = completed_set run step t"
    and "\<And>d'. t' (run, step, DISPATCH_BATCH_SEQ) = Some d' \<Longrightarrow>
      (case t (run, step, DISPATCH_BATCH_SEQ) of
         None \<Rightarrow> rr_batchesDone d' = 0 \<and> rr_batchesPlanned d' = None
       | Some d \<Rightarrow> rr_batchesDone d' = rr_batchesDone d \<and> rr_batchesPlanned d' \<in> {rr_batchesPlanned d, Some n})"
    and "t' (run, step, DISPATCH_BATCH_SEQ) = None \<Longrightarrow> t (run, step, DISPATCH_BATCH_SEQ) = None"
  shows "fan_in_ok guarded n run step t'"
  using assms by (auto simp: fan_in_ok_def split: option.splits if_splits)

lemma start_write_row:
  assumes "start_write now run tenantId step attempt s existing t = Inr t'"
  shows "\<not> is_batch_completed run step s t'"
    and "u \<noteq> s \<Longrightarrow> t' (run, step, u) = t (run, step, u)"
  using assms
  by (auto simp: start_write_def insert_run_row_def is_batch_completed_def new_run_row_def
      split: option.splits if_splits)

lemma start_check_passes:
  "start_check now (t (run, step, s)) = None \<Longrightarrow> \<not> is_batch_completed run step s t"
  by (auto simp: start_check_def is_batch_completed_def split: option.splits if_splits)

lemma close_cases:
  assumes "complete_batch_and_increment now run step s t = Inr (t', inc)" "1 \<le> s"
  obtains d where "t (run, step, DISPATCH_BATCH_SEQ) = Some d"
    and "is_batch_completed run step s t' = (is_batch_completed run step s t \<or>
           (\<exists>r. t (run, step, s) = Some r \<and> rr_status r = RUNNING))"
    and "t' (run, step, DISPATCH_BATCH_SEQ) = Some (d\<lparr>rr_batchesDone := bi_done inc\<rparr>)"
    and "bi_done inc = rr_batchesDone d + (if \<exists>r. t (run, step, s) = Some r \<and> rr_status r = RUNNING then 1 else 0)"
    and "bi_planned inc = (case rr_batchesPlanned d of None \<Rightarrow> 0 | Some p \<Rightarrow> p)"
    and "bi_isLast inc = (bi_planned inc > 0 \<and> bi_done inc \<ge> bi_planned inc)"
    and "\<forall>u. 1 \<le> u \<longrightarrow> u \<noteq> s \<longrightarrow> t' (run, step, u) = t (run, step, u)"
proof -
  have s0: "s \<noteq> DISPATCH_BATCH_SEQ" using assms(2) by (simp add: DISPATCH_BATCH_SEQ_def)
  have u0: "1 \<le> u \<Longrightarrow> u \<noteq> DISPATCH_BATCH_SEQ" for u by (simp add: DISPATCH_BATCH_SEQ_def)
  obtain d where d: "t (run, step, DISPATCH_BATCH_SEQ) = Some d"
    using assms(1) by (auto simp: complete_batch_and_increment_def Let_def split: option.splits)
  show thesis
  proof (cases "\<exists>r. t (run, step, s) = Some r \<and> rr_status r = RUNNING")
    case True
    then obtain r where r: "t (run, step, s) = Some r" "rr_status r = RUNNING" by blast
    show thesis
      by (rule that [OF d]; insert assms(1) s0 u0 d r)
        (auto simp: complete_batch_and_increment_def Let_def is_batch_completed_def)
  next
    case False
    then have hit: "(case t (run, step, s) of None \<Rightarrow> False | Some r \<Rightarrow> rr_status r = RUNNING) = False"
      by (auto split: option.splits)
    define p where "p = (case rr_batchesPlanned d of None \<Rightarrow> 0 | Some p \<Rightarrow> p)"
    have t': "t' = update_row (run, step, DISPATCH_BATCH_SEQ) (\<lambda>r. r\<lparr>rr_batchesDone := rr_batchesDone d\<rparr>) t"
      and inc: "inc = \<lparr>bi_done = rr_batchesDone d, bi_planned = p, bi_isLast = (p > 0 \<and> rr_batchesDone d \<ge> p)\<rparr>"
      using assms(1) unfolding complete_batch_and_increment_def Let_def hit d p_def by simp_all
    have o: "t' (run, step, u) = t (run, step, u)" if "u \<noteq> DISPATCH_BATCH_SEQ" for u
      using that by (simp add: t')
    show thesis
    proof (rule that [OF d])
      show "is_batch_completed run step s t' = (is_batch_completed run step s t \<or>
           (\<exists>r. t (run, step, s) = Some r \<and> rr_status r = RUNNING))"
        using False o [OF s0] by (auto simp: is_batch_completed_def)
    qed (use False d o u0 in \<open>simp_all add: inc p_def t'\<close>)
  qed
qed

lemma close_keeps_ok:
  assumes "complete_batch_and_increment now run step s t = Inr (t', inc)" "1 \<le> s" "s \<le> int n"
    and ok: "fan_in_ok guarded n run step t"
  shows "fan_in_ok guarded n run step t'"
proof -
  obtain d where d: "t (run, step, DISPATCH_BATCH_SEQ) = Some d"
    and c: "is_batch_completed run step s t' = (is_batch_completed run step s t \<or>
           (\<exists>r. t (run, step, s) = Some r \<and> rr_status r = RUNNING))"
    and d': "t' (run, step, DISPATCH_BATCH_SEQ) = Some (d\<lparr>rr_batchesDone := bi_done inc\<rparr>)"
    and n: "bi_done inc = rr_batchesDone d + (if \<exists>r. t (run, step, s) = Some r \<and> rr_status r = RUNNING then 1 else 0)"
    and "bi_planned inc = (case rr_batchesPlanned d of None \<Rightarrow> 0 | Some p \<Rightarrow> p)"
    and "bi_isLast inc = (bi_planned inc > 0 \<and> bi_done inc \<ge> bi_planned inc)"
    and o': "\<forall>u. 1 \<le> u \<longrightarrow> u \<noteq> s \<longrightarrow> t' (run, step, u) = t (run, step, u)"
    by (rule close_cases [OF assms(1,2)])
  have o: "\<And>u. 1 \<le> u \<Longrightarrow> u \<noteq> s \<Longrightarrow> t' (run, step, u) = t (run, step, u)" using o' by blast
  let ?C = "completed_set run step t"
  have fin: "finite ?C" using ok finite_subset [of ?C "{1..int n}"] by (simp add: fan_in_ok_def)
  have mem: "s \<in> ?C \<longleftrightarrow> is_batch_completed run step s t"
    using assms(2) by (simp add: completed_set_def completed_batch_seqs_def DISPATCH_BATCH_SEQ_def)
  show ?thesis
  proof (cases "\<exists>r. t (run, step, s) = Some r \<and> rr_status r = RUNNING")
    case True
    then have "\<not> is_batch_completed run step s t" by (auto simp: is_batch_completed_def)
    moreover have "completed_set run step t' = insert s ?C"
      using completed_set_upd [OF assms(2), of t' run step t] o c True by simp
    ultimately show ?thesis
      using ok d d' n True fin mem assms(2,3) by (simp add: fan_in_ok_def)
  next
    case False
    then have "completed_set run step t' = ?C"
      using completed_set_upd [OF assms(2), of t' run step t] o c mem by auto
    then show ?thesis using ok d d' n False by (simp add: fan_in_ok_def)
  qed
qed

text \<open>A write that leaves the row of batch \<open>s\<close> not completed and the other rows alone.\<close>

lemma open_row_keeps_ok:
  assumes "1 \<le> s" "guarded \<longrightarrow> \<not> is_batch_completed run step s t"
    and open_s: "\<not> is_batch_completed run step s t'"
    and others: "\<And>u. u \<noteq> s \<Longrightarrow> t' (run, step, u) = t (run, step, u)"
    and ok: "fan_in_ok guarded n run step t"
  shows "fan_in_ok guarded n run step t'"
proof -
  let ?C = "completed_set run step t"
  have C: "completed_set run step t' = ?C - {s}"
    using completed_set_upd [OF assms(1), of t' run step t] open_s others by simp
  have d: "t' (run, step, DISPATCH_BATCH_SEQ) = t (run, step, DISPATCH_BATCH_SEQ)"
    using others assms(1) by (simp add: DISPATCH_BATCH_SEQ_def)
  have "guarded \<Longrightarrow> s \<notin> ?C"
    using assms(2) by (simp add: completed_set_def completed_batch_seqs_def)
  moreover have "card (?C - {s}) \<le> card ?C"
    by (rule card_mono) (use ok finite_subset [of ?C "{1..int n}"] in \<open>auto simp: fan_in_ok_def\<close>)
  ultimately show ?thesis
    using ok by (auto simp: fan_in_ok_def C d split: option.splits if_splits)
qed

lemma fail_keeps_ok:
  assumes "1 \<le> s" "guarded \<longrightarrow> \<not> is_batch_completed run step s t"
    and ok: "fan_in_ok guarded n run step t"
  shows "fan_in_ok guarded n run step (fail_run now run step err s t)"
  by (rule open_row_keeps_ok [OF assms(1,2) _ _ ok])
    (auto simp: fail_run_def is_batch_completed_def split: option.splits)

lemma dispatch_update_keeps_ok:
  assumes ok: "fan_in_ok guarded n run step t"
    and f: "\<And>r. rr_batchesDone (f r) = rr_batchesDone r \<and> rr_batchesPlanned (f r) \<in> {rr_batchesPlanned r, Some n}"
  shows "fan_in_ok guarded n run step (update_row (run, step, DISPATCH_BATCH_SEQ) f t)"
proof (rule fan_in_ok_cong [OF ok])
  show "completed_set run step (update_row (run, step, DISPATCH_BATCH_SEQ) f t) = completed_set run step t"
    by (rule completed_set_cong) (simp add: DISPATCH_BATCH_SEQ_def)
next
  fix d'
  assume "update_row (run, step, DISPATCH_BATCH_SEQ) f t (run, step, DISPATCH_BATCH_SEQ) = Some d'"
  then obtain d where "t (run, step, DISPATCH_BATCH_SEQ) = Some d" "d' = f d" by auto
  then show "case t (run, step, DISPATCH_BATCH_SEQ) of
         None \<Rightarrow> rr_batchesDone d' = 0 \<and> rr_batchesPlanned d' = None
       | Some d \<Rightarrow> rr_batchesDone d' = rr_batchesDone d \<and> rr_batchesPlanned d' \<in> {rr_batchesPlanned d, Some n}"
    using f [of d] by simp
qed simp

lemma restart_write_keeps_ok:
  assumes "restart_write now run tenantId step attempt existing t = Inr t'"
    and ok: "fan_in_ok guarded n run step t"
  shows "fan_in_ok guarded n run step t'"
proof (cases existing)
  case None
  then have t': "t' = t((run, step, DISPATCH_BATCH_SEQ) \<mapsto> new_run_row tenantId attempt now)"
    using assms(1) by (simp add: restart_write_def insert_run_row_def split: if_splits)
  show ?thesis
  proof (rule fan_in_ok_cong [OF ok])
    show "completed_set run step t' = completed_set run step t"
      by (rule completed_set_cong) (simp add: t' DISPATCH_BATCH_SEQ_def)
  qed (use assms(1) None in \<open>auto simp: restart_write_def insert_run_row_def new_run_row_def split: if_splits\<close>)
next
  case Some
  then show ?thesis
    using assms(1) dispatch_update_keeps_ok [OF ok] by (auto simp: restart_write_def)
qed

definition starts_in_range :: "fan_world \<Rightarrow> bool" where
  "starts_in_range w \<longleftrightarrow> (\<forall>k s e. fw_starts w k = Some (s, e) \<longrightarrow> 1 \<le> s)"

lemma fan_in_step_keeps_ok:
  assumes "fan_in_step guarded n run step w w'"
    and "fan_in_ok guarded n run step (fw_table w) \<and> starts_in_range w"
  shows "fan_in_ok guarded n run step (fw_table w') \<and> starts_in_range w'"
  using assms
proof (induction rule: fan_in_step.induct)
  case (start_reads s w k now)
  then show ?case by (simp add: starts_in_range_def)
next
  case (start_writes w k s existing now tenantId attempt t')
  then have "1 \<le> s" by (auto simp: starts_in_range_def)
  then have "fan_in_ok guarded n run step t'"
    using open_row_keeps_ok [OF _ start_writes(2) start_write_row [OF start_writes(3)]] start_writes(4) by blast
  with start_writes(4) show ?case by (simp add: starts_in_range_def)
next
  case (batch_close s now w t' inc)
  from close_keeps_ok [OF batch_close(3,1,2)] batch_close(4) show ?case by (simp add: starts_in_range_def)
next
  case (batch_fail s w now err)
  from fail_keeps_ok [OF batch_fail(1,3)] batch_fail(4) show ?case by (simp add: starts_in_range_def)
next
  case (restart_writes w k existing now tenantId attempt t')
  from restart_write_keeps_ok [OF restart_writes(2)] restart_writes(3) show ?case
    by (simp add: starts_in_range_def)
next
  case (elsewhere t' w)
  have "completed_set run step t' = completed_set run step (fw_table w)"
    by (rule completed_set_cong) (rule elsewhere(1))
  with elsewhere have "fan_in_ok guarded n run step t'" by (simp only: fan_in_ok_def)
  with elsewhere(2) show ?case by (simp add: starts_in_range_def)
qed (simp_all add: record_dispatch_def update_last_published_batch_seq_def complete_def fail_run_def
      dispatch_update_keeps_ok starts_in_range_def)

lemma reachable_ok:
  assumes "(fan_in_step guarded n run step)\<^sup>*\<^sup>* w0 w" "fan_in_init run step w0"
  shows "fan_in_ok guarded n run step (fw_table w)"
proof -
  have "fan_in_ok guarded n run step (fw_table w) \<and> starts_in_range w"
    using assms(1)
  proof (induction rule: rtranclp_induct)
    case base
    then show ?case using assms(2)
      by (simp add: fan_in_ok_def completed_set_def completed_batch_seqs_def is_batch_completed_def
          fan_in_init_def starts_in_range_def)
  qed (rule fan_in_step_keeps_ok)
  then show ?thesis ..
qed

text \<open>
  C2. Fan-in, when neither a failure nor the write of a start lands on a completed batch:
  whatever the interleaving of the statements of starts, closes, failures, restarts and
  checkpoints since the run began, a close reports that it is the last one exactly when all
  the batches \<open>1..n\<close> are completed. The code does not enforce the condition:
  \<open>late_failure_closes_early\<close> and \<open>stale_start_closes_early\<close> show what happens without it.
\<close>

theorem fan_in_last_iff_all_completed:
  assumes "(fan_in_step True n run step)\<^sup>*\<^sup>* w0 w" "fan_in_init run step w0"
    and "complete_batch_and_increment now run step s (fw_table w) = Inr (t', inc)" "1 \<le> s" "s \<le> int n"
    and "bi_planned inc = n" "n > 0"
  shows "bi_isLast inc \<longleftrightarrow> completed_set run step t' = {1..int n}"
proof -
  have ok: "fan_in_ok True n run step t'"
    using close_keeps_ok [OF assms(3,4,5) reachable_ok [OF assms(1,2)]] .
  obtain d where "t' (run, step, DISPATCH_BATCH_SEQ) = Some (d\<lparr>rr_batchesDone := bi_done inc\<rparr>)"
    and last: "bi_isLast inc = (bi_planned inc > 0 \<and> bi_done inc \<ge> bi_planned inc)"
    by (rule close_cases [OF assms(3,4)])
  with ok have sub: "completed_set run step t' \<subseteq> {1..int n}" and card: "bi_done inc = card (completed_set run step t')"
    by (auto simp: fan_in_ok_def)
  have "card (completed_set run step t') \<ge> n \<longleftrightarrow> completed_set run step t' = {1..int n}"
    using card_seteq [OF _ sub] by auto
  then show ?thesis using last card assms(6,7) by simp
qed

text \<open>
  C26. Fan-in never stalls: in any interleaving of those statements, also when a late failure or
  a stale start hits a completed batch (the code does not exclude it), the close after which all
  batches are completed reports that it is the last one.
\<close>

theorem fan_in_never_stalls:
  assumes "(fan_in_step False n run step)\<^sup>*\<^sup>* w0 w" "fan_in_init run step w0"
    and "complete_batch_and_increment now run step s (fw_table w) = Inr (t', inc)" "1 \<le> s" "s \<le> int n"
    and "bi_planned inc = n" "n > 0" "completed_set run step t' = {1..int n}"
  shows "bi_isLast inc"
proof -
  have ok: "fan_in_ok False n run step t'"
    using close_keeps_ok [OF assms(3,4,5) reachable_ok [OF assms(1,2)]] .
  obtain d where "t' (run, step, DISPATCH_BATCH_SEQ) = Some (d\<lparr>rr_batchesDone := bi_done inc\<rparr>)"
    and last: "bi_isLast inc = (bi_planned inc > 0 \<and> bi_done inc \<ge> bi_planned inc)"
    by (rule close_cases [OF assms(3,4)])
  with ok have "n \<le> bi_done inc" using assms(8) by (auto simp: fan_in_ok_def)
  then show ?thesis using last assms(6,7) by simp
qed

text \<open>
  A redelivered close changes nothing and reports the same snapshot.
\<close>

lemma close_is_idempotent:
  assumes "complete_batch_and_increment now run step s t = Inr (t', inc)" "1 \<le> s"
  shows "complete_batch_and_increment now' run step s t' = Inr (t', inc)"
proof -
  have s0: "s \<noteq> DISPATCH_BATCH_SEQ" using assms(2) by (simp add: DISPATCH_BATCH_SEQ_def)
  obtain d where d: "t' (run, step, DISPATCH_BATCH_SEQ) = Some (d\<lparr>rr_batchesDone := bi_done inc\<rparr>)"
    and p: "bi_planned inc = (case rr_batchesPlanned d of None \<Rightarrow> 0 | Some p \<Rightarrow> p)"
    and last: "bi_isLast inc = (bi_planned inc > 0 \<and> bi_done inc \<ge> bi_planned inc)"
    by (rule close_cases [OF assms])
  have hit: "(case t' (run, step, s) of None \<Rightarrow> False | Some r \<Rightarrow> rr_status r = RUNNING) = False"
    using assms(1) s0
    by (auto simp: complete_batch_and_increment_def Let_def split: option.splits if_splits)
  have same: "update_row (run, step, DISPATCH_BATCH_SEQ) (\<lambda>r. r\<lparr>rr_batchesDone := bi_done inc\<rparr>) t' = t'"
    using d by (simp add: update_row_def fun_upd_idem)
  show ?thesis
    unfolding complete_batch_and_increment_def Let_def hit using d p last same by simp
qed

section \<open>A run of two batches\<close>

definition idle_world :: "run_table \<Rightarrow> fan_world" where
  "idle_world t = \<lparr>fw_table = t, fw_starts = Map.empty, fw_restarts = Map.empty\<rparr>"

lemma idle_world_simps [simp]: "fw_table (idle_world t) = t" "fan_in_init run step (idle_world Map.empty)"
  by (simp_all add: idle_world_def fan_in_init_def)

lemma fan_in_trans:
  "(fan_in_step guarded n run step)\<^sup>*\<^sup>* a b \<Longrightarrow> (fan_in_step guarded n run step)\<^sup>*\<^sup>* b c \<Longrightarrow>
   (fan_in_step guarded n run step)\<^sup>*\<^sup>* a c"
  by (rule rtranclp_trans)

lemma fan_in_snoc:
  "(fan_in_step guarded n run step)\<^sup>*\<^sup>* a b \<Longrightarrow> fan_in_step guarded n run step b c \<Longrightarrow>
   (fan_in_step guarded n run step)\<^sup>*\<^sup>* a c"
  by (rule rtranclp.rtrancl_into_rtrancl)

text \<open>A start, a restart and a close that nothing interrupts, as steps of the system.\<close>

lemma start_steps:
  assumes "1 \<le> s" "s \<le> int n"
  shows "(fan_in_step guarded n run step)\<^sup>*\<^sup>* (idle_world t) (idle_world (fst (start now run tenantId step attempt s t)))"
proof (cases "start_check now (t (run, step, s))")
  case None
  let ?v = "(idle_world t)\<lparr>fw_starts := [0 \<mapsto> (s, t (run, step, s))]\<rparr>"
  obtain t' where w: "start_write now run tenantId step attempt s (t (run, step, s)) t = Inr t'"
    using uninterrupted_start_writes by blast
  have "fan_in_step guarded n run step (idle_world t) ?v"
    using fan_in_step.start_reads [OF assms, of "idle_world t" 0 now run step guarded] None by (simp add: idle_world_def)
  moreover have "fan_in_step guarded n run step ?v (idle_world t')"
    using fan_in_step.start_writes [of ?v 0 s "t (run, step, s)" guarded run step now tenantId attempt t' n]
      w start_check_passes [of now t run step s] None by (simp add: idle_world_def)
  ultimately show ?thesis
    using None w by (simp add: start_is_check_then_write)
qed (simp add: start_is_check_then_write)

lemma restart_steps:
  "(fan_in_step guarded n run step)\<^sup>*\<^sup>* (idle_world t)
     (idle_world (fst (start_or_restart_dispatch now run tenantId step attempt t)))"
proof (cases "restart_check (t (run, step, DISPATCH_BATCH_SEQ))")
  case None
  let ?v = "(idle_world t)\<lparr>fw_restarts := [0 \<mapsto> t (run, step, DISPATCH_BATCH_SEQ)]\<rparr>"
  obtain t' where w: "restart_write now run tenantId step attempt (t (run, step, DISPATCH_BATCH_SEQ)) t = Inr t'"
    using uninterrupted_restart_writes by blast
  have "fan_in_step guarded n run step (idle_world t) ?v"
    using fan_in_step.restart_reads [of "idle_world t" 0 run step guarded n] None by (simp add: idle_world_def)
  moreover have "fan_in_step guarded n run step ?v (idle_world t')"
    using fan_in_step.restart_writes [of ?v 0 "t (run, step, DISPATCH_BATCH_SEQ)" now run tenantId step attempt t'
        guarded n] w by (simp add: idle_world_def)
  ultimately show ?thesis
    using None w by (simp add: restart_is_check_then_write)
qed (simp add: restart_is_check_then_write)

definition close_or_same :: "int \<Rightarrow> string \<Rightarrow> string \<Rightarrow> int \<Rightarrow> run_table \<Rightarrow> run_table" where
  "close_or_same now run step s t =
     (case complete_batch_and_increment now run step s t of Inl _ \<Rightarrow> t | Inr (t', _) \<Rightarrow> t')"

lemma close_step:
  assumes "1 \<le> s" "s \<le> int n"
  shows "fan_in_step guarded n run step w (w\<lparr>fw_table := close_or_same now run step s (fw_table w)\<rparr>)"
proof (cases "complete_batch_and_increment now run step s (fw_table w)")
  case (Inl e)
  then show ?thesis
    using fan_in_step.elsewhere [where t' = "fw_table w" and w = w] by (simp add: close_or_same_def)
next
  case (Inr p)
  then show ?thesis
    using assms by (cases p) (auto simp: close_or_same_def intro: fan_in_step.batch_close)
qed

definition demo_planned :: run_table where
  "demo_planned = record_dispatch ''r'' ''s'' 2 (fst (start_or_restart_dispatch 0 ''r'' ''acme'' ''s'' 1 Map.empty))"

definition demo_running :: run_table where
  "demo_running =
     fst (start 20 ''r'' ''acme'' ''s'' 1 2 (fst (start 10 ''r'' ''acme'' ''s'' 1 1 demo_planned)))"

lemma demo_running_reachable: "(fan_in_step guarded 2 ''r'' ''s'')\<^sup>*\<^sup>* (idle_world Map.empty) (idle_world demo_running)"
proof -
  let ?t = "fst (start_or_restart_dispatch 0 ''r'' ''acme'' ''s'' 1 Map.empty)"
  have "fan_in_step guarded 2 ''r'' ''s'' (idle_world ?t) (idle_world demo_planned)"
    using fan_in_step.dispatch_plan [of guarded 2 "''r''" "''s''" "idle_world ?t"] by (simp add: idle_world_def demo_planned_def)
  then have "(fan_in_step guarded 2 ''r'' ''s'')\<^sup>*\<^sup>* (idle_world Map.empty) (idle_world demo_planned)"
    by (rule fan_in_snoc [OF restart_steps])
  then show ?thesis
    unfolding demo_running_def by (rule fan_in_trans [OF fan_in_trans [OF _ start_steps] start_steps]) simp_all
qed

definition demo_half :: run_table where
  "demo_half = close_or_same 30 ''r'' ''s'' 1 demo_running"

lemma demo_half_reachable: "(fan_in_step guarded 2 ''r'' ''s'')\<^sup>*\<^sup>* (idle_world Map.empty) (idle_world demo_half)"
proof (rule fan_in_snoc [OF demo_running_reachable])
  show "fan_in_step guarded 2 ''r'' ''s'' (idle_world demo_running) (idle_world demo_half)"
    using close_step [of 1 2 guarded "''r''" "''s''" "idle_world demo_running" 30] by (simp add: idle_world_def demo_half_def)
qed

lemmas run_step_defs = demo_half_def demo_running_def demo_planned_def close_or_same_def start_def
  start_or_restart_dispatch_def record_dispatch_def new_run_row_def complete_batch_and_increment_def
  update_row_def DISPATCH_BATCH_SEQ_def is_batch_completed_def fail_run_def Let_def ACTIVE_BATCH_LOCK_MS_def

lemma demo_last:
  "\<exists>t' inc. complete_batch_and_increment 40 ''r'' ''s'' 2 demo_half = Inr (t', inc) \<and> bi_planned inc = 2 \<and>
     bi_isLast inc \<and> is_batch_completed ''r'' ''s'' 1 t' \<and> is_batch_completed ''r'' ''s'' 2 t'"
  by (simp add: run_step_defs)

theorem fan_in_last_iff_all_completed_witness:
  "\<exists>t' inc. complete_batch_and_increment 40 ''r'' ''s'' 2 demo_half = Inr (t', inc) \<and> bi_isLast inc \<and>
     completed_set ''r'' ''s'' t' = {1..2}"
proof -
  obtain t' inc where c: "complete_batch_and_increment 40 ''r'' ''s'' 2 demo_half = Inr (t', inc)"
    "bi_planned inc = 2" "bi_isLast inc"
    using demo_last by blast
  have "bi_isLast inc \<longleftrightarrow> completed_set ''r'' ''s'' t' = {1..int 2}"
    by (rule fan_in_last_iff_all_completed [where now = 40 and s = 2, OF demo_half_reachable]) (simp_all add: c)
  with c show ?thesis by auto
qed

theorem fan_in_never_stalls_witness:
  "\<exists>t' inc. complete_batch_and_increment 40 ''r'' ''s'' 2 demo_half = Inr (t', inc) \<and> bi_isLast inc"
proof -
  obtain t' inc where c: "complete_batch_and_increment 40 ''r'' ''s'' 2 demo_half = Inr (t', inc)"
    "bi_planned inc = 2" "is_batch_completed ''r'' ''s'' 1 t'" "is_batch_completed ''r'' ''s'' 2 t'"
    using demo_last by blast
  have "fan_in_ok True 2 ''r'' ''s'' (fw_table (idle_world demo_half))"
    by (rule reachable_ok [OF demo_half_reachable]) simp
  then have "fan_in_ok True 2 ''r'' ''s'' t'"
    by (intro close_keeps_ok [OF c(1)]) simp_all
  then have "completed_set ''r'' ''s'' t' \<subseteq> {1..int 2}" by (simp only: fan_in_ok_def)
  moreover have "{1..int 2} = {1, 2}" by auto
  ultimately have "completed_set ''r'' ''s'' t' = {1..int 2}"
    using c(3,4) by (auto simp: completed_set_def completed_batch_seqs_def DISPATCH_BATCH_SEQ_def)
  then have "bi_isLast inc"
    by (intro fan_in_never_stalls [where now = 40 and s = 2, OF demo_half_reachable _ _ _ _ c(2)])
      (simp_all add: c(1))
  with c show ?thesis by blast
qed

text \<open>
  The failure of a stale duplicate, recorded on the completed batch 1, followed by its replay,
  counts batch 1 twice: the step is closed while batch 2 is still running.
\<close>

definition demo_stale :: run_table where
  "demo_stale = fst (start 60 ''r'' ''acme'' ''s'' 1 1 (fail_run 50 ''r'' ''s'' ''boom'' 1 demo_half))"

theorem late_failure_closes_early:
  "(fan_in_step False 2 ''r'' ''s'')\<^sup>*\<^sup>* (idle_world Map.empty) (idle_world demo_stale) \<and>
   (\<exists>t' inc. complete_batch_and_increment 70 ''r'' ''s'' 1 demo_stale = Inr (t', inc) \<and> bi_isLast inc \<and>
      \<not> is_batch_completed ''r'' ''s'' 2 t')"
proof (rule conjI)
  let ?t = "fail_run 50 ''r'' ''s'' ''boom'' 1 demo_half"
  have "fan_in_step False 2 ''r'' ''s'' (idle_world demo_half) (idle_world ?t)"
    using fan_in_step.batch_fail [of 1 2 False "''r''" "''s''" "idle_world demo_half" 50 "''boom''"] by (simp add: idle_world_def)
  from fan_in_snoc [OF demo_half_reachable this]
  show "(fan_in_step False 2 ''r'' ''s'')\<^sup>*\<^sup>* (idle_world Map.empty) (idle_world demo_stale)"
    unfolding demo_stale_def by (rule fan_in_trans [OF _ start_steps]) simp_all
qed (simp add: demo_stale_def run_step_defs)

text \<open>
  A start of batch 1, redelivered after the lock has expired, reads the row while it is running;
  the worker that holds the batch closes it; then the start writes. The completed batch 1 is
  running again and its next close counts it twice: the step is closed while batch 2 is running.
\<close>

definition demo_reopened :: run_table where
  "demo_reopened = update_row (''r'', ''s'', 1)
     (\<lambda>r. r\<lparr>rr_tenantId := ''acme'', rr_attempt := 2, rr_status := RUNNING,
            rr_startedAt := 400001, rr_finishedAt := None, rr_error := None\<rparr>) demo_half"

theorem stale_start_closes_early:
  "(fan_in_step False 2 ''r'' ''s'')\<^sup>*\<^sup>* (idle_world Map.empty) (idle_world demo_reopened) \<and>
   is_batch_completed ''r'' ''s'' 1 demo_half \<and> \<not> is_batch_completed ''r'' ''s'' 1 demo_reopened \<and>
   (\<exists>t' inc. complete_batch_and_increment 400002 ''r'' ''s'' 1 demo_reopened = Inr (t', inc) \<and> bi_isLast inc \<and>
      \<not> is_batch_completed ''r'' ''s'' 2 t')"
proof (intro conjI)
  let ?e = "demo_running (''r'', ''s'', 1)"
  let ?v = "(idle_world demo_running)\<lparr>fw_starts := [0 \<mapsto> (1, ?e)]\<rparr>"
  let ?u = "(idle_world demo_half)\<lparr>fw_starts := [0 \<mapsto> (1, ?e)]\<rparr>"
  have "start_check 400000 ?e = None"
    by (simp add: start_check_def run_step_defs)
  then have r: "fan_in_step False 2 ''r'' ''s'' (idle_world demo_running) ?v"
    using fan_in_step.start_reads [of 1 2 "idle_world demo_running" 0 400000 "''r''" "''s''" False] by (simp add: idle_world_def)
  have c: "fan_in_step False 2 ''r'' ''s'' ?v ?u"
    using close_step [of 1 2 False "''r''" "''s''" ?v 30] by (simp add: idle_world_def demo_half_def)
  have "start_write 400001 ''r'' ''acme'' ''s'' 2 1 ?e demo_half = Inr demo_reopened"
    by (simp add: start_write_def demo_reopened_def demo_running_def demo_planned_def start_def
        start_or_restart_dispatch_def record_dispatch_def update_row_def DISPATCH_BATCH_SEQ_def)
  then have "fan_in_step False 2 ''r'' ''s'' ?u (idle_world demo_reopened)"
    using fan_in_step.start_writes [of ?u 0 1 ?e False "''r''" "''s''" 400001 "''acme''" 2 demo_reopened 2]
    by (simp add: idle_world_def)
  from fan_in_snoc [OF fan_in_snoc [OF fan_in_snoc [OF demo_running_reachable r] c] this]
  show "(fan_in_step False 2 ''r'' ''s'')\<^sup>*\<^sup>* (idle_world Map.empty) (idle_world demo_reopened)" .
qed (simp_all add: demo_reopened_def run_step_defs)

section \<open>The join fires after both branches\<close>

text \<open>
  Whichever branch reports second, and on every replay after that, the join fires; the
  branch that reports while the other is open waits.
\<close>

lemma join_fires_iff_other_branch_done:
  assumes "mark_branch_complete now run tenantId b t = (t', res)"
    and "t (run, branch_step b, DISPATCH_BATCH_SEQ) \<noteq> None \<longrightarrow>
      is_batch_completed run (branch_step b) DISPATCH_BATCH_SEQ t"
    and "b' \<noteq> b"
  shows "is_batch_completed run (branch_step b) DISPATCH_BATCH_SEQ t' \<and>
    (res = Fire \<longleftrightarrow> is_batch_completed run (branch_step b') DISPATCH_BATCH_SEQ t)"
proof -
  have ne: "branch_step b' \<noteq> branch_step b" using assms(3) by (cases b; cases b') (auto simp: branch_step_def)
  have o: "is_batch_completed run (branch_step b') DISPATCH_BATCH_SEQ t' =
      is_batch_completed run (branch_step b') DISPATCH_BATCH_SEQ t"
    using assms(1) ne
    by (auto simp: mark_branch_complete_def Let_def is_batch_completed_def split: option.splits)
  have s: "is_batch_completed run (branch_step b) DISPATCH_BATCH_SEQ t'"
    using assms(1,2)
    by (auto simp: mark_branch_complete_def Let_def is_batch_completed_def split: option.splits)
  have "(res = Fire) = (2 \<le> length (filter (\<lambda>b. is_batch_completed run (branch_step b) DISPATCH_BATCH_SEQ t') [StockA, StockB]))"
    using assms(1) unfolding mark_branch_complete_def Let_def prod.inject
    by (elim conjE) (hypsubst, simp only: simp_thms join_result.simps split: if_splits)
  then show ?thesis
    using o s assms(3) by (cases b; cases b') auto
qed

end
