(* ===== verification/Outbox.thy ===== *)
theory Outbox
  imports Queue_Constants Pipeline_Runs
begin

text \<open>
  Messages, the broker and the transactional outbox: \<open>src/queue/types.ts\<close>,
  \<open>src/database/entities/core/pipeline-outbox.entity.ts\<close>, \<open>src/queue/outbox.repository.ts\<close>,
  \<open>src/queue/outbox-publisher.service.ts\<close>, \<open>src/queue/pipeline-publisher.service.ts\<close> and
  \<open>src/queue/retry.service.ts\<close>. The broker is not under \<open>src/\<close>: all the code knows of a
  publish is whether it was confirmed, which an oracle on the count of calls decides; what was
  confirmed is kept in order. Generated ids and instants are arguments.
\<close>

section \<open>Messages\<close>

record 'p pipeline_message =
  pm_pipelineRunId :: string
  pm_tenantId :: string
  pm_step :: string
  pm_queue :: "string option"
  pm_attempt :: nat
  pm_publishedAt :: int
  pm_payload :: 'p
  pm_batchSeq :: "int option"
  pm_standalone :: "bool option"

text \<open>\<open>message.queue ?? message.step\<close>\<close>

definition routing_segment :: "'p pipeline_message \<Rightarrow> string" where
  "routing_segment m = (case pm_queue m of None \<Rightarrow> pm_step m | Some q \<Rightarrow> q)"

definition is_standalone :: "'p pipeline_message \<Rightarrow> bool" where
  "is_standalone m = (pm_standalone m = Some True)"

definition new_pipeline_message ::
  "int \<Rightarrow> string \<Rightarrow> string \<Rightarrow> string \<Rightarrow> string option \<Rightarrow> 'p \<Rightarrow> int option \<Rightarrow> bool option \<Rightarrow> 'p pipeline_message" where
  "new_pipeline_message now run tenantId step queue payload batchSeq standalone =
     \<lparr>pm_pipelineRunId = run, pm_tenantId = tenantId, pm_step = step, pm_queue = queue, pm_attempt = 1,
      pm_publishedAt = now, pm_payload = payload, pm_batchSeq = batchSeq, pm_standalone = standalone\<rparr>"

section \<open>The broker\<close>

record 'p bus =
  bus_sent :: "(string \<times> string \<times> 'p pipeline_message) list"
  bus_calls :: nat
  bus_confirms :: "nat \<Rightarrow> bool"

definition amqp_publish ::
  "string \<Rightarrow> string \<Rightarrow> 'p pipeline_message \<Rightarrow> 'p bus \<Rightarrow> 'p bus \<times> unit outcome" where
  "amqp_publish exchange key m b =
     (let b' = b\<lparr>bus_calls := bus_calls b + 1\<rparr> in
      if bus_confirms b (bus_calls b)
      then (b'\<lparr>bus_sent := bus_sent b @ [(exchange, key, m)]\<rparr>, Inr ())
      else (b', Inl (Error ''publish failed'')))"

section \<open>The publisher service and the dead-letter router\<close>

definition publish_start ::
  "string option \<Rightarrow> int \<Rightarrow> string \<Rightarrow> string \<Rightarrow> 'p \<Rightarrow> 'p bus \<Rightarrow> 'p bus \<times> string outcome" where
  "publish_start node_env now uuid tenantSlug payload b =
     (let message = new_pipeline_message now uuid tenantSlug PIPELINE_START_QUEUE None payload None None;
          targetQueue = routing_key tenantSlug PIPELINE_START_QUEUE
      in case amqp_publish (EXCHANGE_NAME node_env) targetQueue message b of
           (b', Inl e) \<Rightarrow> (b', Inl e)
         | (b', Inr _) \<Rightarrow> (b', Inr uuid))"

definition publish_single_step ::
  "string option \<Rightarrow> int \<Rightarrow> string \<Rightarrow> string \<Rightarrow> pipeline_step \<Rightarrow> 'p \<Rightarrow> 'p bus \<Rightarrow> 'p bus \<times> string outcome" where
  "publish_single_step node_env now uuid tenantSlug step emptyPayload b =
     (let queue = entry_queue step;
          message = new_pipeline_message now uuid tenantSlug (step_value step) (Some queue) emptyPayload None (Some True)
      in case amqp_publish (EXCHANGE_NAME node_env) (routing_key tenantSlug queue) message b of
           (b', Inl e) \<Rightarrow> (b', Inl e)
         | (b', Inr _) \<Rightarrow> (b', Inr uuid))"

definition publish_step :: "string option \<Rightarrow> 'p pipeline_message \<Rightarrow> 'p bus \<Rightarrow> 'p bus \<times> unit outcome" where
  "publish_step node_env m = amqp_publish (EXCHANGE_NAME node_env) (routing_key (pm_tenantId m) (routing_segment m)) m"

definition republish_on_failure :: "string option \<Rightarrow> 'p pipeline_message \<Rightarrow> 'p bus \<Rightarrow> 'p bus \<times> string outcome" where
  "republish_on_failure node_env m b =
     (case amqp_publish (DLX_NAME node_env) (routing_key (pm_tenantId m) (routing_segment m)) m b of
        (b', Inl e) \<Rightarrow> (b', Inl e)
      | (b', Inr _) \<Rightarrow> (b', Inr ''dlq''))"

section \<open>The outbox table\<close>

record 'p outbox_row =
  ob_id :: nat
  ob_pipelineRunId :: string
  ob_tenantId :: string
  ob_routingKey :: string
  ob_message :: "'p pipeline_message"
  ob_attempts :: nat
  ob_claimedAt :: "int option"
  ob_publishedAt :: "int option"
  ob_createdAt :: int

type_synonym 'p outbox = "'p outbox_row list"

definition CLAIM_GRACE_MS :: int where
  "CLAIM_GRACE_MS = 60000"

definition outbox_row_of :: "int \<Rightarrow> string \<Rightarrow> string \<Rightarrow> nat \<Rightarrow> 'p pipeline_message \<Rightarrow> 'p outbox_row" where
  "outbox_row_of now run tenantId i m =
     \<lparr>ob_id = i, ob_pipelineRunId = run, ob_tenantId = tenantId,
      ob_routingKey = routing_key (pm_tenantId m) (routing_segment m), ob_message = m, ob_attempts = 0,
      ob_claimedAt = None, ob_publishedAt = None, ob_createdAt = now\<rparr>"

text \<open>New rows get the ids after the largest one in the table.\<close>

definition next_id :: "'p outbox \<Rightarrow> nat" where
  "next_id t = foldr (\<lambda>r n. max (Suc (ob_id r)) n) t 0"

definition insert_many :: "int \<Rightarrow> string \<Rightarrow> string \<Rightarrow> 'p pipeline_message list \<Rightarrow> 'p outbox \<Rightarrow> 'p outbox" where
  "insert_many now run tenantId successors t =
     (if successors = [] then t
      else t @ map (\<lambda>(i, m). outbox_row_of now run tenantId i m) (enumerate (next_id t) successors))"

definition insert_batch_messages :: "int \<Rightarrow> string \<Rightarrow> string \<Rightarrow> 'p pipeline_message list \<Rightarrow> 'p outbox \<Rightarrow> 'p outbox" where
  "insert_batch_messages now run tenantId messages t =
     (if messages = [] then t
      else t @ map (\<lambda>(i, m). outbox_row_of now run tenantId i m) (enumerate (next_id t) messages))"

definition claimable :: "int \<Rightarrow> 'p outbox_row \<Rightarrow> bool" where
  "claimable now r =
     (ob_publishedAt r = None \<and>
      (case ob_claimedAt r of None \<Rightarrow> True | Some c \<Rightarrow> c < now - CLAIM_GRACE_MS))"

definition claim_row :: "int \<Rightarrow> 'p outbox_row \<Rightarrow> 'p outbox_row" where
  "claim_row now r = r\<lparr>ob_attempts := ob_attempts r + 1, ob_claimedAt := Some now\<rparr>"

text \<open>
  The claim: the oldest claimable rows up to the limit, updated in the table and returned. SQL
  leaves two orders open, and they are parameters: \<open>scan\<close> ranks the rows created at the same
  instant in the subquery, and \<open>ret\<close> ranks the rows of \<open>UPDATE \<dots> RETURNING\<close>, which need not follow
  \<open>created_at\<close>.
\<close>

definition claim_pending ::
  "('p outbox_row \<Rightarrow> nat) \<Rightarrow> ('p outbox_row \<Rightarrow> nat) \<Rightarrow> int \<Rightarrow> nat \<Rightarrow> 'p outbox \<Rightarrow> 'p outbox \<times> 'p outbox_row list" where
  "claim_pending scan ret now limit t =
     (let chosen = take limit (sort_key ob_createdAt (sort_key scan (filter (claimable now) t)));
          ids = map ob_id chosen
      in (map (\<lambda>r. if ob_id r \<in> set ids then claim_row now r else r) t,
          map (claim_row now) (sort_key ret chosen)))"

definition mark_published :: "int \<Rightarrow> nat \<Rightarrow> 'p outbox \<Rightarrow> 'p outbox" where
  "mark_published now i =
     map (\<lambda>r. if ob_id r = i \<and> ob_publishedAt r = None then r\<lparr>ob_publishedAt := Some now\<rparr> else r)"

section \<open>One tick of the publisher\<close>

text \<open>
  One claimed row: a batch that is already completed is marked without a publish; otherwise the
  row is marked after its publish was confirmed, and a failed publish leaves it claimed.
\<close>

definition publish_row ::
  "string option \<Rightarrow> int \<Rightarrow> run_table \<Rightarrow> 'p outbox_row \<Rightarrow> 'p outbox \<times> 'p bus \<Rightarrow> 'p outbox \<times> 'p bus" where
  "publish_row node_env now rt row s =
     (case s of (t, b) \<Rightarrow>
        let msg = ob_message row in
        if (case pm_batchSeq msg of None \<Rightarrow> False
            | Some q \<Rightarrow> q > 0 \<and> is_batch_completed (ob_pipelineRunId row) (pm_step msg) q rt)
        then (mark_published now (ob_id row) t, b)
        else (case amqp_publish (EXCHANGE_NAME node_env) (ob_routingKey row) msg b of
                (b', Inl e) \<Rightarrow> (t, b')
              | (b', Inr _) \<Rightarrow> (mark_published now (ob_id row) t, b')))"

definition outbox_tick ::
  "('p outbox_row \<Rightarrow> nat) \<Rightarrow> ('p outbox_row \<Rightarrow> nat) \<Rightarrow> string option \<Rightarrow> int \<Rightarrow> nat \<Rightarrow> run_table \<Rightarrow>
   'p outbox \<times> 'p bus \<Rightarrow> 'p outbox \<times> 'p bus" where
  "outbox_tick scan ret node_env now batchSize rt s =
     (case s of (t, b) \<Rightarrow>
        case claim_pending scan ret now batchSize t of (t1, rows) \<Rightarrow>
          foldl (\<lambda>st row. publish_row node_env now rt row st) (t1, b) rows)"

section \<open>What a tick does to the table and the broker\<close>

definition sent_entry :: "string option \<Rightarrow> 'p outbox_row \<Rightarrow> string \<times> string \<times> 'p pipeline_message" where
  "sent_entry node_env r = (EXCHANGE_NAME node_env, ob_routingKey r, ob_message r)"

definition row_batch_done :: "run_table \<Rightarrow> 'p outbox_row \<Rightarrow> bool" where
  "row_batch_done rt r = (case pm_batchSeq (ob_message r) of None \<Rightarrow> False
     | Some q \<Rightarrow> q > 0 \<and> is_batch_completed (ob_pipelineRunId r) (pm_step (ob_message r)) q rt)"

lemma claim_row_simps [simp]:
  "ob_id (claim_row now r) = ob_id r" "ob_message (claim_row now r) = ob_message r"
  "ob_routingKey (claim_row now r) = ob_routingKey r" "ob_publishedAt (claim_row now r) = ob_publishedAt r"
  "ob_claimedAt (claim_row now r) = Some now" "ob_pipelineRunId (claim_row now r) = ob_pipelineRunId r"
  "ob_createdAt (claim_row now r) = ob_createdAt r"
  "sent_entry env (claim_row now r) = sent_entry env r" "row_batch_done rt (claim_row now r) = row_batch_done rt r"
  by (simp_all add: claim_row_def sent_entry_def row_batch_done_def cong: option.case_cong)

lemma publish_row_cases:
  obtains (batch_done) "row_batch_done rt row" "publish_row env now rt row (t, b) = (mark_published now (ob_id row) t, b)"
  | (sent) "\<not> row_batch_done rt row" "bus_confirms b (bus_calls b)"
      "publish_row env now rt row (t, b) = (mark_published now (ob_id row) t,
         b\<lparr>bus_calls := bus_calls b + 1, bus_sent := bus_sent b @ [sent_entry env row]\<rparr>)"
  | (failed) "\<not> row_batch_done rt row" "\<not> bus_confirms b (bus_calls b)"
      "publish_row env now rt row (t, b) = (t, b\<lparr>bus_calls := bus_calls b + 1\<rparr>)"
proof -
  have e: "publish_row env now rt row (t, b) =
      (if row_batch_done rt row then (mark_published now (ob_id row) t, b)
       else if bus_confirms b (bus_calls b) then (mark_published now (ob_id row) t,
         b\<lparr>bus_calls := bus_calls b + 1, bus_sent := bus_sent b @ [sent_entry env row]\<rparr>)
       else (t, b\<lparr>bus_calls := bus_calls b + 1\<rparr>))"
    by (simp add: publish_row_def row_batch_done_def amqp_publish_def Let_def sent_entry_def)
  show thesis
    by (cases "row_batch_done rt row"; cases "bus_confirms b (bus_calls b)") (use e that in auto)
qed

text \<open>A row after a mark: itself, or itself with a publication instant.\<close>

definition publishes :: "'p outbox_row \<Rightarrow> 'p outbox_row \<Rightarrow> bool" where
  "publishes r r' = (r' = r \<or> (ob_publishedAt r = None \<and> (\<exists>now. r' = r\<lparr>ob_publishedAt := Some now\<rparr>)))"

lemma publishes_refl [intro, simp]: "publishes r r"
  by (simp add: publishes_def)

lemma publishes_trans: "publishes r s \<Longrightarrow> publishes s u \<Longrightarrow> publishes r u"
  by (auto simp: publishes_def)

lemma publishes_same:
  "publishes r r' \<Longrightarrow> ob_id r' = ob_id r \<and> sent_entry env r' = sent_entry env r \<and>
     row_batch_done rt r' = row_batch_done rt r \<and> ob_claimedAt r' = ob_claimedAt r \<and> ob_message r' = ob_message r"
  by (auto simp: publishes_def sent_entry_def row_batch_done_def cong: option.case_cong)

lemma mark_published_publishes:
  "list_all2 (\<lambda>r r'. publishes r r' \<and> (ob_publishedAt r' \<noteq> None \<longrightarrow> ob_publishedAt r \<noteq> None \<or> ob_id r = i) \<and>
     (ob_id r = i \<longrightarrow> ob_publishedAt r' \<noteq> None)) t (mark_published now i t)"
  by (induction t) (auto simp: mark_published_def publishes_def)

text \<open>The fold over the claimed rows: which rows get published, and what reaches the broker.\<close>

lemma publish_rows:
  assumes "foldl (\<lambda>st row. publish_row env now rt row st) (t, b) rows = (t', b')"
  shows "list_all2 (\<lambda>r r'. publishes r r' \<and> (ob_publishedAt r' \<noteq> None \<longrightarrow> ob_publishedAt r \<noteq> None \<or>
             (\<exists>row \<in> set rows. ob_id row = ob_id r \<and> (row_batch_done rt row \<or> sent_entry env row \<in> set (bus_sent b')))))
           t t' \<and>
         (\<exists>ext. bus_sent b' = bus_sent b @ ext \<and> set ext \<subseteq> sent_entry env ` set rows)"
  using assms
proof (induction rows arbitrary: t b)
  case Nil
  then show ?case by (auto intro: list_all2_refl)
next
  case (Cons row rows)
  obtain t1 b1 where p: "publish_row env now rt row (t, b) = (t1, b1)" by fastforce
  then have f: "foldl (\<lambda>st row. publish_row env now rt row st) (t1, b1) rows = (t', b')"
    using Cons.prems by simp
  note ih = Cons.IH [OF f]
  have ext1: "\<exists>e. bus_sent b1 = bus_sent b @ e \<and> set e \<subseteq> {sent_entry env row}"
    and st: "list_all2 (\<lambda>r r'. publishes r r' \<and> (ob_publishedAt r' \<noteq> None \<longrightarrow> ob_publishedAt r \<noteq> None \<or>
             ob_id row = ob_id r \<and> (row_batch_done rt row \<or> sent_entry env row \<in> set (bus_sent b1)))) t t1"
    using p
    by (cases rule: publish_row_cases [of rt row env now t b];
        auto intro: list_all2_mono [OF mark_published_publishes] list_all2_refl)+
  obtain e1 e2 where e: "bus_sent b1 = bus_sent b @ e1" "set e1 \<subseteq> {sent_entry env row}"
    "bus_sent b' = bus_sent b1 @ e2" "set e2 \<subseteq> sent_entry env ` set rows"
    using ext1 ih by blast
  then have mono: "set (bus_sent b1) \<subseteq> set (bus_sent b')" by auto
  have "list_all2 (\<lambda>r r'. publishes r r' \<and> (ob_publishedAt r' \<noteq> None \<longrightarrow> ob_publishedAt r \<noteq> None \<or>
             (\<exists>q \<in> set (row # rows). ob_id q = ob_id r \<and> (row_batch_done rt q \<or> sent_entry env q \<in> set (bus_sent b')))))
           t t'"
    using st ih [THEN conjunct1]
  proof (rule list_all2_trans [rotated])
    fix r s u
    assume 1: "publishes r s \<and> (ob_publishedAt s \<noteq> None \<longrightarrow> ob_publishedAt r \<noteq> None \<or>
        ob_id row = ob_id r \<and> (row_batch_done rt row \<or> sent_entry env row \<in> set (bus_sent b1)))"
      and 2: "publishes s u \<and> (ob_publishedAt u \<noteq> None \<longrightarrow> ob_publishedAt s \<noteq> None \<or>
        (\<exists>q \<in> set rows. ob_id q = ob_id s \<and> (row_batch_done rt q \<or> sent_entry env q \<in> set (bus_sent b'))))"
    have "ob_id s = ob_id r" using 1 publishes_same by blast
    then show "publishes r u \<and> (ob_publishedAt u \<noteq> None \<longrightarrow> ob_publishedAt r \<noteq> None \<or>
        (\<exists>q \<in> set (row # rows). ob_id q = ob_id r \<and> (row_batch_done rt q \<or> sent_entry env q \<in> set (bus_sent b'))))"
      using 1 2 mono publishes_trans [of r s u] by auto
  qed
  moreover have "\<exists>ext. bus_sent b' = bus_sent b @ ext \<and> set ext \<subseteq> sent_entry env ` set (row # rows)"
    by (rule exI [of _ "e1 @ e2"]) (use e in auto)
  ultimately show ?case by blast
qed

section \<open>The lease on a row\<close>

definition try_claim :: "int \<Rightarrow> 'p outbox_row \<Rightarrow> 'p outbox_row \<times> bool" where
  "try_claim now r = (if claimable now r then (claim_row now r, True) else (r, False))"

lemma try_claim_True [simp]: "try_claim now r = (r', True) \<longleftrightarrow> claimable now r \<and> r' = claim_row now r"
  by (auto simp: try_claim_def)

interpretation row_lease: lease "try_claim :: int \<Rightarrow> 'p outbox_row \<Rightarrow> _" "CLAIM_GRACE_MS + 1"
proof
  fix now :: int and r r' :: "'p outbox_row" and now'
  assume "try_claim now r = (r', True)" "now \<le> now'" "now' - now < CLAIM_GRACE_MS + 1"
  then show "try_claim now' r' = (r', False)"
    by (auto simp: try_claim_def claimable_def split: if_splits)
qed

lemma claim_pending_rows:
  assumes "claim_pending scan ret now limit t = (t1, rows)" "distinct (map ob_id t)"
  shows "list_all2 (\<lambda>r r'. r' = r \<or> try_claim now r = (r', True)) t t1"
    and "row \<in> set rows \<Longrightarrow> \<exists>r \<in> set t. try_claim now r = (row, True)"
    and "row \<in> set rows \<Longrightarrow> row \<in> set t1"
proof -
  define chosen where "chosen = take limit (sort_key ob_createdAt (sort_key scan (filter (claimable now) t)))"
  have sub: "set chosen \<subseteq> {r \<in> set t. claimable now r}"
    using set_take_subset [of limit "sort_key ob_createdAt (sort_key scan (filter (claimable now) t))"]
    by (auto simp: chosen_def)
  have t1: "t1 = map (\<lambda>r. if ob_id r \<in> set (map ob_id chosen) then claim_row now r else r) t"
    and rows: "rows = map (claim_row now) (sort_key ret chosen)"
    using assms(1) by (simp_all add: claim_pending_def Let_def chosen_def)
  have ids: "ob_id r \<in> ob_id ` set chosen \<longleftrightarrow> r \<in> set chosen" if "r \<in> set t" for r
    using sub that assms(2) by (auto simp: distinct_map inj_on_def)
  show "list_all2 (\<lambda>r r'. r' = r \<or> try_claim now r = (r', True)) t t1"
    unfolding t1 using ids sub by (auto simp: list_all2_conv_all_nth try_claim_def)
  assume "row \<in> set rows"
  then obtain r where r: "r \<in> set chosen" "row = claim_row now r" by (auto simp: rows)
  then show "\<exists>r \<in> set t. try_claim now r = (row, True)" using sub by (auto simp: try_claim_def)
  show "row \<in> set t1" using r sub by (auto simp: t1)
qed

text \<open>
  Two claims inside the lease never hand out the same row: after a claim, and whatever the
  publisher has marked as published since, a second claim at most a minute later returns none of
  the rows of the first.
\<close>

lemma leased_rows_are_not_reclaimed:
  assumes "distinct (map ob_id t)" "claim_pending scan ret now limit t = (t1, rows)"
    and "list_all2 publishes t1 t2" "claim_pending scan' ret' now' limit' t2 = (t3, rows')"
    and "now \<le> now'" "now' - now \<le> CLAIM_GRACE_MS"
  shows "ob_id ` set rows \<inter> ob_id ` set rows' = {}"
proof -
  have id1: "map ob_id t1 = map ob_id t"
    using claim_pending_rows(1) [OF assms(2,1)]
    by (rule list_all2_induct) auto
  have id2: "map ob_id t2 = map ob_id t1"
    using assms(3) by (rule list_all2_induct) (auto simp: publishes_same)
  have d1: "distinct (map ob_id t1)" and d2: "distinct (map ob_id t2)" using id1 id2 assms(1) by simp_all
  have False if h: "row \<in> set rows" "row' \<in> set rows'" "ob_id row = ob_id row'" for row row'
  proof -
    obtain r where r: "try_claim now r = (row, True)" "row \<in> set t1"
      using claim_pending_rows(2) [OF assms(2,1) h(1)] claim_pending_rows(3) [OF assms(2,1) h(1)] by blast
    obtain r2 where r2: "r2 \<in> set t2" "try_claim now' r2 = (row', True)"
      using claim_pending_rows(2) [OF assms(4) d2 h(2)] by blast
    have "ob_id r2 = ob_id row" using r2 h(3) by auto
    moreover obtain r1 where r1: "r1 \<in> set t1" "publishes r1 r2"
      using assms(3) r2(1) unfolding list_all2_conv_all_nth in_set_conv_nth by metis
    ultimately have "ob_id r1 = ob_id row" using publishes_same [OF r1(2)] by simp
    then have "r1 = row" using inj_onD [of ob_id "set t1" r1 row] d1 r(2) r1(1) by (simp add: distinct_map)
    with r1(2) have p: "publishes row r2" by simp
    have "try_claim now' row = (row, False)"
      using r(1) assms(5,6) by (intro row_lease.exclusive) auto
    with p have "try_claim now' r2 = (r2, False)"
      by (auto simp: publishes_def try_claim_def claimable_def split: if_splits)
    with r2 show False by simp
  qed
  then show ?thesis by blast
qed

lemma tick_publishes:
  assumes "distinct (map ob_id t)" "claim_pending scan ret now limit t = (t1, rows)"
    and "outbox_tick scan ret env now limit rt (t, b) = (t', b')"
  shows "list_all2 publishes t1 t'"
    and "\<lbrakk>i < length t; ob_publishedAt (t ! i) = None; ob_publishedAt (t' ! i) \<noteq> None\<rbrakk> \<Longrightarrow>
      row_batch_done rt (t ! i) \<or> sent_entry env (t ! i) \<in> set (bus_sent b')"
    and "length t' = length t" "\<exists>ext. bus_sent b' = bus_sent b @ ext \<and> set ext \<subseteq> sent_entry env ` set t"
proof -
  have f: "foldl (\<lambda>st row. publish_row env now rt row st) (t1, b) rows = (t', b')"
    using assms(2,3) by (simp add: outbox_tick_def)
  note pr = publish_rows [OF f]
  show pub: "list_all2 publishes t1 t'" using pr [THEN conjunct1] by (rule list_all2_mono) blast
  note c = claim_pending_rows [OF assms(2,1)]
  have len: "length t1 = length t" using c(1) by (simp add: list_all2_lengthD)
  then show len': "length t' = length t" using pub by (simp add: list_all2_lengthD)
  obtain ext where ext: "bus_sent b' = bus_sent b @ ext" "set ext \<subseteq> sent_entry env ` set rows"
    using pr by blast
  have "sent_entry env ` set rows \<subseteq> sent_entry env ` set t"
  proof (rule image_subsetI)
    fix row assume "row \<in> set rows"
    from c(2) [OF this] obtain r where "r \<in> set t" "row = claim_row now r"
      by auto
    then show "sent_entry env row \<in> sent_entry env ` set t" by auto
  qed
  with ext(2) have "set ext \<subseteq> sent_entry env ` set t" by (rule subset_trans)
  with ext(1) show "\<exists>ext. bus_sent b' = bus_sent b @ ext \<and> set ext \<subseteq> sent_entry env ` set t" by simp
  assume i: "i < length t" "ob_publishedAt (t ! i) = None" "ob_publishedAt (t' ! i) \<noteq> None"
  have cl: "t1 ! i = t ! i \<or> try_claim now (t ! i) = (t1 ! i, True)"
    by (rule list_all2_nthD [OF c(1) i(1)])
  then have same: "ob_id (t1 ! i) = ob_id (t ! i)" "ob_publishedAt (t1 ! i) = ob_publishedAt (t ! i)"
    by auto
  obtain row where row: "row \<in> set rows" "ob_id row = ob_id (t ! i)"
    "row_batch_done rt row \<or> sent_entry env row \<in> set (bus_sent b')"
    using list_all2_nthD [OF pr [THEN conjunct1], of i] i same len by auto
  obtain r where r: "r \<in> set t" "try_claim now r = (row, True)" using c(2) [OF row(1)] by blast
  then have "ob_id r = ob_id (t ! i)" using row(2) by auto
  then have "r = t ! i" using assms(1) r(1) i(1) by (metis distinct_map inj_onD nth_mem)
  then show "row_batch_done rt (t ! i) \<or> sent_entry env (t ! i) \<in> set (bus_sent b')"
    using r(2) row(3) by auto
qed

text \<open>
  C30. The outbox loses no message: a tick marks a row as published only if the broker confirmed
  the row's message under its routing key, or the batch it asks for is already completed; rows are
  never removed, and nothing but messages of the table reaches the broker.
\<close>

theorem tick_marks_only_sent_rows:
  assumes "distinct (map ob_id t)" "outbox_tick scan ret env now limit rt (t, b) = (t', b')"
  shows "length t' = length t \<and>
    (\<forall>i < length t. ob_id (t' ! i) = ob_id (t ! i) \<and> ob_message (t' ! i) = ob_message (t ! i) \<and>
      (ob_publishedAt (t ! i) = None \<and> ob_publishedAt (t' ! i) \<noteq> None \<longrightarrow>
         row_batch_done rt (t ! i) \<or> sent_entry env (t ! i) \<in> set (bus_sent b'))) \<and>
    (\<exists>ext. bus_sent b' = bus_sent b @ ext \<and> set ext \<subseteq> sent_entry env ` set t)"
proof -
  obtain t1 rows where cp: "claim_pending scan ret now limit t = (t1, rows)" by fastforce
  note tp = tick_publishes [OF assms(1) cp assms(2)]
  have "ob_id (t' ! i) = ob_id (t ! i) \<and> ob_message (t' ! i) = ob_message (t ! i)" if "i < length t" for i
  proof -
    have "t1 ! i = t ! i \<or> try_claim now (t ! i) = (t1 ! i, True)"
      by (rule list_all2_nthD [OF claim_pending_rows(1) [OF cp assms(1)] that])
    moreover have "publishes (t1 ! i) (t' ! i)"
      using tp(1) that tp(3) by (auto dest: list_all2_nthD2)
    ultimately show ?thesis
      using publishes_same [of "t1 ! i" "t' ! i"] by auto
  qed
  then show ?thesis using tp by blast
qed

section \<open>A healthy tick drains the outbox\<close>

lemma healthy_rows:
  assumes "\<And>k. bus_confirms b k"
  shows "\<exists>n. foldl (\<lambda>st row. publish_row env now rt row st) (t, b) rows =
    (map (\<lambda>r. if ob_id r \<in> ob_id ` set rows \<and> ob_publishedAt r = None then r\<lparr>ob_publishedAt := Some now\<rparr> else r) t,
     b\<lparr>bus_calls := n, bus_sent := bus_sent b @ map (sent_entry env) (filter (\<lambda>r. \<not> row_batch_done rt r) rows)\<rparr>)"
  using assms
proof (induction rows arbitrary: t b)
  case Nil
  then show ?case by (intro exI [of _ "bus_calls b"]) simp
next
  case (Cons row rows)
  have m: "map (\<lambda>r. if ob_id r \<in> ob_id ` set rows \<and> ob_publishedAt r = None then r\<lparr>ob_publishedAt := Some now\<rparr> else r)
      (mark_published now (ob_id row) t) =
    map (\<lambda>r. if ob_id r \<in> ob_id ` set (row # rows) \<and> ob_publishedAt r = None then r\<lparr>ob_publishedAt := Some now\<rparr> else r) t"
    by (auto simp: mark_published_def)
  show ?case
  proof (cases rule: publish_row_cases [of rt row env now t b])
    case batch_done
    then show ?thesis using Cons.IH [OF Cons.prems, of "mark_published now (ob_id row) t"] m by auto
  next
    case sent
    obtain n where "foldl (\<lambda>st row. publish_row env now rt row st)
        (mark_published now (ob_id row) t, b\<lparr>bus_calls := bus_calls b + 1, bus_sent := bus_sent b @ [sent_entry env row]\<rparr>) rows =
      (map (\<lambda>r. if ob_id r \<in> ob_id ` set rows \<and> ob_publishedAt r = None then r\<lparr>ob_publishedAt := Some now\<rparr> else r)
         (mark_published now (ob_id row) t),
       b\<lparr>bus_calls := n, bus_sent := bus_sent b @ sent_entry env row # map (sent_entry env) (filter (\<lambda>r. \<not> row_batch_done rt r) rows)\<rparr>)"
      using Cons.IH [of "b\<lparr>bus_calls := bus_calls b + 1, bus_sent := bus_sent b @ [sent_entry env row]\<rparr>"
          "mark_published now (ob_id row) t"] Cons.prems by auto
    then show ?thesis using sent m by auto
  next
    case failed
    then show ?thesis using Cons.prems by simp
  qed
qed

text \<open>
  With a broker that confirms every publish and a batch size that covers what is pending, one
  tick publishes every claimable row, in the order the claim returned them, skipping only the
  batches already completed.
\<close>

lemma healthy_tick_drains:
  assumes "\<forall>k. bus_confirms b k" "distinct (map ob_id t)" "length (filter (claimable now) t) \<le> limit"
    and "outbox_tick scan ret env now limit rt (t, b) = (t', b')"
  shows "mset (bus_sent b') = mset (bus_sent b) + image_mset (sent_entry env)
      (mset (filter (\<lambda>r. \<not> row_batch_done rt r) (filter (claimable now) t))) \<and>
    (\<forall>i < length t. claimable now (t ! i) \<longrightarrow> ob_publishedAt (t' ! i) = Some now)"
proof -
  define chosen where "chosen = sort_key ob_createdAt (sort_key scan (filter (claimable now) t))"
  have ch: "take limit (sort_key ob_createdAt (sort_key scan (filter (claimable now) t))) = chosen"
    using assms(3) by (simp add: chosen_def)
  have m: "mset chosen = mset (filter (claimable now) t)" by (simp add: chosen_def)
  define t1 where "t1 = map (\<lambda>r. if ob_id r \<in> set (map ob_id chosen) then claim_row now r else r) t"
  let ?rows = "map (claim_row now) (sort_key ret chosen)"
  have cp: "claim_pending scan ret now limit t = (t1, ?rows)"
    by (simp add: claim_pending_def Let_def ch t1_def)
  obtain n where f: "foldl (\<lambda>st row. publish_row env now rt row st) (t1, b) ?rows =
    (map (\<lambda>r. if ob_id r \<in> ob_id ` set ?rows \<and> ob_publishedAt r = None
        then r\<lparr>ob_publishedAt := Some now\<rparr> else r) t1,
     b\<lparr>bus_calls := n, bus_sent := bus_sent b @ map (sent_entry env)
        (filter (\<lambda>r. \<not> row_batch_done rt r) ?rows)\<rparr>)"
    using healthy_rows [of b env now rt t1 ?rows] assms(1) by auto
  have eq: "outbox_tick scan ret env now limit rt (t, b) =
      foldl (\<lambda>st row. publish_row env now rt row st) (t1, b) ?rows"
    by (simp add: outbox_tick_def cp)
  have t': "t' = map (\<lambda>r. if ob_id r \<in> ob_id ` set ?rows \<and> ob_publishedAt r = None
        then r\<lparr>ob_publishedAt := Some now\<rparr> else r) t1"
    and b': "bus_sent b' = bus_sent b @ map (sent_entry env) (filter (\<lambda>r. \<not> row_batch_done rt r) ?rows)"
    using assms(4) unfolding eq f by auto
  have "map (sent_entry env) (filter (\<lambda>r. \<not> row_batch_done rt r) ?rows) =
      map (sent_entry env) (filter (\<lambda>r. \<not> row_batch_done rt r) (sort_key ret chosen))"
    by (simp add: filter_map o_def)
  moreover have "mset (sort_key ret chosen) = mset (filter (claimable now) t)" using m by simp
  ultimately have "mset (bus_sent b') = mset (bus_sent b) + image_mset (sent_entry env)
      (mset (filter (\<lambda>r. \<not> row_batch_done rt r) (filter (claimable now) t)))"
    unfolding b' by (simp only: mset_append mset_map mset_filter)
  moreover have "ob_publishedAt (t' ! i) = Some now" if i: "i < length t" "claimable now (t ! i)" for i
  proof -
    have "t ! i \<in> set chosen" using i by (simp add: chosen_def)
    moreover have "ob_publishedAt (t ! i) = None" using i(2) by (simp add: claimable_def)
    ultimately show ?thesis using i(1) by (auto simp: t' t1_def image_image)
  qed
  ultimately show ?thesis by blast
qed

section \<open>A small outbox\<close>

definition demo_message :: "string \<Rightarrow> unit pipeline_message" where
  "demo_message q = new_pipeline_message 0 ''r'' ''acme'' q None () None None"

definition demo_outbox :: "unit outbox" where
  "demo_outbox = insert_many 7 ''r'' ''acme'' [demo_message ''b''] (insert_many 5 ''r'' ''acme'' [demo_message ''a''] [])"

definition demo_bus :: "unit bus" where
  "demo_bus = \<lparr>bus_sent = [], bus_calls = 0, bus_confirms = (\<lambda>_. True)\<rparr>"

lemmas demo_outbox_defs = demo_outbox_def insert_many_def outbox_row_of_def next_id_def demo_message_def
  new_pipeline_message_def

lemma demo_outbox_distinct: "distinct (map ob_id demo_outbox)"
  by (simp add: demo_outbox_defs)

theorem tick_marks_only_sent_rows_witness:
  "length (fst (outbox_tick ob_id (\<lambda>r. 1 - ob_id r) None 100 10 Map.empty (demo_outbox, demo_bus))) = 2"
proof -
  obtain t' b' where t: "outbox_tick ob_id (\<lambda>r. 1 - ob_id r) None 100 10 Map.empty (demo_outbox, demo_bus) = (t', b')" by fastforce
  from tick_marks_only_sent_rows [OF demo_outbox_distinct t] t show ?thesis
    by (simp add: demo_outbox_defs)
qed

end
