(* ===== verification/Consumers.thy ===== *)
theory Consumers
  imports Outbox
begin

text \<open>
  The three consumer bases of \<open>src/queue\<close>: \<open>base-pipeline.consumer.ts\<close>,
  \<open>batch-pipeline.consumer.ts\<close> and \<open>dispatch-pipeline.consumer.ts\<close>. A delivery is one call of
  \<open>process\<close>: it returns (the broker acknowledges), or throws (the broker dead-letters).
  The concrete step is an argument: \<open>handle\<close> works on the tenant's data inside the transaction and
  may throw; the successors of a batch step may also write the run table on a connection of their
  own (the join), which a rollback does not undo. Tenant lookup and the integration data source
  are parameters too. The in-flight gauge is the list of its start and end events; the other
  metrics, spans and logs are left out.
\<close>

section \<open>The world of a worker\<close>

datatype consume_outcome = Ok | Fail | Skip

datatype metric_event = ConsumeStart string string | ConsumeEnd string string consume_outcome

record ('p, 'w) world =
  w_runs :: run_table
  w_outbox :: "'p outbox"
  w_bus :: "'p bus"
  w_metrics :: "metric_event list"
  w_data :: 'w

record tenant =
  tn_id :: string
  tn_slug :: string
  tn_schemaName :: string

record consumer_env =
  ce_now :: int
  ce_node_env :: "string option"
  ce_find_active :: "string \<Rightarrow> tenant outcome"
  ce_integration :: "string \<Rightarrow> string option outcome"
  ce_outbox_publish :: bool
  ce_checkpoint :: nat

definition metric :: "metric_event list \<Rightarrow> ('p, 'w) world \<Rightarrow> ('p, 'w) world" where
  "metric evs w = w\<lparr>w_metrics := w_metrics w @ evs\<rparr>"

definition open_tenant :: "consumer_env \<Rightarrow> string \<Rightarrow> (tenant \<times> string option) outcome" where
  "open_tenant env tenantId =
     bind_outcome (ce_find_active env tenantId) (\<lambda>tenant.
       bind_outcome (ce_integration env (tn_slug tenant)) (\<lambda>ds. Inr (tenant, ds)))"

text \<open>The dead-letter republish, and the generic catch around it.\<close>

definition to_dlq :: "consumer_env \<Rightarrow> 'p pipeline_message \<Rightarrow> ('p, 'w) world \<Rightarrow> ('p, 'w) world \<times> string outcome" where
  "to_dlq env m w =
     (case republish_on_failure (ce_node_env env) m (w_bus w) of (b, out) \<Rightarrow> (w\<lparr>w_bus := b\<rparr>, out))"

definition fail_delivery ::
  "consumer_env \<Rightarrow> string \<Rightarrow> int \<Rightarrow> 'p pipeline_message \<Rightarrow> exn \<Rightarrow> ('p, 'w) world \<Rightarrow> ('p, 'w) world \<times> unit outcome" where
  "fail_delivery env step batchSeq m err w =
     (case to_dlq env m w of
        (w1, Inl e) \<Rightarrow> (w1, Inl e)
      | (w1, Inr outcome) \<Rightarrow>
          (w1\<lparr>w_runs := fail_run (ce_now env) (pm_pipelineRunId m) step
                 (exn_message err @ '' (retry='' @ outcome @ '')'') batchSeq (w_runs w1)\<rparr>, Inr ()))"

text \<open>A duplicate of a running delivery goes to the dead letters; if that fails, it is thrown on.\<close>

definition duplicate_delivery ::
  "consumer_env \<Rightarrow> 'p pipeline_message \<Rightarrow> ('p, 'w) world \<Rightarrow> ('p, 'w) world \<times> unit outcome" where
  "duplicate_delivery env m w =
     (case to_dlq env m w of
        (w1, Inl e) \<Rightarrow> (w1, Inl (DuplicateDeliveryRepublishError (exn_message e)))
      | (w1, Inr _) \<Rightarrow> (w1, Inr ()))"

section \<open>Single-queue steps\<close>

definition base_process ::
  "consumer_env \<Rightarrow> string \<Rightarrow>
   ('p pipeline_message \<Rightarrow> string option \<Rightarrow> 'w \<Rightarrow> ('w \<times> 'p pipeline_message list) outcome) \<Rightarrow>
   'p pipeline_message \<Rightarrow> ('p, 'w) world \<Rightarrow> ('p, 'w) world \<times> unit outcome" where
  "base_process env step handle m w =
     (let queue = (case pm_queue m of None \<Rightarrow> step | Some q \<Rightarrow> q);
          run = pm_pipelineRunId m; tenantId = pm_tenantId m;
          start_ev = ConsumeStart tenantId queue; end_ev = ConsumeEnd tenantId queue
      in case start (ce_now env) run tenantId step (pm_attempt m) DISPATCH_BATCH_SEQ (w_runs w) of
           (t, AlreadyCompleted) \<Rightarrow> (metric [start_ev, end_ev Skip] w, Inr ())
         | (t, InProgress) \<Rightarrow> duplicate_delivery env m (metric [start_ev, end_ev Skip] w)
         | (t, Started) \<Rightarrow>
             let w1 = metric [start_ev] (w\<lparr>w_runs := t\<rparr>);
                 result = bind_outcome (open_tenant env tenantId) (\<lambda>(tenant, ds). handle m ds (w_data w1))
             in case result of
                  Inl (DuplicateDeliveryRepublishError s) \<Rightarrow>
                    (metric [end_ev Skip] w1, Inl (DuplicateDeliveryRepublishError s))
                | Inl e \<Rightarrow> fail_delivery env step DISPATCH_BATCH_SEQ m e (metric [end_ev Fail] w1)
                | Inr (d, successors) \<Rightarrow>
                    (metric [end_ev Ok]
                       (w1\<lparr>w_data := d,
                           w_runs := complete (ce_now env) run step DISPATCH_BATCH_SEQ (w_runs w1),
                           w_outbox := insert_many (ce_now env) run tenantId
                             (if is_standalone m then [] else successors) (w_outbox w1)\<rparr>), Inr ()))"

section \<open>Batches\<close>

text \<open>
  The transaction of a batch: the step's work, the close with its counter and, on the last
  batch, the staging of the successors. It returns the run table (the join writes survive a
  rollback) and, when it commits, the new data and outbox.
\<close>

definition batch_transaction ::
  "consumer_env \<Rightarrow> string \<Rightarrow>
   ('p pipeline_message \<Rightarrow> string option \<Rightarrow> int \<Rightarrow> tenant \<Rightarrow> 'w \<Rightarrow> 'w outcome) \<Rightarrow>
   ('p pipeline_message \<Rightarrow> string option \<Rightarrow> 'w \<Rightarrow> run_table \<Rightarrow> run_table \<times> 'p pipeline_message list outcome) \<Rightarrow>
   int \<Rightarrow> 'p pipeline_message \<Rightarrow> tenant \<Rightarrow> string option \<Rightarrow> ('p, 'w) world \<Rightarrow>
   run_table \<times> ('w \<times> run_table \<times> 'p outbox) outcome" where
  "batch_transaction env step handle successors batchSeq m tenant ds w =
     (let run = pm_pipelineRunId m; t = w_runs w in
      case handle m ds batchSeq tenant (w_data w) of
        Inl e \<Rightarrow> (t, Inl e)
      | Inr d \<Rightarrow>
          (case complete_batch_and_increment (ce_now env) run step batchSeq t of
             Inl e \<Rightarrow> (t, Inl e)
           | Inr (t1, inc) \<Rightarrow>
               if bi_isLast inc then
                 (case (if is_standalone m then (t, Inr []) else successors m ds d t) of
                    (tJ, Inl e) \<Rightarrow> (tJ, Inl e)
                  | (tJ, Inr ms) \<Rightarrow>
                      (tJ, Inr (d,
                         (case complete_batch_and_increment (ce_now env) run step batchSeq tJ of
                            Inl _ \<Rightarrow> tJ | Inr (t2, _) \<Rightarrow> t2),
                         insert_many (ce_now env) run (pm_tenantId m) ms (w_outbox w))))
               else (t, Inr (d, t1, w_outbox w))))"

definition batch_process ::
  "consumer_env \<Rightarrow> string \<Rightarrow>
   ('p pipeline_message \<Rightarrow> string option \<Rightarrow> int \<Rightarrow> tenant \<Rightarrow> 'w \<Rightarrow> 'w outcome) \<Rightarrow>
   ('p pipeline_message \<Rightarrow> string option \<Rightarrow> 'w \<Rightarrow> run_table \<Rightarrow> run_table \<times> 'p pipeline_message list outcome) \<Rightarrow>
   'p pipeline_message \<Rightarrow> ('p, 'w) world \<Rightarrow> ('p, 'w) world \<times> unit outcome" where
  "batch_process env step handle successors m w =
     (let batchSeq = (case pm_batchSeq m of None \<Rightarrow> 0 | Some s \<Rightarrow> s);
          queue = (case pm_queue m of None \<Rightarrow> step | Some q \<Rightarrow> q);
          run = pm_pipelineRunId m; tenantId = pm_tenantId m;
          start_ev = ConsumeStart tenantId queue; end_ev = ConsumeEnd tenantId queue
      in if batchSeq \<le> 0
         then fail_delivery env step batchSeq m
                (Error ''BatchPipelineConsumer requires batchSeq >= 1'') (metric [end_ev Fail] w)
         else case start (ce_now env) run tenantId step (pm_attempt m) batchSeq (w_runs w) of
           (t, AlreadyCompleted) \<Rightarrow> (metric [start_ev, end_ev Skip] w, Inr ())
         | (t, InProgress) \<Rightarrow> duplicate_delivery env m (metric [start_ev, end_ev Skip] w)
         | (t, Started) \<Rightarrow>
             let w1 = metric [start_ev] (w\<lparr>w_runs := t\<rparr>) in
             (case (case open_tenant env tenantId of
                      Inl e \<Rightarrow> (w_runs w1, Inl e)
                    | Inr (tenant, ds) \<Rightarrow> batch_transaction env step handle successors batchSeq m tenant ds w1) of
                (tJ, Inl (DuplicateDeliveryRepublishError s)) \<Rightarrow>
                  (w1\<lparr>w_runs := tJ\<rparr>, Inl (DuplicateDeliveryRepublishError s))
              | (tJ, Inl e) \<Rightarrow>
                  fail_delivery env step batchSeq m e (metric [end_ev Fail] (w1\<lparr>w_runs := tJ\<rparr>))
              | (tJ, Inr (d, t2, ob)) \<Rightarrow>
                  (metric [end_ev Ok] (w1\<lparr>w_data := d, w_runs := t2, w_outbox := ob\<rparr>), Inr ())))"

section \<open>Dispatchers\<close>

definition OUTBOX_INSERT_CHUNK :: nat where
  "OUTBOX_INSERT_CHUNK = 1000"

definition seq_of :: "'p pipeline_message \<Rightarrow> int" where
  "seq_of b = (case pm_batchSeq b of None \<Rightarrow> 0 | Some s \<Rightarrow> s)"

definition max_seq :: "'p pipeline_message list \<Rightarrow> int" where
  "max_seq bs = (case map seq_of bs of [] \<Rightarrow> 0 | s # ss \<Rightarrow> foldl max s ss)"

text \<open>Staging a chunk in the outbox, then moving the checkpoint.\<close>

fun emit_outbox ::
  "consumer_env \<Rightarrow> string \<Rightarrow> 'p pipeline_message \<Rightarrow> 'p pipeline_message list list \<Rightarrow> ('p, 'w) world \<Rightarrow> ('p, 'w) world" where
  "emit_outbox env step m [] w = w"
| "emit_outbox env step m (slice # slices) w =
     emit_outbox env step m slices
       (w\<lparr>w_outbox := insert_batch_messages (ce_now env) (pm_pipelineRunId m) (pm_tenantId m)
            (map (\<lambda>b. b\<lparr>pm_standalone := pm_standalone m\<rparr>) slice) (w_outbox w),
          w_runs := update_last_published_batch_seq (pm_pipelineRunId m) step (max_seq slice) (w_runs w)\<rparr>)"

text \<open>Publishing one batch after the other, with a checkpoint every so many.\<close>

fun emit_direct ::
  "consumer_env \<Rightarrow> string \<Rightarrow> 'p pipeline_message \<Rightarrow> 'p pipeline_message list \<Rightarrow> ('p, 'w) world \<Rightarrow> ('p, 'w) world \<times> unit outcome" where
  "emit_direct env step m [] w = (w, Inr ())"
| "emit_direct env step m (b # bs) w =
     (case publish_step (ce_node_env env) (b\<lparr>pm_standalone := pm_standalone m\<rparr>) (w_bus w) of
        (bus, Inl e) \<Rightarrow> (w\<lparr>w_bus := bus\<rparr>, Inl e)
      | (bus, Inr _) \<Rightarrow>
          emit_direct env step m bs
            (let w1 = w\<lparr>w_bus := bus\<rparr> in
             if ce_checkpoint env > 0 \<and> seq_of b mod int (ce_checkpoint env) = 0
             then w1\<lparr>w_runs := update_last_published_batch_seq (pm_pipelineRunId m) step (seq_of b) (w_runs w1)\<rparr>
             else w1))"

definition pending_batches ::
  "string \<Rightarrow> string \<Rightarrow> run_table \<Rightarrow> 'p pipeline_message list \<Rightarrow> 'p pipeline_message list" where
  "pending_batches run step t batches =
     filter (\<lambda>b. seq_of b > last_published_batch_seq run step t \<and> \<not> completed_batch_seqs run step t (seq_of b)) batches"

definition emit_batches ::
  "consumer_env \<Rightarrow> string \<Rightarrow> 'p pipeline_message \<Rightarrow> 'p pipeline_message list \<Rightarrow> ('p, 'w) world \<Rightarrow> ('p, 'w) world \<times> nat outcome" where
  "emit_batches env step m batches w =
     (let run = pm_pipelineRunId m;
          from = last_published_batch_seq run step (w_runs w);
          pending = pending_batches run step (w_runs w) batches
      in if pending = [] then (w, Inr 0)
         else if ce_outbox_publish env
         then (emit_outbox env step m (chunks OUTBOX_INSERT_CHUNK pending) w, Inr (length pending))
         else (case emit_direct env step m pending w of
                 (w1, Inl e) \<Rightarrow> (w1, Inl e)
               | (w1, Inr _) \<Rightarrow>
                   let lastSeq = seq_of (last pending) in
                   (if lastSeq > from
                    then w1\<lparr>w_runs := update_last_published_batch_seq run step lastSeq (w_runs w1)\<rparr>
                    else w1, Inr (length pending))))"

text \<open>
  A dispatcher computes its batches in the tenant transaction; with none it completes and stages
  the empty successors there, else it records the plan, emits, and completes. As with batches, the
  step may write the run table on its own connection.
\<close>

definition dispatch_process ::
  "consumer_env \<Rightarrow> string \<Rightarrow>
   ('p pipeline_message \<Rightarrow> string option \<Rightarrow> tenant \<Rightarrow> 'w \<Rightarrow> run_table \<Rightarrow>
      run_table \<times> ('w \<times> 'p pipeline_message list \<times> 'p pipeline_message list) outcome) \<Rightarrow>
   'p pipeline_message \<Rightarrow> ('p, 'w) world \<Rightarrow> ('p, 'w) world \<times> unit outcome" where
  "dispatch_process env step handle m w =
     (let queue = step @ ''.dispatch'';
          run = pm_pipelineRunId m; tenantId = pm_tenantId m; now = ce_now env;
          start_ev = ConsumeStart tenantId queue; end_ev = ConsumeEnd tenantId queue
      in case start_or_restart_dispatch now run tenantId step (pm_attempt m) (w_runs w) of
           (t, AlreadyCompleted) \<Rightarrow> (metric [end_ev Skip] w, Inr ())
         | (t, _) \<Rightarrow>
             let w1 = metric [start_ev] (w\<lparr>w_runs := t\<rparr>) in
             (case (case open_tenant env tenantId of
                      Inl e \<Rightarrow> (w_runs w1, Inl e)
                    | Inr (tenant, ds) \<Rightarrow> handle m ds tenant (w_data w1) (w_runs w1)) of
                (tJ, Inl e) \<Rightarrow>
                  fail_delivery env step DISPATCH_BATCH_SEQ m e (metric [end_ev Fail] (w1\<lparr>w_runs := tJ\<rparr>))
              | (tJ, Inr (d, batches, emptySuccessors)) \<Rightarrow>
                  if batches = []
                  then (metric [end_ev Ok]
                         (w1\<lparr>w_data := d,
                             w_runs := complete now run step DISPATCH_BATCH_SEQ (record_dispatch run step 0 tJ),
                             w_outbox := insert_many now run tenantId
                               (if is_standalone m then [] else emptySuccessors) (w_outbox w1)\<rparr>), Inr ())
                  else
                    (case emit_batches env step m batches
                            (w1\<lparr>w_data := d, w_runs := record_dispatch run step (length batches) tJ\<rparr>) of
                       (w2, Inl e) \<Rightarrow>
                         fail_delivery env step DISPATCH_BATCH_SEQ m e (metric [end_ev Fail] w2)
                     | (w2, Inr _) \<Rightarrow>
                         (metric [end_ev Ok]
                            (w2\<lparr>w_runs := complete now run step DISPATCH_BATCH_SEQ (w_runs w2)\<rparr>), Inr ()))))"

section \<open>No delivery is dropped\<close>

definition dead_lettered :: "consumer_env \<Rightarrow> 'p pipeline_message \<Rightarrow> ('p, 'w) world \<Rightarrow> bool" where
  "dead_lettered env m w =
     ((DLX_NAME (ce_node_env env), routing_key (pm_tenantId m) (routing_segment m), m) \<in> set (bus_sent (w_bus w)))"

lemma metric_simps [simp]:
  "w_runs (metric evs w) = w_runs w" "w_outbox (metric evs w) = w_outbox w"
  "w_bus (metric evs w) = w_bus w" "w_data (metric evs w) = w_data w"
  "w_metrics (metric evs w) = w_metrics w @ evs"
  by (simp_all add: metric_def)

lemma to_dlq_cases:
  assumes "to_dlq env m w = (w1, out)"
  shows "w_runs w1 = w_runs w" "w_outbox w1 = w_outbox w" "w_data w1 = w_data w" "w_metrics w1 = w_metrics w"
    "out = Inr outcome \<Longrightarrow> dead_lettered env m w1"
  using assms
  by (auto simp: to_dlq_def republish_on_failure_def amqp_publish_def Let_def dead_lettered_def split: if_splits)

lemma fail_delivery_cases:
  assumes "fail_delivery env step s m err w = (w1, out)"
  shows "w_outbox w1 = w_outbox w" "w_data w1 = w_data w" "w_metrics w1 = w_metrics w"
    "out = Inr u \<Longrightarrow> dead_lettered env m w1"
    "w_runs w1 = w_runs w \<or> (\<exists>msg. w_runs w1 = fail_run (ce_now env) (pm_pipelineRunId m) step msg s (w_runs w))"
  using assms to_dlq_cases [of env m w]
  by (auto simp: fail_delivery_def dead_lettered_def split: prod.splits sum.splits)

lemma duplicate_delivery_cases:
  assumes "duplicate_delivery env m w = (w1, out)"
  shows "w_runs w1 = w_runs w" "w_outbox w1 = w_outbox w" "w_data w1 = w_data w" "w_metrics w1 = w_metrics w"
    "out = Inr u \<Longrightarrow> dead_lettered env m w1"
  using assms to_dlq_cases [of env m w]
  by (auto simp: duplicate_delivery_def dead_lettered_def split: prod.splits sum.splits)

lemmas delivery_simps = fail_delivery_cases duplicate_delivery_cases

lemma start_AlreadyCompleted:
  "start now run tenantId step attempt s t = (t', AlreadyCompleted) \<Longrightarrow> t' = t \<and> is_batch_completed run step s t"
  by (auto simp: start_def Let_def is_batch_completed_def split: option.splits if_splits)

lemma start_Started_open:
  "start now run tenantId step attempt s t = (t', Started) \<Longrightarrow> \<not> is_batch_completed run step s t"
  by (auto simp: start_def Let_def is_batch_completed_def split: option.splits if_splits)

lemma start_InProgress_open:
  "start now run tenantId step attempt s t = (t', InProgress) \<Longrightarrow> t' = t \<and> \<not> is_batch_completed run step s t"
  by (auto simp: start_def Let_def is_batch_completed_def split: option.splits if_splits)

lemma fail_delivery_keeps_open:
  assumes "fail_delivery env step s m err w = (w1, out)"
    and "\<not> is_batch_completed (pm_pipelineRunId m) step s (w_runs w)"
  shows "\<not> is_batch_completed (pm_pipelineRunId m) step s (w_runs w1)"
  using fail_delivery_cases(5) [OF assms(1)] assms(2)
  by (auto simp: fail_run_def is_batch_completed_def split: option.splits)




text \<open>A world and a step the witnesses run.\<close>

definition demo_env :: consumer_env where
  "demo_env = \<lparr>ce_now = 100, ce_node_env = None,
     ce_find_active = (\<lambda>s. Inr \<lparr>tn_id = ''t1'', tn_slug = s, tn_schemaName = ''tenant_acme''\<rparr>),
     ce_integration = (\<lambda>_. Inr None), ce_outbox_publish = False, ce_checkpoint = 2\<rparr>"

definition demo_world :: "(unit, nat) world" where
  "demo_world = \<lparr>w_runs = Map.empty, w_outbox = [], w_bus = demo_bus, w_metrics = [], w_data = 0\<rparr>"


text \<open>
  Every delivery of a single-queue step leaves the in-flight gauge as it found it: one start
  and one end of the same tenant and queue.
\<close>

lemma base_delivery_balances_gauge:
  "\<exists>o'. w_metrics (fst (base_process env step handle m w)) = w_metrics w @
     [ConsumeStart (pm_tenantId m) (case pm_queue m of None \<Rightarrow> step | Some q \<Rightarrow> q),
      ConsumeEnd (pm_tenantId m) (case pm_queue m of None \<Rightarrow> step | Some q \<Rightarrow> q) o']"
proof -
  obtain t so where st: "start (ce_now env) (pm_pipelineRunId m) (pm_tenantId m) step (pm_attempt m)
      DISPATCH_BATCH_SEQ (w_runs w) = (t, so)" by fastforce
  have f: "w_metrics (fst (fail_delivery env step s m e v)) = w_metrics v" for s e and v :: "('a, 'b) world"
    using fail_delivery_cases(3) by (metis prod.collapse)
  have dd: "w_metrics (fst (duplicate_delivery env m v)) = w_metrics v" for v :: "('a, 'b) world"
    using duplicate_delivery_cases(4) by (metis prod.collapse)
  show ?thesis
    unfolding base_process_def Let_def st
    by (auto simp: f dd split: start_outcome.splits sum.splits exn.splits prod.splits)
qed

section \<open>Batches: the step's contract and what a delivery does\<close>

text \<open>
  The only law a batch consumer needs of its step: computing the successors leaves the rows of the
  step's own batches and of its dispatcher alone (the join writes rows of its own).
\<close>

locale batch_contract =
  fixes step :: string
    and successors :: "'p pipeline_message \<Rightarrow> string option \<Rightarrow> 'w \<Rightarrow> run_table \<Rightarrow> run_table \<times> 'p pipeline_message list outcome"
  assumes successors_keep_rows: "fst (successors m ds d t) (run, step, s) = t (run, step, s)"
begin

lemma complete_batch_only_own_row:
  assumes "t' (run, step, s) = t (run, step, s)" "t' (run, step, DISPATCH_BATCH_SEQ) = t (run, step, DISPATCH_BATCH_SEQ)"
    and "complete_batch_and_increment now run step s t = Inr (t1, inc)" "1 \<le> s"
  shows "\<exists>t2. complete_batch_and_increment now run step s t' = Inr (t2, inc) \<and>
    t2 (run, step, s) = t1 (run, step, s) \<and> t2 (run, step, DISPATCH_BATCH_SEQ) = t1 (run, step, DISPATCH_BATCH_SEQ)"
proof -
  have s0: "s \<noteq> DISPATCH_BATCH_SEQ" using assms(4) by (simp add: DISPATCH_BATCH_SEQ_def)
  obtain d where d: "t (run, step, DISPATCH_BATCH_SEQ) = Some d"
    using assms(3) by (auto simp: complete_batch_and_increment_def Let_def split: option.splits)
  show ?thesis
    using assms(1-3) s0 d unfolding complete_batch_and_increment_def Let_def by auto
qed

lemma batch_commit:
  assumes "batch_transaction env step handle successors s m tenant ds w = (tJ, Inr (d, t2, ob))" "1 \<le> s"
  shows "handle m ds s tenant (w_data w) = Inr d"
    and "\<exists>t1 inc. complete_batch_and_increment (ce_now env) (pm_pipelineRunId m) step s (w_runs w) = Inr (t1, inc) \<and>
      t2 (pm_pipelineRunId m, step, s) = t1 (pm_pipelineRunId m, step, s) \<and>
      (if bi_isLast inc
       then \<exists>ms. (ms = [] \<and> is_standalone m \<or> snd (successors m ds d (w_runs w)) = Inr ms \<and> \<not> is_standalone m) \<and>
              ob = insert_many (ce_now env) (pm_pipelineRunId m) (pm_tenantId m) ms (w_outbox w)
       else ob = w_outbox w)"
proof -
  let ?run = "pm_pipelineRunId m"
  show h: "handle m ds s tenant (w_data w) = Inr d"
    using assms(1) by (auto simp: batch_transaction_def Let_def split: sum.splits prod.splits if_splits)
  obtain t1 inc where c: "complete_batch_and_increment (ce_now env) ?run step s (w_runs w) = Inr (t1, inc)"
    using assms(1) h by (auto simp: batch_transaction_def Let_def split: sum.splits)
  note bt = assms(1) [unfolded batch_transaction_def Let_def h c sum.case prod.case]
  show "\<exists>t1 inc. complete_batch_and_increment (ce_now env) ?run step s (w_runs w) = Inr (t1, inc) \<and>
      t2 (?run, step, s) = t1 (?run, step, s) \<and>
      (if bi_isLast inc
       then \<exists>ms. (ms = [] \<and> is_standalone m \<or> snd (successors m ds d (w_runs w)) = Inr ms \<and> \<not> is_standalone m) \<and>
              ob = insert_many (ce_now env) ?run (pm_tenantId m) ms (w_outbox w)
       else ob = w_outbox w)"
  proof (cases "bi_isLast inc")
    case False
    then show ?thesis using bt c by auto
  next
    case True
    show ?thesis
    proof (cases "is_standalone m")
      case st: True
      then show ?thesis using bt c True by auto
    next
      case st: False
      obtain tS ms where su: "successors m ds d (w_runs w) = (tS, Inr ms)"
        using bt True st by (auto split: prod.splits sum.splits)
      have k: "tS (?run, step, s') = w_runs w (?run, step, s')" for s'
        using successors_keep_rows [of m ds d "w_runs w" ?run s'] su by simp
      obtain t3 where t3: "complete_batch_and_increment (ce_now env) ?run step s tS = Inr (t3, inc)"
        "t3 (?run, step, s) = t1 (?run, step, s)"
        using complete_batch_only_own_row [OF k k c assms(2)] by blast
      then show ?thesis using bt True st su c by auto
    qed
  qed
qed

lemma close_completes:
  assumes "complete_batch_and_increment now run step s t = Inr (t1, inc)" "1 \<le> s"
    and "t (run, step, s) = Some r" "rr_status r = RUNNING"
  shows "is_batch_completed run step s t1"
  using close_cases [OF assms(1,2)] assms(3,4) by metis

lemma batch_abort:
  assumes "batch_transaction env step handle successors s m tenant ds w = (tJ, Inl e)"
  shows "tJ (run, step, s) = w_runs w (run, step, s)"
proof -
  have "tJ = w_runs w \<or> (\<exists>d. tJ = fst (successors m ds d (w_runs w)))"
    using assms by (auto simp: batch_transaction_def Let_def split: sum.splits prod.splits if_splits)
      (metis fst_conv)
  then show ?thesis using successors_keep_rows by auto
qed

text \<open>
  What one delivery of a batch does to the tenant's data, the outbox and the batch's row. The
  close of the delivery acts on the run table as the delivery's own start left it.
\<close>

lemma batch_delivery:
  assumes "batch_process env step handle successors m w = (w', out)" "pm_batchSeq m = Some s" "1 \<le> s"
  obtains (completed) "is_batch_completed (pm_pipelineRunId m) step s (w_runs w)" "out = Inr ()"
      "w_runs w' = w_runs w" "w_data w' = w_data w" "w_outbox w' = w_outbox w"
  | (committed) tenant ds t t1 inc where "open_tenant env (pm_tenantId m) = Inr (tenant, ds)"
      "handle m ds s tenant (w_data w) = Inr (w_data w')" "out = Inr ()"
      "\<not> is_batch_completed (pm_pipelineRunId m) step s (w_runs w)"
      "is_batch_completed (pm_pipelineRunId m) step s (w_runs w')"
      "start (ce_now env) (pm_pipelineRunId m) (pm_tenantId m) step (pm_attempt m) s (w_runs w) = (t, Started)"
      "complete_batch_and_increment (ce_now env) (pm_pipelineRunId m) step s t = Inr (t1, inc)"
      "\<not> bi_isLast inc \<longrightarrow> w_outbox w' = w_outbox w"
      "bi_isLast inc \<longrightarrow> (\<exists>ms. (ms = [] \<and> is_standalone m \<or>
          snd (successors m ds (w_data w') t) = Inr ms \<and> \<not> is_standalone m) \<and>
          w_outbox w' = insert_many (ce_now env) (pm_pipelineRunId m) (pm_tenantId m) ms (w_outbox w))"
  | (rejected) "w_data w' = w_data w" "w_outbox w' = w_outbox w" "out = Inr () \<Longrightarrow> dead_lettered env m w'"
      "\<not> is_batch_completed (pm_pipelineRunId m) step s (w_runs w)"
      "\<not> is_batch_completed (pm_pipelineRunId m) step s (w_runs w')"
proof -
  define tenantId run where "tenantId = pm_tenantId m" and "run = pm_pipelineRunId m"
  define q where "q = (case pm_queue m of None \<Rightarrow> step | Some q \<Rightarrow> q)"
  obtain t so where st: "start (ce_now env) run tenantId step (pm_attempt m) s (w_runs w) = (t, so)"
    by fastforce
  have pos: "\<not> s \<le> 0" using assms(3) by simp
  note bp = assms(1) [unfolded batch_process_def Let_def assms(2) option.case if_not_P [OF pos],
      folded tenantId_def run_def q_def, unfolded st prod.case]
  show thesis
  proof (cases so)
    case AlreadyCompleted
    then show thesis using bp start_AlreadyCompleted [of _ run] st
      by (intro completed) (auto simp: run_def [symmetric])
  next
    case InProgress
    then have "duplicate_delivery env m (metric [ConsumeStart tenantId q, ConsumeEnd tenantId q Skip] w) = (w', out)"
      using bp by simp
    from duplicate_delivery_cases [OF this] start_InProgress_open [OF st [unfolded InProgress]]
    show thesis by (intro rejected) (auto simp: run_def)
  next
    case Started
    define w1 where "w1 = metric [ConsumeStart tenantId q] (w\<lparr>w_runs := t\<rparr>)"
    have w1: "w_data w1 = w_data w" "w_outbox w1 = w_outbox w" "w_runs w1 = t" by (simp_all add: w1_def)
    obtain r0 where r0: "t (run, step, s) = Some r0" "rr_status r0 = RUNNING"
      using start_Started_row [OF st [unfolded Started]] by blast
    have was_open: "\<not> is_batch_completed (pm_pipelineRunId m) step s (w_runs w)"
      using start_Started_open [OF st [unfolded Started]] by (simp add: run_def)
    define res where "res = (case open_tenant env tenantId of Inl e \<Rightarrow> (w_runs w1, Inl e)
      | Inr (tenant, ds) \<Rightarrow> batch_transaction env step handle successors s m tenant ds w1)"
    note bp' = bp [unfolded Started start_outcome.case, folded w1_def, folded res_def]
    obtain tJ r where res: "res = (tJ, r)" by fastforce
    show thesis
    proof (cases r)
      case (Inl e)
      then have "tJ (run, step, s) = t (run, step, s)"
        using res batch_abort [of env handle s m _ _ w1 tJ e run] w1(3)
        by (auto simp: res_def split: sum.splits prod.splits)
      then have open_s: "\<not> is_batch_completed run step s tJ" using r0 by (simp add: is_batch_completed_def)
      from Inl consider x where "e = DuplicateDeliveryRepublishError x"
          "(w', out) = (w1\<lparr>w_runs := tJ\<rparr>, Inl (DuplicateDeliveryRepublishError x))"
        | "fail_delivery env step s m e (metric [ConsumeEnd tenantId q Fail] (w1\<lparr>w_runs := tJ\<rparr>)) = (w', out)"
        using bp' res by (cases e) auto
      then show thesis
      proof cases
        case 1
        then show thesis using w1 open_s was_open by (intro rejected) (auto simp: run_def)
      next
        case 2
        from fail_delivery_keeps_open [OF 2] open_s
        have "\<not> is_batch_completed (pm_pipelineRunId m) step s (w_runs w')" by (simp add: run_def)
        with fail_delivery_cases [OF 2] w1 was_open show thesis by (intro rejected) auto
      qed
    next
      case (Inr p)
      then obtain d t2 ob where p: "res = (tJ, Inr (d, t2, ob))" using res by (cases p) auto
      then obtain tenant ds where o: "open_tenant env tenantId = Inr (tenant, ds)"
        and bt: "batch_transaction env step handle successors s m tenant ds w1 = (tJ, Inr (d, t2, ob))"
        by (auto simp: res_def split: sum.splits prod.splits)
      have w': "w_data w' = d" "w_runs w' = t2" "w_outbox w' = ob" "out = Inr ()"
        using bp' [unfolded p] by auto
      obtain t1 inc where c: "complete_batch_and_increment (ce_now env) run step s t = Inr (t1, inc)"
        "t2 (run, step, s) = t1 (run, step, s)"
        and ob: "if bi_isLast inc
          then \<exists>ms. (ms = [] \<and> is_standalone m \<or> snd (successors m ds d t) = Inr ms \<and> \<not> is_standalone m) \<and>
              ob = insert_many (ce_now env) run tenantId ms (w_outbox w)
          else ob = w_outbox w"
        using batch_commit(2) [OF bt assms(3)] unfolding w1 run_def [symmetric] tenantId_def [symmetric] by blast
      from close_completes [OF c(1) assms(3) r0] c(2)
      have dn: "is_batch_completed run step s t2" by (simp add: is_batch_completed_def)
      show thesis
      proof (rule committed [OF o [unfolded tenantId_def], where t = t and ?t1.0 = t1 and inc = inc])
        show "handle m ds s tenant (w_data w) = Inr (w_data w')"
          using batch_commit(1) [OF bt assms(3)] w1 w' by simp
        show "\<not> is_batch_completed (pm_pipelineRunId m) step s (w_runs w)" by (rule was_open)
        show "is_batch_completed (pm_pipelineRunId m) step s (w_runs w')" using dn w' by (simp add: run_def)
        show "start (ce_now env) (pm_pipelineRunId m) (pm_tenantId m) step (pm_attempt m) s (w_runs w) = (t, Started)"
          using st Started by (simp add: run_def tenantId_def)
        show "complete_batch_and_increment (ce_now env) (pm_pipelineRunId m) step s t = Inr (t1, inc)"
          using c(1) by (simp add: run_def)
        show "\<not> bi_isLast inc \<longrightarrow> w_outbox w' = w_outbox w" using ob w' by simp
        show "bi_isLast inc \<longrightarrow> (\<exists>ms. (ms = [] \<and> is_standalone m \<or>
          snd (successors m ds (w_data w') t) = Inr ms \<and> \<not> is_standalone m) \<and>
          w_outbox w' = insert_many (ce_now env) (pm_pipelineRunId m) (pm_tenantId m) ms (w_outbox w))"
          using ob unfolding w' run_def tenantId_def by (metis (no_types))
      qed (rule w')
    qed
  qed
qed

end

section \<open>Emission and its checkpoint\<close>

text \<open>A batch has been handed over: confirmed by the broker, or staged in the outbox.\<close>

definition emitted :: "consumer_env \<Rightarrow> 'p pipeline_message \<Rightarrow> 'p pipeline_message \<Rightarrow> ('p, 'w) world \<Rightarrow> bool" where
  "emitted env m b w =
     (let b' = b\<lparr>pm_standalone := pm_standalone m\<rparr> in
      (EXCHANGE_NAME (ce_node_env env), routing_key (pm_tenantId b') (routing_segment b'), b') \<in> set (bus_sent (w_bus w)) \<or>
      b' \<in> ob_message ` set (w_outbox w))"

abbreviation last_published :: "string \<Rightarrow> 'p pipeline_message \<Rightarrow> ('p, 'w) world \<Rightarrow> int" where
  "last_published step m w \<equiv> last_published_batch_seq (pm_pipelineRunId m) step (w_runs w)"

lemma last_published_update:
  "last_published_batch_seq run step (update_last_published_batch_seq run step s t) \<in>
     {last_published_batch_seq run step t, s}"
  by (simp add: last_published_batch_seq_def update_last_published_batch_seq_def split: option.splits)

lemma emitted_mono:
  assumes "set (bus_sent (w_bus w)) \<subseteq> set (bus_sent (w_bus w'))" "set (w_outbox w) \<subseteq> set (w_outbox w')"
    and "emitted env m b w"
  shows "emitted env m b w'"
  using assms by (auto simp: emitted_def Let_def)

lemma publish_step_cases:
  assumes "publish_step node_env b bus = (bus', out)"
  shows "out = Inr u \<Longrightarrow> bus_sent bus' = bus_sent bus @ [(EXCHANGE_NAME node_env, routing_key (pm_tenantId b) (routing_segment b), b)]"
    "out = Inl e \<Longrightarrow> bus_sent bus' = bus_sent bus"
  using assms by (auto simp: publish_step_def amqp_publish_def Let_def split: if_splits)

lemma emit_direct_sound:
  assumes "emit_direct env step m bs w = (w', out)"
    and "sorted_wrt (<) (map seq_of bs)" "\<forall>b \<in> set bs. last_published step m w < seq_of b"
  shows "(\<forall>b \<in> set bs. seq_of b \<le> last_published step m w' \<longrightarrow> emitted env m b w') \<and>
    (out = Inr () \<longrightarrow> (\<forall>b \<in> set bs. emitted env m b w')) \<and>
    set (bus_sent (w_bus w)) \<subseteq> set (bus_sent (w_bus w')) \<and> w_outbox w' = w_outbox w \<and>
    (last_published step m w' = last_published step m w \<or> last_published step m w' \<in> seq_of ` set bs)"
  using assms
proof (induction bs arbitrary: w)
  case Nil
  then show ?case by auto
next
  case (Cons b bs)
  obtain bus po where p: "publish_step (ce_node_env env) (b\<lparr>pm_standalone := pm_standalone m\<rparr>) (w_bus w) = (bus, po)"
    by fastforce
  show ?case
  proof (cases po)
    case (Inl e)
    then have "w' = w\<lparr>w_bus := bus\<rparr>" "out = Inl e" using Cons.prems(1) p by auto
    then show ?thesis using publish_step_cases(2) [OF p Inl] Cons.prems(3) by auto
  next
    case (Inr u)
    define w1 where "w1 = (let w1 = w\<lparr>w_bus := bus\<rparr> in
             if ce_checkpoint env > 0 \<and> seq_of b mod int (ce_checkpoint env) = 0
             then w1\<lparr>w_runs := update_last_published_batch_seq (pm_pipelineRunId m) step (seq_of b) (w_runs w1)\<rparr>
             else w1)"
    have e: "emit_direct env step m bs w1 = (w', out)"
      using Cons.prems(1) p Inr by (simp add: w1_def)
    have w1: "w_outbox w1 = w_outbox w" "w_bus w1 = bus"
      by (simp_all add: w1_def Let_def)
    have lp1: "last_published step m w1 \<in> {last_published step m w, seq_of b}"
      using last_published_update [of "pm_pipelineRunId m" step "seq_of b" "w_runs w"] by (auto simp: w1_def Let_def)
    have bw1: "emitted env m b w1" using publish_step_cases(1) [OF p Inr] w1 by (simp add: emitted_def Let_def)
    have sent: "set (bus_sent (w_bus w)) \<subseteq> set (bus_sent (w_bus w1))" using publish_step_cases(1) [OF p Inr] w1 by auto
    have lt: "\<forall>c \<in> set bs. last_published step m w1 < seq_of c" using lp1 Cons.prems(2,3) by auto
    note ih = Cons.IH [OF e _ lt]
    have "emitted env m b w'" using ih Cons.prems(2) bw1 by (intro emitted_mono [OF _ _ bw1]) auto
    then show ?thesis using ih Cons.prems(2) lp1 sent w1 by auto
  qed
qed

lemma set_insert_batch_messages:
  "set (w_outbox w) \<subseteq> set (insert_batch_messages now run tenantId ms (w_outbox w))"
  "b \<in> set ms \<Longrightarrow> b \<in> ob_message ` set (insert_batch_messages now run tenantId ms ob)"
proof -
  show "set (w_outbox w) \<subseteq> set (insert_batch_messages now run tenantId ms (w_outbox w))"
    by (auto simp: insert_batch_messages_def)
  have "ob_message ` set (map (\<lambda>(i, m). outbox_row_of now run tenantId i m) (enumerate k ms)) = set ms" for k
  proof -
    have "map ob_message (map (\<lambda>(i, m). outbox_row_of now run tenantId i m) (enumerate k ms)) = map snd (enumerate k ms)"
      unfolding map_map by (rule map_cong) (auto simp: outbox_row_of_def)
    then show ?thesis by (metis list.set_map map_snd_enumerate)
  qed
  then show "b \<in> set ms \<Longrightarrow> b \<in> ob_message ` set (insert_batch_messages now run tenantId ms ob)"
    by (auto simp: insert_batch_messages_def image_Un)
qed

lemma max_seq_in: "bs \<noteq> [] \<Longrightarrow> max_seq bs \<in> seq_of ` set bs"
proof -
  have "foldl max s ss \<in> insert s (set ss)" for s :: int and ss
  proof (induction ss arbitrary: s)
    case (Cons a ss)
    from Cons.IH [of "max s a"] show ?case by (auto simp: max_def split: if_splits)
  qed simp
  note fold = this
  assume "bs \<noteq> []"
  then obtain b cs where bs: "bs = b # cs" by (cases bs) auto
  from fold [of "seq_of b" "map seq_of cs"] show "max_seq bs \<in> seq_of ` set bs"
    by (simp add: max_seq_def bs)
qed

lemma emit_outbox_sound:
  assumes "emit_outbox env step m slices w = w'"
    and "sorted_wrt (<) (map seq_of (concat slices))" "\<forall>sl \<in> set slices. sl \<noteq> []"
  shows "(\<forall>b \<in> set (concat slices). emitted env m b w') \<and> w_bus w' = w_bus w \<and>
    set (w_outbox w) \<subseteq> set (w_outbox w') \<and>
    (last_published step m w' = last_published step m w \<or> last_published step m w' \<in> seq_of ` set (concat slices))"
  using assms
proof (induction slices arbitrary: w)
  case (Cons sl slices)
  define w1 where "w1 = w\<lparr>w_outbox := insert_batch_messages (ce_now env) (pm_pipelineRunId m) (pm_tenantId m)
            (map (\<lambda>b. b\<lparr>pm_standalone := pm_standalone m\<rparr>) sl) (w_outbox w),
          w_runs := update_last_published_batch_seq (pm_pipelineRunId m) step (max_seq sl) (w_runs w)\<rparr>"
  have e: "emit_outbox env step m slices w1 = w'" using Cons.prems(1) by (simp add: w1_def)
  have ih: "(\<forall>b \<in> set (concat slices). emitted env m b w') \<and> w_bus w' = w_bus w1 \<and>
    set (w_outbox w1) \<subseteq> set (w_outbox w') \<and>
    (last_published step m w' = last_published step m w1 \<or> last_published step m w' \<in> seq_of ` set (concat slices))"
    by (rule Cons.IH [OF e]) (use Cons.prems in \<open>auto simp: sorted_wrt_append\<close>)
  have b1: "emitted env m b w1" if "b \<in> set sl" for b
    using set_insert_batch_messages(2) [of "b\<lparr>pm_standalone := pm_standalone m\<rparr>"
        "map (\<lambda>b. b\<lparr>pm_standalone := pm_standalone m\<rparr>) sl"] that
    by (auto simp: emitted_def Let_def w1_def)
  have "emitted env m b w'" if "b \<in> set sl" for b
    using ih by (intro emitted_mono [OF _ _ b1 [OF that]]) auto
  moreover have "last_published step m w1 \<in> {last_published step m w, max_seq sl}"
    using last_published_update by (auto simp: w1_def)
  moreover have "max_seq sl \<in> seq_of ` set sl" using Cons.prems(3) by (intro max_seq_in) simp
  moreover have "set (w_outbox w) \<subseteq> set (w_outbox w1)"
    using set_insert_batch_messages(1) by (simp add: w1_def)
  ultimately show ?case using ih by (auto simp: w1_def)
qed simp

lemma pending_batches_simps:
  "set (pending_batches run step t batches) = {b \<in> set batches. seq_of b > last_published_batch_seq run step t \<and>
     \<not> completed_batch_seqs run step t (seq_of b)}"
  "sorted_wrt (<) (map seq_of batches) \<Longrightarrow> sorted_wrt (<) (map seq_of (pending_batches run step t batches))"
  by (auto simp: pending_batches_def sorted_wrt_map intro: sorted_wrt_filter)

text \<open>
  C29. The emission checkpoint is sound, with direct publishing and with outbox staging, whether the
  emission succeeds or the broker fails in the middle of it: a batch the checkpoint has passed was
  passed before, was already completed, or has been handed over; so a restarted dispatcher, which
  skips what the checkpoint passed, skips no batch that was never sent. On success every batch is
  accounted for.
\<close>

theorem emission_checkpoint_sound:
  assumes "emit_batches env step m batches w = (w', out)" "sorted_wrt (<) (map seq_of batches)"
    and "b \<in> set batches" "seq_of b \<le> last_published step m w' \<or> out = Inr k"
  shows "seq_of b \<le> last_published step m w \<or> completed_batch_seqs (pm_pipelineRunId m) step (w_runs w) (seq_of b) \<or>
    emitted env m b w'"
proof (rule ccontr)
  assume "\<not> ?thesis"
  then have b: "last_published step m w < seq_of b" "\<not> completed_batch_seqs (pm_pipelineRunId m) step (w_runs w) (seq_of b)"
    "\<not> emitted env m b w'" by auto
  define p where "p = pending_batches (pm_pipelineRunId m) step (w_runs w) batches"
  have bp: "b \<in> set p" using b assms(3) by (simp add: p_def pending_batches_simps)
  then have ne: "p \<noteq> []" by auto
  have srt: "sorted_wrt (<) (map seq_of p)" using assms(2) by (simp add: p_def pending_batches_simps)
  have lt: "\<forall>c \<in> set p. last_published step m w < seq_of c" by (simp add: p_def pending_batches_simps)
  note eb = assms(1) [unfolded emit_batches_def Let_def, folded p_def, unfolded if_not_P [OF ne]]
  show False
  proof (cases "ce_outbox_publish env")
    case True
    then have "emit_outbox env step m (chunks OUTBOX_INSERT_CHUNK p) w = w'" using eb by simp
    from emit_outbox_sound [OF this] srt have "\<forall>b \<in> set p. emitted env m b w'"
      using chunks_elem [of OUTBOX_INSERT_CHUNK _ p]
      by (simp add: OUTBOX_INSERT_CHUNK_def concat_chunks)
    then show False using bp b(3) by blast
  next
    case False
    obtain w1 po where d: "emit_direct env step m p w = (w1, po)" by fastforce
    note s = emit_direct_sound [OF d srt lt]
    show False
    proof (cases po)
      case (Inl e)
      then have "w' = w1" "out = Inl e" using eb False d by auto
      then show False using s bp b(3) assms(4) by auto
    next
      case (Inr u)
      then have all: "\<forall>b \<in> set p. emitted env m b w1" using s by simp
      have "w_bus w' = w_bus w1" "w_outbox w' = w_outbox w1" using eb False d Inr by (auto split: if_splits)
      then have "emitted env m b w'" using all bp by (simp add: emitted_def)
      then show False using b(3) by simp
    qed
  qed
qed

definition demo_batch :: "int \<Rightarrow> unit pipeline_message" where
  "demo_batch s = (demo_message ''s.batch'')\<lparr>pm_batchSeq := Some s\<rparr>"

definition flaky_world :: "(unit, nat) world" where
  "flaky_world = demo_world\<lparr>w_bus := demo_bus\<lparr>bus_confirms := (\<lambda>k. k < 3)\<rparr>,
     w_runs := fst (start_or_restart_dispatch 0 ''r'' ''acme'' ''s'' 1 Map.empty)\<rparr>"

theorem emission_checkpoint_sound_witness:
  "\<exists>w'. emit_batches demo_env ''s'' (demo_message ''s'') [demo_batch 1, demo_batch 2, demo_batch 3, demo_batch 4] flaky_world =
       (w', Inl (Error ''publish failed'')) \<and>
     last_published ''s'' (demo_message ''s'') w' = 2 \<and>
     emitted demo_env (demo_message ''s'') (demo_batch 2) w'"
proof -
  let ?bs = "[demo_batch 1, demo_batch 2, demo_batch 3, demo_batch 4]"
  obtain w' out where e: "emit_batches demo_env ''s'' (demo_message ''s'') ?bs flaky_world = (w', out)" by fastforce
  have r: "out = Inl (Error ''publish failed'') \<and> last_published ''s'' (demo_message ''s'') w' = 2"
    using e by (auto simp: emit_batches_def pending_batches_def demo_env_def demo_batch_def demo_message_def
        new_pipeline_message_def flaky_world_def demo_world_def demo_bus_def publish_step_def amqp_publish_def Let_def
        seq_of_def start_or_restart_dispatch_def new_run_row_def last_published_batch_seq_def
        update_last_published_batch_seq_def update_row_def completed_batch_seqs_def is_batch_completed_def
        DISPATCH_BATCH_SEQ_def)
  have "seq_of (demo_batch 2) \<le> last_published ''s'' (demo_message ''s'') flaky_world \<or>
    completed_batch_seqs (pm_pipelineRunId (demo_message ''s'')) ''s'' (w_runs flaky_world) (seq_of (demo_batch 2)) \<or>
    emitted demo_env (demo_message ''s'') (demo_batch 2) w'"
    by (rule emission_checkpoint_sound [OF e]) (use r in \<open>simp_all add: seq_of_def demo_batch_def\<close>)
  moreover have "\<not> seq_of (demo_batch 2) \<le> last_published ''s'' (demo_message ''s'') flaky_world"
    "\<not> completed_batch_seqs (pm_pipelineRunId (demo_message ''s'')) ''s'' (w_runs flaky_world) (seq_of (demo_batch 2))"
    by (simp_all add: seq_of_def demo_batch_def last_published_batch_seq_def flaky_world_def demo_message_def
        new_pipeline_message_def start_or_restart_dispatch_def new_run_row_def completed_batch_seqs_def
        is_batch_completed_def DISPATCH_BATCH_SEQ_def)
  ultimately show ?thesis using e r by auto
qed

end
