(* ===== verification/Pipeline_Graph.thy ===== *)
theory Pipeline_Graph
  imports Consumers Js_String "HOL-Library.Multiset"
begin

text \<open>
  The steps of the daily pipeline as the consumers of \<open>src/pipeline/consumers\<close> wire them: which
  batches a dispatcher emits, which messages follow a step, and the join of the two stock branches;
  the grouping of packages by barcode of
  \<open>src/integration/repositories/a7pharma/embalagem-chunker.ts\<close> and the batch sizes of
  \<open>src/pipeline/import-batch-size.ts\<close>. What a repository query returns is an argument.
\<close>

section \<open>Messages of the graph\<close>

datatype properties_pass = Supplier | Name | Weight | Measures

record store_ref =
  store_id :: string
  store_externalId :: string

datatype step_payload =
    EmptyPayload
  | EmbalagemIds "int list"
  | OriginEans competitor_origin "string list"
  | Eans "string list"
  | PassEans properties_pass "string list"
  | ProductIds "string list" "store_ref list"

type_synonym step_message = "step_payload pipeline_message"

definition successor_message :: "int \<Rightarrow> step_message \<Rightarrow> pipeline_step \<Rightarrow> string option \<Rightarrow> step_message" where
  "successor_message now m step queue =
     new_pipeline_message now (pm_pipelineRunId m) (pm_tenantId m) (step_value step) queue EmptyPayload None None"

definition batch_message :: "int \<Rightarrow> step_message \<Rightarrow> pipeline_step \<Rightarrow> string \<Rightarrow> nat \<Rightarrow> step_payload \<Rightarrow> step_message" where
  "batch_message now m step queue seq payload =
     new_pipeline_message now (pm_pipelineRunId m) (pm_tenantId m) (step_value step) (Some queue) payload
       (Some (int seq)) None"

text \<open>Numbering payloads 1, 2, 3, ... in the order they are produced.\<close>

definition number_batches :: "int \<Rightarrow> step_message \<Rightarrow> pipeline_step \<Rightarrow> (string \<times> step_payload) list \<Rightarrow> step_message list" where
  "number_batches now m step ps =
     map (\<lambda>(i, q, p). batch_message now m step q i p) (enumerate 1 ps)"

section \<open>Packages by barcode\<close>

record embalagem =
  emb_id :: int
  emb_codigobarras :: "string option"

definition parse_ean :: "string option \<Rightarrow> string option" where
  "parse_ean codigobarras =
     (case codigobarras of
        None \<Rightarrow> None
      | Some code \<Rightarrow>
          let cleaned = filter is_digit code in
          if cleaned = [] \<or> length cleaned > 14 then None
          else
            let padded = replicate (13 - length cleaned) (CHR ''0'') @ cleaned in
            if nat_of_digits 10 padded = 0 then None
            else Some (dropWhile (\<lambda>c. c = CHR ''0'') padded))"

fun push_group :: "'k \<Rightarrow> 'v \<Rightarrow> ('k \<times> 'v list) list \<Rightarrow> ('k \<times> 'v list) list" where
  "push_group k v [] = [(k, [v])]"
| "push_group k v ((k', vs) # gs) = (if k' = k then (k', vs @ [v]) # gs else (k', vs) # push_group k v gs)"

definition ids_by_ean :: "embalagem list \<Rightarrow> (string \<times> int list) list" where
  "ids_by_ean rows =
     foldl (\<lambda>g row. case parse_ean (emb_codigobarras row) of None \<Rightarrow> g | Some ean \<Rightarrow> push_group ean (emb_id row) g) [] rows"

definition chunk_embalagens_by_ean :: "embalagem list \<Rightarrow> nat \<Rightarrow> int list list" where
  "chunk_embalagens_by_ean rows batchSize =
     (let groups = ids_by_ean rows; eans = map fst groups in
      map (\<lambda>slice. concat (map (\<lambda>ean. the (map_of groups ean)) slice)) (chunks batchSize eans))"

section \<open>Batch sizes of the competitor import\<close>

definition VTEX_SIMPLE_ORIGINS :: "competitor_origin list" where
  "VTEX_SIMPLE_ORIGINS = [PAGUE_MENOS, IKESAKI, PACHECO, SAO_PAULO, VENANCIO, INDIANA]"

definition chunk_size_for_origin :: "competitor_origin \<Rightarrow> int \<Rightarrow> int \<Rightarrow> int" where
  "chunk_size_for_origin origin vtexBatchSize nonVtexBatchSize =
     max 1 (if origin \<in> set VTEX_SIMPLE_ORIGINS then vtexBatchSize else nonVtexBatchSize)"

section \<open>The join\<close>

definition after_join :: "int \<Rightarrow> join_branch \<Rightarrow> step_message \<Rightarrow> run_table \<Rightarrow> run_table \<times> step_message list" where
  "after_join now branch m t =
     (case mark_branch_complete now (pm_pipelineRunId m) (pm_tenantId m) branch t of
        (t', Wait) \<Rightarrow> (t', [])
      | (t', Fire) \<Rightarrow> (t', [successor_message now m CALC_BASE_PRODUCT_METRICS
                              (Some (dispatch_step CALC_BASE_PRODUCT_METRICS))]))"

section \<open>The dispatchers\<close>

text \<open>Each returns the run table, the batches and the successors of the empty case.\<close>

definition BATCH_SIZE :: nat where
  "BATCH_SIZE = 500"

definition dispatch_sync_base_product ::
  "int \<Rightarrow> embalagem list \<Rightarrow> step_message \<Rightarrow> string option \<Rightarrow> step_message list \<times> step_message list" where
  "dispatch_sync_base_product now packages m ds =
     (let successor = successor_message now m SYNC_BASE_PRODUCT_STOCK (Some (dispatch_step SYNC_BASE_PRODUCT_STOCK)) in
      case ds of
        None \<Rightarrow> ([], [successor])
      | Some _ \<Rightarrow>
          let slices = chunk_embalagens_by_ean packages BATCH_SIZE in
          if slices = [] then ([], [successor])
          else (number_batches now m SYNC_BASE_PRODUCT
                  (map (\<lambda>s. (batch_step SYNC_BASE_PRODUCT, EmbalagemIds s)) slices), []))"

definition dispatch_sync_base_product_stock ::
  "int \<Rightarrow> embalagem list \<Rightarrow> step_message \<Rightarrow> string option \<Rightarrow> run_table \<Rightarrow> run_table \<times> step_message list \<times> step_message list" where
  "dispatch_sync_base_product_stock now packages m ds t =
     (let slices = (case ds of None \<Rightarrow> [] | Some _ \<Rightarrow> chunk_embalagens_by_ean packages BATCH_SIZE) in
      if slices = [] then (case after_join now StockA m t of (t', s) \<Rightarrow> (t', [], s))
      else (t, number_batches now m SYNC_BASE_PRODUCT_STOCK
              (map (\<lambda>s. (batch_step SYNC_BASE_PRODUCT_STOCK, EmbalagemIds s)) slices), []))"

definition import_payloads ::
  "competitor_origin list \<Rightarrow> string list \<Rightarrow> int \<Rightarrow> int \<Rightarrow> (string \<times> step_payload) list" where
  "import_payloads enabledOrigins eans vtexBatch nonVtexBatch =
     concat (map (\<lambda>origin.
        map (\<lambda>es. (origin_step IMPORT_COMPETITOR_PRODUCTS origin, OriginEans origin es))
          (chunks (nat (chunk_size_for_origin origin vtexBatch nonVtexBatch)) eans)) enabledOrigins)"

definition dispatch_import_competitor_products ::
  "int \<Rightarrow> competitor_origin list \<Rightarrow> string list \<Rightarrow> int \<Rightarrow> int \<Rightarrow> step_message \<Rightarrow> run_table \<Rightarrow>
   run_table \<times> step_message list \<times> step_message list" where
  "dispatch_import_competitor_products now enabledOrigins eans vtexBatch nonVtexBatch m t =
     (if enabledOrigins = [] \<or> eans = [] then (case after_join now StockB m t of (t', s) \<Rightarrow> (t', [], s))
      else (t, number_batches now m IMPORT_COMPETITOR_PRODUCTS
              (import_payloads enabledOrigins eans vtexBatch nonVtexBatch), []))"

definition dispatch_calc_base_product_metrics ::
  "int \<Rightarrow> string list \<Rightarrow> step_message \<Rightarrow> step_message list \<times> step_message list" where
  "dispatch_calc_base_product_metrics now eans m =
     (if eans = []
      then ([], [successor_message now m UPDATE_BASE_PRODUCT_PROPERTIES
                   (Some (dispatch_step UPDATE_BASE_PRODUCT_PROPERTIES))])
      else (number_batches now m CALC_BASE_PRODUCT_METRICS
              (map (\<lambda>es. (batch_step CALC_BASE_PRODUCT_METRICS, Eans es)) (chunks BATCH_SIZE eans)), []))"

definition dispatch_update_base_product_properties ::
  "int \<Rightarrow> (properties_pass \<Rightarrow> string list) \<Rightarrow> step_message \<Rightarrow> step_message list \<times> step_message list" where
  "dispatch_update_base_product_properties now missing m =
     (let batches = number_batches now m UPDATE_BASE_PRODUCT_PROPERTIES
            (concat (map (\<lambda>pass. map (\<lambda>es. (batch_step UPDATE_BASE_PRODUCT_PROPERTIES, PassEans pass es))
                                  (chunks BATCH_SIZE (missing pass))) [Supplier, Name, Weight, Measures]))
      in if batches = [] then ([], [successor_message now m SYNC_STORES None]) else (batches, []))"

definition dispatch_sync_product_items ::
  "int \<Rightarrow> store_ref list \<Rightarrow> string list \<Rightarrow> step_message \<Rightarrow> step_message list \<times> step_message list" where
  "dispatch_sync_product_items now stores productIds m =
     (if stores = [] then ([], []) else if productIds = [] then ([], [])
      else (number_batches now m SYNC_PRODUCT_ITEMS
              (map (\<lambda>ids. (batch_step SYNC_PRODUCT_ITEMS, ProductIds ids stores)) (chunks BATCH_SIZE productIds)), []))"

section \<open>What follows a step\<close>

text \<open>The successors the last batch, or the single-queue step, stages.\<close>

definition step_successors :: "pipeline_step \<Rightarrow> int \<Rightarrow> step_message \<Rightarrow> run_table \<Rightarrow> run_table \<times> step_message list" where
  "step_successors step now m t =
     (case step of
        SYNC_BASE_PRODUCT \<Rightarrow> (t, [successor_message now m SYNC_BASE_PRODUCT_STOCK (Some (dispatch_step SYNC_BASE_PRODUCT_STOCK))])
      | SYNC_BASE_PRODUCT_STOCK \<Rightarrow> after_join now StockA m t
      | SYNC_OFFER_BOOKS_INFO \<Rightarrow> (t, [successor_message now m IMPORT_COMPETITOR_PRODUCTS (Some (dispatch_step IMPORT_COMPETITOR_PRODUCTS))])
      | IMPORT_COMPETITOR_PRODUCTS \<Rightarrow> after_join now StockB m t
      | CALC_BASE_PRODUCT_METRICS \<Rightarrow> (t, [successor_message now m UPDATE_BASE_PRODUCT_PROPERTIES (Some (dispatch_step UPDATE_BASE_PRODUCT_PROPERTIES))])
      | UPDATE_BASE_PRODUCT_PROPERTIES \<Rightarrow> (t, [successor_message now m SYNC_STORES None])
      | SYNC_STORES \<Rightarrow> (t, [successor_message now m SYNC_PRODUCT_ITEMS (Some (dispatch_step SYNC_PRODUCT_ITEMS))])
      | SYNC_PRODUCT_ITEMS \<Rightarrow> (t, [])
      | APPLY_PRICE \<Rightarrow> (t, [])
      | EXECUTE_OFFER_BOOK_RULE \<Rightarrow> (t, []))"

text \<open>The two roots a start message publishes, in order; a failed publish throws on.\<close>

definition pipeline_start :: "string option \<Rightarrow> int \<Rightarrow> step_message \<Rightarrow> step_payload bus \<Rightarrow> step_payload bus \<times> unit outcome" where
  "pipeline_start node_env now m b =
     (case publish_step node_env (successor_message now m SYNC_BASE_PRODUCT (Some (dispatch_step SYNC_BASE_PRODUCT))) b of
        (b1, Inl e) \<Rightarrow> (b1, Inl e)
      | (b1, Inr _) \<Rightarrow> publish_step node_env (successor_message now m SYNC_OFFER_BOOKS_INFO None) b1)"

section \<open>The steps keep the contract of the batch consumer\<close>










section \<open>Batches are numbered and complete\<close>

lemma number_batches_seqs: "map seq_of (number_batches now m step ps) = map int [1..<Suc (length ps)]"
proof -
  have "map seq_of (number_batches now m step ps) = map (int \<circ> fst) (enumerate 1 ps)"
    by (simp add: number_batches_def batch_message_def new_pipeline_message_def seq_of_def case_prod_unfold o_def)
  also have "\<dots> = map int (map fst (enumerate 1 ps))" by (simp only: map_map)
  also have "map fst (enumerate 1 ps) = [1..<Suc (length ps)]" by (simp only: map_fst_enumerate) simp
  finally show ?thesis .
qed

lemma number_batches_payloads:
  "map (\<lambda>b. (pm_queue b, pm_payload b)) (number_batches now m step ps) = map (\<lambda>(q, p). (Some q, p)) ps"
proof -
  have "map (\<lambda>b. (pm_queue b, pm_payload b)) (number_batches now m step ps) =
      map ((\<lambda>(q, p). (Some q, p)) \<circ> snd) (enumerate 1 ps)"
    by (simp add: number_batches_def batch_message_def new_pipeline_message_def case_prod_unfold o_def)
  also have "\<dots> = map (\<lambda>(q, p). (Some q, p)) (map snd (enumerate 1 ps))" by (simp only: map_map)
  finally show ?thesis by (simp only: map_snd_enumerate)
qed

text \<open>The shape the emission and the fan-in rely on: batches numbered 1 to n in order.\<close>

definition numbered :: "step_message list \<Rightarrow> bool" where
  "numbered bs = (map seq_of bs = map int [1..<Suc (length bs)])"

lemma numbered_number_batches [simp]: "numbered (number_batches now m step ps)"
  by (simp add: numbered_def number_batches_seqs) (simp add: number_batches_def)

lemma numbered_Nil [simp]: "numbered []"
  by (simp add: numbered_def)

text \<open>
  Every dispatcher numbers its batches 1, 2, ..., n in the order it emits them, whatever the
  data; so a restarted dispatcher over the same data emits the same sequence numbers.
\<close>

lemma dispatchers_number_batches:
  "numbered (fst (dispatch_sync_base_product now packages m ds)) \<and>
   numbered (fst (snd (dispatch_sync_base_product_stock now packages m ds t))) \<and>
   numbered (fst (snd (dispatch_import_competitor_products now origins eans vtex nonVtex m t))) \<and>
   numbered (fst (dispatch_calc_base_product_metrics now eans m)) \<and>
   numbered (fst (dispatch_update_base_product_properties now missing m)) \<and>
   numbered (fst (dispatch_sync_product_items now stores ids m))"
  by (auto simp: dispatch_sync_base_product_def dispatch_sync_base_product_stock_def
      dispatch_import_competitor_products_def dispatch_calc_base_product_metrics_def
      dispatch_update_base_product_properties_def dispatch_sync_product_items_def Let_def
      split: option.splits prod.splits)

text \<open>
  A dispatcher that finds no work continues the chain exactly as the last batch of the step
  would: the same run table (join included) and the same successor messages; so an empty tenant
  still runs every later step.
\<close>

lemma empty_dispatch_continues_like_last_batch:
  "(fst (dispatch_sync_base_product now packages m ds) = [] \<longrightarrow>
      snd (dispatch_sync_base_product now packages m ds) = snd (step_successors SYNC_BASE_PRODUCT now m t)) \<and>
   (fst (snd (dispatch_sync_base_product_stock now packages m ds t)) = [] \<longrightarrow>
      (\<exists>t' s. dispatch_sync_base_product_stock now packages m ds t = (t', [], s) \<and>
         step_successors SYNC_BASE_PRODUCT_STOCK now m t = (t', s))) \<and>
   (fst (snd (dispatch_import_competitor_products now origins eans vtex nonVtex m t)) = [] \<longrightarrow>
      (\<exists>t' s. dispatch_import_competitor_products now origins eans vtex nonVtex m t = (t', [], s) \<and>
         step_successors IMPORT_COMPETITOR_PRODUCTS now m t = (t', s))) \<and>
   (fst (dispatch_calc_base_product_metrics now eans m) = [] \<longrightarrow>
      snd (dispatch_calc_base_product_metrics now eans m) = snd (step_successors CALC_BASE_PRODUCT_METRICS now m t)) \<and>
   (fst (dispatch_update_base_product_properties now missing m) = [] \<longrightarrow>
      snd (dispatch_update_base_product_properties now missing m) =
        snd (step_successors UPDATE_BASE_PRODUCT_PROPERTIES now m t)) \<and>
   (fst (dispatch_sync_product_items now stores ids m) = [] \<longrightarrow>
      snd (dispatch_sync_product_items now stores ids m) = snd (step_successors SYNC_PRODUCT_ITEMS now m t))"
proof -
  have ch: "chunks n xs = [] \<longleftrightarrow> xs = []" if "0 < n" for n and xs :: "'x list"
    using that by (subst chunks.simps) simp
  have nb: "number_batches now m step ps = [] \<longleftrightarrow> ps = []" for step ps
    by (cases ps) (simp_all add: number_batches_def)
  have im: "import_payloads origins eans vtex nonVtex = [] \<longleftrightarrow> origins = [] \<or> eans = []"
    by (auto simp: import_payloads_def chunk_size_for_origin_def ch)
  show ?thesis
    by (auto simp: dispatch_sync_base_product_def dispatch_sync_base_product_stock_def
      dispatch_import_competitor_products_def dispatch_calc_base_product_metrics_def
      dispatch_update_base_product_properties_def dispatch_sync_product_items_def step_successors_def
      Let_def nb im ch BATCH_SIZE_def split: option.splits prod.splits if_splits)
qed

section \<open>Packages of one barcode stay together\<close>

lemma push_group_keys: "fst ` set (push_group k v g) = insert k (fst ` set g)"
  by (induction k v g rule: push_group.induct) (simp_all add: insert_commute)

lemma push_group_distinct: "distinct (map fst g) \<Longrightarrow> distinct (map fst (push_group k v g))"
proof (induction g)
  case (Cons p g)
  then show ?case using push_group_keys [of k v g] by (cases p) auto
qed simp

lemma push_group_mset: "mset (concat (map snd (push_group k v g))) = add_mset v (mset (concat (map snd g)))"
  by (induction g) auto

lemma push_group_members:
  "\<exists>vs. (k, vs) \<in> set (push_group k v g) \<and> v \<in> set vs"
  "(k', vs') \<in> set g \<Longrightarrow> \<exists>vs. (k', vs) \<in> set (push_group k v g) \<and> set vs' \<subseteq> set vs"
  by (induction k v g rule: push_group.induct) fastforce+

definition grouped :: "(string \<times> int list) list \<Rightarrow> string \<Rightarrow> int \<Rightarrow> bool" where
  "grouped g ean i = (\<exists>vs. (ean, vs) \<in> set g \<and> i \<in> set vs)"

lemma ids_by_ean_snoc:
  "ids_by_ean (rows @ [r]) = (case parse_ean (emb_codigobarras r) of None \<Rightarrow> ids_by_ean rows
     | Some ean \<Rightarrow> push_group ean (emb_id r) (ids_by_ean rows))"
  by (simp add: ids_by_ean_def cong: option.case_cong)

lemma ids_by_ean_props:
  "distinct (map fst (ids_by_ean rows)) \<and>
   mset (concat (map snd (ids_by_ean rows))) =
     mset (map emb_id (filter (\<lambda>r. parse_ean (emb_codigobarras r) \<noteq> None) rows)) \<and>
   (\<forall>r \<in> set rows. \<forall>ean. parse_ean (emb_codigobarras r) = Some ean \<longrightarrow> grouped (ids_by_ean rows) ean (emb_id r))"
proof (induction rows rule: rev_induct)
  case Nil
  then show ?case by (simp add: ids_by_ean_def)
next
  case (snoc r rows)
  show ?case
  proof (cases "parse_ean (emb_codigobarras r)")
    case None
    then have "ids_by_ean (rows @ [r]) = ids_by_ean rows"
      and "filter (\<lambda>r. parse_ean (emb_codigobarras r) \<noteq> None) (rows @ [r]) =
        filter (\<lambda>r. parse_ean (emb_codigobarras r) \<noteq> None) rows"
      by (simp_all add: ids_by_ean_snoc)
    then show ?thesis using snoc None by (metis Un_iff empty_iff insert_iff list.set option.distinct(1) set_append)
  next
    case (Some ean)
    have "grouped (push_group ean (emb_id r) (ids_by_ean rows)) e i" if "grouped (ids_by_ean rows) e i" for e i
      using that push_group_members(2) [of e _ "ids_by_ean rows" ean "emb_id r"] by (fastforce simp: grouped_def)
    moreover have "grouped (push_group ean (emb_id r) (ids_by_ean rows)) ean (emb_id r)"
      using push_group_members(1) by (auto simp: grouped_def)
    moreover have "distinct (map fst (push_group ean (emb_id r) (ids_by_ean rows)))"
      by (rule push_group_distinct [OF snoc [THEN conjunct1]])
    moreover have "mset (concat (map snd (push_group ean (emb_id r) (ids_by_ean rows)))) =
        mset (map emb_id (filter (\<lambda>r. parse_ean (emb_codigobarras r) \<noteq> None) (rows @ [r])))"
    proof -
      have f: "map emb_id (filter (\<lambda>r. parse_ean (emb_codigobarras r) \<noteq> None) (rows @ [r])) =
          map emb_id (filter (\<lambda>r. parse_ean (emb_codigobarras r) \<noteq> None) rows) @ [emb_id r]"
        using Some by simp
      have IH: "mset (concat (map snd (ids_by_ean rows))) =
          mset (map emb_id (filter (\<lambda>r. parse_ean (emb_codigobarras r) \<noteq> None) rows))"
        by (rule snoc [THEN conjunct2, THEN conjunct1])
      show ?thesis unfolding f push_group_mset mset_append IH by simp
    qed
    moreover have "ids_by_ean (rows @ [r]) = push_group ean (emb_id r) (ids_by_ean rows)"
      using Some by (simp add: ids_by_ean_snoc)
    moreover have "\<forall>q \<in> set (rows @ [r]). \<forall>e. parse_ean (emb_codigobarras q) = Some e \<longrightarrow>
        grouped (push_group ean (emb_id r) (ids_by_ean rows)) e (emb_id q)"
      using calculation(1,2) snoc Some by simp
    ultimately show ?thesis by (simp only:)
  qed
qed

text \<open>
  The packages a dispatcher spreads over batches: every package with a valid barcode is in
  exactly one slice exactly once, no other package is in any, and two packages of the same barcode
  are in the same slice, so no two batches write the same product.
\<close>

lemma chunking_keeps_barcodes_together:
  assumes "0 < batchSize"
  shows "mset (concat (chunk_embalagens_by_ean rows batchSize)) =
      mset (map emb_id (filter (\<lambda>r. parse_ean (emb_codigobarras r) \<noteq> None) rows)) \<and>
    (\<forall>r \<in> set rows. \<forall>q \<in> set rows. parse_ean (emb_codigobarras r) \<noteq> None \<and>
       parse_ean (emb_codigobarras r) = parse_ean (emb_codigobarras q) \<longrightarrow>
       (\<exists>slice \<in> set (chunk_embalagens_by_ean rows batchSize). emb_id r \<in> set slice \<and> emb_id q \<in> set slice))"
proof -
  define g where "g = ids_by_ean rows"
  note props = ids_by_ean_props [of rows, folded g_def]
  have look: "the (map_of g ean) = vs" if "(ean, vs) \<in> set g" for ean vs
    using props that by simp
  have slices: "chunk_embalagens_by_ean rows batchSize =
      map (\<lambda>slice. concat (map (\<lambda>ean. the (map_of g ean)) slice)) (chunks batchSize (map fst g))"
    by (simp add: chunk_embalagens_by_ean_def g_def Let_def)
  have cc: "concat (map (\<lambda>sl. concat (map f sl)) css) = concat (map f (concat css))" for f :: "string \<Rightarrow> int list" and css
    by (induction css) simp_all
  have "concat (chunk_embalagens_by_ean rows batchSize) =
      concat (map (\<lambda>ean. the (map_of g ean)) (concat (chunks batchSize (map fst g))))"
    by (simp only: slices cc)
  also have "\<dots> = concat (map (\<lambda>ean. the (map_of g ean)) (map fst g))"
    using assms by (simp add: concat_chunks)
  also have "map (\<lambda>ean. the (map_of g ean)) (map fst g) = map snd g"
    using look by (auto simp: o_def)
  finally have c: "concat (chunk_embalagens_by_ean rows batchSize) = concat (map snd g)" .
  have "\<exists>slice \<in> set (chunk_embalagens_by_ean rows batchSize). emb_id r \<in> set slice \<and> emb_id q \<in> set slice"
    if a: "r \<in> set rows" "q \<in> set rows" "parse_ean (emb_codigobarras r) = Some ean"
      "parse_ean (emb_codigobarras q) = Some ean" for r q ean
  proof -
    obtain vs where vs: "(ean, vs) \<in> set g" "emb_id r \<in> set vs"
      using props a(1,3) by (auto simp: grouped_def)
    obtain vs' where "(ean, vs') \<in> set g" "emb_id q \<in> set vs'"
      using props a(2,4) by (auto simp: grouped_def)
    then have q: "emb_id q \<in> set vs" using look [OF vs(1)] look by fastforce
    have "ean \<in> set (concat (chunks batchSize (map fst g)))"
      using vs(1) assms by (force simp: concat_chunks)
    then obtain sl where "sl \<in> set (chunks batchSize (map fst g))" "ean \<in> set sl" by auto
    then show ?thesis using vs q look [OF vs(1)] unfolding slices by force
  qed
  then show ?thesis using c props by fastforce
qed

definition demo_packages :: "embalagem list" where
  "demo_packages = [\<lparr>emb_id = 1, emb_codigobarras = Some ''789''\<rparr>, \<lparr>emb_id = 2, emb_codigobarras = Some ''x''\<rparr>,
     \<lparr>emb_id = 3, emb_codigobarras = Some ''0789''\<rparr>]"

section \<open>Canonical barcodes\<close>

lemma nat_of_digits_zeros: "nat_of_digits 10 (replicate n (CHR ''0'') @ s) = nat_of_digits 10 s"
  by (induction n) (simp_all add: nat_of_digits_def digit_value_def code_unit_def Let_def)

lemma nat_of_digits_dropWhile: "nat_of_digits 10 (dropWhile (\<lambda>c. c = CHR ''0'') s) = nat_of_digits 10 s"
proof (induction s)
  case (Cons c cs)
  then show ?case using nat_of_digits_zeros [of 1 cs] by simp
qed simp

text \<open>
  Barcodes are canonical: what \<open>parseEan\<close> returns is a non-empty string of at most 14 digits
  without a leading zero, and parsing it again returns it unchanged.
\<close>

lemma parse_ean_canonical:
  assumes "parse_ean code = Some ean"
  shows "ean \<noteq> [] \<and> hd ean \<noteq> CHR ''0'' \<and> length ean \<le> 14 \<and> list_all is_digit ean \<and>
    parse_ean (Some ean) = Some ean"
proof -
  let ?z = "\<lambda>c. c = CHR ''0''"
  have z: "is_digit (CHR ''0'')" by (simp add: is_digit_def code_unit_def)
  obtain s where s: "code = Some s" using assms by (auto simp: parse_ean_def split: option.splits)
  define cleaned where "cleaned = filter is_digit s"
  define padded where "padded = replicate (13 - length cleaned) (CHR ''0'') @ cleaned"
  have h: "length cleaned \<le> 14" "nat_of_digits 10 padded \<noteq> 0" "ean = dropWhile ?z padded"
    using assms by (auto simp: parse_ean_def s Let_def cleaned_def padded_def split: if_splits)
  have dig: "set padded \<subseteq> {c. is_digit c}" using z by (auto simp: padded_def cleaned_def)
  have len: "length padded \<le> 14" using h(1) by (simp add: padded_def)
  have n: "nat_of_digits 10 ean \<noteq> 0" using h by (simp add: nat_of_digits_dropWhile)
  then have ne: "ean \<noteq> []" by (auto simp: nat_of_digits_def)
  then have hd: "hd ean \<noteq> CHR ''0''" using hd_dropWhile [of ?z padded] h(3) by auto
  have le: "length ean \<le> 14" using h(3) len length_dropWhile_le [of ?z padded] by simp
  have de: "set ean \<subseteq> {c. is_digit c}" using h(3) dig set_dropWhileD [of _ ?z padded] by fastforce
  then have fl: "filter is_digit ean = ean" by (intro filter_True) auto
  have dw: "dropWhile ?z (replicate k (CHR ''0'') @ ean) = ean" for k
  proof (induction k)
    case 0
    then show ?case using hd ne by (cases ean) auto
  qed simp
  have "parse_ean (Some ean) = Some ean"
    using fl ne le n dw by (simp add: parse_ean_def Let_def nat_of_digits_zeros)
  then show ?thesis using ne hd le de by (auto simp: list_all_iff)
qed

end
