(* ===== verification/Catalog_Mutation.thy ===== *)
theory Catalog_Mutation
  imports Js_Number
begin

text \<open>
  Price and offer writes: \<open>src/tenant-api/catalog/catalog-mutation.service.ts\<close>, with the tenant
  tables it reads and writes and the ERP it pushes to. The ERP is not under \<open>src/\<close>: a push is
  recorded, and an oracle on the count of pushes decides whether it is confirmed; a recorded push
  survives a rollback. Numeric columns hold exact decimals, \<open>numeric(12,2)\<close> rounding half away
  from zero; barcodes and ids of the ERP (\<open>bigint\<close>, read back with \<open>Number\<close>) are integers,
  which \<open>Number\<close> and \<open>String\<close> keep below \<open>2\<^bsup>53\<^esup>\<close>.
\<close>

section \<open>Numbers in columns\<close>

text \<open>
  The decimal \<open>String(x)\<close> denotes: the least number of decimals that reads back as \<open>x\<close> (prices are
  far below \<open>2\<^bsup>53\<^esup>\<close>, where the shortest text has the least number of decimals).
\<close>

definition decimals :: "nat \<Rightarrow> rat \<Rightarrow> rat" where
  "decimals d x = of_int (rne (x * 10 ^ d)) / 10 ^ d"

definition decimal_of :: "rat \<Rightarrow> rat" where
  "decimal_of x = (case find (\<lambda>d. round_double (decimals d x) = x) [0..<340] of None \<Rightarrow> x | Some d \<Rightarrow> decimals d x)"

text \<open>A number as a \<open>numeric\<close> parameter; what is not finite is refused by the column.\<close>

definition numeric_param :: "jsnum \<Rightarrow> rat outcome" where
  "numeric_param x = (case x of Num r \<Rightarrow> Inr (decimal_of r) | _ \<Rightarrow> Inl (Error ''invalid numeric value''))"

definition numeric_12_2 :: "rat \<Rightarrow> rat" where
  "numeric_12_2 x = (if x < 0 then - of_int \<lfloor>- x * 100 + 1/2\<rfloor> / 100 else of_int \<lfloor>x * 100 + 1/2\<rfloor> / 100)"

definition numeric_12_4 :: "rat \<Rightarrow> rat" where
  "numeric_12_4 x = (if x < 0 then - of_int \<lfloor>- x * 10000 + 1/2\<rfloor> / 10000 else of_int \<lfloor>x * 10000 + 1/2\<rfloor> / 10000)"

section \<open>Tables\<close>

text \<open>
  The external id of a product is the id of its package in the ERP. The column is text, written only by
  the base import, as the decimal of the ERP's number; the readers turn it back with \<open>Number\<close>. It is
  modelled as that number.
\<close>

record product =
  pr_id :: string
  pr_ean :: string
  pr_externalId :: "int option"
  pr_name :: "string option"
  pr_active :: bool
  pr_price :: "rat option"
  pr_cost :: "rat option"
  pr_averageUnitCost :: "rat option"
  pr_unitSalePrice :: "rat option"
  pr_supplier :: "string option"
  pr_monitored :: bool
  pr_classificationId :: "string option"

record product_item =
  pi_productId :: string
  pi_storeId :: string
  pi_price :: "rat option"
  pi_priceOffer :: "rat option"
  pi_cost :: "rat option"
  pi_offerExternalId :: "int option"

record store =
  st_id :: string
  st_tenantId :: string
  st_externalId :: int
  st_name :: string
  st_active :: bool
  st_deleted :: bool

record offer =
  of_ean :: string
  of_description :: "string option"
  of_targetPrice :: "rat option"
  of_externalId :: "int option"

datatype erp_write =
    ChangePrice int jsnum "int option"
  | UpsertOffer int int "jsnum option"

record catalog =
  ct_products :: "product list"
  ct_items :: "product_item list"
  ct_stores :: "store list"
  ct_offers :: "offer list"
  ct_tenants :: "string \<Rightarrow> string option"
  ct_defaultCaderno :: "string \<Rightarrow> int option"
  ct_apiCredentials :: "string \<Rightarrow> bool"
  ct_erp :: "(erp_write \<times> bool) list"
  ct_erpConfirms :: "nat \<Rightarrow> bool"

definition find_product :: "string \<Rightarrow> catalog \<Rightarrow> product option" where
  "find_product ean c = find (\<lambda>p. pr_ean p = ean) (ct_products c)"

definition resolve_tenant_id :: "string \<Rightarrow> (string \<Rightarrow> string option) \<Rightarrow> string outcome" where
  "resolve_tenant_id slug tenants =
     (case tenants slug of None \<Rightarrow> Inl (NotFoundException (''tenant '' @ slug @ '' not found'')) | Some i \<Rightarrow> Inr i)"

definition find_store :: "string \<Rightarrow> string \<Rightarrow> catalog \<Rightarrow> store option" where
  "find_store i tenantId c = find (\<lambda>s. st_id s = i \<and> st_tenantId s = tenantId \<and> \<not> st_deleted s) (ct_stores c)"

text \<open>The store of a write, checked.\<close>

definition active_store :: "string \<Rightarrow> string \<Rightarrow> catalog \<Rightarrow> store outcome" where
  "active_store tenantSlug storeId c =
     bind_outcome (resolve_tenant_id tenantSlug (ct_tenants c)) (\<lambda>tenantId.
       case find_store storeId tenantId c of
         None \<Rightarrow> Inl (NotFoundException (''store '' @ storeId @ '' not found''))
       | Some s \<Rightarrow> if \<not> st_active s then Inl (ConflictException (''store '' @ storeId @ '' is inactive'')) else Inr s)"

definition push_to_erp :: "erp_write \<Rightarrow> catalog \<Rightarrow> catalog \<times> unit outcome" where
  "push_to_erp op c =
     (let ok = ct_erpConfirms c (length (ct_erp c)) in
      (c\<lparr>ct_erp := ct_erp c @ [(op, ok)]\<rparr>, if ok then Inr () else Inl (BadGatewayException ''ERP write failed'')))"

section \<open>Edits\<close>

text \<open>The fields the request carries; its numbers are finite doubles.\<close>

record update_product_dto =
  up_name :: "string option"
  up_active :: "bool option"
  up_monitored :: "bool option"
  up_supplier :: "string option"
  up_cost :: "rat option"
  up_averageUnitCost :: "rat option"
  up_unitSalePrice :: "rat option"
  up_classificationId :: "string option"

definition or_else :: "'a option \<Rightarrow> 'a option \<Rightarrow> 'a option" where
  "or_else new old = (case new of None \<Rightarrow> old | Some _ \<Rightarrow> new)"

definition patch_product :: "update_product_dto \<Rightarrow> product \<Rightarrow> product" where
  "patch_product dto p = p\<lparr>
     pr_name := or_else (up_name dto) (pr_name p),
     pr_active := (case up_active dto of None \<Rightarrow> pr_active p | Some b \<Rightarrow> b),
     pr_monitored := (case up_monitored dto of None \<Rightarrow> pr_monitored p | Some b \<Rightarrow> b),
     pr_supplier := or_else (up_supplier dto) (pr_supplier p),
     pr_cost := or_else (map_option (\<lambda>x. numeric_12_4 (decimal_of x)) (up_cost dto)) (pr_cost p),
     pr_averageUnitCost := or_else (map_option (\<lambda>x. numeric_12_4 (decimal_of x)) (up_averageUnitCost dto)) (pr_averageUnitCost p),
     pr_unitSalePrice := or_else (map_option (\<lambda>x. numeric_12_2 (decimal_of x)) (up_unitSalePrice dto)) (pr_unitSalePrice p),
     pr_classificationId := or_else (up_classificationId dto) (pr_classificationId p)\<rparr>"

definition empty_patch :: "update_product_dto \<Rightarrow> bool" where
  "empty_patch dto =
     (up_name dto = None \<and> up_active dto = None \<and> up_monitored dto = None \<and> up_supplier dto = None \<and>
      up_cost dto = None \<and> up_averageUnitCost dto = None \<and> up_unitSalePrice dto = None \<and>
      up_classificationId dto = None)"


definition update_product :: "string \<Rightarrow> update_product_dto \<Rightarrow> catalog \<Rightarrow> catalog \<times> nat outcome" where
  "update_product ean dto c =
     (if empty_patch dto then (c, Inl (BadRequestException ''no editable fields provided''))
      else let affected = length (filter (\<lambda>p. pr_ean p = ean) (ct_products c)) in
        if affected = 0 then (c, Inl (NotFoundException (''product '' @ ean @ '' not found'')))
        else (c\<lparr>ct_products := update_where (\<lambda>p. pr_ean p = ean) (patch_product dto) (ct_products c)\<rparr>, Inr affected))"

definition soft_delete :: "string \<Rightarrow> catalog \<Rightarrow> catalog \<times> unit outcome" where
  "soft_delete ean c =
     (if filter (\<lambda>p. pr_ean p = ean) (ct_products c) = []
      then (c, Inl (NotFoundException (''product '' @ ean @ '' not found'')))
      else (c\<lparr>ct_products := update_where (\<lambda>p. pr_ean p = ean) (\<lambda>p. p\<lparr>pr_active := False\<rparr>) (ct_products c)\<rparr>, Inr ()))"

section \<open>The sale price\<close>

definition upsert_item_price :: "string \<Rightarrow> string \<Rightarrow> rat \<Rightarrow> product_item list \<Rightarrow> product_item list" where
  "upsert_item_price productId storeId price its =
     (if list_ex (\<lambda>i. pi_productId i = productId \<and> pi_storeId i = storeId) its
      then update_where (\<lambda>i. pi_productId i = productId \<and> pi_storeId i = storeId) (\<lambda>i. i\<lparr>pi_price := Some price\<rparr>) its
      else its @ [\<lparr>pi_productId = productId, pi_storeId = storeId, pi_price = Some price, pi_priceOffer = None,
                   pi_cost = None, pi_offerExternalId = None\<rparr>])"

text \<open>The checks before the push: the product, the store (if any) and the credentials.\<close>

definition price_write ::
  "string \<Rightarrow> string \<Rightarrow> string option \<Rightarrow> catalog \<Rightarrow> (product \<times> int \<times> store option) outcome" where
  "price_write tenantSlug ean storeId c =
     (case find_product ean c of
        None \<Rightarrow> Inl (NotFoundException (''product '' @ ean @ '' not found''))
      | Some product \<Rightarrow>
          if pr_monitored product then Inl (ConflictException ''product is monitored; price is locked'')
          else (case pr_externalId product of
             None \<Rightarrow> Inl (ConflictException ''product has no ERP external_id'')
           | Some ext \<Rightarrow>
               bind_outcome (case storeId of None \<Rightarrow> Inr None | Some sid \<Rightarrow>
                   if sid = [] then Inr None
                   else bind_outcome (active_store tenantSlug sid c) (\<lambda>s. Inr (Some s)))
                 (\<lambda>store.
                   if \<not> ct_apiCredentials c tenantSlug
                   then Inl (ConflictException ''A7Pharma API not configured for this tenant'')
                   else Inr (product, ext, store))))"

definition update_price ::
  "string \<Rightarrow> string \<Rightarrow> jsnum \<Rightarrow> string option \<Rightarrow> catalog \<Rightarrow> catalog \<times> jsnum outcome" where
  "update_price tenantSlug ean newPrice storeId c =
     (case price_write tenantSlug ean storeId c of
        Inl e \<Rightarrow> (c, Inl e)
      | Inr (product, ext, store) \<Rightarrow>
          (case push_to_erp (ChangePrice ext newPrice (map_option st_externalId store)) c of
             (c1, Inl e) \<Rightarrow> (c1, Inl e)
           | (c1, Inr _) \<Rightarrow>
               (case numeric_param newPrice of
                  Inl e \<Rightarrow> (c1, Inl e)
                | Inr p \<Rightarrow>
                    (case store of
                       Some s \<Rightarrow> (c1\<lparr>ct_items := upsert_item_price (pr_id product) (st_id s) (numeric_12_2 p) (ct_items c1)\<rparr>,
                                  Inr newPrice)
                     | None \<Rightarrow> (c1\<lparr>ct_products := update_where (\<lambda>q. pr_ean q = ean)
                                   (\<lambda>q. q\<lparr>pr_price := Some (numeric_12_2 p)\<rparr>) (ct_products c1)\<rparr>, Inr newPrice)))))"

section \<open>The offer price\<close>

record upsert_offer_dto =
  uo_targetPrice :: jsnum
  uo_cadernoId :: int
  uo_description :: "string option"
  uo_storeId :: "string option"

text \<open>The active stores of the tenant that have the product, with their offer book, by store name.\<close>

definition store_cadernos_of :: "string \<Rightarrow> string \<Rightarrow> catalog \<Rightarrow> (string \<times> int option \<times> string) list" where
  "store_cadernos_of ean tenantId c =
     sort_key (\<lambda>(_, _, n). n)
       (concat (map (\<lambda>i. concat (map (\<lambda>p. concat (map (\<lambda>s.
            if pr_id p = pi_productId i \<and> pr_ean p = ean \<and> st_id s = pi_storeId i \<and> st_tenantId s = tenantId \<and>
               st_active s \<and> \<not> st_deleted s
            then [(pi_storeId i, pi_offerExternalId i, st_name s)] else [])
          (ct_stores c))) (ct_products c))) (ct_items c)))"

text \<open>The offer book a store-scoped write goes to, and the stores it reaches.\<close>

definition resolve_caderno ::
  "string \<Rightarrow> string \<Rightarrow> string \<Rightarrow> catalog \<Rightarrow> (int \<times> string list) outcome" where
  "resolve_caderno tenantSlug ean storeId c =
     bind_outcome (resolve_tenant_id tenantSlug (ct_tenants c)) (\<lambda>tenantId.
     bind_outcome (active_store tenantSlug storeId c) (\<lambda>_.
       let rows = store_cadernos_of ean tenantId c;
           focused = find (\<lambda>(sid, _, _). sid = storeId) rows;
           reach = (\<lambda>cad. map (\<lambda>(_, _, n). n) (filter (\<lambda>(_, k, _). k = Some cad) rows))
       in (case focused of
             Some (_, Some cad, _) \<Rightarrow> Inr (cad, reach cad)
           | _ \<Rightarrow>
               (case ct_defaultCaderno c tenantId of
                  None \<Rightarrow> Inl (ConflictException (''store '' @ storeId @ '' has no offer caderno for product '' @ ean @
                            '' and no default caderno configured''))
                | Some cad \<Rightarrow> Inr (cad, reach cad)))))"

definition mirror_item_offer :: "string \<Rightarrow> int \<Rightarrow> rat option \<Rightarrow> catalog \<Rightarrow> product_item list" where
  "mirror_item_offer ean caderno price c =
     map (\<lambda>i. case find (\<lambda>p. pr_id p = pi_productId i \<and> pr_ean p = ean) (ct_products c) of
           None \<Rightarrow> i
         | Some p \<Rightarrow>
             if pi_offerExternalId i = Some caderno
             then i\<lparr>pi_priceOffer :=
                (case price of None \<Rightarrow> None
                 | Some x \<Rightarrow> (case or_else (pi_price i) (pr_price p) of
                     None \<Rightarrow> None | Some shelf \<Rightarrow> if x \<le> shelf then Some (numeric_12_2 x) else None))\<rparr>
             else i) (ct_items c)"

definition upsert_offer_row :: "string \<Rightarrow> rat \<Rightarrow> int \<Rightarrow> string option \<Rightarrow> offer list \<Rightarrow> offer list" where
  "upsert_offer_row ean price caderno description os =
     (if list_ex (\<lambda>r. of_ean r = ean) os
      then update_where (\<lambda>r. of_ean r = ean)
             (\<lambda>r. r\<lparr>of_targetPrice := Some price, of_externalId := Some caderno,
                    of_description := or_else description (of_description r)\<rparr>) os
      else os @ [\<lparr>of_ean = ean, of_description = description, of_targetPrice = Some price, of_externalId = Some caderno\<rparr>])"

definition offer_write ::
  "string \<Rightarrow> string \<Rightarrow> upsert_offer_dto \<Rightarrow> catalog \<Rightarrow> (int \<times> int \<times> string list option) outcome" where
  "offer_write tenantSlug ean dto c =
     (case find_product ean c of
        None \<Rightarrow> Inl (NotFoundException (''product '' @ ean @ '' not found''))
      | Some product \<Rightarrow>
          (case pr_externalId product of
             None \<Rightarrow> Inl (ConflictException ''product has no ERP external_id'')
           | Some ext \<Rightarrow>
               bind_outcome
                 (case uo_storeId dto of None \<Rightarrow> Inr (uo_cadernoId dto, None)
                  | Some sid \<Rightarrow> if sid = [] then Inr (uo_cadernoId dto, None)
                      else bind_outcome (resolve_caderno tenantSlug ean sid c) (\<lambda>(cad, reach). Inr (cad, Some reach)))
                 (\<lambda>(cad, reach).
                   if \<not> ct_apiCredentials c tenantSlug
                   then Inl (ConflictException ''A7Pharma API not configured for this tenant'')
                   else Inr (ext, cad, reach))))"

definition upsert_offer ::
  "string \<Rightarrow> string \<Rightarrow> upsert_offer_dto \<Rightarrow> bool \<Rightarrow> catalog \<Rightarrow> catalog \<times> (jsnum \<times> int \<times> string list option) outcome" where
  "upsert_offer tenantSlug ean dto storeScoped c =
     (case offer_write tenantSlug ean dto c of
        Inl e \<Rightarrow> (c, Inl e)
      | Inr (ext, cad, reach) \<Rightarrow>
          (case push_to_erp (UpsertOffer cad ext (Some (uo_targetPrice dto))) c of
             (c1, Inl e) \<Rightarrow> (c1, Inl e)
           | (c1, Inr _) \<Rightarrow>
               (case numeric_param (uo_targetPrice dto) of
                  Inl e \<Rightarrow> (c1, Inl e)
                | Inr p \<Rightarrow>
                    let scoped = storeScoped \<or> reach \<noteq> None;
                        c2 = (if scoped then c1
                              else c1\<lparr>ct_offers := upsert_offer_row ean (numeric_12_2 p) cad (uo_description dto) (ct_offers c1)\<rparr>)
                    in (c2\<lparr>ct_items := mirror_item_offer ean cad (Some p) c2\<rparr>, Inr (uo_targetPrice dto, cad, reach)))))"

definition removal_write :: "string \<Rightarrow> string \<Rightarrow> catalog \<Rightarrow> (int \<times> int) outcome" where
  "removal_write tenantSlug ean c =
     (case find (\<lambda>r. of_ean r = ean) (ct_offers c) of
        None \<Rightarrow> Inl (NotFoundException (''offer for '' @ ean @ '' not found''))
      | Some offer \<Rightarrow>
          (case find_product ean c of
             None \<Rightarrow> Inl (ConflictException ''product has no ERP external_id'')
           | Some product \<Rightarrow>
               (case pr_externalId product of
                  None \<Rightarrow> Inl (ConflictException ''product has no ERP external_id'')
                | Some ext \<Rightarrow>
                    (case of_externalId offer of
                       None \<Rightarrow> Inl (ConflictException ''offer has no caderno id'')
                     | Some cad \<Rightarrow>
                         if \<not> ct_apiCredentials c tenantSlug
                         then Inl (ConflictException ''A7Pharma API not configured for this tenant'')
                         else Inr (ext, cad)))))"

definition remove_offer :: "string \<Rightarrow> string \<Rightarrow> catalog \<Rightarrow> catalog \<times> unit outcome" where
  "remove_offer tenantSlug ean c =
     (case removal_write tenantSlug ean c of
        Inl e \<Rightarrow> (c, Inl e)
      | Inr (ext, cad) \<Rightarrow>
          (case push_to_erp (UpsertOffer cad ext None) c of
             (c1, Inl e) \<Rightarrow> (c1, Inl e)
           | (c1, Inr _) \<Rightarrow>
               (let c2 = c1\<lparr>ct_offers := filter (\<lambda>r. of_ean r \<noteq> ean) (ct_offers c1)\<rparr>
                in c2\<lparr>ct_items := mirror_item_offer ean cad None c2\<rparr>, Inr ())))"

section \<open>The write-back contract\<close>

definition tables :: "catalog \<Rightarrow> product list \<times> product_item list \<times> offer list" where
  "tables c = (ct_products c, ct_items c, ct_offers c)"

text \<open>
  What callers rely on: an operation pushes at most once, and reports success or touches the local
  tables only after the ERP confirmed that push.
\<close>

locale write_back =
  fixes op :: "catalog \<Rightarrow> catalog \<times> 'r outcome"
  assumes contract: "op c = (c', out) \<Longrightarrow>
    (ct_erp c' = ct_erp c \<and> tables c' = tables c \<and> (\<exists>e. out = Inl e)) \<or>
    (\<exists>w. ct_erp c' = ct_erp c @ [(w, False)] \<and> tables c' = tables c \<and> (\<exists>e. out = Inl e)) \<or>
    (\<exists>w. ct_erp c' = ct_erp c @ [(w, True)])"
begin

lemma success_is_confirmed: "op c = (c', Inr r) \<Longrightarrow> \<exists>w. ct_erp c' = ct_erp c @ [(w, True)]"
  using contract by blast

lemma change_is_confirmed: "op c = (c', out) \<Longrightarrow> tables c' \<noteq> tables c \<Longrightarrow> \<exists>w. ct_erp c' = ct_erp c @ [(w, True)]"
  using contract by blast

lemma at_most_one_push: "op c = (c', out) \<Longrightarrow> \<exists>ws. ct_erp c' = ct_erp c @ ws \<and> length ws \<le> 1"
  using contract [of c c' out] by auto

end

lemma push_to_erp_cases:
  assumes "push_to_erp w c = (c1, out)"
  shows "(out = Inr () \<and> ct_erp c1 = ct_erp c @ [(w, True)] \<or>
      out = Inl (BadGatewayException ''ERP write failed'') \<and> ct_erp c1 = ct_erp c @ [(w, False)]) \<and>
    ct_products c1 = ct_products c \<and> ct_items c1 = ct_items c \<and> ct_offers c1 = ct_offers c"
  using assms by (auto simp: push_to_erp_def Let_def split: if_splits)

lemma write_back_step:
  assumes "push_to_erp w c = (c1, po)"
    and "po = Inr () \<Longrightarrow> ct_erp c' = ct_erp c1" "\<And>e. po = Inl e \<Longrightarrow> c' = c1 \<and> (\<exists>e. out = Inl e)"
  shows "(\<exists>w. ct_erp c' = ct_erp c @ [(w, False)] \<and> tables c' = tables c \<and> (\<exists>e. out = Inl e)) \<or>
    (\<exists>w. ct_erp c' = ct_erp c @ [(w, True)])"
  using push_to_erp_cases [OF assms(1)] assms(2,3) by (auto simp: tables_def)

interpretation price: write_back "update_price slug ean newPrice storeId" for slug ean newPrice storeId
proof
  fix c c' out
  assume u: "update_price slug ean newPrice storeId c = (c', out)"
  show "(ct_erp c' = ct_erp c \<and> tables c' = tables c \<and> (\<exists>e. out = Inl e)) \<or>
    (\<exists>w. ct_erp c' = ct_erp c @ [(w, False)] \<and> tables c' = tables c \<and> (\<exists>e. out = Inl e)) \<or>
    (\<exists>w. ct_erp c' = ct_erp c @ [(w, True)])"
  proof (cases "price_write slug ean storeId c")
    case (Inl e)
    then show ?thesis using u by (auto simp: update_price_def)
  next
    case (Inr q)
    obtain product ext store where q: "q = (product, ext, store)" by (cases q) auto
    obtain c1 po where p: "push_to_erp (ChangePrice ext newPrice (map_option st_externalId store)) c = (c1, po)"
      by fastforce
    show ?thesis
      by (rule disjI2, rule write_back_step [OF p])
        (use u p q Inr in \<open>auto simp: update_price_def split: sum.splits option.splits\<close>)
  qed
qed

interpretation offer: write_back "upsert_offer slug ean dto scoped" for slug ean dto scoped
proof
  fix c c' out
  assume u: "upsert_offer slug ean dto scoped c = (c', out)"
  show "(ct_erp c' = ct_erp c \<and> tables c' = tables c \<and> (\<exists>e. out = Inl e)) \<or>
    (\<exists>w. ct_erp c' = ct_erp c @ [(w, False)] \<and> tables c' = tables c \<and> (\<exists>e. out = Inl e)) \<or>
    (\<exists>w. ct_erp c' = ct_erp c @ [(w, True)])"
  proof (cases "offer_write slug ean dto c")
    case (Inl e)
    then show ?thesis using u by (auto simp: upsert_offer_def)
  next
    case (Inr q)
    obtain ext cad reach where q: "q = (ext, cad, reach)" by (cases q) auto
    obtain c1 po where p: "push_to_erp (UpsertOffer cad ext (Some (uo_targetPrice dto))) c = (c1, po)"
      by fastforce
    show ?thesis
      by (rule disjI2, rule write_back_step [OF p])
        (use u p q Inr in \<open>auto simp: upsert_offer_def Let_def split: sum.splits option.splits if_splits\<close>)
  qed
qed

interpretation removal: write_back "remove_offer slug ean" for slug ean
proof
  fix c c' out
  assume u: "remove_offer slug ean c = (c', out)"
  show "(ct_erp c' = ct_erp c \<and> tables c' = tables c \<and> (\<exists>e. out = Inl e)) \<or>
    (\<exists>w. ct_erp c' = ct_erp c @ [(w, False)] \<and> tables c' = tables c \<and> (\<exists>e. out = Inl e)) \<or>
    (\<exists>w. ct_erp c' = ct_erp c @ [(w, True)])"
  proof (cases "removal_write slug ean c")
    case (Inl e)
    then show ?thesis using u by (auto simp: remove_offer_def)
  next
    case (Inr q)
    obtain ext cad where q: "q = (ext, cad)" by (cases q) auto
    obtain c1 po where p: "push_to_erp (UpsertOffer cad ext None) c = (c1, po)" by fastforce
    show ?thesis
      by (rule disjI2, rule write_back_step [OF p])
        (use u p q Inr in \<open>auto simp: remove_offer_def Let_def split: sum.splits\<close>)
  qed
qed

text \<open>A write of a number the columns can hold fails only where the ERP did not confirm it.\<close>

locale settled_write = write_back +
  assumes failure_is_unconfirmed: "op c = (c', Inl e) \<Longrightarrow>
    ct_erp c' = ct_erp c \<or> (\<exists>w. ct_erp c' = ct_erp c @ [(w, False)])"
begin

lemma confirmed_iff_success:
  "op c = (c', out) \<Longrightarrow> \<exists>new. ct_erp c' = ct_erp c @ new \<and> length new \<le> 1 \<and>
    length (filter snd new) = (case out of Inl _ \<Rightarrow> 0 | Inr _ \<Rightarrow> 1)"
  using success_is_confirmed [of c c'] failure_is_unconfirmed [of c c'] by (cases out) fastforce+

end

interpretation settled_price: settled_write "update_price slug ean (Num r) storeId" for slug ean r storeId
proof (unfold_locales)
  fix c c' e
  assume "update_price slug ean (Num r) storeId c = (c', Inl e)"
  then show "ct_erp c' = ct_erp c \<or> (\<exists>w. ct_erp c' = ct_erp c @ [(w, False)])"
    by (auto simp: update_price_def push_to_erp_def numeric_param_def Let_def
        split: sum.splits prod.splits option.splits if_splits)
qed

interpretation settled_offer: settled_write
  "upsert_offer slug ean \<lparr>uo_targetPrice = Num r, uo_cadernoId = cad, uo_description = d, uo_storeId = s\<rparr> scoped"
  for slug ean r cad d s scoped
proof (unfold_locales)
  fix c c' e
  assume "upsert_offer slug ean \<lparr>uo_targetPrice = Num r, uo_cadernoId = cad, uo_description = d, uo_storeId = s\<rparr> scoped c = (c', Inl e)"
  then show "ct_erp c' = ct_erp c \<or> (\<exists>w. ct_erp c' = ct_erp c @ [(w, False)])"
    by (auto simp: upsert_offer_def push_to_erp_def numeric_param_def Let_def
        split: sum.splits prod.splits if_splits)
qed

text \<open>
  C24. The ERP is the source of truth: each of the three writes pushes at most once, and reports
  success or changes a local table only when the ERP confirmed that push.
\<close>

theorem local_mirror_follows_confirmed_push:
  assumes "c' = fst (update_price slug ean p storeId c) \<and> (ok \<longleftrightarrow> (\<exists>r. snd (update_price slug ean p storeId c) = Inr r)) \<or>
      c' = fst (upsert_offer slug ean dto scoped c) \<and> (ok \<longleftrightarrow> (\<exists>r. snd (upsert_offer slug ean dto scoped c) = Inr r)) \<or>
      c' = fst (remove_offer slug ean c) \<and> (ok \<longleftrightarrow> (\<exists>r. snd (remove_offer slug ean c) = Inr r))"
  shows "(\<exists>ws. ct_erp c' = ct_erp c @ ws \<and> length ws \<le> 1) \<and>
    (ok \<or> tables c' \<noteq> tables c \<longrightarrow> (\<exists>w. ct_erp c' = ct_erp c @ [(w, True)]))"
proof -
  have ops: "(\<exists>ws. ct_erp d = ct_erp c @ ws \<and> length ws \<le> 1) \<and>
      ((\<exists>r. out = Inr r) \<or> tables d \<noteq> tables c \<longrightarrow> (\<exists>w. ct_erp d = ct_erp c @ [(w, True)]))"
    if "write_back op" "op c = (d, out)" for op :: "catalog \<Rightarrow> catalog \<times> 'r outcome" and d out
    using write_back.at_most_one_push [OF that] write_back.success_is_confirmed [OF that(1)]
      write_back.change_is_confirmed [OF that] that(2) by blast
  from assms show ?thesis
  proof (elim disjE conjE)
    assume "c' = fst (update_price slug ean p storeId c)" "ok \<longleftrightarrow> (\<exists>r. snd (update_price slug ean p storeId c) = Inr r)"
    then show ?thesis using ops [OF price.write_back_axioms prod.collapse [symmetric]] by simp
  next
    assume "c' = fst (upsert_offer slug ean dto scoped c)" "ok \<longleftrightarrow> (\<exists>r. snd (upsert_offer slug ean dto scoped c) = Inr r)"
    then show ?thesis using ops [OF offer.write_back_axioms prod.collapse [symmetric]] by simp
  next
    assume "c' = fst (remove_offer slug ean c)" "ok \<longleftrightarrow> (\<exists>r. snd (remove_offer slug ean c) = Inr r)"
    then show ?thesis using ops [OF removal.write_back_axioms prod.collapse [symmetric]] by simp
  qed
qed

definition demo_catalog :: catalog where
  "demo_catalog = \<lparr>ct_products = [\<lparr>pr_id = ''p1'', pr_ean = ''789'', pr_externalId = Some 42, pr_name = None, pr_active = True,
       pr_price = Some 10, pr_cost = Some 5, pr_averageUnitCost = None, pr_unitSalePrice = None, pr_supplier = None,
       pr_monitored = False, pr_classificationId = None\<rparr>],
     ct_items = [\<lparr>pi_productId = ''p1'', pi_storeId = ''s1'', pi_price = Some 9, pi_priceOffer = None, pi_cost = None,
       pi_offerExternalId = Some 7\<rparr>],
     ct_stores = [], ct_offers = [], ct_tenants = Map.empty, ct_defaultCaderno = Map.empty,
     ct_apiCredentials = (\<lambda>_. True), ct_erp = [], ct_erpConfirms = (\<lambda>n. n = 0)\<rparr>"

theorem local_mirror_follows_confirmed_push_witness:
  "\<exists>w. ct_erp (fst (update_price ''acme'' ''789'' (Num 8) None demo_catalog)) = [(w, True)]"
proof -
  have "case snd (update_price ''acme'' ''789'' (Num 8) None demo_catalog) of Inr r \<Rightarrow> True | Inl e \<Rightarrow> False" by code_simp
  then have "\<exists>r. snd (update_price ''acme'' ''789'' (Num 8) None demo_catalog) = Inr r" by (auto split: sum.splits)
  then show ?thesis
    using local_mirror_follows_confirmed_push
      [of "fst (update_price ''acme'' ''789'' (Num 8) None demo_catalog)" "''acme''" "''789''" "Num 8" None demo_catalog True]
    by (simp add: demo_catalog_def)
qed

section \<open>Mirrored offers undercut the shelf price\<close>

lemma numeric_12_2_mono: "x \<le> y \<Longrightarrow> numeric_12_2 x \<le> numeric_12_2 y"
proof -
  assume xy: "x \<le> y"
  have f: "a \<le> b \<Longrightarrow> of_int \<lfloor>a * 100 + 1/2\<rfloor> / 100 \<le> (of_int \<lfloor>b * 100 + 1/2\<rfloor> / 100 :: rat)" for a b :: rat
    by (intro divide_right_mono) (auto intro!: floor_mono simp: of_int_le_iff)
  have p: "0 \<le> a \<Longrightarrow> 0 \<le> (of_int \<lfloor>a * 100 + 1/2\<rfloor> / 100 :: rat)" for a :: rat by simp
  show ?thesis
  proof (cases "x < 0")
    case True
    show ?thesis
    proof (cases "y < 0")
      case y: True
      then show ?thesis using True f [of "-y" "-x"] xy by (simp add: numeric_12_2_def)
    next
      case False
      have "0 \<le> (of_int \<lfloor>- x * 100 + 1/2\<rfloor> / 100 :: rat)" "0 \<le> (of_int \<lfloor>y * 100 + 1/2\<rfloor> / 100 :: rat)"
        using True False by (intro p; simp)+
      then have "- (of_int \<lfloor>- x * 100 + 1/2\<rfloor> / 100) \<le> (of_int \<lfloor>y * 100 + 1/2\<rfloor> / 100 :: rat)" by linarith
      then show ?thesis using True False by (simp only: numeric_12_2_def if_True if_False minus_divide_left)
    qed
  next
    case False
    then show ?thesis using f [OF xy] xy by (simp add: numeric_12_2_def)
  qed
qed

text \<open>
  After an offer write, every store row of the product that the written offer book covers
  carries either no offer or an offer not above its shelf price (its own, else the product's), to
  the cent; rows of other offer books and products are untouched.
\<close>

lemma mirrored_offer_undercuts_shelf:
  assumes "upsert_offer slug ean dto scoped c = (c', Inr (p, cad, reach))"
  shows "length (ct_items c') = length (ct_items c) \<and>
    (\<forall>k < length (ct_items c).
       (case find (\<lambda>q. pr_id q = pi_productId (ct_items c ! k) \<and> pr_ean q = ean) (ct_products c) of
          Some q \<Rightarrow> if pi_offerExternalId (ct_items c ! k) = Some cad
            then (\<forall>x. pi_priceOffer (ct_items c' ! k) = Some x \<longrightarrow>
              (\<exists>shelf. or_else (pi_price (ct_items c ! k)) (pr_price q) = Some shelf \<and> x \<le> numeric_12_2 shelf))
            else ct_items c' ! k = ct_items c ! k
        | None \<Rightarrow> ct_items c' ! k = ct_items c ! k))"
proof -
  obtain ext cad' reach' c1 r where w: "offer_write slug ean dto c = Inr (ext, cad', reach')"
    and push: "push_to_erp (UpsertOffer cad' ext (Some (uo_targetPrice dto))) c = (c1, Inr ())"
    and r: "numeric_param (uo_targetPrice dto) = Inr r"
    using assms by (auto simp: upsert_offer_def split: sum.splits prod.splits)
  have same: "ct_products c1 = ct_products c" "ct_items c1 = ct_items c"
    using push_to_erp_cases [OF push] by auto
  have mirror: "mirror_item_offer ean cad x d = mirror_item_offer ean cad x c"
    if "ct_products d = ct_products c" "ct_items d = ct_items c" for x d
    unfolding mirror_item_offer_def that ..
  have c': "ct_items c' = mirror_item_offer ean cad (Some r) c"
  proof -
    have "cad' = cad" using assms w push r by (auto simp: upsert_offer_def Let_def)
    moreover have "ct_items c' = mirror_item_offer ean cad' (Some r)
        (if scoped \<or> reach' \<noteq> None then c1
         else c1\<lparr>ct_offers := upsert_offer_row ean (numeric_12_2 r) cad' (uo_description dto) (ct_offers c1)\<rparr>)"
      using assms w push r by (auto simp: upsert_offer_def Let_def)
    ultimately show ?thesis
      using mirror [of "if scoped \<or> reach' \<noteq> None then c1
         else c1\<lparr>ct_offers := upsert_offer_row ean (numeric_12_2 r) cad' (uo_description dto) (ct_offers c1)\<rparr>"] same
      by simp
  qed
  show ?thesis
  proof (intro conjI allI impI)
    show "length (ct_items c') = length (ct_items c)" by (simp add: c' mirror_item_offer_def)
    fix k assume k: "k < length (ct_items c)"
    show "case find (\<lambda>q. pr_id q = pi_productId (ct_items c ! k) \<and> pr_ean q = ean) (ct_products c) of
          Some q \<Rightarrow> if pi_offerExternalId (ct_items c ! k) = Some cad
            then (\<forall>x. pi_priceOffer (ct_items c' ! k) = Some x \<longrightarrow>
              (\<exists>shelf. or_else (pi_price (ct_items c ! k)) (pr_price q) = Some shelf \<and> x \<le> numeric_12_2 shelf))
            else ct_items c' ! k = ct_items c ! k
        | None \<Rightarrow> ct_items c' ! k = ct_items c ! k"
    proof (cases "find (\<lambda>q. pr_id q = pi_productId (ct_items c ! k) \<and> pr_ean q = ean) (ct_products c)")
      case None
      then show ?thesis using k by (simp add: c' mirror_item_offer_def)
    next
      case (Some q)
      then show ?thesis using k
        by (cases "pi_offerExternalId (ct_items c ! k) = Some cad";
          cases "or_else (pi_price (ct_items c ! k)) (pr_price q)")
          (auto simp: c' mirror_item_offer_def numeric_12_2_mono split: if_splits)
    qed
  qed
qed

end
