(* ===== verification/Apply_Price_Step.thy ===== *)
theory Apply_Price_Step
  imports Catalog_Mutation Pipeline_Graph Suggestion_Engine
begin

text \<open>
  The worker side of the bulk price application: the tables \<open>pricing_apply_run\<close> and
  \<open>pricing_apply_item\<close>, the batch step \<open>src/pipeline/steps/apply-price.step.ts\<close>, and its two
  consumers \<open>apply-price.dispatch.consumer.ts\<close> and \<open>apply-price.batch.consumer.ts\<close>. The text of
  \<open>erp_result\<close> is kept as the values it prints. Rows come in table order where a query has no
  \<open>ORDER BY\<close>.
\<close>

section \<open>Tables\<close>

datatype apply_mode = Agora | Agendado
datatype apply_run_status = RunPending | RunRunning | RunDone | RunFailed
datatype approval_status = ApprovalPending | Approved | Rejected
datatype item_status = ItemPending | Applied | Skipped | Failed

record apply_run =
  ar_id :: string
  ar_idempotencyKey :: string
  ar_mode :: apply_mode
  ar_requestedBy :: "string option"
  ar_status :: apply_run_status
  ar_total :: int
  ar_applied :: int
  ar_skipped :: int
  ar_failed :: int
  ar_approvalStatus :: "approval_status option"
  ar_createdAt :: int

datatype erp_result =
    VendaResult jsnum "string option"
  | OfertaResult jsnum int "string list option"

record apply_item =
  ai_id :: string
  ai_applyRunId :: string
  ai_batchSeq :: "int option"
  ai_ean :: string
  ai_target :: suggestion_target
  ai_storeId :: "string option"
  ai_price :: rat
  ai_cadernoId :: "int option"
  ai_priceOldSell :: "rat option"
  ai_priceOldOffer :: "rat option"
  ai_basis :: "basis option"
  ai_ruleId :: "string option"
  ai_costAtApply :: "rat option"
  ai_status :: item_status
  ai_reason :: "string option"
  ai_erpResult :: "erp_result option"
  ai_appliedAt :: "int option"

record campaign =
  cp_externalId :: int
  cp_active :: bool
  cp_startDate :: "int option"
  cp_expirationDate :: "int option"

record pricing_db =
  pd_runs :: "apply_run list"
  pd_items :: "apply_item list"
  pd_campaigns :: "campaign list"
  pd_catalog :: catalog

section \<open>The campaign guard\<close>

text \<open>JavaScript truth of an optional text: present and not empty.\<close>

definition given :: "string option \<Rightarrow> string option" where
  "given s = (if truthy_string s then s else None)"

definition campaign_runs :: "int \<Rightarrow> campaign \<Rightarrow> bool" where
  "campaign_runs now c =
     (cp_active c \<and> (case cp_startDate c of None \<Rightarrow> True | Some s \<Rightarrow> s \<le> now) \<and>
      (case cp_expirationDate c of None \<Rightarrow> True | Some e \<Rightarrow> now < e))"

definition active_campaign_eans :: "int \<Rightarrow> string list \<Rightarrow> pricing_db \<Rightarrow> string list" where
  "active_campaign_eans now eans db =
     dedup (map of_ean (filter (\<lambda>ob. of_ean ob \<in> set eans \<and>
       list_ex (\<lambda>c. Some (cp_externalId c) = of_externalId ob \<and> campaign_runs now c) (pd_campaigns db))
       (ct_offers (pd_catalog db))))"

text \<open>The winning offer book per (product, store); no entry where the store has no row.\<close>

definition store_cadernos :: "apply_item list \<Rightarrow> pricing_db \<Rightarrow> ((string \<times> string) \<times> int option) list" where
  "store_cadernos storeItems db =
     (let eans = dedup (map ai_ean storeItems); stores = dedup (map (\<lambda>i. the (ai_storeId i)) storeItems) in
      map_of_entries (concat (map (\<lambda>i. concat (map (\<lambda>p.
          if pr_id p = pi_productId i \<and> pr_ean p \<in> set eans \<and> pi_storeId i \<in> set stores
          then [((pr_ean p, pi_storeId i), pi_offerExternalId i)] else [])
        (ct_products (pd_catalog db)))) (ct_items (pd_catalog db)))))"

definition active_campaign_cadernos :: "int \<Rightarrow> int list \<Rightarrow> pricing_db \<Rightarrow> int list" where
  "active_campaign_cadernos now cadernos db =
     dedup (map cp_externalId (filter (\<lambda>c. cp_externalId c \<in> set cadernos \<and> campaign_runs now c) (pd_campaigns db)))"

definition em_campanha ::
  "apply_item \<Rightarrow> string list \<Rightarrow> ((string \<times> string) \<times> int option) list \<Rightarrow> int list \<Rightarrow> bool" where
  "em_campanha item inCampaign storeCadernos campaignCadernos =
     (case given (ai_storeId item) of
        None \<Rightarrow> ai_ean item \<in> set inCampaign
      | Some s \<Rightarrow>
          (case map_of storeCadernos (ai_ean item, s) of
             None \<Rightarrow> ai_ean item \<in> set inCampaign
           | Some caderno \<Rightarrow> (case caderno of None \<Rightarrow> False | Some c \<Rightarrow> c \<in> set campaignCadernos)))"

section \<open>One item\<close>

definition stores_in_caderno :: "string \<Rightarrow> string \<Rightarrow> int option \<Rightarrow> catalog \<Rightarrow> string list" where
  "stores_in_caderno tenantSlug ean cadernoId c =
     sort (concat (map (\<lambda>i. concat (map (\<lambda>p. concat (map (\<lambda>s.
            if pr_id p = pi_productId i \<and> pr_ean p = ean \<and> st_id s = pi_storeId i \<and>
               ct_tenants c tenantSlug = Some (st_tenantId s) \<and> cadernoId \<noteq> None \<and> pi_offerExternalId i = cadernoId
            then [st_name s] else [])
          (ct_stores c))) (ct_products c))) (ct_items c)))"

definition apply_one :: "string \<Rightarrow> apply_item \<Rightarrow> catalog \<Rightarrow> catalog \<times> erp_result outcome" where
  "apply_one tenantSlug item c =
     (case ai_target item of
        PrecoVenda \<Rightarrow>
          (case update_price tenantSlug (ai_ean item) (js_of_rat (ai_price item)) (ai_storeId item) c of
             (c', r) \<Rightarrow> (c', bind_outcome r (\<lambda>price. Inr (VendaResult price (given (ai_storeId item))))))
      | PrecoOferta \<Rightarrow>
          let affected = (if given (ai_storeId item) \<noteq> None
                then Some (stores_in_caderno tenantSlug (ai_ean item) (ai_cadernoId item) c) else None);
              dto = \<lparr>uo_targetPrice = js_of_rat (ai_price item),
                     uo_cadernoId = (case ai_cadernoId item of None \<Rightarrow> 0 | Some k \<Rightarrow> k),
                     uo_description = None, uo_storeId = None\<rparr> in
          (case upsert_offer tenantSlug (ai_ean item) dto (ai_storeId item \<noteq> None) c of
             (c', r) \<Rightarrow> (c', bind_outcome r (\<lambda>(price, cad, _). Inr (OfertaResult price cad affected)))))"

definition lower :: "string \<Rightarrow> string" where
  "lower s = map (\<lambda>c. if 65 \<le> code_unit c \<and> code_unit c \<le> 90 then char_of (code_unit c + 32) else c) s"

text \<open>\<open>ILIKE\<close>: a percent sign stands for any text, an underscore for one character, a backslash quotes.\<close>

function (sequential) like :: "string \<Rightarrow> string \<Rightarrow> bool" where
  "like [] t = (t = [])"
| "like (c # p) t =
     (if c = CHR ''%'' then like p t \<or> (case t of [] \<Rightarrow> False | _ # t' \<Rightarrow> like (c # p) t')
      else (case t of
          [] \<Rightarrow> False
        | d # t' \<Rightarrow>
            if c = CHR ''_'' then like p t'
            else if c = CHR 0x5C then (case p of [] \<Rightarrow> False | e # p' \<Rightarrow> e = d \<and> like p' t')
            else c = d \<and> like p t'))"
  by pat_completeness auto
termination
  by (relation "measure (\<lambda>(p, t). length p + length t)") auto

definition ilike :: "string \<Rightarrow> string \<Rightarrow> bool" where
  "ilike t p = like (lower p) (lower t)"

definition text_includes :: "string \<Rightarrow> string \<Rightarrow> bool" where
  "text_includes s t = list_ex (\<lambda>k. take (length t) (drop k s) = t) [0..<Suc (length s)]"

definition permanent_of :: "bool \<Rightarrow> string \<Rightarrow> item_status \<times> string" where
  "permanent_of notFound message =
     (let msg = lower message in
      if text_includes msg ''monitored'' then (Skipped, ''monitored'')
      else if text_includes msg ''inactive'' then (Skipped, ''loja_inativa'')
      else if text_includes msg ''external_id'' then (Skipped, ''sem_external_id'')
      else if text_includes msg ''not configured'' then (Failed, ''a7_nao_configurado'')
      else if notFound then (Failed, ''nao_encontrado'')
      else (Failed, ''erp_conflito''))"

definition map_permanent :: "exn \<Rightarrow> (item_status \<times> string) option" where
  "map_permanent err =
     (case err of
        ConflictException m \<Rightarrow> Some (permanent_of False m)
      | NotFoundException m \<Rightarrow> Some (permanent_of True m)
      | _ \<Rightarrow> None)"

definition mark :: "int \<Rightarrow> string \<Rightarrow> item_status \<Rightarrow> string option \<Rightarrow> erp_result option \<Rightarrow> pricing_db \<Rightarrow> pricing_db" where
  "mark now i status reason erpResult db =
     db\<lparr>pd_items := update_where (\<lambda>x. ai_id x = i)
        (\<lambda>x. x\<lparr>ai_status := status, ai_reason := reason, ai_erpResult := erpResult,
               ai_appliedAt := (if status = Applied then Some now else ai_appliedAt x)\<rparr>) (pd_items db)\<rparr>"

section \<open>The batch\<close>

text \<open>One turn of the loop: the status the item ends in, and the tables.\<close>

definition apply_item_step ::
  "int \<Rightarrow> string \<Rightarrow> (apply_item \<Rightarrow> bool) \<Rightarrow> apply_item \<Rightarrow> pricing_db \<Rightarrow> pricing_db \<times> item_status" where
  "apply_item_step now tenantSlug guarded item db =
     (if ai_target item = PrecoVenda \<and> guarded item
      then (mark now (ai_id item) Skipped (Some ''em_campanha'') None db, Skipped)
      else
        (case apply_one tenantSlug item (pd_catalog db) of
           (c, Inr erpResult) \<Rightarrow> (mark now (ai_id item) Applied None (Some erpResult) (db\<lparr>pd_catalog := c\<rparr>), Applied)
         | (c, Inl err) \<Rightarrow>
             (case (case map_permanent err of None \<Rightarrow> (Failed, ''erro_transitorio'') | Some p \<Rightarrow> p) of
                (status, reason) \<Rightarrow> (mark now (ai_id item) status (Some reason) None (db\<lparr>pd_catalog := c\<rparr>), status))))"

fun apply_items ::
  "int \<Rightarrow> string \<Rightarrow> (apply_item \<Rightarrow> bool) \<Rightarrow> apply_item list \<Rightarrow> pricing_db \<Rightarrow> pricing_db \<times> item_status list" where
  "apply_items now tenantSlug guarded [] db = (db, [])"
| "apply_items now tenantSlug guarded (item # rest) db =
     (case apply_item_step now tenantSlug guarded item db of
        (db1, s) \<Rightarrow> (case apply_items now tenantSlug guarded rest db1 of (db2, ss) \<Rightarrow> (db2, s # ss)))"

definition pending_of :: "string \<Rightarrow> int \<Rightarrow> pricing_db \<Rightarrow> apply_item list" where
  "pending_of runId batchSeq db =
     filter (\<lambda>i. ai_applyRunId i = runId \<and> ai_batchSeq i = Some batchSeq \<and> ai_status i = ItemPending) (pd_items db)"

definition campaign_guard :: "int \<Rightarrow> apply_item list \<Rightarrow> pricing_db \<Rightarrow> apply_item \<Rightarrow> bool" where
  "campaign_guard now items db =
     (let venda = filter (\<lambda>i. ai_target i = PrecoVenda) items;
          inCampaign = active_campaign_eans now (map ai_ean venda) db;
          storeCadernos = store_cadernos (filter (\<lambda>i. ai_storeId i \<noteq> None) venda) db;
          campaignCadernos = active_campaign_cadernos now (dedup (List.map_filter snd storeCadernos)) db
      in (\<lambda>item. em_campanha item inCampaign storeCadernos campaignCadernos))"

definition count_status :: "item_status \<Rightarrow> item_status list \<Rightarrow> int" where
  "count_status s ss = int (length (filter (\<lambda>t. t = s) ss))"

definition apply_price_run :: "int \<Rightarrow> string \<Rightarrow> string \<Rightarrow> int \<Rightarrow> pricing_db \<Rightarrow> pricing_db" where
  "apply_price_run now tenantSlug runId batchSeq db =
     (let items = pending_of runId batchSeq db in
      case apply_items now tenantSlug (campaign_guard now items db) items db of
        (db', ss) \<Rightarrow>
          db'\<lparr>pd_runs := update_where (\<lambda>r. ar_id r = runId)
            (\<lambda>r. r\<lparr>ar_applied := ar_applied r + count_status Applied ss,
                   ar_skipped := ar_skipped r + count_status Skipped ss,
                   ar_failed := ar_failed r + count_status Failed ss,
                   ar_status := RunRunning\<rparr>) (pd_runs db')\<rparr>)"

text \<open>The last batch closes the run.\<close>

definition apply_price_successors :: "string \<Rightarrow> pricing_db \<Rightarrow> pricing_db \<times> step_message list" where
  "apply_price_successors runId db =
     (db\<lparr>pd_runs := update_where (\<lambda>r. ar_id r = runId) (\<lambda>r. r\<lparr>ar_status := RunDone\<rparr>) (pd_runs db)\<rparr>, [])"

section \<open>The dispatcher\<close>

definition APPLY_BATCH_SIZE :: nat where
  "APPLY_BATCH_SIZE = 50"

fun number_slices :: "int \<Rightarrow> string list list \<Rightarrow> apply_item list \<Rightarrow> apply_item list" where
  "number_slices seq [] items = items"
| "number_slices seq (ids # slices) items =
     number_slices (seq + 1) slices (update_where (\<lambda>i. ai_id i \<in> set ids) (\<lambda>i. i\<lparr>ai_batchSeq := Some seq\<rparr>) items)"

definition set_run :: "string \<Rightarrow> (apply_run \<Rightarrow> apply_run) \<Rightarrow> pricing_db \<Rightarrow> pricing_db" where
  "set_run runId f db = db\<lparr>pd_runs := update_where (\<lambda>r. ar_id r = runId) f (pd_runs db)\<rparr>"

definition apply_price_dispatch :: "int \<Rightarrow> step_message \<Rightarrow> pricing_db \<Rightarrow> pricing_db \<times> step_message list" where
  "apply_price_dispatch now m db =
     (let runId = pm_pipelineRunId m;
          ids = sort (map ai_id (filter (\<lambda>i. ai_applyRunId i = runId) (pd_items db)))
      in if ids = [] then (set_run runId (\<lambda>r. r\<lparr>ar_status := RunDone\<rparr>) db, [])
         else if \<not> ct_apiCredentials (pd_catalog db) (pm_tenantId m) then
           (set_run runId (\<lambda>r. r\<lparr>ar_status := RunDone, ar_failed := ar_total r\<rparr>)
              (db\<lparr>pd_items := update_where (\<lambda>i. ai_applyRunId i = runId \<and> ai_status i = ItemPending)
                 (\<lambda>i. i\<lparr>ai_status := Failed, ai_reason := Some ''a7_nao_configurado''\<rparr>) (pd_items db)\<rparr>), [])
         else
           (let slices = chunks APPLY_BATCH_SIZE ids;
                db1 = set_run runId (\<lambda>r. r\<lparr>ar_status := RunRunning\<rparr>) db
            in (db1\<lparr>pd_items := number_slices 1 slices (pd_items db1)\<rparr>,
                number_batches now m APPLY_PRICE (map (\<lambda>_. (batch_step APPLY_PRICE, EmptyPayload)) slices))))"

section \<open>One item settles\<close>

lemma js_of_rat_price: "\<bar>p\<bar> < 10 ^ 10 \<Longrightarrow> \<exists>r. js_of_rat p = Num r"
proof -
  assume p: "\<bar>p\<bar> < 10 ^ 10"
  have "(10 ^ 10 :: rat) \<le> 2 ^ 40" by simp
  also have "(2 ^ 40 :: rat) \<le> 2 ^ 1000" by (rule power_increasing) simp_all
  finally have "\<bar>p\<bar> \<le> 2 ^ 1000" using p by linarith
  then show ?thesis by (blast dest: js_of_rat_small)
qed

text \<open>
  The push an item stands for: its frozen price, for the package the catalogue has for its barcode,
  in its store (all stores without one) or on its offer book. None when the catalogue has no
  package for it, or the store is not an active store of the tenant.
\<close>

definition external_id_of :: "string \<Rightarrow> product list \<Rightarrow> int option" where
  "external_id_of ean ps = (case find (\<lambda>p. pr_ean p = ean) ps of None \<Rightarrow> None | Some p \<Rightarrow> pr_externalId p)"

definition push_of_item :: "string \<Rightarrow> apply_item \<Rightarrow> catalog \<Rightarrow> erp_write option" where
  "push_of_item slug item c =
     (case external_id_of (ai_ean item) (ct_products c) of
        None \<Rightarrow> None
      | Some ext \<Rightarrow>
          (case ai_target item of
             PrecoOferta \<Rightarrow> Some (UpsertOffer (case ai_cadernoId item of None \<Rightarrow> 0 | Some k \<Rightarrow> k) ext
               (Some (js_of_rat (ai_price item))))
           | PrecoVenda \<Rightarrow>
               (case given (ai_storeId item) of
                  None \<Rightarrow> Some (ChangePrice ext (js_of_rat (ai_price item)) None)
                | Some sid \<Rightarrow>
                    (case active_store slug sid c of
                       Inl _ \<Rightarrow> None
                     | Inr s \<Rightarrow> Some (ChangePrice ext (js_of_rat (ai_price item)) (Some (st_externalId s)))))))"

text \<open>The entries of the ERP log for the items that were pushed, each with its confirmation.\<close>

definition push_entries :: "string \<Rightarrow> catalog \<Rightarrow> (apply_item \<Rightarrow> bool option) \<Rightarrow> apply_item list \<Rightarrow> (erp_write \<times> bool) list" where
  "push_entries slug c pushed items =
     List.map_filter (\<lambda>i. map_option (\<lambda>ok. (the (push_of_item slug i c), ok)) (pushed i)) items"

lemma push_entries_Nil [simp]: "push_entries slug c f [] = []"
  by (simp add: push_entries_def)

lemma push_entries_Cons:
  "push_entries slug c f (i # is) =
     (case f i of None \<Rightarrow> [] | Some ok \<Rightarrow> [(the (push_of_item slug i c), ok)]) @ push_entries slug c f is"
  by (simp add: push_entries_def split: option.splits)

lemma push_entries_cong:
  assumes "\<And>i. i \<in> set is \<Longrightarrow> f i = g i" "\<And>i. push_of_item slug i c = push_of_item slug i c'"
  shows "push_entries slug c f is = push_entries slug c' g is"
  using assms(1) by (induction "is") (simp_all add: push_entries_Cons assms(2) split: option.split)

text \<open>A push leaves what decides the later pushes.\<close>

definition same_targets :: "catalog \<Rightarrow> catalog \<Rightarrow> bool" where
  "same_targets c c' \<longleftrightarrow> map (\<lambda>p. (pr_ean p, pr_externalId p)) (ct_products c') = map (\<lambda>p. (pr_ean p, pr_externalId p)) (ct_products c) \<and>
     ct_stores c' = ct_stores c \<and> ct_tenants c' = ct_tenants c"

lemma same_targets_refl [simp]: "same_targets c c"
  by (simp add: same_targets_def)

lemma external_id_cong:
  "map (\<lambda>p. (pr_ean p, pr_externalId p)) ps' = map (\<lambda>p. (pr_ean p, pr_externalId p)) ps \<Longrightarrow>
   external_id_of ean ps' = external_id_of ean ps"
  by (induction ps' ps rule: list_induct2') (auto simp: external_id_of_def)

lemma same_targets_store: "same_targets c c' \<Longrightarrow> active_store slug sid c' = active_store slug sid c"
  by (simp add: same_targets_def active_store_def find_store_def)

lemma same_targets_push:
  assumes "same_targets c c'"
  shows "push_of_item slug item c' = push_of_item slug item c"
proof -
  have "external_id_of (ai_ean item) (ct_products c') = external_id_of (ai_ean item) (ct_products c)"
    using assms by (intro external_id_cong) (simp add: same_targets_def)
  then show ?thesis
    unfolding push_of_item_def same_targets_store [OF assms] by simp
qed

lemma same_targets_trans: "same_targets a b \<Longrightarrow> same_targets b c \<Longrightarrow> same_targets a c"
  by (simp add: same_targets_def)

lemma price_write_push:
  assumes "price_write slug ean sid c = Inr (p, ext, store)"
  shows "external_id_of ean (ct_products c) = Some ext"
    and "case given sid of None \<Rightarrow> store = None | Some i \<Rightarrow> \<exists>s. active_store slug i c = Inr s \<and> store = Some s"
  using assms
  by (auto simp: price_write_def external_id_of_def find_product_def given_def truthy_string_def bind_outcome_Inr_iff
      split: option.splits if_splits)

lemma price_push:
  assumes "update_price slug ean (Num r) sid c = (c', out)"
  shows "same_targets c c' \<and> ((c' = c \<and> (\<exists>e. out = Inl e)) \<or>
    (\<exists>p ext store ok. price_write slug ean sid c = Inr (p, ext, store) \<and>
       ct_erp c' = ct_erp c @ [(ChangePrice ext (Num r) (map_option st_externalId store), ok)] \<and> (ok \<longleftrightarrow> (\<exists>x. out = Inr x))))"
proof (cases "price_write slug ean sid c")
  case (Inr q)
  obtain p ext store where q: "q = (p, ext, store)" by (cases q) auto
  have "map (\<lambda>p. (pr_ean p, pr_externalId p)) (update_where P (\<lambda>q. q\<lparr>pr_price := v\<rparr>) ps) = map (\<lambda>p. (pr_ean p, pr_externalId p)) ps"
    for P v ps by (simp add: update_where_def)
  then show ?thesis
    using assms Inr q
    by (cases store) (auto simp: update_price_def push_to_erp_def numeric_param_def Let_def same_targets_def split: if_splits)
qed (use assms in \<open>auto simp: update_price_def\<close>)

lemma offer_push:
  assumes "upsert_offer slug ean \<lparr>uo_targetPrice = Num r, uo_cadernoId = cad, uo_description = None, uo_storeId = None\<rparr> scoped c = (c', out)"
  shows "same_targets c c' \<and> ((c' = c \<and> (\<exists>e. out = Inl e)) \<or>
    (\<exists>ext ok. external_id_of ean (ct_products c) = Some ext \<and>
       ct_erp c' = ct_erp c @ [(UpsertOffer cad ext (Some (Num r)), ok)] \<and> (ok \<longleftrightarrow> (\<exists>x. out = Inr x))))"
  using assms
  by (auto simp: upsert_offer_def offer_write_def find_product_def external_id_of_def push_to_erp_def numeric_param_def
      Let_def same_targets_def bind_outcome_def split: option.splits if_splits)

text \<open>One item: at most its own push, and success exactly when the ERP confirmed it.\<close>

lemma apply_one_push:
  assumes "\<bar>ai_price item\<bar> < 10 ^ 10" "apply_one slug item c = (c', out)"
  shows "\<exists>pushed. ct_erp c' = ct_erp c @ push_entries slug c (\<lambda>_. pushed) [item] \<and>
    (pushed \<noteq> None \<longrightarrow> push_of_item slug item c \<noteq> None) \<and> (pushed = Some True \<longleftrightarrow> (\<exists>r. out = Inr r)) \<and> same_targets c c'"
proof -
  obtain r where r: "js_of_rat (ai_price item) = Num r" using js_of_rat_price [OF assms(1)] by blast
  show ?thesis
  proof (cases "ai_target item")
    case PrecoVenda
    obtain o' where u: "update_price slug (ai_ean item) (Num r) (ai_storeId item) c = (c', o')"
      and out: "(\<exists>x. out = Inr x) \<longleftrightarrow> (\<exists>x. o' = Inr x)"
      using assms(2) PrecoVenda r by (auto simp: apply_one_def bind_outcome_def split: prod.splits sum.splits)
    from price_push [OF u] consider "c' = c" "\<exists>e. o' = Inl e"
      | p ext store ok where "price_write slug (ai_ean item) (ai_storeId item) c = Inr (p, ext, store)"
          "ct_erp c' = ct_erp c @ [(ChangePrice ext (Num r) (map_option st_externalId store), ok)]" "ok \<longleftrightarrow> (\<exists>x. o' = Inr x)"
      by blast
    then show ?thesis
    proof cases
      case 1
      then show ?thesis using out by (intro exI [of _ None]) (auto simp: push_entries_Cons)
    next
      case 2
      have w: "push_of_item slug item c = Some (ChangePrice ext (Num r) (map_option st_externalId store))"
        using price_write_push [OF 2(1)] PrecoVenda r by (auto simp: push_of_item_def split: option.splits)
      then show ?thesis
        using 2(2,3) out price_push [OF u] by (intro exI [of _ "Some ok"]) (simp add: push_entries_Cons)
    qed
  next
    case PrecoOferta
    let ?cad = "case ai_cadernoId item of None \<Rightarrow> 0 | Some k \<Rightarrow> k"
    let ?dto = "\<lparr>uo_targetPrice = Num r, uo_cadernoId = ?cad, uo_description = None, uo_storeId = None\<rparr>"
    obtain o' where u: "upsert_offer slug (ai_ean item) ?dto (ai_storeId item \<noteq> None) c = (c', o')"
      and out: "(\<exists>x. out = Inr x) \<longleftrightarrow> (\<exists>x. o' = Inr x)"
      using assms(2) PrecoOferta r
      by (auto simp: apply_one_def Let_def bind_outcome_def split: prod.splits sum.splits)
    from offer_push [OF u] consider "c' = c" "\<exists>e. o' = Inl e"
      | ext ok where "external_id_of (ai_ean item) (ct_products c) = Some ext"
          "ct_erp c' = ct_erp c @ [(UpsertOffer ?cad ext (Some (Num r)), ok)]" "ok \<longleftrightarrow> (\<exists>x. o' = Inr x)"
      by blast
    then show ?thesis
    proof cases
      case 1
      then show ?thesis using out by (intro exI [of _ None]) (auto simp: push_entries_Cons)
    next
      case 2
      have w: "push_of_item slug item c = Some (UpsertOffer ?cad ext (Some (Num r)))"
        using 2(1) PrecoOferta r by (simp add: push_of_item_def)
      then show ?thesis
        using 2(2,3) out offer_push [OF u] by (intro exI [of _ "Some ok"]) (simp add: push_entries_Cons)
    qed
  qed
qed

lemma map_permanent_cases:
  "map_permanent e = Some (s, r) \<Longrightarrow> s \<in> {Skipped, Failed} \<and> r \<noteq> ''em_campanha''"
  by (auto simp: map_permanent_def permanent_of_def Let_def split: exn.splits if_splits)

text \<open>What a turn of the loop does to the tables.\<close>

definition settled_as :: "apply_item \<Rightarrow> item_status \<Rightarrow> apply_item \<Rightarrow> bool" where
  "settled_as x s y = (s \<in> {Applied, Skipped, Failed} \<and>
     (\<exists>reason res t. y = x\<lparr>ai_status := s, ai_reason := reason, ai_erpResult := res, ai_appliedAt := t\<rparr>))"

lemma apply_item_step_settles:
  assumes "apply_item_step now slug g item db = (db', s)"
  shows "\<exists>reason res c. s \<in> {Applied, Skipped, Failed} \<and>
    (reason = Some ''em_campanha'' \<longleftrightarrow> ai_target item = PrecoVenda \<and> g item) \<and>
    db' = mark now (ai_id item) s reason res (db\<lparr>pd_catalog := c\<rparr>)"
proof (cases "ai_target item = PrecoVenda \<and> g item")
  case True
  then have "s = Skipped" "db' = mark now (ai_id item) Skipped (Some ''em_campanha'') None (db\<lparr>pd_catalog := pd_catalog db\<rparr>)"
    using assms by (simp_all add: apply_item_step_def)
  then show ?thesis using True by blast
next
  case False
  obtain c out where o: "apply_one slug item (pd_catalog db) = (c, out)" by fastforce
  show ?thesis
  proof (cases out)
    case (Inr r)
    then have "s = Applied" "db' = mark now (ai_id item) Applied None (Some r) (db\<lparr>pd_catalog := c\<rparr>)"
      using assms False o by (auto simp: apply_item_step_def)
    then show ?thesis using False by blast
  next
    case (Inl e)
    obtain st reason where m: "(case map_permanent e of None \<Rightarrow> (Failed, ''erro_transitorio'') | Some p \<Rightarrow> p) = (st, reason)"
      by fastforce
    then have "st \<in> {Applied, Skipped, Failed}" "reason \<noteq> ''em_campanha''"
      using map_permanent_cases [of e] by (auto split: option.splits)
    moreover have "s = st" "db' = mark now (ai_id item) st (Some reason) None (db\<lparr>pd_catalog := c\<rparr>)"
      using assms False o Inl m by (auto simp: apply_item_step_def)
    ultimately show ?thesis using False by blast
  qed
qed

lemma apply_item_step_push:
  assumes "apply_item_step now slug g item db = (db', s)" "\<bar>ai_price item\<bar> < 10 ^ 10"
  shows "\<exists>pushed. ct_erp (pd_catalog db') = ct_erp (pd_catalog db) @ push_entries slug (pd_catalog db) (\<lambda>_. pushed) [item] \<and>
    (pushed \<noteq> None \<longrightarrow> push_of_item slug item (pd_catalog db) \<noteq> None \<and> \<not> (ai_target item = PrecoVenda \<and> g item)) \<and>
    (s = Applied \<longleftrightarrow> pushed = Some True) \<and> same_targets (pd_catalog db) (pd_catalog db')"
proof (cases "ai_target item = PrecoVenda \<and> g item")
  case True
  then show ?thesis using assms
    by (intro exI [of _ None]) (auto simp: apply_item_step_def mark_def push_entries_Cons)
next
  case False
  obtain c out where o: "apply_one slug item (pd_catalog db) = (c, out)" by fastforce
  have "pd_catalog db' = c" "(\<exists>r. out = Inr r) \<longleftrightarrow> s = Applied"
    using assms(1) False o map_permanent_cases
    by (auto simp: apply_item_step_def mark_def split: sum.splits option.splits prod.splits)
  then show ?thesis using apply_one_push [OF assms(2) o] False by metis
qed

section \<open>The batch settles its items\<close>

lemma mark_simps [simp]:
  "pd_runs (mark now i s reason res db) = pd_runs db" "pd_campaigns (mark now i s reason res db) = pd_campaigns db"
  "pd_catalog (mark now i s reason res db) = pd_catalog db"
  "map ai_id (pd_items (mark now i s reason res db)) = map ai_id (pd_items db)"
  "length (pd_items (mark now i s reason res db)) = length (pd_items db)"
  by (simp_all add: mark_def map_update_where)

lemma apply_items_settles:
  assumes "apply_items now slug g its db = (db', ss)" "distinct (map ai_id its)"
  shows "pd_runs db' = pd_runs db \<and> length ss = length its \<and> map ai_id (pd_items db') = map ai_id (pd_items db) \<and>
    set ss \<subseteq> {Applied, Skipped, Failed} \<and>
    (\<forall>k < length (pd_items db). if ai_id (pd_items db ! k) \<in> ai_id ` set its
       then \<exists>j < length its. ai_id (its ! j) = ai_id (pd_items db ! k) \<and>
          settled_as (pd_items db ! k) (ss ! j) (pd_items db' ! k) \<and>
          (ai_reason (pd_items db' ! k) = Some ''em_campanha'' \<longleftrightarrow> ai_target (its ! j) = PrecoVenda \<and> g (its ! j))
       else pd_items db' ! k = pd_items db ! k)"
  using assms
proof (induction its arbitrary: db db' ss)
  case Nil
  then show ?case by simp
next
  case (Cons item rest)
  obtain db1 s where st: "apply_item_step now slug g item db = (db1, s)" by fastforce
  obtain ss' where re: "apply_items now slug g rest db1 = (db', ss')" "ss = s # ss'"
    using Cons.prems(1) st by (auto split: prod.splits)
  obtain reason res c where m: "s \<in> {Applied, Skipped, Failed}"
      "reason = Some ''em_campanha'' \<longleftrightarrow> ai_target item = PrecoVenda \<and> g item"
      "db1 = mark now (ai_id item) s reason res (db\<lparr>pd_catalog := c\<rparr>)"
    using apply_item_step_settles [OF st] by blast
  have d: "distinct (map ai_id rest)" "ai_id item \<notin> ai_id ` set rest" using Cons.prems(2) by auto
  note IH = Cons.IH [OF re(1) d(1)]
  have len: "length (pd_items db1) = length (pd_items db)" by (simp add: m(3))
  have "if ai_id (pd_items db ! k) \<in> ai_id ` set (item # rest)
       then \<exists>j < length (item # rest). ai_id ((item # rest) ! j) = ai_id (pd_items db ! k) \<and>
          settled_as (pd_items db ! k) (ss ! j) (pd_items db' ! k) \<and>
          (ai_reason (pd_items db' ! k) = Some ''em_campanha'' \<longleftrightarrow> ai_target ((item # rest) ! j) = PrecoVenda \<and> g ((item # rest) ! j))
       else pd_items db' ! k = pd_items db ! k" if k: "k < length (pd_items db)" for k
  proof (cases "ai_id (pd_items db ! k) = ai_id item")
    case True
    define x where "x = pd_items db ! k"
    have x1: "pd_items db1 ! k = x\<lparr>ai_status := s, ai_reason := reason, ai_erpResult := res,
        ai_appliedAt := (if s = Applied then Some now else ai_appliedAt x)\<rparr>"
      using k True by (simp add: m(3) mark_def nth_update_where x_def)
    then have "pd_items db' ! k = pd_items db1 ! k" using IH k len d(2) True by (simp add: x_def)
    then have y: "pd_items db' ! k = x\<lparr>ai_status := s, ai_reason := reason, ai_erpResult := res,
        ai_appliedAt := (if s = Applied then Some now else ai_appliedAt x)\<rparr>" using x1 by (rule trans)
    have "settled_as x s (pd_items db' ! k)" unfolding settled_as_def y using m(1) by blast
    moreover have "ai_reason (pd_items db' ! k) = reason" unfolding y by simp
    ultimately
    have "\<exists>j < length (item # rest). ai_id ((item # rest) ! j) = ai_id x \<and> settled_as x (ss ! j) (pd_items db' ! k) \<and>
        (ai_reason (pd_items db' ! k) = Some ''em_campanha'' \<longleftrightarrow> ai_target ((item # rest) ! j) = PrecoVenda \<and> g ((item # rest) ! j))"
      using True m(2) re(2) by (intro exI [of _ 0]) (simp add: x_def)
    then show ?thesis using True by (simp add: x_def)
  next
    case False
    then have x1: "pd_items db1 ! k = pd_items db ! k" using k by (simp add: m(3) mark_def nth_update_where)
    show ?thesis
    proof (cases "ai_id (pd_items db ! k) \<in> ai_id ` set rest")
      case True
      then obtain j where "j < length rest" "ai_id (rest ! j) = ai_id (pd_items db ! k)"
          "settled_as (pd_items db ! k) (ss' ! j) (pd_items db' ! k)"
          "ai_reason (pd_items db' ! k) = Some ''em_campanha'' \<longleftrightarrow> ai_target (rest ! j) = PrecoVenda \<and> g (rest ! j)"
        using IH [THEN conjunct2, THEN conjunct2, THEN conjunct2, THEN conjunct2, rule_format, of k] k len
        by (simp only: x1 if_True) blast
      then have "\<exists>j < length (item # rest). ai_id ((item # rest) ! j) = ai_id (pd_items db ! k) \<and>
          settled_as (pd_items db ! k) (ss ! j) (pd_items db' ! k) \<and>
          (ai_reason (pd_items db' ! k) = Some ''em_campanha'' \<longleftrightarrow> ai_target ((item # rest) ! j) = PrecoVenda \<and> g ((item # rest) ! j))"
        using re(2) by (intro exI [of _ "Suc j"]) simp
      then show ?thesis using True by simp
    next
      case no: False
      then show ?thesis using IH k len x1 False by auto
    qed
  qed
  then have "\<forall>k < length (pd_items db). if ai_id (pd_items db ! k) \<in> ai_id ` set (item # rest)
       then \<exists>j < length (item # rest). ai_id ((item # rest) ! j) = ai_id (pd_items db ! k) \<and>
          settled_as (pd_items db ! k) (ss ! j) (pd_items db' ! k) \<and>
          (ai_reason (pd_items db' ! k) = Some ''em_campanha'' \<longleftrightarrow> ai_target ((item # rest) ! j) = PrecoVenda \<and> g ((item # rest) ! j))
       else pd_items db' ! k = pd_items db ! k" by (intro allI impI)
  moreover have "pd_runs db' = pd_runs db" "length ss = length (item # rest)"
      "map ai_id (pd_items db') = map ai_id (pd_items db)" "set ss \<subseteq> {Applied, Skipped, Failed}"
    using IH m(1,3) re(2) by auto
  ultimately show ?case by (intro conjI)
qed

lemma apply_price_run_fields:
  assumes "apply_items now slug (campaign_guard now (pending_of runId seq db) db) (pending_of runId seq db) db = (db1, ss)"
  shows "pd_items (apply_price_run now slug runId seq db) = pd_items db1"
    "pd_catalog (apply_price_run now slug runId seq db) = pd_catalog db1"
    "pd_runs (apply_price_run now slug runId seq db) = update_where (\<lambda>r. ar_id r = runId)
       (\<lambda>r. r\<lparr>ar_applied := ar_applied r + count_status Applied ss, ar_skipped := ar_skipped r + count_status Skipped ss,
              ar_failed := ar_failed r + count_status Failed ss, ar_status := RunRunning\<rparr>) (pd_runs db1)"
  using assms by (simp_all add: apply_price_run_def Let_def)

lemma pending_distinct: "distinct (map ai_id (pd_items db)) \<Longrightarrow> distinct (map ai_id (pending_of runId seq db))"
  by (simp add: pending_of_def distinct_map_filter)

definition waits_in :: "string \<Rightarrow> int \<Rightarrow> apply_item \<Rightarrow> bool" where
  "waits_in runId seq i = (ai_applyRunId i = runId \<and> ai_batchSeq i = Some seq \<and> ai_status i = ItemPending)"

lemma pending_of_waits: "pending_of runId seq db = filter (waits_in runId seq) (pd_items db)"
  by (simp add: pending_of_def waits_in_def [abs_def])

lemma id_inj: "distinct (map f xs) \<Longrightarrow> x \<in> set xs \<Longrightarrow> y \<in> set xs \<Longrightarrow> f x = f y \<Longrightarrow> x = y"
  by (auto simp: distinct_map inj_on_def)

lemma batch_rows:
  assumes "distinct (map ai_id (pd_items db))" "k < length (pd_items db)"
  shows "length (pd_items (apply_price_run now slug runId seq db)) = length (pd_items db) \<and>
    map ai_id (pd_items (apply_price_run now slug runId seq db)) = map ai_id (pd_items db) \<and>
    (if waits_in runId seq (pd_items db ! k)
     then (\<exists>s. settled_as (pd_items db ! k) s (pd_items (apply_price_run now slug runId seq db) ! k)) \<and>
       (ai_reason (pd_items (apply_price_run now slug runId seq db) ! k) = Some ''em_campanha'' \<longleftrightarrow>
        ai_target (pd_items db ! k) = PrecoVenda \<and> campaign_guard now (pending_of runId seq db) db (pd_items db ! k))
     else pd_items (apply_price_run now slug runId seq db) ! k = pd_items db ! k)"
proof -
  define its where "its = pending_of runId seq db"
  define x where "x = pd_items db ! k"
  obtain db1 ss where r: "apply_items now slug (campaign_guard now its db) its db = (db1, ss)" by fastforce
  have dist: "distinct (map ai_id its)" using assms(1) by (simp add: its_def pending_distinct)
  have x: "x \<in> set (pd_items db)" using assms(2) by (simp add: x_def)
  have same: "i = x" if i: "i \<in> set its" "ai_id i = ai_id x" for i
    using id_inj [OF assms(1) _ x i(2)] i(1) by (simp add: its_def pending_of_waits)
  have mem: "ai_id x \<in> ai_id ` set its \<longleftrightarrow> waits_in runId seq x"
    using same x by (auto simp: its_def pending_of_waits image_iff)
  note S = apply_items_settles [OF r dist]
  have row: "if ai_id x \<in> ai_id ` set its
     then \<exists>j < length its. ai_id (its ! j) = ai_id x \<and> settled_as x (ss ! j) (pd_items db1 ! k) \<and>
       (ai_reason (pd_items db1 ! k) = Some ''em_campanha'' \<longleftrightarrow> ai_target (its ! j) = PrecoVenda \<and> campaign_guard now its db (its ! j))
     else pd_items db1 ! k = x"
    using S [THEN conjunct2, THEN conjunct2, THEN conjunct2, THEN conjunct2, rule_format, OF assms(2)]
    by (simp only: x_def)
  have ids: "map ai_id (pd_items db1) = map ai_id (pd_items db)" using S by blast
  then have len: "length (pd_items db1) = length (pd_items db)" by (metis length_map)
  have fields: "pd_items (apply_price_run now slug runId seq db) = pd_items db1"
    using apply_price_run_fields(1) r unfolding its_def .
  show ?thesis
  proof (cases "waits_in runId seq x")
    case True
    then obtain j where j: "j < length its" "ai_id (its ! j) = ai_id x" "settled_as x (ss ! j) (pd_items db1 ! k)"
      "ai_reason (pd_items db1 ! k) = Some ''em_campanha'' \<longleftrightarrow> ai_target (its ! j) = PrecoVenda \<and> campaign_guard now its db (its ! j)"
      using row mem by auto
    then have "its ! j = x" using same nth_mem by blast
    then have "(\<exists>s. settled_as x s (pd_items db1 ! k)) \<and>
       (ai_reason (pd_items db1 ! k) = Some ''em_campanha'' \<longleftrightarrow> ai_target x = PrecoVenda \<and> campaign_guard now its db x)"
      using j by auto
    then show ?thesis using True ids len by (simp add: fields x_def its_def)
  next
    case False
    then have "pd_items db1 ! k = x" using row mem by simp
    then show ?thesis using False ids len by (simp add: fields x_def)
  qed
qed

text \<open>
  A batch settles exactly its waiting items. Every item of the run and batch that was pending
  ends applied, skipped or failed with its product, price, store and snapshot frozen; it is skipped
  as "em_campanha" exactly when it would overwrite the sale price of a product in an active
  campaign; every other row is untouched.
\<close>

lemma batch_settles_items:
  assumes "distinct (map ai_id (pd_items db))" "k < length (pd_items db)"
    and "x = pd_items db ! k" "y = pd_items (apply_price_run now slug runId seq db) ! k"
  shows "if ai_applyRunId x = runId \<and> ai_batchSeq x = Some seq \<and> ai_status x = ItemPending
    then ai_status y \<in> {Applied, Skipped, Failed} \<and>
      y = x\<lparr>ai_status := ai_status y, ai_reason := ai_reason y, ai_erpResult := ai_erpResult y, ai_appliedAt := ai_appliedAt y\<rparr> \<and>
      (ai_reason y = Some ''em_campanha'' \<longleftrightarrow>
         ai_target x = PrecoVenda \<and> campaign_guard now (pending_of runId seq db) db x)
    else y = x"
proof (cases "waits_in runId seq x")
  case True
  then obtain s where "settled_as x s y"
    and r: "ai_reason y = Some ''em_campanha'' \<longleftrightarrow> ai_target x = PrecoVenda \<and> campaign_guard now (pending_of runId seq db) db x"
    using batch_rows [OF assms(1,2), of now slug runId seq] assms(3,4) by auto
  then obtain reason res t where y: "y = x\<lparr>ai_status := s, ai_reason := reason, ai_erpResult := res, ai_appliedAt := t\<rparr>"
    and s: "s \<in> {Applied, Skipped, Failed}" by (auto simp: settled_as_def)
  have "ai_status y = s" "y = x\<lparr>ai_status := ai_status y, ai_reason := ai_reason y, ai_erpResult := ai_erpResult y, ai_appliedAt := ai_appliedAt y\<rparr>"
    unfolding y by simp_all
  then show ?thesis using r s True by (simp add: waits_in_def)
next
  case False
  then have "y = x" using batch_rows [OF assms(1,2), of now slug runId seq] assms(3,4) by simp
  then show ?thesis using False by (simp add: waits_in_def)
qed

lemma no_pending_after_batch:
  assumes "distinct (map ai_id (pd_items db))"
  shows "pending_of runId seq (apply_price_run now slug runId seq db) = []"
proof -
  have "\<not> waits_in runId seq y" if yy: "y \<in> set (pd_items (apply_price_run now slug runId seq db))" for y
  proof -
    obtain k where k: "k < length (pd_items (apply_price_run now slug runId seq db))"
      "y = pd_items (apply_price_run now slug runId seq db) ! k" using yy by (auto simp: in_set_conv_nth)
    show ?thesis
    proof (cases "pd_items db")
      case Nil
      then have "pd_items (apply_price_run now slug runId seq db) = []"
        by (simp add: apply_price_run_def pending_of_def)
      then show ?thesis using k by simp
    next
      case Cons
      then have "length (pd_items (apply_price_run now slug runId seq db)) = length (pd_items db)"
        using batch_rows [OF assms, of 0] by simp
      then have "k < length (pd_items db)" using k by simp
      then show ?thesis using batch_rows [OF assms, of k now slug runId seq] k(2)
        by (auto simp: settled_as_def waits_in_def split: if_splits)
    qed
  qed
  then show ?thesis by (simp add: pending_of_waits filter_empty_conv)
qed

text \<open>
  A redelivered batch is a no-op, whenever it comes: nothing is pushed to the ERP again, and no
  item or counter moves.
\<close>

lemma batch_redelivery_is_noop:
  assumes "distinct (map ai_id (pd_items db))"
  shows "apply_price_run later slug runId seq (apply_price_run now slug runId seq db) = apply_price_run now slug runId seq db"
proof -
  define d where "d = apply_price_run now slug runId seq db"
  have "pending_of runId seq d = []" unfolding d_def by (rule no_pending_after_batch [OF assms])
  moreover have "update_where (\<lambda>r. ar_id r = runId) (\<lambda>r. r\<lparr>ar_status := RunRunning\<rparr>) (pd_runs d) = pd_runs d"
    by (simp add: d_def apply_price_run_def Let_def update_where_def case_prod_beta)
  ultimately have "apply_price_run later slug runId seq d = d"
    by (simp add: apply_price_run_def count_status_def)
  then show ?thesis by (simp add: d_def)
qed

section \<open>Counters and pushes\<close>

definition run_count :: "item_status \<Rightarrow> string \<Rightarrow> pricing_db \<Rightarrow> int" where
  "run_count s runId db = int (length (filter (\<lambda>i. ai_applyRunId i = runId \<and> ai_status i = s) (pd_items db)))"

definition counters_agree :: "string \<Rightarrow> pricing_db \<Rightarrow> bool" where
  "counters_agree runId db = list_all (\<lambda>r. ar_id r = runId \<longrightarrow>
     ar_applied r = run_count Applied runId db \<and> ar_skipped r = run_count Skipped runId db \<and>
     ar_failed r = run_count Failed runId db) (pd_runs db)"

lemma mark_counts:
  assumes "distinct (map ai_id (pd_items db))" "item \<in> set (pd_items db)" "ai_status item = ItemPending" "s \<noteq> ItemPending"
  shows "run_count s run (mark now (ai_id item) t reason res db) =
    run_count s run db + of_bool (ai_applyRunId item = run \<and> t = s)"
  using count_update_one [OF assms(1,2), of "\<lambda>i. ai_applyRunId i = run \<and> ai_status i = s"
      "\<lambda>x. x\<lparr>ai_status := t, ai_reason := reason, ai_erpResult := res,
             ai_appliedAt := (if t = Applied then Some now else ai_appliedAt x)\<rparr>"] assms(3,4)
  by (auto simp: run_count_def mark_def)

lemma count_status_Cons: "count_status s (t # ts) = of_bool (t = s) + count_status s ts"
  by (simp add: count_status_def)

lemma run_count_catalog [simp]: "run_count s run (db\<lparr>pd_catalog := c\<rparr>) = run_count s run db"
  by (simp add: run_count_def)

lemma apply_items_counts:
  assumes "apply_items now slug g its db = (db', ss)" "distinct (map ai_id (pd_items db))" "distinct (map ai_id its)"
    and "\<forall>i \<in> set its. i \<in> set (pd_items db) \<and> ai_status i = ItemPending \<and> ai_applyRunId i = run" "s \<noteq> ItemPending"
  shows "run_count s run' db' = run_count s run' db + (if run' = run then count_status s ss else 0)"
  using assms(1-4)
proof (induction its arbitrary: db db' ss)
  case Nil
  then show ?case by (simp add: count_status_def)
next
  case (Cons item rest)
  obtain db1 t where st: "apply_item_step now slug g item db = (db1, t)" by fastforce
  obtain ss' where re: "apply_items now slug g rest db1 = (db', ss')" "ss = t # ss'"
    using Cons.prems(1) st by (auto split: prod.splits)
  obtain reason res c where m: "db1 = mark now (ai_id item) t reason res (db\<lparr>pd_catalog := c\<rparr>)"
    using apply_item_step_settles [OF st] by blast
  have keep: "i \<in> set (pd_items db1)" if "i \<in> set rest" for i
  proof -
    have "ai_id i \<in> ai_id ` set rest" using that by (rule imageI)
    moreover have "ai_id item \<notin> ai_id ` set rest" using Cons.prems(3) by simp
    ultimately have "ai_id i \<noteq> ai_id item" by metis
    moreover have "i \<in> set (pd_items db)" using Cons.prems(4) that by simp
    ultimately
    show ?thesis by (auto simp: m mark_def set_update_where image_iff intro!: bexI [of _ i])
  qed
  have "distinct (map ai_id (pd_items db1))" using Cons.prems(2) by (simp add: m)
  from Cons.IH [OF re(1) this] Cons.prems(3,4) keep
  have "run_count s run' db' = run_count s run' db1 + (if run' = run then count_status s ss' else 0)" by simp
  moreover have "run_count s run' db1 = run_count s run' db + of_bool (ai_applyRunId item = run' \<and> t = s)"
    using mark_counts [of "db\<lparr>pd_catalog := c\<rparr>" item s run'] Cons.prems(2,4) assms(5) by (simp add: m)
  ultimately show ?case using Cons.prems(4) by (auto simp: re(2) count_status_Cons)
qed

lemma apply_items_pushes:
  assumes "apply_items now slug g its db = (db', ss)" "\<forall>i \<in> set its. \<bar>ai_price i\<bar> < 10 ^ 10" "distinct its"
  shows "\<exists>pushed. ct_erp (pd_catalog db') = ct_erp (pd_catalog db) @ push_entries slug (pd_catalog db) pushed its \<and>
    (\<forall>i \<in> set its. pushed i \<noteq> None \<longrightarrow>
       push_of_item slug i (pd_catalog db) \<noteq> None \<and> \<not> (ai_target i = PrecoVenda \<and> g i)) \<and>
    (\<forall>j < length its. ss ! j = Applied \<longleftrightarrow> pushed (its ! j) = Some True)"
  using assms
proof (induction its arbitrary: db db' ss)
  case Nil
  then show ?case by simp
next
  case (Cons item rest)
  obtain db1 t where st: "apply_item_step now slug g item db = (db1, t)" by fastforce
  obtain ss' where re: "apply_items now slug g rest db1 = (db', ss')" "ss = t # ss'"
    using Cons.prems(1) st by (auto split: prod.splits)
  obtain p where p: "ct_erp (pd_catalog db1) = ct_erp (pd_catalog db) @ push_entries slug (pd_catalog db) (\<lambda>_. p) [item]"
      "p \<noteq> None \<longrightarrow> push_of_item slug item (pd_catalog db) \<noteq> None \<and> \<not> (ai_target item = PrecoVenda \<and> g item)"
      "t = Applied \<longleftrightarrow> p = Some True" "same_targets (pd_catalog db) (pd_catalog db1)"
    using apply_item_step_push [OF st] Cons.prems(2) by auto
  have same: "push_of_item slug i (pd_catalog db1) = push_of_item slug i (pd_catalog db)" for i
    by (rule same_targets_push [OF p(4)])
  obtain f where f: "ct_erp (pd_catalog db') = ct_erp (pd_catalog db1) @ push_entries slug (pd_catalog db1) f rest"
      "\<forall>i \<in> set rest. f i \<noteq> None \<longrightarrow> push_of_item slug i (pd_catalog db) \<noteq> None \<and> \<not> (ai_target i = PrecoVenda \<and> g i)"
      "\<forall>j < length rest. ss' ! j = Applied \<longleftrightarrow> f (rest ! j) = Some True"
    using Cons.IH [OF re(1)] Cons.prems(2,3) unfolding same by auto
  have new: "item \<notin> set rest" using Cons.prems(3) by simp
  define h where "h = f(item := p)"
  have "push_entries slug (pd_catalog db1) f rest = push_entries slug (pd_catalog db) h rest"
    by (rule push_entries_cong) (use new same in \<open>auto simp: h_def\<close>)
  then have "ct_erp (pd_catalog db') = ct_erp (pd_catalog db) @ push_entries slug (pd_catalog db) h (item # rest)"
    using f(1) p(1) by (simp add: push_entries_Cons h_def)
  moreover have "\<forall>i \<in> set (item # rest). h i \<noteq> None \<longrightarrow>
      push_of_item slug i (pd_catalog db) \<noteq> None \<and> \<not> (ai_target i = PrecoVenda \<and> g i)"
    using f(2) p(2) by (auto simp: h_def)
  moreover have "ss ! j = Applied \<longleftrightarrow> h ((item # rest) ! j) = Some True" if "j < length (item # rest)" for j
    using that f(3) p(3) new re(2) nth_mem [of "j - 1" rest] by (cases j) (auto simp: h_def)
  ultimately show ?case by blast
qed

lemma counters_kept:
  assumes "distinct (map ai_id (pd_items db))" "counters_agree run db"
  shows "counters_agree run (apply_price_run now slug runId seq db)"
proof -
  define its where "its = pending_of runId seq db"
  obtain db1 ss where r: "apply_items now slug (campaign_guard now its db) its db = (db1, ss)" by fastforce
  have its: "distinct (map ai_id its)"
    "\<forall>i \<in> set its. i \<in> set (pd_items db) \<and> ai_status i = ItemPending \<and> ai_applyRunId i = runId"
    using assms(1) by (auto simp: its_def pending_distinct) (auto simp: pending_of_def)
  note f = apply_price_run_fields [OF r [unfolded its_def]]
  have runs: "pd_runs db1 = pd_runs db" using apply_items_settles [OF r its(1)] by blast
  have c: "run_count s run (apply_price_run now slug runId seq db) =
      run_count s run db + (if run = runId then count_status s ss else 0)" if "s \<noteq> ItemPending" for s
    using apply_items_counts [OF r assms(1) its that] by (simp add: run_count_def f(1))
  have "ar_applied q = run_count Applied run (apply_price_run now slug runId seq db) \<and>
      ar_skipped q = run_count Skipped run (apply_price_run now slug runId seq db) \<and>
      ar_failed q = run_count Failed run (apply_price_run now slug runId seq db)"
    if q: "q \<in> set (pd_runs (apply_price_run now slug runId seq db))" "ar_id q = run" for q
  proof -
    obtain p where p: "p \<in> set (pd_runs db)"
      "q = (if ar_id p = runId then p\<lparr>ar_applied := ar_applied p + count_status Applied ss,
         ar_skipped := ar_skipped p + count_status Skipped ss, ar_failed := ar_failed p + count_status Failed ss,
         ar_status := RunRunning\<rparr> else p)"
      using q(1) unfolding f(3) runs set_update_where by blast
    then have "ar_id p = run" using q(2) by (simp split: if_splits)
    then have "ar_applied p = run_count Applied run db" "ar_skipped p = run_count Skipped run db"
        "ar_failed p = run_count Failed run db" using assms(2) p(1) by (auto simp: counters_agree_def list_all_iff)
    then show ?thesis using \<open>ar_id p = run\<close> by (simp add: p(2) c)
  qed
  then show ?thesis by (simp add: counters_agree_def list_all_iff)
qed

text \<open>The status each waiting item ends with is the one the loop returned for it.\<close>

lemma batch_statuses:
  assumes "distinct (map ai_id (pd_items db))" "k < length (pd_items db)" "waits_in runId seq (pd_items db ! k)"
    and "apply_items now slug g (pending_of runId seq db) db = (db1, ss)"
  shows "\<exists>j < length (pending_of runId seq db). pending_of runId seq db ! j = pd_items db ! k \<and>
    ai_id (pd_items db1 ! k) = ai_id (pd_items db ! k) \<and> ai_status (pd_items db1 ! k) = ss ! j"
proof -
  define its where "its = pending_of runId seq db"
  have x: "pd_items db ! k \<in> set (pd_items db)" using assms(2) by simp
  then have "pd_items db ! k \<in> set its" using assms(3) by (simp add: its_def pending_of_waits)
  then have mem: "ai_id (pd_items db ! k) \<in> ai_id ` set its" by simp
  note S = apply_items_settles [OF assms(4) pending_distinct [OF assms(1)], folded its_def]
  obtain j where j: "j < length its" "ai_id (its ! j) = ai_id (pd_items db ! k)"
    "settled_as (pd_items db ! k) (ss ! j) (pd_items db1 ! k)"
    using S [THEN conjunct2, THEN conjunct2, THEN conjunct2, THEN conjunct2, rule_format, OF assms(2)] mem
    by (simp only: if_True) blast
  have "its ! j \<in> set (pd_items db)" using nth_mem [OF j(1)] by (simp add: its_def pending_of_waits)
  then have "its ! j = pd_items db ! k" using id_inj [OF assms(1) _ x j(2)] by blast
  with j show ?thesis by (auto simp: settled_as_def its_def)
qed

text \<open>
  C23. No push is wasted, repeated or mistaken: what a batch adds to the log of the ERP is, in the order
  of its waiting items, at most one push per item, and that push is the item's own (its product,
  frozen price, store or offer book); an item in an active campaign is not pushed. An item ends
  applied exactly when the ERP confirmed its push, and an item that was not waiting stays as it was.
  (Prices are below 10^10, as the column holds them.)
\<close>

theorem applied_items_are_confirmed_pushes:
  assumes "distinct (map ai_id (pd_items db))" "list_all (\<lambda>i. \<bar>ai_price i\<bar> < 10 ^ 10) (pd_items db)"
    and "db' = apply_price_run now slug runId seq db"
  shows "\<exists>pushed. ct_erp (pd_catalog db') =
      ct_erp (pd_catalog db) @ push_entries slug (pd_catalog db) pushed (pending_of runId seq db) \<and>
    length (pd_items db') = length (pd_items db) \<and>
    (\<forall>k < length (pd_items db). let x = pd_items db ! k; y = pd_items db' ! k in
       if waits_in runId seq x
       then ai_id y = ai_id x \<and> (ai_status y = Applied \<longleftrightarrow> pushed x = Some True) \<and>
         (pushed x \<noteq> None \<longrightarrow> push_of_item slug x (pd_catalog db) \<noteq> None \<and>
            \<not> (ai_target x = PrecoVenda \<and> campaign_guard now (pending_of runId seq db) db x))
       else y = x)"
proof -
  define its where "its = pending_of runId seq db"
  obtain db1 ss where r: "apply_items now slug (campaign_guard now its db) its db = (db1, ss)" by fastforce
  have its: "distinct its" "\<forall>i \<in> set its. i \<in> set (pd_items db)"
    using pending_distinct [OF assms(1), of runId seq] by (auto simp: its_def distinct_map pending_of_def)
  note f = apply_price_run_fields [OF r [unfolded its_def]]
  have "\<forall>i \<in> set its. \<bar>ai_price i\<bar> < 10 ^ 10" using its(2) assms(2) by (auto simp: list_all_iff)
  from apply_items_pushes [OF r this its(1)] obtain pushed where p:
    "ct_erp (pd_catalog db1) = ct_erp (pd_catalog db) @ push_entries slug (pd_catalog db) pushed its"
    "\<forall>i \<in> set its. pushed i \<noteq> None \<longrightarrow> push_of_item slug i (pd_catalog db) \<noteq> None \<and>
       \<not> (ai_target i = PrecoVenda \<and> campaign_guard now its db i)"
    "\<forall>j < length its. ss ! j = Applied \<longleftrightarrow> pushed (its ! j) = Some True" by blast
  have len: "length (pd_items db') = length (pd_items db)"
    using apply_items_settles [OF r pending_distinct [OF assms(1), of runId seq, folded its_def]] f(1) assms(3)
    by (metis length_map)
  have rows: "if waits_in runId seq (pd_items db ! k)
       then ai_id (pd_items db' ! k) = ai_id (pd_items db ! k) \<and>
         (ai_status (pd_items db' ! k) = Applied \<longleftrightarrow> pushed (pd_items db ! k) = Some True) \<and>
         (pushed (pd_items db ! k) \<noteq> None \<longrightarrow> push_of_item slug (pd_items db ! k) (pd_catalog db) \<noteq> None \<and>
            \<not> (ai_target (pd_items db ! k) = PrecoVenda \<and> campaign_guard now its db (pd_items db ! k)))
       else pd_items db' ! k = pd_items db ! k" if k: "k < length (pd_items db)" for k
  proof (cases "waits_in runId seq (pd_items db ! k)")
    case True
    from batch_statuses [OF assms(1) k True r [unfolded its_def]] obtain j where j: "j < length its" "its ! j = pd_items db ! k"
      "ai_id (pd_items db1 ! k) = ai_id (pd_items db ! k)" "ai_status (pd_items db1 ! k) = ss ! j" by (auto simp: its_def)
    moreover have "pd_items db ! k \<in> set its" using j(1,2) by (metis nth_mem)
    ultimately show ?thesis using p(2,3) True by (auto simp: assms(3) f(1))
  next
    case False
    then show ?thesis using batch_rows [OF assms(1) k, of now slug runId seq] assms(3) by simp
  qed
  have "pd_catalog db' = pd_catalog db1" using f(2) assms(3) by simp
  with p(1) have "ct_erp (pd_catalog db') = ct_erp (pd_catalog db) @ push_entries slug (pd_catalog db) pushed its" by simp
  then show ?thesis
    unfolding Let_def its_def [symmetric] using rows len by blast
qed

section \<open>The dispatcher numbers by position\<close>

lemma number_slices_row:
  assumes "distinct (concat slices)" "k < length items"
  shows "length (number_slices q slices items) = length items \<and>
    (\<forall>j < length slices. ai_id (items ! k) \<in> set (slices ! j) \<longrightarrow>
       number_slices q slices items ! k = (items ! k)\<lparr>ai_batchSeq := Some (q + int j)\<rparr>) \<and>
    (ai_id (items ! k) \<notin> set (concat slices) \<longrightarrow> number_slices q slices items ! k = items ! k)"
  using assms
proof (induction q slices items rule: number_slices.induct)
  case (1 q items)
  then show ?case by simp
next
  case (2 q ids slices items)
  define items1 where "items1 = update_where (\<lambda>i. ai_id i \<in> set ids) (\<lambda>i. i\<lparr>ai_batchSeq := Some q\<rparr>) items"
  have one: "items1 ! k = (if ai_id (items ! k) \<in> set ids then (items ! k)\<lparr>ai_batchSeq := Some q\<rparr> else items ! k)"
    "k < length items1" "length items1 = length items"
    using "2.prems"(2) by (simp_all add: items1_def nth_update_where)
  have IH: "length (number_slices (q + 1) slices items1) = length items1 \<and>
    (\<forall>j < length slices. ai_id (items1 ! k) \<in> set (slices ! j) \<longrightarrow>
       number_slices (q + 1) slices items1 ! k = (items1 ! k)\<lparr>ai_batchSeq := Some (q + 1 + int j)\<rparr>) \<and>
    (ai_id (items1 ! k) \<notin> set (concat slices) \<longrightarrow> number_slices (q + 1) slices items1 ! k = items1 ! k)"
    using "2.IH" "2.prems"(1) one(2) by (simp add: items1_def)
  show ?case
  proof (cases "ai_id (items ! k) \<in> set ids")
    case True
    then have "ai_id (items ! k) \<notin> set (concat slices)" using "2.prems"(1) by auto
    then have "number_slices (q + 1) slices items1 ! k = (items ! k)\<lparr>ai_batchSeq := Some q\<rparr>"
      and "\<forall>j < length slices. ai_id (items ! k) \<notin> set (slices ! j)" using IH one True by auto
    then show ?thesis using IH one(3) True by (auto simp: items1_def less_Suc_eq_0_disj)
  next
    case False
    then show ?thesis using IH one by (auto simp: items1_def less_Suc_eq_0_disj add.assoc)
  qed
qed

lemma dispatch_rows:
  assumes "distinct (map ai_id (pd_items db))" "ct_apiCredentials (pd_catalog db) (pm_tenantId m)"
    and "apply_price_dispatch now m db = (db', ms)" "k < length (pd_items db)"
    and "own = (\<lambda>i. ai_applyRunId i = pm_pipelineRunId m)" "x = pd_items db ! k"
  shows "pd_items db' ! k = (if own x
      then x\<lparr>ai_batchSeq := Some (int (length (filter (\<lambda>i. own i \<and> ai_id i < ai_id x) (pd_items db)) div 50) + 1)\<rparr>
      else x) \<and>
    map seq_of ms = map int [1..<Suc ((length (filter own (pd_items db)) + 49) div 50)]"
proof -
  define ids where "ids = sort (map ai_id (filter own (pd_items db)))"
  have d: "distinct ids" using assms(1) by (simp add: ids_def distinct_map_filter)
  have x: "x \<in> set (pd_items db)" using assms(4,6) by simp
  have len: "length ids = length (filter own (pd_items db))" by (simp add: ids_def)
  show ?thesis
  proof (cases "ids = []")
    case True
    then have none: "filter own (pd_items db) = []" using len by simp
    then have "\<not> own x" using x by (auto simp: filter_empty_conv)
    moreover have "pd_items db' = pd_items db" "ms = []"
      using assms(3,5) True by (auto simp: apply_price_dispatch_def Let_def set_run_def ids_def)
    ultimately show ?thesis using none assms(6) by simp
  next
    case False
    have dsp: "pd_items db' = number_slices 1 (chunks 50 ids) (pd_items db)"
      "ms = number_batches now m APPLY_PRICE (map (\<lambda>_. (batch_step APPLY_PRICE, EmptyPayload)) (chunks 50 ids))"
      using assms(2,3,5) False
      by (auto simp: apply_price_dispatch_def Let_def set_run_def ids_def APPLY_BATCH_SIZE_def simp del: batch_step_def)
    have "map seq_of ms = map int [1..<Suc ((length (filter own (pd_items db)) + 49) div 50)]"
      by (simp add: dsp(2) number_batches_seqs length_chunks len add.commute)
    moreover note rows = number_slices_row [of "chunks 50 ids" k "pd_items db" 1]
    have "pd_items db' ! k = (if own x
      then x\<lparr>ai_batchSeq := Some (int (length (filter (\<lambda>i. own i \<and> ai_id i < ai_id x) (pd_items db)) div 50) + 1)\<rparr>
      else x)"
    proof (cases "own x")
      case True
      then have "ai_id x \<in> set ids" using x by (simp add: ids_def)
      then obtain r where r: "r < length ids" "ids ! r = ai_id x" by (auto simp: in_set_conv_nth)
      have "r = length (filter (\<lambda>j. j < ai_id x) ids)"
        using rank_in_sorted [of ids r] d r by (simp add: ids_def)
      also have "\<dots> = length (filter (\<lambda>i. own i \<and> ai_id i < ai_id x) (pd_items db))"
        by (simp add: ids_def length_filter_sort filter_map o_def conj_commute)
      finally have rank: "length (filter (\<lambda>i. own i \<and> ai_id i < ai_id x) (pd_items db)) = r" by simp
      have "ai_id x \<in> set (chunks 50 ids ! (r div 50))" "r div 50 < length (chunks 50 ids)"
        using chunks_nth [of 50 r ids] r by auto
      then have "number_slices 1 (chunks 50 ids) (pd_items db) ! k = x\<lparr>ai_batchSeq := Some (int (r div 50) + 1)\<rparr>"
        using rows d assms(4,6) by (simp add: concat_chunks add.commute)
      then show ?thesis using True by (simp add: dsp(1) rank)
    next
      case no: False
      then have "ai_id x \<notin> set ids"
        using id_inj [OF assms(1) x] by (auto simp: ids_def)
      then show ?thesis using rows no d assms(4,6) by (simp add: dsp(1) concat_chunks)
    qed
    ultimately show ?thesis by simp
  qed
qed

text \<open>
  The dispatcher's numbering depends only on the ids of the run's items: with credentials
  configured, the item with \<open>r\<close> smaller ids in its run gets batch \<open>r div 50 + 1\<close>, statuses are
  kept, other runs are untouched, and the batches announced are 1 to the number of slices. So a
  replayed dispatch, at whatever point of the run, assigns and announces the same batches.
\<close>

lemma dispatch_numbers_by_position:
  assumes "distinct (map ai_id (pd_items db))" "ct_apiCredentials (pd_catalog db) (pm_tenantId m)"
    and "apply_price_dispatch now m db = (db', ms)" "k < length (pd_items db)"
    and "own = (\<lambda>i. ai_applyRunId i = pm_pipelineRunId m)" "x = pd_items db ! k"
  shows "pd_items db' ! k = (if own x
      then x\<lparr>ai_batchSeq := Some (int (length (filter (\<lambda>i. own i \<and> ai_id i < ai_id x) (pd_items db)) div 50) + 1)\<rparr>
      else x) \<and>
    map seq_of ms = map int [1..<Suc ((length (filter own (pd_items db)) + 49) div 50)]"
  using assms by (rule dispatch_rows)

section \<open>A dispatched run settles\<close>

lemma batch_ids [simp]:
  "distinct (map ai_id (pd_items db)) \<Longrightarrow> map ai_id (pd_items (apply_price_run now slug runId seq db)) = map ai_id (pd_items db)"
  using batch_rows [of db 0 now slug runId seq]
  by (cases "pd_items db") (auto simp: apply_price_run_def pending_of_def)

lemma batch_keeps_settled:
  assumes "distinct (map ai_id (pd_items db))" "pending_of runId q db = []"
  shows "pending_of runId q (apply_price_run now slug run seq db) = []"
proof -
  have len: "length (pd_items (apply_price_run now slug run seq db)) = length (pd_items db)"
    using arg_cong [OF batch_ids [OF assms(1)], of length] by simp
  have "\<not> waits_in runId q (pd_items (apply_price_run now slug run seq db) ! k)" if k: "k < length (pd_items db)" for k
  proof -
    have "\<not> waits_in runId q (pd_items db ! k)"
      using assms(2) k by (auto simp: pending_of_waits filter_empty_conv)
    then show ?thesis using batch_rows [OF assms(1) k, of now slug run seq]
      by (auto simp: settled_as_def waits_in_def split: if_splits)
  qed
  then show ?thesis by (auto simp: pending_of_waits filter_empty_conv in_set_conv_nth len)
qed

lemma batches_settle:
  assumes "distinct (map ai_id (pd_items db))" "q \<in> snd ` set ts \<or> pending_of runId q db = []"
  shows "pending_of runId q (fold (\<lambda>(now, seq). apply_price_run now slug runId seq) ts db) = []"
  using assms
proof (induction ts arbitrary: db)
  case Nil
  then show ?case by simp
next
  case (Cons a ts)
  obtain now s where a: "a = (now, s)" by (cases a)
  have "q \<in> snd ` set ts \<or> pending_of runId q (apply_price_run now slug runId s db) = []"
    using Cons.prems no_pending_after_batch [OF Cons.prems(1)] batch_keeps_settled [OF Cons.prems(1)] a by auto
  then show ?case using Cons.IH [of "apply_price_run now slug runId s db"] Cons.prems(1) a by simp
qed

lemma batches_keep_seq:
  assumes "distinct (map ai_id (pd_items db))"
  shows "map (\<lambda>i. (ai_id i, ai_applyRunId i, ai_batchSeq i)) (pd_items (apply_price_run now slug runId seq db)) =
    map (\<lambda>i. (ai_id i, ai_applyRunId i, ai_batchSeq i)) (pd_items db)"
proof (rule nth_equalityI)
  show len: "length (map (\<lambda>i. (ai_id i, ai_applyRunId i, ai_batchSeq i)) (pd_items (apply_price_run now slug runId seq db))) =
      length (map (\<lambda>i. (ai_id i, ai_applyRunId i, ai_batchSeq i)) (pd_items db))"
    using arg_cong [OF batch_ids [OF assms], of length] by simp
  fix k assume "k < length (map (\<lambda>i. (ai_id i, ai_applyRunId i, ai_batchSeq i)) (pd_items (apply_price_run now slug runId seq db)))"
  then have k: "k < length (pd_items db)" using len by simp
  show "map (\<lambda>i. (ai_id i, ai_applyRunId i, ai_batchSeq i)) (pd_items (apply_price_run now slug runId seq db)) ! k =
      map (\<lambda>i. (ai_id i, ai_applyRunId i, ai_batchSeq i)) (pd_items db) ! k"
    using batch_rows [OF assms k, of now slug runId seq] k by (auto simp: settled_as_def split: if_splits)
qed

lemma batches_keep_seqs:
  assumes "distinct (map ai_id (pd_items db))"
  shows "map (\<lambda>i. (ai_id i, ai_applyRunId i, ai_batchSeq i))
      (pd_items (fold (\<lambda>(now, seq). apply_price_run now slug runId seq) ts db)) =
    map (\<lambda>i. (ai_id i, ai_applyRunId i, ai_batchSeq i)) (pd_items db)"
  using assms
proof (induction ts arbitrary: db)
  case (Cons a ts)
  then show ?case using batches_keep_seq [OF Cons.prems] by (cases a) simp
qed simp

lemma batches_keep_counters:
  assumes "distinct (map ai_id (pd_items db))" "counters_agree run db"
  shows "counters_agree run (fold (\<lambda>(now, seq). apply_price_run now slug runId seq) ts db)"
  using assms
proof (induction ts arbitrary: db)
  case (Cons a ts)
  obtain now s where a: "a = (now, s)" by (cases a)
  show ?case using Cons.IH [of "apply_price_run now slug runId s db"] Cons.prems a by (simp add: counters_kept)
qed simp

lemma number_slices_keeps:
  "(\<And>i b. g (i\<lparr>ai_batchSeq := b\<rparr>) = g i) \<Longrightarrow> map g (number_slices q slices items) = map g items"
  by (induction q slices items rule: number_slices.induct) (simp_all add: map_update_where)

lemma run_count_map: "run_count s run db = int (length (filter (\<lambda>(r, t). r = run \<and> t = s) (map (\<lambda>i. (ai_applyRunId i, ai_status i)) (pd_items db))))"
  by (simp add: run_count_def filter_map o_def)

lemma dispatch_keeps_counters:
  assumes "apply_price_dispatch now m db = (db1, ms)" "ct_apiCredentials (pd_catalog db) (pm_tenantId m)" "counters_agree run db"
  shows "counters_agree run db1 \<and> map ai_id (pd_items db1) = map ai_id (pd_items db)"
proof -
  have keep: "map (\<lambda>i. (ai_applyRunId i, ai_status i)) (pd_items db1) = map (\<lambda>i. (ai_applyRunId i, ai_status i)) (pd_items db)"
    "map ai_id (pd_items db1) = map ai_id (pd_items db)"
    using assms(1,2) by (auto simp: apply_price_dispatch_def Let_def set_run_def number_slices_keeps split: if_splits)
  then have c: "run_count s run db1 = run_count s run db" for s by (simp add: run_count_map)
  have "pd_runs db1 = update_where (\<lambda>r. ar_id r = pm_pipelineRunId m) (\<lambda>r. r\<lparr>ar_status := RunDone\<rparr>) (pd_runs db) \<or>
      pd_runs db1 = update_where (\<lambda>r. ar_id r = pm_pipelineRunId m) (\<lambda>r. r\<lparr>ar_status := RunRunning\<rparr>) (pd_runs db)"
    using assms(1,2) by (auto simp: apply_price_dispatch_def Let_def set_run_def split: if_splits)
  then have "counters_agree run db1"
    using assms(3) by (auto simp: counters_agree_def c list_all_iff set_update_where)
  then show ?thesis using keep by simp
qed

lemma count_settled:
  "(\<And>y. y \<in> set xs \<Longrightarrow> ai_applyRunId y = run \<Longrightarrow> ai_status y \<noteq> ItemPending) \<Longrightarrow>
   int (length (filter (\<lambda>i. ai_applyRunId i = run \<and> ai_status i = Applied) xs)) +
   int (length (filter (\<lambda>i. ai_applyRunId i = run \<and> ai_status i = Skipped) xs)) +
   int (length (filter (\<lambda>i. ai_applyRunId i = run \<and> ai_status i = Failed) xs)) =
   int (length (filter (\<lambda>i. ai_applyRunId i = run) xs))"
proof (induction xs)
  case (Cons a xs)
  then show ?case by (cases "ai_status a") auto
qed simp

lemma slice_bound: "r < n \<Longrightarrow> r div 50 + 1 \<le> (n + 49) div (50 :: nat)"
  using div_le_mono [of "r + 50" "n + 49" 50] by simp

lemma dispatched_seq:
  assumes "distinct (map ai_id (pd_items db))" "ct_apiCredentials (pd_catalog db) (pm_tenantId m)"
    and "apply_price_dispatch now m db = (db1, ms)" "k < length (pd_items db1)"
    and "ai_applyRunId (pd_items db1 ! k) = pm_pipelineRunId m"
  shows "\<exists>q. ai_batchSeq (pd_items db1 ! k) = Some q \<and> q \<in> set (map seq_of ms)"
proof -
  define own :: "apply_item \<Rightarrow> bool" where "own = (\<lambda>i. ai_applyRunId i = pm_pipelineRunId m)"
  have "map ai_id (pd_items db1) = map ai_id (pd_items db)"
    using assms(2,3) by (auto simp: apply_price_dispatch_def Let_def set_run_def number_slices_keeps split: if_splits)
  then have k: "k < length (pd_items db)" using assms(4) by (metis length_map)
  define x where "x = pd_items db ! k"
  define r where "r = length (filter (\<lambda>i. own i \<and> ai_id i < ai_id x) (pd_items db))"
  note row = dispatch_rows [OF assms(1-3) k own_def x_def, folded r_def]
  have own: "own x" using row assms(5) by (auto simp: own_def split: if_splits)
  have x: "x \<in> set (filter own (pd_items db))" using own k by (simp add: x_def)
  have "filter (\<lambda>i. own i \<and> ai_id i < ai_id x) (pd_items db) = filter (\<lambda>i. ai_id i < ai_id x) (filter own (pd_items db))"
    by (simp add: conj_commute)
  then have "r < length (filter own (pd_items db))"
    unfolding r_def using length_filter_less [OF x] by simp
  then have "r div 50 + 1 \<le> (length (filter own (pd_items db)) + 49) div 50" by (rule slice_bound)
  then have "r div 50 + 1 \<in> set [1..<Suc ((length (filter own (pd_items db)) + 49) div 50)]"
    unfolding set_upt atLeastLessThan_iff by linarith
  then have "int (r div 50 + 1) \<in> set (map int [1..<Suc ((length (filter own (pd_items db)) + 49) div 50)])" unfolding set_map by (rule imageI)
  then have "int (r div 50 + 1) \<in> set (map seq_of ms)" using row by simp
  then show ?thesis using row own by (simp add: add.commute)
qed

text \<open>
  C22. A dispatched run settles: once every announced batch was delivered, in any order, any number
  of times and at any moments, no item of the run is pending, and its counters add up to the number
  of its items.
\<close>

theorem dispatched_run_settles:
  assumes "distinct (map ai_id (pd_items db))" "ct_apiCredentials (pd_catalog db) (pm_tenantId m)"
    and "apply_price_dispatch now m db = (db1, ms)" "runId = pm_pipelineRunId m" "counters_agree runId db"
    and "set (map seq_of ms) \<subseteq> snd ` set ts"
    and "db2 = fold (\<lambda>(now, seq). apply_price_run now slug runId seq) ts db1"
  shows "list_all (\<lambda>i. ai_applyRunId i = runId \<longrightarrow> ai_status i \<noteq> ItemPending) (pd_items db2) \<and>
    list_all (\<lambda>r. ar_id r = runId \<longrightarrow> ar_applied r + ar_skipped r + ar_failed r =
      int (length (filter (\<lambda>i. ai_applyRunId i = runId) (pd_items db2)))) (pd_runs db2)"
proof -
  have ids: "distinct (map ai_id (pd_items db1))" and c1: "counters_agree runId db1"
    using dispatch_keeps_counters [OF assms(3,2,5)] assms(1) by auto
  have c2: "counters_agree runId db2" unfolding assms(7) by (rule batches_keep_counters [OF ids c1])
  have settled: "ai_status y \<noteq> ItemPending" if y: "y \<in> set (pd_items db2)" "ai_applyRunId y = runId" for y
  proof -
    have "(ai_id y, ai_applyRunId y, ai_batchSeq y) \<in> set (map (\<lambda>i. (ai_id i, ai_applyRunId i, ai_batchSeq i)) (pd_items db1))"
      using y(1) batches_keep_seqs [OF ids, of slug runId ts] unfolding assms(7) [symmetric]
      by (metis (no_types, lifting) image_eqI set_map)
    then obtain k where k: "k < length (pd_items db1)" "ai_applyRunId (pd_items db1 ! k) = runId"
        "ai_batchSeq (pd_items db1 ! k) = ai_batchSeq y"
      using y(2) by (auto simp: in_set_conv_nth)
    obtain q where q: "ai_batchSeq y = Some q" "q \<in> set (map seq_of ms)"
      using dispatched_seq [OF assms(1-3), of k] k assms(4) by auto
    have "pending_of runId q db2 = []" unfolding assms(7)
      using batches_settle [OF ids, of q ts runId slug] q(2) assms(6) by blast
    then show ?thesis using y q(1) by (auto simp: pending_of_def filter_empty_conv)
  qed
  moreover have "run_count Applied runId db2 + run_count Skipped runId db2 + run_count Failed runId db2 =
      int (length (filter (\<lambda>i. ai_applyRunId i = runId) (pd_items db2)))"
    unfolding run_count_def by (rule count_settled) (use settled in blast)
  ultimately show ?thesis using c2 by (auto simp: counters_agree_def list_all_iff)
qed

section \<open>Witnesses\<close>

definition demo_item :: "string \<Rightarrow> suggestion_target \<Rightarrow> rat \<Rightarrow> apply_item" where
  "demo_item i target price = \<lparr>ai_id = i, ai_applyRunId = ''r1'', ai_batchSeq = Some 1, ai_ean = ''789'', ai_target = target,
     ai_storeId = None, ai_price = price, ai_cadernoId = Some 7, ai_priceOldSell = None, ai_priceOldOffer = None,
     ai_basis = None, ai_ruleId = None, ai_costAtApply = None, ai_status = ItemPending, ai_reason = None,
     ai_erpResult = None, ai_appliedAt = None\<rparr>"

definition demo_pricing :: pricing_db where
  "demo_pricing = \<lparr>
     pd_runs = [\<lparr>ar_id = ''r1'', ar_idempotencyKey = ''k'', ar_mode = Agora, ar_requestedBy = None, ar_status = RunPending,
       ar_total = 2, ar_applied = 0, ar_skipped = 0, ar_failed = 0, ar_approvalStatus = None, ar_createdAt = 0\<rparr>],
     pd_items = [demo_item ''i1'' PrecoVenda 8, demo_item ''i2'' PrecoOferta 7],
     pd_campaigns = [], pd_catalog = demo_catalog\<rparr>"

definition demo_dispatch :: step_message where
  "demo_dispatch = new_pipeline_message 0 ''r1'' ''acme'' (step_value APPLY_PRICE) (Some (dispatch_step APPLY_PRICE)) EmptyPayload None None"

lemma demo_pricing_simps:
  "distinct (map ai_id (pd_items demo_pricing))" "pd_items demo_pricing = [demo_item ''i1'' PrecoVenda 8, demo_item ''i2'' PrecoOferta 7]"
  "counters_agree ''r1'' demo_pricing" "list_all (\<lambda>i. \<bar>ai_price i\<bar> < 10 ^ 10) (pd_items demo_pricing)"
  "ct_apiCredentials (pd_catalog demo_pricing) (pm_tenantId demo_dispatch)" "pm_pipelineRunId demo_dispatch = ''r1''"
  by (simp_all add: demo_pricing_def demo_item_def counters_agree_def run_count_def demo_catalog_def demo_dispatch_def
      new_pipeline_message_def)

theorem applied_items_are_confirmed_pushes_witness:
  "\<exists>pushed. ct_erp (pd_catalog (apply_price_run 5 ''acme'' ''r1'' 1 demo_pricing)) =
     push_entries ''acme'' demo_catalog pushed [demo_item ''i1'' PrecoVenda 8, demo_item ''i2'' PrecoOferta 7]"
proof -
  have "pending_of ''r1'' 1 demo_pricing = [demo_item ''i1'' PrecoVenda 8, demo_item ''i2'' PrecoOferta 7]"
    "ct_erp (pd_catalog demo_pricing) = []" "pd_catalog demo_pricing = demo_catalog"
    by (simp_all add: pending_of_def demo_pricing_def demo_item_def demo_catalog_def)
  then show ?thesis
    using applied_items_are_confirmed_pushes [OF demo_pricing_simps(1,4) refl, of 5 "''acme''" "''r1''" 1] by auto
qed

theorem dispatched_run_settles_witness:
  "list_all (\<lambda>i. ai_applyRunId i = ''r1'' \<longrightarrow> ai_status i \<noteq> ItemPending)
     (pd_items (fold (\<lambda>(now, seq). apply_price_run now ''acme'' ''r1'' seq) [(5, 1), (9, 1)]
       (fst (apply_price_dispatch 3 demo_dispatch demo_pricing))))"
proof -
  have "map seq_of (snd (apply_price_dispatch 3 demo_dispatch demo_pricing)) = [1]" by code_simp
  then have "set (map seq_of (snd (apply_price_dispatch 3 demo_dispatch demo_pricing))) \<subseteq> snd ` set [(5::int, 1), (9, 1)]" by simp
  from dispatched_run_settles [OF demo_pricing_simps(1,5) prod.collapse [symmetric] _ _ this refl]
  show ?thesis by (simp only: demo_pricing_simps(3,6))
qed

end
