(* ===== verification/Pricing_Rules.thy ===== *)
theory Pricing_Rules
  imports Suggestion_Engine Catalog_Mutation Queue_Constants
begin

text \<open>
  The configuration the pricing engine runs on: the suggestion rules
  (\<open>suggestion-rules.service.ts\<close>, \<open>pricing-rules.util.ts\<close>), the product clusters
  (\<open>clusters.service.ts\<close>) and the competitor origins (\<open>competitor-origins.service.ts\<close>) of
  \<open>src/tenant-api/pricing\<close>. Ids of new rows are arguments, timestamps are kept as their ISO text,
  a request that throws leaves the tables as they were (its transaction rolls back), and the
  Portuguese messages are written without accents.
\<close>

section \<open>Rules\<close>

record competitor_dto =
  cd_competitor :: string
  cd_weight :: "rat option"

record rule_dto =
  ud_name :: string
  ud_classifications :: "string list option"
  ud_clusterId :: "string option"
  ud_excludeClusterIds :: "string list option"
  ud_storeIds :: "string list option"
  ud_strategy :: "strategy option"
  ud_minMargin :: rat
  ud_competitorMode :: "competitor_mode option"
  ud_competitors :: "competitor_dto list option"
  ud_variationPct :: "rat option"
  ud_noCompetitorMargin :: "rat option"
  ud_priceControlled :: "bool option"
  ud_ignorePbm :: "bool option"
  ud_blockPbmInMargin :: "bool option"
  ud_cascadeByPriority :: "bool option"
  ud_applyRounding :: "bool option"
  ud_active :: "bool option"

text \<open>The bounds class-validator checks before the service runs.\<close>

definition rule_dto_ok :: "rule_dto \<Rightarrow> bool" where
  "rule_dto_ok dto =
     (0 \<le> ud_minMargin dto \<and> ud_minMargin dto \<le> 95 \<and>
      (case ud_variationPct dto of None \<Rightarrow> True | Some v \<Rightarrow> - 90 \<le> v \<and> v \<le> 90) \<and>
      (case ud_noCompetitorMargin dto of None \<Rightarrow> True | Some v \<Rightarrow> 0 \<le> v \<and> v \<le> 95))"

record rule_values =
  rv_name :: string
  rv_classifications :: "string list"
  rv_storeIds :: "string list"
  rv_clusterId :: "string option"
  rv_excludeClusterIds :: "string list"
  rv_strategy :: strategy
  rv_minMargin :: rat
  rv_competitorMode :: competitor_mode
  rv_competitors :: "(string \<times> rat) list"
  rv_variationPct :: rat
  rv_noCompetitorMargin :: "rat option"
  rv_priceControlled :: bool
  rv_ignorePbm :: bool
  rv_blockPbmInMargin :: bool
  rv_cascadeByPriority :: bool
  rv_applyRounding :: bool
  rv_active :: bool

record rule_row =
  rr_id :: string
  rr_values :: rule_values
  rr_createdAt :: string
  rr_updatedAt :: string
  rr_deleted :: bool

record cluster_row =
  cl_id :: string
  cl_name :: string
  cl_updatedAt :: string
  cl_deleted :: bool

record origin_row =
  og_tenantId :: string
  og_origin :: string
  og_enabled :: bool
  og_priority :: int

record rules_db =
  rd_rules :: "rule_row list"
  rd_clusters :: "cluster_row list"
  rd_members :: "(string \<times> string) list"
  rd_origins :: "origin_row list"
  rd_catalog :: catalog

text \<open>A rule as the API returns it: what the engine reads, and the stores it takes part in.\<close>

record rule_api =
  ru_rule :: suggestion_rule
  ru_storeIds :: "string list"

definition ALL_COMPETITOR_ORIGINS :: "string list" where
  "ALL_COMPETITOR_ORIGINS = map origin_value
     [DROGAL, DROGASIL, PAGUE_MENOS, IKESAKI, MICHELASSI, PACHECO, SAO_PAULO, VENANCIO, INDIANA]"

section \<open>Validation\<close>

definition trimmed :: "string list option \<Rightarrow> string list" where
  "trimmed xs = dedup (filter (\<lambda>s. s \<noteq> []) (map js_trim (case xs of None \<Rightarrow> [] | Some ys \<Rightarrow> ys)))"

definition hex_or_dash :: "char \<Rightarrow> bool" where
  "hex_or_dash c = (let n = code_unit c in
     48 \<le> n \<and> n \<le> 57 \<or> 97 \<le> n \<and> n \<le> 102 \<or> 65 \<le> n \<and> n \<le> 70 \<or> n = 45)"

definition uuid_like :: "string \<Rightarrow> bool" where
  "uuid_like s = (length s = 36 \<and> list_all hex_or_dash s)"

fun collect_competitors :: "competitor_mode \<Rightarrow> string list \<Rightarrow> competitor_dto list \<Rightarrow> (string \<times> rat) list outcome" where
  "collect_competitors mode seen [] = Inr []"
| "collect_competitors mode seen (raw # rest) =
     (if cd_competitor raw \<notin> set ALL_COMPETITOR_ORIGINS
      then Inl (BadRequestException (''Concorrente invalido: '' @ cd_competitor raw @ ''.''))
      else if mode = Weighted \<and> (case cd_weight raw of None \<Rightarrow> True | Some w \<Rightarrow> w \<le> 0 \<or> 100 < w)
      then Inl (BadRequestException ''Peso de concorrente precisa ser maior que 0 e ate 100.'')
      else if cd_competitor raw \<in> set seen
      then Inl (BadRequestException (''Concorrente duplicado: '' @ cd_competitor raw @ ''.''))
      else bind_outcome (collect_competitors mode (cd_competitor raw # seen) rest)
        (\<lambda>cs. Inr ((cd_competitor raw, if mode = Weighted then the (cd_weight raw) else 1) # cs)))"

definition or_default :: "'a option \<Rightarrow> 'a \<Rightarrow> 'a" where
  "or_default x d = (case x of None \<Rightarrow> d | Some y \<Rightarrow> y)"

text \<open>The stored values, once the competitors are collected.\<close>

definition rule_values_of :: "rule_dto \<Rightarrow> (string \<times> rat) list \<Rightarrow> rule_values" where
  "rule_values_of dto competitors = \<lparr>
     rv_name = js_trim (ud_name dto), rv_classifications = trimmed (ud_classifications dto),
     rv_storeIds = trimmed (ud_storeIds dto),
     rv_clusterId = (if truthy_string (ud_clusterId dto) then map_option js_trim (ud_clusterId dto) else None),
     rv_excludeClusterIds = trimmed (ud_excludeClusterIds dto),
     rv_strategy = or_default (ud_strategy dto) Margem,
     rv_minMargin = numeric_12_2 (ud_minMargin dto),
     rv_competitorMode = or_default (ud_competitorMode dto) Weighted, rv_competitors = competitors,
     rv_variationPct = numeric_12_2 (or_default (ud_variationPct dto) 0),
     rv_noCompetitorMargin =
       (if or_default (ud_strategy dto) Margem = Concorrencia then map_option numeric_12_2 (ud_noCompetitorMargin dto) else None),
     rv_priceControlled = or_default (ud_priceControlled dto) False,
     rv_ignorePbm = or_default (ud_ignorePbm dto) False,
     rv_blockPbmInMargin = or_default (ud_blockPbmInMargin dto) False,
     rv_cascadeByPriority = or_default (ud_cascadeByPriority dto) False,
     rv_applyRounding = or_default (ud_applyRounding dto) True,
     rv_active = or_default (ud_active dto) True\<rparr>"

definition validate_rule :: "rule_dto \<Rightarrow> rule_values outcome" where
  "validate_rule dto =
     (let classifications = trimmed (ud_classifications dto);
          clusterId = (if truthy_string (ud_clusterId dto) then map_option js_trim (ud_clusterId dto) else None);
          excludeClusterIds = trimmed (ud_excludeClusterIds dto)
      in if list_ex (\<lambda>c. \<not> uuid_like c) classifications
         then Inl (BadRequestException ''Classificacao invalida (UUID esperado).'')
         else if truthy_string clusterId \<and> classifications \<noteq> []
         then Inl (BadRequestException ''Uma regra mira classificacao OU cluster, nunca os dois.'')
         else if truthy_string clusterId \<and> the clusterId \<in> set excludeClusterIds
         then Inl (BadRequestException ''A regra nao pode excluir o proprio cluster que ela mira.'')
         else bind_outcome (collect_competitors (or_default (ud_competitorMode dto) Weighted) []
             (or_default (ud_competitors dto) [])) (\<lambda>competitors.
           if or_default (ud_strategy dto) Margem = Concorrencia \<and> competitors = []
           then Inl (BadRequestException ''Estrategia de concorrencia precisa de pelo menos um concorrente.'')
           else Inr (rule_values_of dto competitors)))"

section \<open>Operations on rules\<close>

definition engine_rule :: "string \<Rightarrow> string option \<Rightarrow> string \<Rightarrow> rule_values \<Rightarrow> suggestion_rule" where
  "engine_rule i clusterName createdAt v = \<lparr>
     sr_id = i, sr_name = rv_name v, sr_classifications = rv_classifications v, sr_clusterId = rv_clusterId v,
     sr_clusterName = clusterName, sr_excludeClusterIds = rv_excludeClusterIds v, sr_strategy = rv_strategy v,
     sr_minMargin = JNumber (js_of_rat (rv_minMargin v)), sr_competitorMode = rv_competitorMode v,
     sr_competitors = map (\<lambda>(c, w). \<lparr>competitor = c, weight = JNumber (Num w)\<rparr>) (rv_competitors v),
     sr_variationPct = JNumber (js_of_rat (rv_variationPct v)),
     sr_noCompetitorMargin = map_option (\<lambda>m. JNumber (js_of_rat m)) (rv_noCompetitorMargin v),
     sr_priceControlled = rv_priceControlled v, sr_ignorePbm = rv_ignorePbm v,
     sr_blockPbmInMargin = rv_blockPbmInMargin v, sr_cascadeByPriority = rv_cascadeByPriority v,
     sr_applyRounding = rv_applyRounding v, sr_active = rv_active v, sr_createdAt = createdAt\<rparr>"

definition to_api :: "cluster_row list \<Rightarrow> rule_row \<Rightarrow> rule_api" where
  "to_api clusters r = \<lparr>
     ru_rule = engine_rule (rr_id r)
       (case rv_clusterId (rr_values r) of None \<Rightarrow> None
        | Some k \<Rightarrow> map_option cl_name (find (\<lambda>c. cl_id c = k) clusters))
       (rr_createdAt r) (rr_values r),
     ru_storeIds = rv_storeIds (rr_values r)\<rparr>"

definition list_rules :: "rules_db \<Rightarrow> rule_api list" where
  "list_rules db =
     map (to_api (rd_clusters db)) (rev (sort_key rr_updatedAt (filter (\<lambda>r. \<not> rr_deleted r) (rd_rules db))))"

definition get_rule :: "string \<Rightarrow> rules_db \<Rightarrow> rule_api outcome" where
  "get_rule i db = (case find (\<lambda>r. sr_id (ru_rule r) = i) (list_rules db) of
     None \<Rightarrow> Inl (NotFoundException (''rule '' @ i @ '' not found'')) | Some r \<Rightarrow> Inr r)"

definition assert_stores :: "string \<Rightarrow> string list \<Rightarrow> rules_db \<Rightarrow> unit outcome" where
  "assert_stores slug storeIds db =
     (if storeIds = [] then Inr ()
      else bind_outcome (resolve_tenant_id slug (ct_tenants (rd_catalog db))) (\<lambda>tenantId.
        if length (filter (\<lambda>s. st_tenantId s = tenantId \<and> st_id s \<in> set storeIds \<and> \<not> st_deleted s)
             (ct_stores (rd_catalog db))) \<noteq> length storeIds
        then Inl (BadRequestException ''Loja invalida na regra (nao existe neste tenant).'')
        else Inr ()))"

text \<open>The foreign key of the cluster: a row, deleted or not.\<close>

definition fk_ok :: "rule_values \<Rightarrow> rules_db \<Rightarrow> bool" where
  "fk_ok v db = (case rv_clusterId v of None \<Rightarrow> True | Some k \<Rightarrow> list_ex (\<lambda>c. cl_id c = k) (rd_clusters db))"

definition cluster_missing :: exn where
  "cluster_missing = BadRequestException ''Cluster da regra nao existe (pode ter sido removido).''"

definition commit :: "'s \<Rightarrow> 's \<Rightarrow> 'a outcome \<Rightarrow> 's \<times> 'a outcome" where
  "commit old new r = (case r of Inl e \<Rightarrow> (old, Inl e) | Inr x \<Rightarrow> (new, Inr x))"

definition create_rule :: "string \<Rightarrow> string \<Rightarrow> string \<Rightarrow> rule_dto \<Rightarrow> rules_db \<Rightarrow> rules_db \<times> rule_api outcome" where
  "create_rule now newId slug dto db =
     (case bind_outcome (validate_rule dto) (\<lambda>values.
             bind_outcome (assert_stores slug (rv_storeIds values) db) (\<lambda>_.
               if fk_ok values db then Inr values else Inl cluster_missing)) of
        Inl e \<Rightarrow> (db, Inl e)
      | Inr values \<Rightarrow>
          let db' = db\<lparr>rd_rules := rd_rules db @
                [\<lparr>rr_id = newId, rr_values = values, rr_createdAt = now, rr_updatedAt = now, rr_deleted = False\<rparr>]\<rparr>
          in commit db db' (get_rule newId db'))"

definition update_rule :: "string \<Rightarrow> string \<Rightarrow> string \<Rightarrow> rule_dto \<Rightarrow> rules_db \<Rightarrow> rules_db \<times> rule_api outcome" where
  "update_rule now slug i dto db =
     (case bind_outcome (validate_rule dto) (\<lambda>values.
             bind_outcome (assert_stores slug (rv_storeIds values) db) (\<lambda>_.
               if \<not> list_ex (\<lambda>r. rr_id r = i) (rd_rules db)
               then Inl (NotFoundException (''rule '' @ i @ '' not found''))
               else if fk_ok values db then Inr values else Inl cluster_missing)) of
        Inl e \<Rightarrow> (db, Inl e)
      | Inr values \<Rightarrow>
          let db' = db\<lparr>rd_rules := update_where (\<lambda>r. rr_id r = i)
                (\<lambda>r. r\<lparr>rr_values := values, rr_updatedAt := now\<rparr>) (rd_rules db)\<rparr>
          in commit db db' (get_rule i db'))"

definition remove_rule :: "string \<Rightarrow> rules_db \<Rightarrow> rules_db \<times> unit outcome" where
  "remove_rule i db =
     (if \<not> list_ex (\<lambda>r. rr_id r = i) (rd_rules db)
      then (db, Inl (NotFoundException (''rule '' @ i @ '' not found'')))
      else (db\<lparr>rd_rules := update_where (\<lambda>r. rr_id r = i) (\<lambda>r. r\<lparr>rr_deleted := True\<rparr>) (rd_rules db)\<rparr>, Inr ()))"

definition build_transient :: "rule_dto \<Rightarrow> rule_api outcome" where
  "build_transient dto = bind_outcome (validate_rule dto) (\<lambda>v.
     Inr \<lparr>ru_rule = (engine_rule ''preview'' None [] v)\<lparr>sr_active := True\<rparr>, ru_storeIds = rv_storeIds v\<rparr>)"

section \<open>Which rules take part, and the priority of a cascade\<close>

definition rule_participates :: "rule_api \<Rightarrow> string option \<Rightarrow> bool" where
  "rule_participates rule storeId =
     (ru_storeIds rule = [] \<or> (case storeId of None \<Rightarrow> False | Some s \<Rightarrow> s \<in> set (ru_storeIds rule)))"

definition origin_priorities :: "string \<Rightarrow> rules_db \<Rightarrow> (string \<times> int) list outcome" where
  "origin_priorities slug db = bind_outcome (resolve_tenant_id slug (ct_tenants (rd_catalog db))) (\<lambda>tenantId.
     Inr (map_of_entries (map (\<lambda>o'. (og_origin o', og_priority o'))
       (filter (\<lambda>o'. og_tenantId o' = tenantId) (rd_origins db)))))"

definition priority_of :: "(string \<times> int) list \<Rightarrow> string \<Rightarrow> int" where
  "priority_of priorityByOrigin c = (case map_of priorityByOrigin c of None \<Rightarrow> 2 ^ 53 - 1 | Some p \<Rightarrow> p)"

definition apply_cascade_priority :: "rule_api list \<Rightarrow> (string \<times> int) list \<Rightarrow> rule_api list" where
  "apply_cascade_priority rules priorityByOrigin =
     map (\<lambda>r. if sr_competitorMode (ru_rule r) \<noteq> Cascade \<or> \<not> sr_cascadeByPriority (ru_rule r) then r
              else r\<lparr>ru_rule := (ru_rule r)\<lparr>sr_competitors :=
                sort_key (\<lambda>c. priority_of priorityByOrigin (competitor c)) (sr_competitors (ru_rule r))\<rparr>\<rparr>) rules"

definition list_origins :: "string \<Rightarrow> rules_db \<Rightarrow> (string \<times> bool \<times> int) list outcome" where
  "list_origins slug db = bind_outcome (resolve_tenant_id slug (ct_tenants (rd_catalog db))) (\<lambda>tenantId.
     let byOrigin = map_of_entries (map (\<lambda>o'. (og_origin o', o')) (filter (\<lambda>o'. og_tenantId o' = tenantId) (rd_origins db)))
     in Inr (sort_key (\<lambda>(_, _, p). p) (sort_key (\<lambda>(origin, _, _). origin)
          (map (\<lambda>origin. case map_of byOrigin origin of
              None \<Rightarrow> (origin, False, 100) | Some row \<Rightarrow> (origin, og_enabled row, og_priority row)) ALL_COMPETITOR_ORIGINS))))"

definition enabled_origins :: "string \<Rightarrow> rules_db \<Rightarrow> string list outcome" where
  "enabled_origins slug db = bind_outcome (list_origins slug db) (\<lambda>configs.
     Inr (filter (\<lambda>origin. origin \<in> set ALL_COMPETITOR_ORIGINS) (map fst (filter (\<lambda>(_, e, _). e) configs))))"

section \<open>Clusters\<close>

definition MAX_MEMBERS :: nat where
  "MAX_MEMBERS = 5000"

definition normalize_eans :: "string list option \<Rightarrow> string list outcome" where
  "normalize_eans raw =
     (let eans = filter (\<lambda>e. 6 \<le> length e \<and> length e \<le> 14 \<and> list_all is_digit e)
           (dedup (map js_trim (or_default raw [])))
      in if MAX_MEMBERS < length eans
         then Inl (BadRequestException ''Maximo de 5000 EANs por cluster.'') else Inr eans)"

definition replace_members :: "string \<Rightarrow> string list \<Rightarrow> rules_db \<Rightarrow> rules_db" where
  "replace_members clusterId eans db =
     db\<lparr>rd_members := filter (\<lambda>(c, _). c \<noteq> clusterId) (rd_members db) @ map (\<lambda>e. (clusterId, e)) eans\<rparr>"

definition list_clusters :: "rules_db \<Rightarrow> (cluster_row \<times> nat) list" where
  "list_clusters db = map (\<lambda>c. (c, length (filter (\<lambda>(k, _). k = cl_id c) (rd_members db))))
     (rev (sort_key cl_updatedAt (filter (\<lambda>c. \<not> cl_deleted c) (rd_clusters db))))"

definition get_cluster :: "string \<Rightarrow> rules_db \<Rightarrow> (cluster_row \<times> nat \<times> string list) outcome" where
  "get_cluster i db = (case find (\<lambda>(c, _). cl_id c = i) (list_clusters db) of
     None \<Rightarrow> Inl (NotFoundException (''cluster '' @ i @ '' not found''))
   | Some (c, n) \<Rightarrow> Inr (c, n, sort (map snd (filter (\<lambda>(k, _). k = i) (rd_members db)))))"

definition create_cluster ::
  "string \<Rightarrow> string \<Rightarrow> string \<Rightarrow> string list option \<Rightarrow> rules_db \<Rightarrow> rules_db \<times> (cluster_row \<times> nat \<times> string list) outcome" where
  "create_cluster now newId name eans db =
     (case normalize_eans eans of
        Inl e \<Rightarrow> (db, Inl e)
      | Inr es \<Rightarrow>
          let db1 = db\<lparr>rd_clusters := rd_clusters db @
                [\<lparr>cl_id = newId, cl_name = js_trim name, cl_updatedAt = now, cl_deleted = False\<rparr>]\<rparr>;
              db2 = (if es \<noteq> [] then replace_members newId es db1 else db1)
          in commit db db2 (get_cluster newId db2))"

definition update_cluster ::
  "string \<Rightarrow> string \<Rightarrow> string \<Rightarrow> string list option \<Rightarrow> rules_db \<Rightarrow> rules_db \<times> (cluster_row \<times> nat \<times> string list) outcome" where
  "update_cluster now i name eans db =
     (if \<not> list_ex (\<lambda>c. cl_id c = i \<and> \<not> cl_deleted c) (rd_clusters db)
      then (db, Inl (NotFoundException (''cluster '' @ i @ '' not found'')))
      else
        let db1 = db\<lparr>rd_clusters := update_where (\<lambda>c. cl_id c = i \<and> \<not> cl_deleted c)
              (\<lambda>c. c\<lparr>cl_name := js_trim name, cl_updatedAt := (if cl_name c = js_trim name then cl_updatedAt c else now)\<rparr>) (rd_clusters db)\<rparr>
        in (case eans of
              None \<Rightarrow> commit db db1 (get_cluster i db1)
            | Some _ \<Rightarrow> (case normalize_eans eans of
                Inl e \<Rightarrow> (db, Inl e)
              | Inr es \<Rightarrow> let db2 = replace_members i es db1 in commit db db2 (get_cluster i db2))))"

definition rules_using :: "string \<Rightarrow> rules_db \<Rightarrow> rule_row list" where
  "rules_using i db = filter (\<lambda>r. \<not> rr_deleted r \<and>
     (rv_clusterId (rr_values r) = Some i \<or> i \<in> set (rv_excludeClusterIds (rr_values r)))) (rd_rules db)"

fun join_names :: "string list \<Rightarrow> string" where
  "join_names [] = ''''"
| "join_names [x] = x"
| "join_names (x # xs) = x @ '', '' @ join_names xs"

definition remove_cluster :: "string \<Rightarrow> rules_db \<Rightarrow> rules_db \<times> string outcome" where
  "remove_cluster i db =
     (case find (\<lambda>c. cl_id c = i \<and> \<not> cl_deleted c) (rd_clusters db) of
        None \<Rightarrow> (db, Inl (NotFoundException (''cluster '' @ i @ '' not found'')))
      | Some c \<Rightarrow>
          let usedBy = rules_using i db in
          if usedBy \<noteq> []
          then (db, Inl (ConflictException (''Cluster em uso pela(s) regra(s): '' @
                  join_names (dedup (map (\<lambda>r. rv_name (rr_values r)) usedBy)) @ ''. Remova a regra antes.'')))
          else (db\<lparr>rd_clusters := update_where (\<lambda>c. cl_id c = i) (\<lambda>c. c\<lparr>cl_deleted := True\<rparr>) (rd_clusters db)\<rparr>,
                Inr (cl_name c)))"

text \<open>The clusters active rules refer to, and their members by barcode.\<close>

definition active_cluster_ids :: "rules_db \<Rightarrow> string list" where
  "active_cluster_ids db = concat (map (\<lambda>r.
     if rv_active (rr_values r) \<and> \<not> rr_deleted r
     then (case rv_clusterId (rr_values r) of None \<Rightarrow> [] | Some k \<Rightarrow> [k]) @ rv_excludeClusterIds (rr_values r)
     else []) (rd_rules db))"

fun add_member :: "string \<times> string \<Rightarrow> (string \<times> string list) list \<Rightarrow> (string \<times> string list) list" where
  "add_member (c, ean) [] = [(ean, [c])]"
| "add_member (c, ean) ((e, cs) # m) = (if e = ean then (e, cs @ [c]) # m else (e, cs) # add_member (c, ean) m)"

definition load_active_cluster_membership :: "rules_db \<Rightarrow> (string \<times> string list) list" where
  "load_active_cluster_membership db =
     foldl (\<lambda>m row. add_member row m) [] (filter (\<lambda>(c, _). c \<in> set (active_cluster_ids db)) (rd_members db))"

section \<open>Stored rules are well formed\<close>

definition rule_wf :: "rule_values \<Rightarrow> bool" where
  "rule_wf v =
     ((truthy_string (rv_clusterId v) \<longrightarrow> rv_classifications v = [] \<and> the (rv_clusterId v) \<notin> set (rv_excludeClusterIds v)) \<and>
      list_all uuid_like (rv_classifications v) \<and>
      distinct (rv_classifications v) \<and> distinct (rv_excludeClusterIds v) \<and> distinct (rv_storeIds v) \<and>
      distinct (map fst (rv_competitors v)) \<and>
      list_all (\<lambda>(c, w). c \<in> set ALL_COMPETITOR_ORIGINS \<and> (if rv_competitorMode v = Weighted then 0 < w \<and> w \<le> 100 else w = 1))
        (rv_competitors v) \<and>
      (if rv_strategy v = Concorrencia then rv_competitors v \<noteq> [] else rv_noCompetitorMargin v = None) \<and>
      0 \<le> rv_minMargin v \<and> rv_minMargin v \<le> 95 \<and> - 90 \<le> rv_variationPct v \<and> rv_variationPct v \<le> 90 \<and>
      (case rv_noCompetitorMargin v of None \<Rightarrow> True | Some m \<Rightarrow> 0 \<le> m \<and> m \<le> 95))"

lemma collect_competitors_wf:
  "collect_competitors mode seen raw = Inr cs \<Longrightarrow>
   distinct (map fst cs) \<and> set (map fst cs) \<inter> set seen = {} \<and>
   list_all (\<lambda>(c, w). c \<in> set ALL_COMPETITOR_ORIGINS \<and> (if mode = Weighted then 0 < w \<and> w \<le> 100 else w = 1)) cs"
proof (induction mode seen raw arbitrary: cs rule: collect_competitors.induct)
  case (1 mode seen)
  then show ?case by simp
next
  case (2 mode seen raw rest)
  obtain cs' where cs': "collect_competitors mode (cd_competitor raw # seen) rest = Inr cs'"
    "cs = (cd_competitor raw, if mode = Weighted then the (cd_weight raw) else 1) # cs'"
    and ok: "cd_competitor raw \<in> set ALL_COMPETITOR_ORIGINS" "cd_competitor raw \<notin> set seen"
      "mode = Weighted \<Longrightarrow> (case cd_weight raw of None \<Rightarrow> False | Some w \<Rightarrow> 0 < w \<and> w \<le> 100)"
    using "2.prems" by (auto simp: bind_outcome_Inr_iff split: if_splits option.splits)
  have "distinct (map fst cs') \<and> set (map fst cs') \<inter> set (cd_competitor raw # seen) = {} \<and>
   list_all (\<lambda>(c, w). c \<in> set ALL_COMPETITOR_ORIGINS \<and> (if mode = Weighted then 0 < w \<and> w \<le> 100 else w = 1)) cs'"
    using "2.prems" by (intro "2.IH" [OF _ _ _ cs'(1)]) (auto split: if_splits)
  moreover have "mode = Weighted \<Longrightarrow> 0 < the (cd_weight raw) \<and> the (cd_weight raw) \<le> 100"
    using ok(3) by (cases "cd_weight raw") auto
  ultimately show ?case using ok(1,2) by (simp add: cs'(2))
qed

lemma numeric_12_2_int: "numeric_12_2 (of_int k) = of_int k"
proof -
  have "\<lfloor>of_int j * 100 + 1/2 :: rat\<rfloor> = j * 100" for j by (rule floor_unique) simp_all
  from this [of k] this [of "- k"] show ?thesis by (simp add: numeric_12_2_def)
qed

lemma numeric_12_2_range: "of_int a \<le> x \<Longrightarrow> x \<le> of_int b \<Longrightarrow> of_int a \<le> numeric_12_2 x \<and> numeric_12_2 x \<le> of_int b"
  using numeric_12_2_mono [of "of_int a" x] numeric_12_2_mono [of x "of_int b"] by (simp add: numeric_12_2_int)

lemma distinct_trimmed: "distinct (trimmed xs)"
  by (simp add: trimmed_def)

lemma validate_rule_Inr:
  assumes "validate_rule dto = Inr v"
  obtains cs where "v = rule_values_of dto cs" "list_all uuid_like (rv_classifications v)"
    "truthy_string (rv_clusterId v) \<longrightarrow> rv_classifications v = [] \<and> the (rv_clusterId v) \<notin> set (rv_excludeClusterIds v)"
    "collect_competitors (rv_competitorMode v) [] (or_default (ud_competitors dto) []) = Inr cs"
    "rv_strategy v = Concorrencia \<longrightarrow> cs \<noteq> []"
proof -
  obtain cs where cs: "collect_competitors (or_default (ud_competitorMode dto) Weighted) [] (or_default (ud_competitors dto) []) = Inr cs"
    "v = rule_values_of dto cs" "\<not> (or_default (ud_strategy dto) Margem = Concorrencia \<and> cs = [])"
    using assms unfolding validate_rule_def Let_def by (auto simp: bind_outcome_Inr_iff split: if_splits)
  have g: "\<not> list_ex (\<lambda>c. \<not> uuid_like c) (rv_classifications v)"
    "\<not> (truthy_string (rv_clusterId v) \<and> rv_classifications v \<noteq> [])"
    "\<not> (truthy_string (rv_clusterId v) \<and> the (rv_clusterId v) \<in> set (rv_excludeClusterIds v))"
    using assms unfolding validate_rule_def Let_def cs(2) by (simp_all add: rule_values_of_def split: if_splits)
  show thesis
    by (rule that [of cs]) (use cs g in \<open>auto simp: rule_values_of_def list_all_iff list_ex_iff\<close>)
qed

lemma validate_rule_wf:
  assumes "validate_rule dto = Inr v" "rule_dto_ok dto"
  shows "rule_wf v"
proof -
  obtain cs where cs: "v = rule_values_of dto cs" "list_all uuid_like (rv_classifications v)"
    "truthy_string (rv_clusterId v) \<longrightarrow> rv_classifications v = [] \<and> the (rv_clusterId v) \<notin> set (rv_excludeClusterIds v)"
    "collect_competitors (rv_competitorMode v) [] (or_default (ud_competitors dto) []) = Inr cs"
    "rv_strategy v = Concorrencia \<longrightarrow> cs \<noteq> []"
    using validate_rule_Inr [OF assms(1)] .
  have f: "rv_competitors v = cs" "distinct (rv_classifications v)" "distinct (rv_excludeClusterIds v)" "distinct (rv_storeIds v)"
      "rv_strategy v \<noteq> Concorrencia \<Longrightarrow> rv_noCompetitorMargin v = None"
    by (simp_all add: cs(1) rule_values_of_def distinct_trimmed)
  have num: "0 \<le> rv_minMargin v \<and> rv_minMargin v \<le> 95"
    using assms(2) numeric_12_2_range [of 0 "ud_minMargin dto" 95] by (simp add: cs(1) rule_values_of_def rule_dto_ok_def)
  have var: "- 90 \<le> rv_variationPct v \<and> rv_variationPct v \<le> 90"
    using assms(2) numeric_12_2_range [of "- 90" "or_default (ud_variationPct dto) 0" 90]
    by (simp add: cs(1) rule_values_of_def rule_dto_ok_def or_default_def split: option.splits)
  have ncm: "case rv_noCompetitorMargin v of None \<Rightarrow> True | Some m \<Rightarrow> 0 \<le> m \<and> m \<le> 95"
    using assms(2) numeric_12_2_range [of 0 _ 95]
    by (auto simp: cs(1) rule_values_of_def rule_dto_ok_def split: option.splits)
  show ?thesis unfolding rule_wf_def using collect_competitors_wf [OF cs(4)] f num var ncm cs(2,3,5) by simp
qed

text \<open>
  C4. The rule table is well typed, and every request keeps it so: each stored rule targets
  classifications or a cluster, never both, does not exclude its own cluster, names known
  competitors once each, with a weight in (0, 100] for the weighted mode and 1 otherwise, has a
  competitor when its strategy needs one, and keeps its margins in [0, 95] and its variation in
  [-90, 90].
\<close>

theorem rules_stay_wellformed:
  assumes "list_all (\<lambda>r. rule_wf (rr_values r)) (rd_rules db)" "rule_dto_ok dto"
    and "db' = fst (create_rule now newId slug dto db) \<or> db' = fst (update_rule now slug i dto db) \<or> db' = fst (remove_rule i db)"
  shows "list_all (\<lambda>r. rule_wf (rr_values r)) (rd_rules db')"
  using assms(3)
proof (elim disjE)
  assume "db' = fst (create_rule now newId slug dto db)"
  then show ?thesis using assms(1) validate_rule_wf [OF _ assms(2)]
    by (auto simp: create_rule_def commit_def Let_def bind_outcome_Inr_iff list_all_iff split: sum.splits if_splits)
next
  assume "db' = fst (update_rule now slug i dto db)"
  then show ?thesis using assms(1) validate_rule_wf [OF _ assms(2)]
    by (auto simp: update_rule_def commit_def Let_def bind_outcome_Inr_iff list_all_iff set_update_where split: sum.splits if_splits)
next
  assume "db' = fst (remove_rule i db)"
  then show ?thesis using assms(1)
    by (auto simp: remove_rule_def list_all_iff set_update_where split: if_splits)
qed

text \<open>
  The dry run previews the rule that saving would store: the transient rule and the saved one
  differ only in their id, cluster name, creation time and activation, so the engine suggests the same
  price, on the same basis, for every product.
\<close>

lemma preview_matches_saved_rule:
  assumes "create_rule now newId slug dto db = (db', Inr saved)" "build_transient dto = Inr preview"
    and "list_all (\<lambda>r. rr_id r \<noteq> newId) (rd_rules db)"
  shows "ru_rule preview = (ru_rule saved)\<lparr>sr_id := ''preview'', sr_clusterName := None, sr_createdAt := [], sr_active := True\<rparr> \<and>
    ru_storeIds preview = ru_storeIds saved"
proof -
  obtain v where v: "validate_rule dto = Inr v" using assms(2) by (auto simp: build_transient_def bind_outcome_Inr_iff)
  define row where "row = \<lparr>rr_id = newId, rr_values = v, rr_createdAt = now, rr_updatedAt = now, rr_deleted = False\<rparr>"
  have get: "get_rule newId (db\<lparr>rd_rules := rd_rules db @ [row]\<rparr>) = Inr saved"
    using assms(1) v by (auto simp: create_rule_def commit_def Let_def bind_outcome_Inr_iff row_def split: sum.splits if_splits)
  have "saved \<in> set (list_rules (db\<lparr>rd_rules := rd_rules db @ [row]\<rparr>))" "sr_id (ru_rule saved) = newId"
    using get by (auto simp: get_rule_def find_Some_iff split: option.splits)
  then have "saved = to_api (rd_clusters db) row"
    using assms(3) by (auto simp: list_rules_def to_api_def engine_rule_def list_all_iff row_def)
  then show ?thesis using assms(2) v by (auto simp: build_transient_def to_api_def engine_rule_def row_def)
qed

section \<open>A removed cluster\<close>

definition demo_rule_dto :: "string option \<Rightarrow> rule_dto" where
  "demo_rule_dto clusterId = \<lparr>ud_name = ''r'', ud_classifications = None, ud_clusterId = clusterId, ud_excludeClusterIds = None,
     ud_storeIds = None, ud_strategy = Some Concorrencia, ud_minMargin = 20, ud_competitorMode = None,
     ud_competitors = Some [\<lparr>cd_competitor = ''DROGASIL'', cd_weight = Some 60\<rparr>], ud_variationPct = Some (- 5),
     ud_noCompetitorMargin = Some 30, ud_priceControlled = None, ud_ignorePbm = None, ud_blockPbmInMargin = None,
     ud_cascadeByPriority = None, ud_applyRounding = None, ud_active = None\<rparr>"

definition demo_rules :: rules_db where
  "demo_rules = \<lparr>rd_rules = [], rd_clusters = [\<lparr>cl_id = ''c1'', cl_name = ''top'', cl_updatedAt = ''2026'', cl_deleted = False\<rparr>],
     rd_members = [(''c1'', ''789'')], rd_origins = [], rd_catalog = demo_catalog\<rparr>"

text \<open>
  The foreign key does not see a soft-deleted cluster: a rule that targets a removed cluster is
  accepted, and has members to price.
\<close>

lemma rule_accepts_removed_cluster:
  "let db = fst (remove_cluster ''c1'' demo_rules); db' = fst (create_rule ''2027'' ''x'' ''acme'' (demo_rule_dto (Some ''c1'')) db)
   in length (rd_rules db') = 1 \<and> list_clusters db' = [] \<and> load_active_cluster_membership db' = [(''789'', [''c1''])]"
  by code_simp

section \<open>Witnesses\<close>

theorem rules_stay_wellformed_witness:
  "list_all (\<lambda>r. rule_wf (rr_values r)) (rd_rules (fst (create_rule ''2027'' ''x'' ''acme'' (demo_rule_dto None) demo_rules))) \<and>
   length (rd_rules (fst (create_rule ''2027'' ''x'' ''acme'' (demo_rule_dto None) demo_rules))) = 1"
proof
  show "list_all (\<lambda>r. rule_wf (rr_values r)) (rd_rules (fst (create_rule ''2027'' ''x'' ''acme'' (demo_rule_dto None) demo_rules)))"
  proof (rule rules_stay_wellformed [OF _ _ disjI1 [OF refl]])
    show "list_all (\<lambda>r. rule_wf (rr_values r)) (rd_rules demo_rules)" by (simp add: demo_rules_def)
    show "rule_dto_ok (demo_rule_dto None)" by (simp add: rule_dto_ok_def demo_rule_dto_def)
  qed
  show "length (rd_rules (fst (create_rule ''2027'' ''x'' ''acme'' (demo_rule_dto None) demo_rules))) = 1" by code_simp
qed

end
