(* ===== verification/Pricing_Apply.thy ===== *)
theory Pricing_Apply
  imports Apply_Price_Step Pricing_Rules
begin

text \<open>
  The request side of the bulk price application,
  \<open>src/tenant-api/pricing/pricing-apply.service.ts\<close>: revalidation of the approved prices against
  the guard rails, the run and its items, the approval, the rollback, the reports. The tables of the
  worker, of the rules and of the shared catalogue are one state; a request that throws leaves it as
  it was. Numbers of the request are JavaScript numbers, columns are exact decimals; new ids are
  arguments.
\<close>

section \<open>Data\<close>

record apply_item_dto =
  it_ean :: string
  it_target :: suggestion_target
  it_storeId :: "string option"
  it_price :: jsnum
  it_cadernoId :: "int option"

record apply_rejection =
  rj_ean :: string
  rj_reason :: string
  rj_storeId :: "string option"

record apply_response =
  rs_applyRunId :: string
  rs_accepted :: int
  rs_rejected :: "apply_rejection list"
  rs_idempotent :: bool
  rs_approvalPending :: bool

record product_row =
  pw_ean :: string
  pw_cost :: "rat option"
  pw_precoVenda :: "rat option"
  pw_precoOferta :: "rat option"
  pw_classificationId :: "string option"
  pw_classificacao :: "string option"
  pw_cadernoId :: "int option"
  pw_competitorPrices :: "(string \<times> jsnum) list"
  pw_pbm :: bool

record accepted_item =
  ac_ean :: string
  ac_target :: suggestion_target
  ac_storeId :: "string option"
  ac_price :: jsnum
  ac_cadernoId :: "int option"
  ac_priceOldSell :: "jsnum option"
  ac_priceOldOffer :: "jsnum option"
  ac_ruleId :: "string option"
  ac_basis :: "basis option"
  ac_costAtApply :: "jsnum option"

record shared_product =
  sh_ean :: string
  sh_origin :: string
  sh_price :: "rat option"
  sh_isPbm :: bool

record apply_db =
  ap_pricing :: pricing_db
  ap_rules :: rules_db
  ap_classifications :: "classification_row list"
  ap_shared :: "shared_product list"
  ap_outbox :: "step_payload outbox"

definition rules_of :: "apply_db \<Rightarrow> rules_db" where
  "rules_of db = (ap_rules db)\<lparr>rd_catalog := pd_catalog (ap_pricing db)\<rparr>"

definition catalog_of :: "apply_db \<Rightarrow> catalog" where
  "catalog_of db = pd_catalog (ap_pricing db)"

definition num :: "rat option \<Rightarrow> jsnum option" where
  "num v = (case v of None \<Rightarrow> None | Some r \<Rightarrow> let n = js_of_rat r in if js_is_finite n then Some n else None)"

definition js_number :: "numeric \<Rightarrow> jsnum" where
  "js_number v = (case v of JNumber n \<Rightarrow> n | JString s \<Rightarrow> number_of_string s)"

definition PRICE_EPSILON :: jsnum where
  "PRICE_EPSILON = js_of_rat (5 / 1000)"

definition VARIATION_CEILING :: jsnum where
  "VARIATION_CEILING = Num 3"

definition CIRCUIT_MIN_ITEMS :: nat where
  "CIRCUIT_MIN_ITEMS = 10"

definition BREAKER_EXEMPT :: "string list" where
  "BREAKER_EXEMPT = [''caderno_duplicado'', ''caderno_conflitante'']"

section \<open>What the revalidation loads\<close>

record apply_ctx =
  cx_rows :: "product_row list"
  cx_stores :: "(string \<times> bool) list"
  cx_storeItems :: "((string \<times> string) \<times> product_item) list"
  cx_defaultCaderno :: "int option"
  cx_rules :: "rule_api list"
  cx_membership :: "(string \<times> string list) list"
  cx_index :: classification_index

definition load_stores :: "string \<Rightarrow> string list \<Rightarrow> catalog \<Rightarrow> (string \<times> bool) list outcome" where
  "load_stores slug storeIds c =
     (if storeIds = [] then Inr []
      else bind_outcome (resolve_tenant_id slug (ct_tenants c)) (\<lambda>tenantId.
        Inr (map_of_entries (map (\<lambda>s. (st_id s, st_active s))
          (filter (\<lambda>s. st_tenantId s = tenantId \<and> st_id s \<in> set storeIds \<and> \<not> st_deleted s) (ct_stores c))))))"

definition load_store_items :: "string list \<Rightarrow> string list \<Rightarrow> catalog \<Rightarrow> ((string \<times> string) \<times> product_item) list" where
  "load_store_items eans storeIds c =
     (if storeIds = [] then []
      else map_of_entries (concat (map (\<lambda>i. concat (map (\<lambda>p.
          if pr_id p = pi_productId i \<and> pr_ean p \<in> set eans \<and> pi_storeId i \<in> set storeIds
          then [((pr_ean p, pi_storeId i), i)] else []) (ct_products c))) (ct_items c))))"

definition load_eans_data :: "string list \<Rightarrow> string list \<Rightarrow> apply_db \<Rightarrow> product_row list" where
  "load_eans_data origins eans db =
     map (\<lambda>p.
       let ob = find (\<lambda>o'. of_ean o' = pr_ean p) (ct_offers (catalog_of db));
           rows = map (\<lambda>o'. (o', find (\<lambda>s. sh_ean s = pr_ean p \<and> sh_origin s = o') (ap_shared db))) origins
       in \<lparr>pw_ean = pr_ean p, pw_cost = pr_cost p, pw_precoVenda = pr_price p,
           pw_precoOferta = (case ob of None \<Rightarrow> None | Some o' \<Rightarrow> of_targetPrice o'),
           pw_classificationId = pr_classificationId p,
           pw_classificacao = (case pr_classificationId p of None \<Rightarrow> None
             | Some k \<Rightarrow> map_option row_name (find (\<lambda>r. row_id r = k) (ap_classifications db))),
           pw_cadernoId = (case ob of None \<Rightarrow> None | Some o' \<Rightarrow> of_externalId o'),
           pw_competitorPrices = concat (map (\<lambda>(o', s). case s of None \<Rightarrow> []
             | Some r \<Rightarrow> (case num (sh_price r) of None \<Rightarrow> [] | Some n \<Rightarrow> if js_lt (Num 0) n then [(o', n)] else [])) rows),
           pw_pbm = list_ex (\<lambda>(o', s). case s of None \<Rightarrow> False | Some r \<Rightarrow> sh_isPbm r) rows\<rparr>)
       (filter (\<lambda>p. pr_ean p \<in> set eans) (ct_products (catalog_of db)))"

definition default_caderno :: "string \<Rightarrow> catalog \<Rightarrow> int option" where
  "default_caderno slug c = (case ct_tenants c slug of None \<Rightarrow> None | Some t \<Rightarrow> ct_defaultCaderno c t)"

text \<open>A cycle of classifications overflows the stack while the index is built.\<close>

definition classification_index_of :: "classification_row list \<Rightarrow> classification_index outcome" where
  "classification_index_of rows = (case build_classification_index rows of
     None \<Rightarrow> Inl (Error ''Maximum call stack size exceeded'') | Some ix \<Rightarrow> Inr ix)"

definition active_rules :: "string \<Rightarrow> rules_db \<Rightarrow> rule_api list outcome" where
  "active_rules slug db =
     (let active = filter (\<lambda>r. sr_active (ru_rule r)) (list_rules db)
      in if list_ex (\<lambda>r. sr_competitorMode (ru_rule r) = Cascade \<and> sr_cascadeByPriority (ru_rule r)) active
         then bind_outcome (origin_priorities slug db) (\<lambda>ps. Inr (apply_cascade_priority active ps))
         else Inr active)"

definition load_ctx :: "string \<Rightarrow> apply_item_dto list \<Rightarrow> apply_db \<Rightarrow> apply_ctx outcome" where
  "load_ctx slug items db =
     (let eans = dedup (map it_ean items);
          storeIds = dedup (List.map_filter (\<lambda>i. given (it_storeId i)) items);
          c = catalog_of db
      in bind_outcome (enabled_origins slug (rules_of db)) (\<lambda>origins.
         bind_outcome (load_stores slug storeIds c) (\<lambda>stores.
         bind_outcome (active_rules slug (rules_of db)) (\<lambda>active.
           let usesClusters = list_ex (\<lambda>r. truthy_string (sr_clusterId (ru_rule r)) \<or> sr_excludeClusterIds (ru_rule r) \<noteq> []) active;
               membership = (if usesClusters then load_active_cluster_membership (rules_of db) else [])
           in bind_outcome (classification_index_of (ap_classifications db)) (\<lambda>ix.
             Inr \<lparr>cx_rows = load_eans_data origins eans db, cx_stores = stores,
                  cx_storeItems = load_store_items eans storeIds c, cx_defaultCaderno = default_caderno slug c,
                  cx_rules = active, cx_membership = membership, cx_index = ix\<rparr>)))))"

section \<open>The guard rails of one item\<close>

text \<open>Cost, sale price and offer price of the target: the store's, else the product's.\<close>

definition first_num :: "jsnum option \<Rightarrow> jsnum option \<Rightarrow> jsnum" where
  "first_num a b = (case a of Some n \<Rightarrow> n | None \<Rightarrow> (case b of Some n \<Rightarrow> n | None \<Rightarrow> Num 0))"

definition item_cost :: "product_item option \<Rightarrow> product_row \<Rightarrow> jsnum" where
  "item_cost si row = first_num (case si of None \<Rightarrow> None | Some s \<Rightarrow> num (pi_cost s)) (num (pw_cost row))"

definition item_preco_venda :: "product_item option \<Rightarrow> product_row \<Rightarrow> jsnum" where
  "item_preco_venda si row = first_num (case si of None \<Rightarrow> None | Some s \<Rightarrow> num (pi_price s)) (num (pw_precoVenda row))"

definition item_preco_oferta :: "product_item option \<Rightarrow> product_row \<Rightarrow> jsnum" where
  "item_preco_oferta si row =
     (case si of Some s \<Rightarrow> first_num (num (pi_priceOffer s)) None | None \<Rightarrow> first_num (num (pw_precoOferta row)) None)"

definition to_suggestion_product :: "product_row \<Rightarrow> jsnum \<Rightarrow> jsnum \<Rightarrow> jsnum \<Rightarrow> suggestion_product" where
  "to_suggestion_product row custo precoVenda precoOferta = \<lparr>
     sp_ean = pw_ean row, sp_classificationId = pw_classificationId row,
     sp_classificacao = or_default (pw_classificacao row) [], sp_custo = custo, sp_precoVenda = precoVenda,
     sp_precoOferta = precoOferta, sp_competitorPrices = map_of (pw_competitorPrices row), sp_pbm = pw_pbm row\<rparr>"

definition winning_rule :: "apply_ctx \<Rightarrow> string option \<Rightarrow> string \<Rightarrow> suggestion_product \<Rightarrow> suggestion_rule option" where
  "winning_rule cx storeId ean sp =
     (let clusterIds = or_default (map_of (cx_membership cx) ean) [];
          participantes = map ru_rule (filter (\<lambda>r. rule_participates r storeId) (cx_rules cx))
      in fst (resolve_winner
           (if clusterIds \<noteq> []
            then find_cluster_rule_for_product (filter (\<lambda>r. truthy_string (sr_clusterId r)) participantes) clusterIds
            else None)
           (find_rule_for_product sp (filter (\<lambda>r. \<not> truthy_string (sr_clusterId r)) participantes) clusterIds
              (Some (cx_index cx)))))"

definition price_floor :: "suggestion_rule option \<Rightarrow> jsnum \<Rightarrow> jsnum" where
  "price_floor winner cost = (case winner of None \<Rightarrow> cost | Some r \<Rightarrow> price_for_margin cost (js_number (sr_minMargin r)))"

definition excessive_variation :: "jsnum \<Rightarrow> jsnum \<Rightarrow> bool" where
  "excessive_variation price current =
     (js_lt (Num 0) current \<and>
      (js_lt (js_mul current VARIATION_CEILING) price \<or> js_lt (js_mul price VARIATION_CEILING) current))"

text \<open>The offer book an offer is written to, or why there is none.\<close>

definition item_caderno :: "apply_ctx \<Rightarrow> apply_item_dto \<Rightarrow> product_row \<Rightarrow> product_item option \<Rightarrow> string + int" where
  "item_caderno cx item row si =
     (let resolved =
        (case given (it_storeId item) of
           Some _ \<Rightarrow>
             (case (case si of None \<Rightarrow> None | Some s \<Rightarrow> pi_offerExternalId s) of
                Some storeCaderno \<Rightarrow>
                  (case it_cadernoId item of
                     Some k \<Rightarrow> if k \<noteq> storeCaderno then Inl ''caderno_nao_cobre_loja'' else Inr (Some storeCaderno)
                   | None \<Rightarrow> Inr (Some storeCaderno))
              | None \<Rightarrow> Inr (cx_defaultCaderno cx))
         | None \<Rightarrow> Inr (or_else (it_cadernoId item) (pw_cadernoId row)))
      in (case resolved of
            Inl reason \<Rightarrow> Inl reason
          | Inr None \<Rightarrow> Inl ''sem_caderno''
          | Inr (Some k) \<Rightarrow> Inr k))"

definition check_store :: "apply_ctx \<Rightarrow> apply_item_dto \<Rightarrow> string + product_item option" where
  "check_store cx item =
     (case given (it_storeId item) of
        None \<Rightarrow> Inr None
      | Some sid \<Rightarrow>
          (case map_of (cx_stores cx) sid of
             None \<Rightarrow> Inl ''loja_invalida''
           | Some active \<Rightarrow> if \<not> active then Inl ''loja_inativa''
               else Inr (map_of (cx_storeItems cx) (it_ean item, sid))))"

definition truthy_num :: "jsnum \<Rightarrow> jsnum option" where
  "truthy_num n = (if js_truthy n then Some n else None)"

definition check_item :: "apply_ctx \<Rightarrow> apply_item_dto \<Rightarrow> string + accepted_item" where
  "check_item cx item =
     (case map_of (map_of_entries (map (\<lambda>r. (pw_ean r, r)) (cx_rows cx))) (it_ean item) of
        None \<Rightarrow> Inl ''nao_encontrado''
      | Some row \<Rightarrow>
          (case check_store cx item of
             Inl reason \<Rightarrow> Inl reason
           | Inr si \<Rightarrow>
               let cost = item_cost si row;
                   precoVenda = item_preco_venda si row;
                   precoOferta = item_preco_oferta si row;
                   price = it_price item
               in if js_le cost (Num 0) then Inl ''sem_custo''
                  else if js_le price (Num 0) then Inl ''preco_invalido''
                  else
                    let sp = to_suggestion_product row cost precoVenda precoOferta;
                        winner = winning_rule cx (it_storeId item) (it_ean item) sp;
                        current = (if it_target item = PrecoOferta then precoOferta else precoVenda)
                    in if js_lt (js_add price PRICE_EPSILON) (price_floor winner cost) then Inl ''abaixo_do_piso''
                       else if excessive_variation price current then Inl ''variacao_excessiva''
                       else if it_target item = PrecoOferta \<and> js_lt (Num 0) precoVenda \<and>
                               js_lt (js_add precoVenda PRICE_EPSILON) price
                       then Inl ''acima_do_venda''
                       else
                         (case (if it_target item = PrecoOferta
                                then (case item_caderno cx item row si of Inl r \<Rightarrow> Inl r | Inr k \<Rightarrow> Inr (Some k))
                                else Inr None) of
                            Inl reason \<Rightarrow> Inl reason
                          | Inr caderno \<Rightarrow>
                              Inr \<lparr>ac_ean = it_ean item, ac_target = it_target item, ac_storeId = it_storeId item,
                                   ac_price = price, ac_cadernoId = caderno,
                                   ac_priceOldSell = truthy_num precoVenda, ac_priceOldOffer = truthy_num precoOferta,
                                   ac_ruleId = map_option sr_id winner,
                                   ac_basis = (case winner of None \<Rightarrow> None
                                     | Some r \<Rightarrow> (case compute_suggestion sp r [] of
                                         Suggestion s \<Rightarrow> Some (ps_basis s) | NoSuggestion _ _ \<Rightarrow> None)),
                                   ac_costAtApply = truthy_num cost\<rparr>)))"

section \<open>The batch of a request\<close>

definition dedup_items :: "apply_item_dto list \<Rightarrow> apply_item_dto list" where
  "dedup_items items =
     map snd (map_of_entries (map (\<lambda>i. ((it_ean i, it_target i, or_default (it_storeId i) []), i)) items))"

definition caderno_key :: "accepted_item \<Rightarrow> (string \<times> int) option" where
  "caderno_key a = (if ac_target a = PrecoOferta then map_option (\<lambda>k. (ac_ean a, k)) (ac_cadernoId a) else None)"

fun resolve_caderno_conflicts :: "accepted_item list \<Rightarrow> accepted_item list \<times> apply_rejection list" where
  "resolve_caderno_conflicts [] = ([], [])"
| "resolve_caderno_conflicts (a # rest) =
     (case resolve_caderno_conflicts rest of
        (kept, rejected) \<Rightarrow>
          (case (if caderno_key a = None then None else find (\<lambda>b. caderno_key b = caderno_key a) (rev rest)) of
             None \<Rightarrow> (a # kept, rejected)
           | Some winner \<Rightarrow>
               (kept, \<lparr>rj_ean = ac_ean a,
                  rj_reason = (if js_lt (js_abs (js_sub (ac_price winner) (ac_price a))) PRICE_EPSILON
                    then ''caderno_duplicado'' else ''caderno_conflitante''),
                  rj_storeId = ac_storeId a\<rparr> # rejected)))"

definition check_items :: "apply_ctx \<Rightarrow> apply_item_dto list \<Rightarrow> accepted_item list \<times> apply_rejection list" where
  "check_items cx items =
     (let deduped = dedup_items items;
          accepted = concat (map (\<lambda>i. case check_item cx i of Inr a \<Rightarrow> [a] | Inl _ \<Rightarrow> []) deduped);
          rejected = concat (map (\<lambda>i. case check_item cx i of Inr _ \<Rightarrow> []
            | Inl reason \<Rightarrow> [\<lparr>rj_ean = it_ean i, rj_reason = reason, rj_storeId = it_storeId i\<rparr>]) deduped)
      in (case resolve_caderno_conflicts accepted of (kept, conflicts) \<Rightarrow> (kept, rejected @ conflicts)))"

definition revalidate :: "string \<Rightarrow> apply_item_dto list \<Rightarrow> apply_db \<Rightarrow> (accepted_item list \<times> apply_rejection list) outcome" where
  "revalidate slug items db = bind_outcome (load_ctx slug items db) (\<lambda>cx. Inr (check_items cx items))"

definition would_trip_breaker :: "nat \<Rightarrow> apply_rejection list \<Rightarrow> bool" where
  "would_trip_breaker acceptedCount rejected =
     (let counted = filter (\<lambda>r. rj_reason r \<notin> set BREAKER_EXEMPT) rejected;
          total = acceptedCount + length rejected
      in CIRCUIT_MIN_ITEMS \<le> total \<and> total < 2 * length counted)"

section \<open>Runs\<close>

definition set_pricing :: "(pricing_db \<Rightarrow> pricing_db) \<Rightarrow> apply_db \<Rightarrow> apply_db" where
  "set_pricing f db = db\<lparr>ap_pricing := f (ap_pricing db)\<rparr>"

definition find_by_idempotency_key :: "string \<Rightarrow> apply_db \<Rightarrow> apply_response option" where
  "find_by_idempotency_key key db =
     map_option (\<lambda>run. \<lparr>rs_applyRunId = ar_id run, rs_accepted = ar_total run, rs_rejected = [],
                        rs_idempotent = True, rs_approvalPending = False\<rparr>)
       (find (\<lambda>r. ar_idempotencyKey r = key) (pd_runs (ap_pricing db)))"

definition dispatch_message :: "int \<Rightarrow> string \<Rightarrow> string \<Rightarrow> step_message" where
  "dispatch_message now slug runId = new_pipeline_message now runId slug (step_value APPLY_PRICE)
     (Some (dispatch_step APPLY_PRICE)) EmptyPayload None None"

definition enqueue_dispatch :: "int \<Rightarrow> string \<Rightarrow> string \<Rightarrow> apply_db \<Rightarrow> apply_db" where
  "enqueue_dispatch now slug runId db =
     db\<lparr>ap_outbox := insert_many now runId slug [dispatch_message now slug runId] (ap_outbox db)\<rparr>"

text \<open>
  A number as the decimal of a column: \<open>f\<close> rounds it to the scale, and a number that reaches
  \<open>limit\<close> afterwards, or is not finite, is refused. Prices are \<open>numeric(12,2)\<close>, the cost is
  \<open>numeric(12,4)\<close>.
\<close>

definition column :: "(rat \<Rightarrow> rat) \<Rightarrow> rat \<Rightarrow> jsnum \<Rightarrow> rat option" where
  "column f limit n =
     (case n of Num r \<Rightarrow> (let x = f (decimal_of r) in if \<bar>x\<bar> < limit then Some x else None) | _ \<Rightarrow> None)"

definition price_cell :: "jsnum \<Rightarrow> rat option" where
  "price_cell = column numeric_12_2 (10 ^ 10)"

definition cost_cell :: "jsnum \<Rightarrow> rat option" where
  "cost_cell = column numeric_12_4 (10 ^ 8)"

definition nullable :: "(jsnum \<Rightarrow> rat option) \<Rightarrow> jsnum option \<Rightarrow> rat option option" where
  "nullable c v = (case v of None \<Rightarrow> Some None | Some n \<Rightarrow> map_option Some (c n))"

definition item_row :: "string \<Rightarrow> string \<Rightarrow> accepted_item \<Rightarrow> apply_item outcome" where
  "item_row i runId a =
     (case (price_cell (ac_price a), nullable price_cell (ac_priceOldSell a),
            nullable price_cell (ac_priceOldOffer a), nullable cost_cell (ac_costAtApply a)) of
        (Some price, Some oldSell, Some oldOffer, Some cost) \<Rightarrow>
          Inr \<lparr>ai_id = i, ai_applyRunId = runId, ai_batchSeq = None, ai_ean = ac_ean a, ai_target = ac_target a,
            ai_storeId = ac_storeId a, ai_price = price, ai_cadernoId = ac_cadernoId a,
            ai_priceOldSell = oldSell, ai_priceOldOffer = oldOffer, ai_basis = ac_basis a,
            ai_ruleId = ac_ruleId a, ai_costAtApply = cost,
            ai_status = ItemPending, ai_reason = None, ai_erpResult = None, ai_appliedAt = None\<rparr>
      | _ \<Rightarrow> Inl (Error ''22003''))"

definition INSERT_CHUNK :: nat where
  "INSERT_CHUNK = 500"

text \<open>The rows of one statement, which inserts them all or fails; then the statements of the slices.\<close>

fun slice_rows :: "(nat \<Rightarrow> string) \<Rightarrow> string \<Rightarrow> (nat \<times> accepted_item) list \<Rightarrow> apply_item list outcome" where
  "slice_rows ids runId [] = Inr []"
| "slice_rows ids runId ((k, a) # rest) =
     bind_outcome (item_row (ids k) runId a) (\<lambda>row.
     bind_outcome (slice_rows ids runId rest) (\<lambda>rows. Inr (row # rows)))"

fun insert_slices :: "(nat \<Rightarrow> string) \<Rightarrow> string \<Rightarrow> (nat \<times> accepted_item) list list \<Rightarrow> pricing_db \<Rightarrow> pricing_db outcome" where
  "insert_slices ids runId [] db = Inr db"
| "insert_slices ids runId (slice # slices) db =
     bind_outcome (slice_rows ids runId slice) (\<lambda>rows.
       insert_slices ids runId slices (db\<lparr>pd_items := pd_items db @ rows\<rparr>))"

definition insert_items :: "(nat \<Rightarrow> string) \<Rightarrow> string \<Rightarrow> accepted_item list \<Rightarrow> pricing_db \<Rightarrow> pricing_db outcome" where
  "insert_items ids runId accepted db = insert_slices ids runId (chunks INSERT_CHUNK (enumerate 0 accepted)) db"

record apply_request =
  rq_idempotencyKey :: string
  rq_mode :: "apply_mode option"
  rq_items :: "apply_item_dto list"

text \<open>A request runs in one transaction: when an insert fails, the tables are as they were.\<close>

definition apply_prices ::
  "int \<Rightarrow> string \<Rightarrow> (nat \<Rightarrow> string) \<Rightarrow> string \<Rightarrow> string option \<Rightarrow> apply_request \<Rightarrow> bool \<Rightarrow> apply_db \<Rightarrow>
   apply_db \<times> apply_response outcome" where
  "apply_prices now newId itemIds slug requestedBy dto requireApproval db =
     (case find_by_idempotency_key (rq_idempotencyKey dto) db of
        Some existing \<Rightarrow> (db, Inr existing)
      | None \<Rightarrow>
          (case revalidate slug (rq_items dto) db of
             Inl e \<Rightarrow> (db, Inl e)
           | Inr (accepted, rejected) \<Rightarrow>
               if would_trip_breaker (length accepted) rejected
               then (db, Inl (UnprocessableEntity (''Lote abortado: '' @ show_nat (length rejected) @ ''/'' @
                       show_nat (length accepted + length rejected) @ '' itens rejeitados. Revise as regras/precos.'')))
               else
                 let run = \<lparr>ar_id = newId, ar_idempotencyKey = rq_idempotencyKey dto, ar_mode = or_default (rq_mode dto) Agora,
                         ar_requestedBy = requestedBy, ar_status = RunPending, ar_total = int (length accepted),
                         ar_applied = 0, ar_skipped = 0, ar_failed = 0, ar_approvalStatus = None, ar_createdAt = now\<rparr>;
                     d0 = ap_pricing db
                 in (case insert_items itemIds newId accepted (d0\<lparr>pd_runs := pd_runs d0 @ [run]\<rparr>) of
                       Inl e \<Rightarrow> (db, Inl e)
                     | Inr d1 \<Rightarrow>
                         let db1 = set_pricing (\<lambda>_. d1) db;
                             response = \<lparr>rs_applyRunId = newId, rs_accepted = int (length accepted), rs_rejected = rejected,
                               rs_idempotent = False, rs_approvalPending = False\<rparr>
                         in if accepted = [] then
                              (set_pricing (set_run newId (\<lambda>r. r\<lparr>ar_status := RunDone\<rparr>)) db1, Inr response)
                            else if requireApproval then
                              (set_pricing (set_run newId (\<lambda>r. r\<lparr>ar_approvalStatus := Some ApprovalPending\<rparr>)) db1,
                               Inr (response\<lparr>rs_approvalPending := True\<rparr>))
                            else (enqueue_dispatch now slug newId db1, Inr response))))"

section \<open>Approval\<close>

definition approval_conflict :: "string \<Rightarrow> apply_db \<Rightarrow> exn" where
  "approval_conflict runId db =
     (case find (\<lambda>r. ar_id r = runId) (pd_runs (ap_pricing db)) of
        None \<Rightarrow> NotFoundException (''apply run '' @ runId @ '' not found'')
      | Some run \<Rightarrow> ConflictException (''apply run '' @ runId @ '' nao esta aguardando aprovacao ('' @
          (case ar_approvalStatus run of None \<Rightarrow> ''sem aprovacao'' | Some ApprovalPending \<Rightarrow> ''pending''
             | Some Approved \<Rightarrow> ''approved'' | Some Rejected \<Rightarrow> ''rejected'') @ '').''))"

definition awaiting :: "string \<Rightarrow> apply_run \<Rightarrow> bool" where
  "awaiting runId r = (ar_id r = runId \<and> ar_approvalStatus r = Some ApprovalPending)"

definition approve_run :: "int \<Rightarrow> string \<Rightarrow> string \<Rightarrow> apply_db \<Rightarrow> apply_db \<times> unit outcome" where
  "approve_run now slug runId db =
     (if \<not> list_ex (awaiting runId) (pd_runs (ap_pricing db)) then (db, Inl (approval_conflict runId db))
      else (enqueue_dispatch now slug runId (set_pricing (\<lambda>d. d\<lparr>pd_runs := update_where (awaiting runId)
              (\<lambda>r. r\<lparr>ar_approvalStatus := Some Approved\<rparr>) (pd_runs d)\<rparr>) db), Inr ()))"

definition reject_run :: "string \<Rightarrow> apply_db \<Rightarrow> apply_db \<times> unit outcome" where
  "reject_run runId db =
     (if \<not> list_ex (awaiting runId) (pd_runs (ap_pricing db)) then (db, Inl (approval_conflict runId db))
      else (set_pricing (\<lambda>d.
              let d1 = d\<lparr>pd_runs := update_where (awaiting runId)
                    (\<lambda>r. r\<lparr>ar_approvalStatus := Some Rejected, ar_status := RunFailed\<rparr>) (pd_runs d)\<rparr>;
                  d2 = set_run runId (\<lambda>r. r\<lparr>ar_failed := ar_total r\<rparr>) d1
              in d2\<lparr>pd_items := update_where (\<lambda>i. ai_applyRunId i = runId \<and> ai_status i = ItemPending)
                    (\<lambda>i. i\<lparr>ai_status := Failed, ai_reason := Some ''rejeitado''\<rparr>) (pd_items d2)\<rparr>) db, Inr ()))"

section \<open>Rollback, preview and reports\<close>

definition price_old :: "apply_item \<Rightarrow> rat option" where
  "price_old i = (if ai_target i = PrecoOferta then ai_priceOldOffer i else ai_priceOldSell i)"

definition rollback_items :: "string \<Rightarrow> pricing_db \<Rightarrow> apply_item_dto list" where
  "rollback_items runId db =
     filter (\<lambda>i. js_lt (Num 0) (it_price i))
       (map (\<lambda>item. \<lparr>it_ean = ai_ean item, it_target = ai_target item, it_storeId = ai_storeId item,
               it_price = first_num (num (price_old item)) None, it_cadernoId = ai_cadernoId item\<rparr>)
          (filter (\<lambda>i. ai_applyRunId i = runId \<and> ai_status i = Applied) (pd_items db)))"

definition rollback_run ::
  "int \<Rightarrow> string \<Rightarrow> (nat \<Rightarrow> string) \<Rightarrow> string \<Rightarrow> string option \<Rightarrow> string \<Rightarrow> apply_db \<Rightarrow> apply_db \<times> apply_response outcome" where
  "rollback_run now newId itemIds slug requestedBy runId db =
     (if \<not> list_ex (\<lambda>r. ar_id r = runId) (pd_runs (ap_pricing db))
      then (db, Inl (NotFoundException (''apply run '' @ runId @ '' not found'')))
      else let items = rollback_items runId (ap_pricing db) in
        if items = [] then (db, Inl (UnprocessableEntity (''Run '' @ runId @ '' nao tem item aplicado reversivel.'')))
        else apply_prices now newId itemIds slug requestedBy
               \<lparr>rq_idempotencyKey = ''rollback:'' @ runId, rq_mode = Some Agora, rq_items = items\<rparr> False db)"

record apply_preview =
  pv_total :: nat
  pv_accepted :: "(string \<times> suggestion_target \<times> string option \<times> jsnum \<times> basis option) list"
  pv_rejected :: "apply_rejection list"
  pv_wouldAbort :: bool

definition preview_apply :: "string \<Rightarrow> apply_item_dto list \<Rightarrow> apply_db \<Rightarrow> apply_preview outcome" where
  "preview_apply slug items db = bind_outcome (revalidate slug items db) (\<lambda>(accepted, rejected).
     Inr \<lparr>pv_total = length accepted + length rejected,
          pv_accepted = map (\<lambda>a. (ac_ean a, ac_target a, ac_storeId a, ac_price a, ac_basis a)) accepted,
          pv_rejected = rejected, pv_wouldAbort = would_trip_breaker (length accepted) rejected\<rparr>)"

definition MAX_PER_PAGE :: int where
  "MAX_PER_PAGE = 1000"

definition page_of :: "int \<Rightarrow> int \<Rightarrow> 'a list \<Rightarrow> 'a list" where
  "page_of page perPage xs =
     (let limit = min (max perPage 1) MAX_PER_PAGE; offset = (max page 1 - 1) * limit
      in take (nat limit) (drop (nat offset) xs))"

definition apply_report :: "string \<Rightarrow> int \<Rightarrow> int \<Rightarrow> pricing_db \<Rightarrow> (apply_run \<times> (apply_item \<times> rat option) list) outcome" where
  "apply_report i page perPage db =
     (case find (\<lambda>r. ar_id r = i) (pd_runs db) of
        None \<Rightarrow> Inl (NotFoundException (''apply run '' @ i @ '' not found''))
      | Some run \<Rightarrow> Inr (run, map (\<lambda>item. (item, price_old item))
          (page_of page perPage (sort_key ai_ean (filter (\<lambda>x. ai_applyRunId x = i) (pd_items db))))))"

definition list_runs :: "int \<Rightarrow> int \<Rightarrow> pricing_db \<Rightarrow> apply_run list" where
  "list_runs page perPage db = page_of page perPage (rev (sort_key ar_createdAt (pd_runs db)))"

section \<open>Guard rails in exact numbers\<close>

lemma small_rat:
  assumes "- 100000000 \<le> x" "x \<le> 100000000"
  shows "js_of_rat x = Num (round_double x)" "round_double x \<le> x + 1 / 10000000" "x - 1 / 10000000 \<le> round_double x"
proof -
  have x: "\<bar>x\<bar> \<le> 10 ^ 8" using assms by (simp add: abs_le_iff)
  have "(10 ^ 8 :: rat) \<le> 2 ^ 40" by simp
  also have "(2 ^ 40 :: rat) \<le> 2 ^ 1000" by (rule power_increasing) simp_all
  finally show "js_of_rat x = Num (round_double x)" using js_of_rat_small [of x] x by simp
  show "round_double x \<le> x + 1 / 10000000" "x - 1 / 10000000 \<le> round_double x"
    using dbl.rd_error_small [OF x] unfolding powers_of_ten abs_le_iff by linarith+
qed

lemma num_Some: "num v = Some n \<Longrightarrow> \<exists>r. n = Num r"
  by (cases v; cases n) (auto simp: num_def Let_def split: if_splits)

lemma first_num_finite:
  "(\<And>n. a = Some n \<Longrightarrow> \<exists>r. n = Num r) \<Longrightarrow> (\<And>n. b = Some n \<Longrightarrow> \<exists>r. n = Num r) \<Longrightarrow> \<exists>r. first_num a b = Num r"
  by (auto simp: first_num_def split: option.splits)

lemma item_numbers_finite:
  "\<exists>r. item_cost si row = Num r" "\<exists>r. item_preco_venda si row = Num r" "\<exists>r. item_preco_oferta si row = Num r"
  unfolding item_cost_def item_preco_venda_def item_preco_oferta_def
  by (auto intro!: first_num_finite dest: num_Some split: option.splits)

text \<open>A margin in [0, 95] never lowers the floor under the cost.\<close>

lemma margin_floor_covers_cost:
  assumes m: "0 \<le> m" "m \<le> 95" and c: "0 \<le> c" "c \<le> 1000000"
  shows "\<exists>f. price_for_margin (Num c) (js_of_rat m) = Num f \<and> c - 1 / 10000000 \<le> f"
proof -
  have q: "0 \<le> round_double m / 100" "round_double m / 100 \<le> 95 / 100"
    using m dbl.rd_nonneg [of m] dbl.rd_le_of_int [of m 95] by simp_all
  have rm: "js_of_rat m = Num (round_double m)" using small_rat(1) [of m] m by simp
  define e where "e = round_double (round_double m / 100)"
  have e: "js_of_rat (round_double m / 100) = Num e" "0 \<le> e" "e \<le> 96 / 100"
    using small_rat [of "round_double m / 100"] q dbl.rd_nonneg [OF q(1)] unfolding e_def by linarith+
  define d where "d = round_double (1 - e)"
  have d: "js_of_rat (1 - e) = Num d" "d \<le> 1" "3 / 100 \<le> d"
    using small_rat [of "1 - e"] e(2,3) dbl.rd_le_of_int [of "1 - e" 1] unfolding d_def by (simp, simp, linarith)
  have cd: "c \<le> c / d" "c / d \<le> 100000000"
  proof -
    show "c \<le> c / d" using d(2,3) c(1) by (simp add: pos_le_divide_eq mult_left_le)
    have "c / d \<le> 1000000 / (3 / 100)" using d(3) c by (intro frac_le) simp_all
    also have "\<dots> \<le> (100000000 :: rat)" by simp
    finally show "c / d \<le> 100000000" .
  qed
  have "price_for_margin (Num c) (js_of_rat m) = js_of_rat (c / d)"
    using d(3) e(1) d(1) by (simp add: price_for_margin_def rm)
  moreover have "- 100000000 \<le> c / d" using cd(1) c(1) by linarith
  ultimately show ?thesis using small_rat [of "c / d"] cd by auto
qed

definition epsilon_value :: rat where
  "epsilon_value = round_double (5 / 1000)"

lemma epsilon: "PRICE_EPSILON = Num epsilon_value" "epsilon_value \<le> 5 / 1000 + 1 / 10000000" "0 \<le> epsilon_value"
  using small_rat [of "5 / 1000"] dbl.rd_nonneg [of "5 / 1000"] by (simp_all add: PRICE_EPSILON_def epsilon_value_def)

lemma add_epsilon:
  assumes "0 \<le> p" "p \<le> 10000000"
  shows "\<exists>t. js_add (Num p) PRICE_EPSILON = Num t \<and> t \<le> p + 501 / 100000"
proof -
  have "- 100000000 \<le> p + epsilon_value" "p + epsilon_value \<le> 100000000" using epsilon(2,3) assms by linarith+
  note s = small_rat [OF this]
  have "js_add (Num p) PRICE_EPSILON = Num (round_double (p + epsilon_value))" using s(1) by (simp add: epsilon(1))
  moreover have "round_double (p + epsilon_value) \<le> p + 501 / 100000" using s(2) epsilon(2) by linarith
  ultimately show ?thesis by blast
qed

lemma not_below:
  assumes "\<not> js_lt (js_add (Num p) PRICE_EPSILON) (Num f)" "f \<le> 10000000" "0 \<le> p"
  shows "f - 501 / 100000 \<le> p"
proof (cases "p \<le> 10000000")
  case True
  from add_epsilon [OF assms(3) this] show ?thesis using assms(1) by auto
next
  case False
  then show ?thesis using assms(2) by simp
qed

lemma not_above:
  assumes "\<not> js_lt (js_add (Num v) PRICE_EPSILON) (Num p)" "0 \<le> v" "v \<le> 1000000"
  shows "p \<le> v + 501 / 100000"
  using add_epsilon [OF assms(2)] assms(1,3) by auto

lemma variation_bounds:
  assumes "\<not> excessive_variation (Num p) (Num q)" "0 < q" "q \<le> 1000000" "0 < p"
  shows "p \<le> 3 * q + 1 / 1000000 \<and> q \<le> 3 * p + 1 / 1000000"
proof -
  have n: "\<not> js_lt (js_of_rat (q * 3)) (Num p)" "\<not> js_lt (js_of_rat (p * 3)) (Num q)"
    using assms(1,2) by (simp_all add: excessive_variation_def VARIATION_CEILING_def)
  have "p \<le> 3 * q + 1 / 1000000" using small_rat [of "q * 3"] n(1) assms(2,3) by simp
  moreover have "q \<le> 3 * p + 1 / 1000000"
  proof (cases "p \<le> 10000000")
    case True
    then show ?thesis using small_rat [of "p * 3"] n(2) assms(4) by simp
  next
    case False
    then show ?thesis using assms(3) by simp
  qed
  ultimately show ?thesis by simp
qed

section \<open>Accepted prices are safe\<close>

lemma list_rules_margin:
  assumes "list_all (\<lambda>r. rule_wf (rr_values r)) (rd_rules db)" "r \<in> set (list_rules db)"
  shows "\<exists>m. sr_minMargin (ru_rule r) = JNumber (js_of_rat m) \<and> 0 \<le> m \<and> m \<le> 95"
  using assms by (auto simp: list_rules_def to_api_def engine_rule_def list_all_iff rule_wf_def)

lemma active_rules_margin:
  assumes "active_rules slug db = Inr rs" "list_all (\<lambda>r. rule_wf (rr_values r)) (rd_rules db)" "r \<in> set rs"
  shows "\<exists>m. sr_minMargin (ru_rule r) = JNumber (js_of_rat m) \<and> 0 \<le> m \<and> m \<le> 95"
proof -
  obtain q where q: "q \<in> set (list_rules db)" "sr_minMargin (ru_rule r) = sr_minMargin (ru_rule q)"
    using assms(1,3) by (auto simp: active_rules_def Let_def bind_outcome_Inr_iff apply_cascade_priority_def split: if_splits)
  then show ?thesis using list_rules_margin [OF assms(2) q(1)] by simp
qed

lemma find_rule_member: "find_rule_for_product sp rules ks ix = Some r \<Longrightarrow> r \<in> set rules"
  using rank.pick_best_Some by (fastforce simp: find_rule_pick_best)

lemma find_cluster_rule_member: "find_cluster_rule_for_product rules ks = Some r \<Longrightarrow> r \<in> set rules"
  using age.pick_best_Some by (fastforce simp: find_cluster_rule_pick_best)

lemma winning_rule_member:
  "winning_rule cx s e sp = Some r \<Longrightarrow> \<exists>q \<in> set (cx_rules cx). r = ru_rule q"
  by (auto simp: winning_rule_def Let_def resolve_winner_def split: option.splits if_splits
      dest!: find_rule_member find_cluster_rule_member)

text \<open>What an accepted item went through.\<close>

lemma check_item_Inr:
  assumes "check_item cx item = Inr a"
  obtains row si winner where
    "ac_ean a = it_ean item" "ac_target a = it_target item" "ac_storeId a = it_storeId item" "ac_price a = it_price item"
    "ac_priceOldSell a = truthy_num (item_preco_venda si row)" "ac_priceOldOffer a = truthy_num (item_preco_oferta si row)"
    "ac_ruleId a = map_option sr_id winner" "ac_costAtApply a = truthy_num (item_cost si row)"
    "\<not> js_le (item_cost si row) (Num 0)" "\<not> js_le (it_price item) (Num 0)"
    "winner = winning_rule cx (it_storeId item) (it_ean item)
       (to_suggestion_product row (item_cost si row) (item_preco_venda si row) (item_preco_oferta si row))"
    "\<not> js_lt (js_add (it_price item) PRICE_EPSILON) (price_floor winner (item_cost si row))"
    "\<not> excessive_variation (it_price item) (if it_target item = PrecoOferta then item_preco_oferta si row else item_preco_venda si row)"
    "it_target item = PrecoOferta \<longrightarrow> ac_cadernoId a \<noteq> None \<and>
       \<not> (js_lt (Num 0) (item_preco_venda si row) \<and> js_lt (js_add (item_preco_venda si row) PRICE_EPSILON) (it_price item))"
    "check_store cx item = Inr si"
proof -
  obtain row where row: "map_of (map_of_entries (map (\<lambda>r. (pw_ean r, r)) (cx_rows cx))) (it_ean item) = Some row"
    using assms by (cases "map_of (map_of_entries (map (\<lambda>r. (pw_ean r, r)) (cx_rows cx))) (it_ean item)") (auto simp: check_item_def)
  obtain si where si: "check_store cx item = Inr si"
    using assms row by (cases "check_store cx item") (auto simp: check_item_def)
  define sp where "sp = to_suggestion_product row (item_cost si row) (item_preco_venda si row) (item_preco_oferta si row)"
  define winner where "winner = winning_rule cx (it_storeId item) (it_ean item) sp"
  define cad where "cad = (if it_target item = PrecoOferta
      then (case item_caderno cx item row si of Inl r \<Rightarrow> Inl r | Inr k \<Rightarrow> Inr (Some k)) else Inr None)"
  have g: "\<not> js_le (item_cost si row) (Num 0)" "\<not> js_le (it_price item) (Num 0)"
    "\<not> js_lt (js_add (it_price item) PRICE_EPSILON) (price_floor winner (item_cost si row))"
    "\<not> excessive_variation (it_price item) (if it_target item = PrecoOferta then item_preco_oferta si row else item_preco_venda si row)"
    "\<not> (it_target item = PrecoOferta \<and> js_lt (Num 0) (item_preco_venda si row) \<and>
        js_lt (js_add (item_preco_venda si row) PRICE_EPSILON) (it_price item))"
    using assms unfolding check_item_def row si option.case sum.case Let_def sp_def [symmetric] winner_def [symmetric]
    by (simp_all only: split: if_splits) simp_all
  then have r: "(case cad of Inl reason \<Rightarrow> Inl reason | Inr caderno \<Rightarrow>
      Inr \<lparr>ac_ean = it_ean item, ac_target = it_target item, ac_storeId = it_storeId item,
        ac_price = it_price item, ac_cadernoId = caderno,
        ac_priceOldSell = truthy_num (item_preco_venda si row), ac_priceOldOffer = truthy_num (item_preco_oferta si row),
        ac_ruleId = map_option sr_id winner,
        ac_basis = (case winner of None \<Rightarrow> None | Some r \<Rightarrow> (case compute_suggestion sp r [] of
            Suggestion s \<Rightarrow> Some (ps_basis s) | NoSuggestion _ _ \<Rightarrow> None)),
        ac_costAtApply = truthy_num (item_cost si row)\<rparr>) = Inr a"
    using assms unfolding check_item_def row si option.case sum.case Let_def sp_def [symmetric] winner_def [symmetric] cad_def [symmetric]
    by (simp only: if_False)
  obtain caderno where c: "cad = Inr caderno" using r by (cases cad) auto
  have k: "it_target item = PrecoOferta \<longrightarrow> caderno \<noteq> None"
    using c by (auto simp: cad_def split: sum.splits)
  have f: "ac_ean a = it_ean item" "ac_target a = it_target item" "ac_storeId a = it_storeId item" "ac_price a = it_price item"
    "ac_priceOldSell a = truthy_num (item_preco_venda si row)" "ac_priceOldOffer a = truthy_num (item_preco_oferta si row)"
    "ac_ruleId a = map_option sr_id winner" "ac_costAtApply a = truthy_num (item_cost si row)" "ac_cadernoId a = caderno"
    using r c by auto
  have w: "winner = winning_rule cx (it_storeId item) (it_ean item)
       (to_suggestion_product row (item_cost si row) (item_preco_venda si row) (item_preco_oferta si row))"
    by (simp only: winner_def sp_def)
  show thesis
    by (rule that [OF f(1-8) g(1,2) w g(3,4) _ si]) (use k g(5) f(9) in blast)
qed

lemma conflicts_keep: "set (fst (resolve_caderno_conflicts as)) \<subseteq> set as"
  by (induction as rule: resolve_caderno_conflicts.induct) (auto split: prod.splits option.splits if_splits)

lemma check_items_member:
  assumes "check_items cx items = (accepted, rejected)" "a \<in> set accepted"
  shows "\<exists>i \<in> set items. check_item cx i = Inr a"
proof -
  have kept: "set (fst (resolve_caderno_conflicts as)) \<subseteq> set as" for as
    by (rule conflicts_keep)
  have "set (dedup_items items) \<subseteq> set items"
    using set_map_of_entries_subset [of "map (\<lambda>i. ((it_ean i, it_target i, or_default (it_storeId i) []), i)) items"]
    by (fastforce simp: dedup_items_def)
  moreover define acc where "acc = concat (map (\<lambda>i. case check_item cx i of Inr a \<Rightarrow> [a] | Inl _ \<Rightarrow> []) (dedup_items items))"
  have "accepted = fst (resolve_caderno_conflicts acc)"
    using assms(1) by (auto simp: check_items_def Let_def acc_def split: prod.splits)
  then have "a \<in> set acc" using assms(2) kept [of acc] by auto
  then obtain i where "i \<in> set (dedup_items items)" "check_item cx i = Inr a"
    by (auto simp: acc_def split: sum.splits)
  ultimately show ?thesis by blast
qed

text \<open>The floor covers the cost, whatever the margin of the rule that governs.\<close>

lemma floor_covers_cost:
  assumes "load_ctx slug items db = Inr cx" "list_all (\<lambda>r. rule_wf (rr_values r)) (rd_rules (ap_rules db))"
    and w: "\<And>r. winner = Some r \<Longrightarrow> r \<in> ru_rule ` set (cx_rules cx)"
    and fl: "\<not> js_lt (js_add (Num p) PRICE_EPSILON) (price_floor winner (Num c))" and pos: "0 < c" "0 < p" and c: "c \<le> 1000000"
  shows "c - 502 / 100000 \<le> p"
proof (cases winner)
  case None
  then have "c - 501 / 100000 \<le> p" using not_below [of p c] fl pos c by (simp add: price_floor_def)
  then show ?thesis by simp
next
  case (Some r)
  obtain q' where q': "q' \<in> set (cx_rules cx)" "r = ru_rule q'" using w [OF Some] by blast
  have "active_rules slug (rules_of db) = Inr (cx_rules cx)"
    using assms(1) by (auto simp: load_ctx_def Let_def bind_outcome_Inr_iff)
  from active_rules_margin [OF this _ q'(1)] assms(2)
  obtain m where m: "sr_minMargin r = JNumber (js_of_rat m)" "0 \<le> m" "m \<le> 95"
    by (auto simp: rules_of_def q'(2))
  obtain f where f: "price_for_margin (Num c) (js_of_rat m) = Num f" "c - 1 / 10000000 \<le> f"
    using margin_floor_covers_cost [OF m(2,3) less_imp_le [OF pos(1)] c] by blast
  have nb: "\<not> js_lt (js_add (Num p) PRICE_EPSILON) (Num f)"
    using fl Some m(1) f(1) by (simp add: price_floor_def js_number_def)
  show ?thesis
  proof (cases "f \<le> 10000000")
    case True
    from not_below [OF nb True] pos(2) f(2) show ?thesis by simp
  next
    case False
    then have "\<not> js_lt (js_add (Num p) PRICE_EPSILON) (Num 10000000)"
      using nb by (cases "js_add (Num p) PRICE_EPSILON") auto
    from not_below [OF this] pos(2) c show ?thesis by simp
  qed
qed

text \<open>
  C17. No accepted price is unsafe. With stored rules well formed and finite requested prices, an
  accepted item keeps the requested price, product, target and store; its cost is known and positive and
  its price is not below that cost by more than half a cent, whatever rule governs it; an offer has an
  offer book and does not exceed the sale price by more than half a cent; and the price is within a
  factor of three of the current one.
\<close>

theorem accepted_prices_are_safe:
  assumes "revalidate slug items db = Inr (accepted, rejected)" "a \<in> set accepted"
    and "list_all (\<lambda>r. rule_wf (rr_values r)) (rd_rules (ap_rules db))"
    and "list_all (\<lambda>i. js_is_finite (it_price i)) items"
  shows "list_ex (\<lambda>i. it_ean i = ac_ean a \<and> it_target i = ac_target a \<and> it_storeId i = ac_storeId a \<and> it_price i = ac_price a) items \<and>
    (\<exists>p c. ac_price a = Num p \<and> 0 < p \<and> ac_costAtApply a = Some (Num c) \<and> 0 < c \<and>
       (c \<le> 1000000 \<longrightarrow> c - 502 / 100000 \<le> p) \<and>
       (ac_target a = PrecoOferta \<longrightarrow> ac_cadernoId a \<noteq> None \<and>
          (\<forall>v. ac_priceOldSell a = Some (Num v) \<longrightarrow> 0 < v \<longrightarrow> v \<le> 1000000 \<longrightarrow> p \<le> v + 502 / 100000)) \<and>
       (\<forall>q. (if ac_target a = PrecoOferta then ac_priceOldOffer a else ac_priceOldSell a) = Some (Num q) \<longrightarrow>
          0 < q \<longrightarrow> q \<le> 1000000 \<longrightarrow> p \<le> 3 * q + 1 / 1000000 \<and> q \<le> 3 * p + 1 / 1000000))"
proof -
  obtain cx where cx: "load_ctx slug items db = Inr cx" "check_items cx items = (accepted, rejected)"
    using assms(1) by (auto simp: revalidate_def bind_outcome_Inr_iff)
  obtain i where i: "i \<in> set items" "check_item cx i = Inr a" using check_items_member [OF cx(2) assms(2)] by blast
  obtain p where p: "it_price i = Num p" using assms(4) i(1) by (auto simp: list_all_iff js_is_finite_iff)
  from i(2) show ?thesis
  proof (cases rule: check_item_Inr)
    case (1 row si winner)
    obtain c v q where n: "item_cost si row = Num c" "item_preco_venda si row = Num v" "item_preco_oferta si row = Num q"
      using item_numbers_finite [of si row] by blast
    have pos: "0 < c" "0 < p" using 1(9,10) n(1) p by simp_all
    have floor: "c - 502 / 100000 \<le> p" if "c \<le> 1000000"
      using floor_covers_cost [OF cx(1) assms(3) _ _ pos that, of winner] winning_rule_member [of cx] 1(11,12) n(1) p by fastforce
    have off: "p \<le> v + 502 / 100000" if "ac_target a = PrecoOferta" "0 < v" "v \<le> 1000000"
      using not_above [of v p] 1(2,14) n(2) p that by simp
    have var: "p \<le> 3 * q' + 1 / 1000000 \<and> q' \<le> 3 * p + 1 / 1000000"
      if "(if ac_target a = PrecoOferta then q else v) = q'" "0 < q'" "q' \<le> 1000000" for q'
      using variation_bounds [of p q'] 1(2,13) n(2,3) p pos(2) that by (auto split: if_splits)
    have tr: "truthy_num (Num x) = Some (Num y) \<longleftrightarrow> x = y \<and> x \<noteq> 0" for x y
      by (auto simp: truthy_num_def js_truthy_def)
    have "list_ex (\<lambda>i. it_ean i = ac_ean a \<and> it_target i = ac_target a \<and> it_storeId i = ac_storeId a \<and> it_price i = ac_price a) items"
      using i(1) 1(1-4) by (auto simp: list_ex_iff)
    moreover have "ac_price a = Num p" "ac_costAtApply a = Some (Num c)" using 1(4,8) n(1) p pos(1) by (simp_all add: tr)
    moreover have "ac_target a = PrecoOferta \<longrightarrow> ac_cadernoId a \<noteq> None" using 1(2,14) by simp
    ultimately show ?thesis using pos floor off var 1(5,6) n(2,3)
      by (cases "ac_target a = PrecoOferta") (simp_all add: tr)
  qed
qed

section \<open>Every item has one outcome\<close>

definition item_key :: "apply_item_dto \<Rightarrow> string \<times> suggestion_target \<times> string" where
  "item_key i = (it_ean i, it_target i, or_default (it_storeId i) [])"

lemma map_of_entries_keyed:
  "map fst (map_of_entries (map (\<lambda>i. (f i, i)) xs)) = map f (map snd (map_of_entries (map (\<lambda>i. (f i, i)) xs)))"
proof -
  have "\<forall>p \<in> set (map_of_entries (map (\<lambda>i. (f i, i)) xs)). fst p = f (snd p)"
    using set_map_of_entries_subset [of "map (\<lambda>i. (f i, i)) xs"] by fastforce
  then show ?thesis by simp
qed

lemma dedup_items_keys:
  "distinct (map item_key (dedup_items items))" "item_key ` set (dedup_items items) = item_key ` set items"
proof -
  have d: "dedup_items items = map snd (map_of_entries (map (\<lambda>i. (item_key i, i)) items))"
    by (simp add: dedup_items_def item_key_def)
  have k: "map item_key (dedup_items items) = map fst (map_of_entries (map (\<lambda>i. (item_key i, i)) items))"
    unfolding d by (rule map_of_entries_keyed [symmetric])
  show "distinct (map item_key (dedup_items items))" unfolding k by simp
  have "item_key ` set (dedup_items items) = set (map item_key (dedup_items items))" by simp
  also have "\<dots> = item_key ` set items" unfolding k by (simp add: keys_map_of_entries image_image)
  finally show "item_key ` set (dedup_items items) = item_key ` set items" .
qed

definition outcome_key :: "accepted_item \<Rightarrow> string \<times> suggestion_target \<times> string" where
  "outcome_key a = (ac_ean a, ac_target a, or_default (ac_storeId a) [])"

lemma check_item_fields:
  "check_item cx i = Inr a \<Longrightarrow> outcome_key a = item_key i \<and> ac_ean a = it_ean i \<and> ac_storeId a = it_storeId i"
  by (erule check_item_Inr) (simp add: outcome_key_def item_key_def)

lemma conflicts_distinct: "distinct (map f as) \<Longrightarrow> distinct (map f (fst (resolve_caderno_conflicts as)))"
proof (induction as rule: resolve_caderno_conflicts.induct)
  case (2 a rest)
  have "f ` set (fst (resolve_caderno_conflicts rest)) \<subseteq> f ` set rest" by (rule image_mono [OF conflicts_keep])
  moreover have "f a \<notin> f ` set rest" "distinct (map f rest)" using "2.prems" by auto
  ultimately have "f a \<notin> f ` set (fst (resolve_caderno_conflicts rest))" by blast
  then show ?case using "2.IH" \<open>distinct (map f rest)\<close>
    by (cases "resolve_caderno_conflicts rest") (simp split: option.splits)
qed simp

lemma map_filter_Cons: "List.map_filter f (x # xs) = (case f x of None \<Rightarrow> List.map_filter f xs | Some y \<Rightarrow> y # List.map_filter f xs)"
  by (cases "f x") (simp_all add: List.map_filter_def)

lemma set_map_filter: "y \<in> set (List.map_filter f xs) \<longleftrightarrow> (\<exists>x \<in> set xs. f x = Some y)"
  by (force simp: List.map_filter_def)

lemma conflicts_cadernos: "distinct (List.map_filter caderno_key (fst (resolve_caderno_conflicts as)))"
proof (induction as rule: resolve_caderno_conflicts.induct)
  case 1
  then show ?case by (simp add: List.map_filter_def)
next
  case (2 a rest)
  obtain k m where r: "resolve_caderno_conflicts rest = (k, m)" by fastforce
  have sub: "set k \<subseteq> set rest" using conflicts_keep [of rest] by (simp add: r)
  have IH: "distinct (List.map_filter caderno_key k)" using 2 r by simp
  show ?case
  proof (cases "caderno_key a")
    case None
    then show ?thesis using IH r by (simp add: map_filter_Cons)
  next
    case (Some q)
    show ?thesis
    proof (cases "find (\<lambda>b. caderno_key b = caderno_key a) (rev rest)")
      case None
      then have "q \<notin> set (List.map_filter caderno_key k)" using sub Some by (auto simp: find_None_iff set_map_filter)
      then show ?thesis using None Some IH r by (simp add: map_filter_Cons)
    next
      case w: (Some w)
      then show ?thesis using Some IH r by simp
    qed
  qed
qed

lemma conflicts_partition:
  "mset (map (\<lambda>a. (ac_ean a, ac_storeId a)) (fst (resolve_caderno_conflicts as))) +
   mset (map (\<lambda>r. (rj_ean r, rj_storeId r)) (snd (resolve_caderno_conflicts as))) =
   mset (map (\<lambda>a. (ac_ean a, ac_storeId a)) as)"
  by (induction as rule: resolve_caderno_conflicts.induct) (auto split: prod.splits option.splits)

lemma check_items_partition:
  assumes "check_items cx items = (accepted, rejected)"
  shows "mset (map (\<lambda>a. (ac_ean a, ac_storeId a)) accepted) + mset (map (\<lambda>r. (rj_ean r, rj_storeId r)) rejected) =
      mset (map (\<lambda>i. (it_ean i, it_storeId i)) (dedup_items items))"
    "distinct (map outcome_key accepted)" "distinct (List.map_filter caderno_key accepted)"
proof -
  define ok where "ok = (\<lambda>xs. concat (map (\<lambda>i. case check_item cx i of Inr a \<Rightarrow> [a] | Inl _ \<Rightarrow> []) xs))"
  define bad where "bad = (\<lambda>xs. concat (map (\<lambda>i. case check_item cx i of Inr _ \<Rightarrow> []
      | Inl reason \<Rightarrow> [\<lparr>rj_ean = it_ean i, rj_reason = reason, rj_storeId = it_storeId i\<rparr>]) xs))"
  define D where "D = dedup_items items"
  have c: "accepted = fst (resolve_caderno_conflicts (ok D))" "rejected = bad D @ snd (resolve_caderno_conflicts (ok D))"
    using assms by (auto simp: check_items_def Let_def ok_def bad_def D_def split: prod.splits)
  have split: "mset (map (\<lambda>a. (ac_ean a, ac_storeId a)) (ok xs)) + mset (map (\<lambda>r. (rj_ean r, rj_storeId r)) (bad xs)) =
    mset (map (\<lambda>i. (it_ean i, it_storeId i)) xs)" for xs
  proof (induction xs)
    case (Cons i xs)
    then show ?case by (cases "check_item cx i") (simp_all add: ok_def bad_def check_item_fields)
  qed (simp add: ok_def bad_def)
  have keys: "outcome_key ` set (ok xs) \<subseteq> item_key ` set xs" for xs
  proof
    fix q assume "q \<in> outcome_key ` set (ok xs)"
    then obtain a where a: "a \<in> set (ok xs)" "q = outcome_key a" by blast
    from a(1) obtain i where "i \<in> set xs" "check_item cx i = Inr a" by (auto simp: ok_def split: sum.splits)
    with a(2) show "q \<in> item_key ` set xs" using check_item_fields by (auto intro!: image_eqI [of _ _ i])
  qed
  have "distinct (map item_key xs) \<Longrightarrow> distinct (map outcome_key (ok xs))" for xs
  proof (induction xs)
    case (Cons i xs)
    then have "item_key i \<notin> outcome_key ` set (ok xs)" using keys [of xs] by auto
    then show ?case using Cons by (cases "check_item cx i") (simp_all add: ok_def check_item_fields)
  qed (simp add: ok_def)
  then have "distinct (map outcome_key (ok D))" using dedup_items_keys(1) by (simp add: D_def)
  then show "distinct (map outcome_key accepted)" unfolding c(1) by (rule conflicts_distinct)
  show "distinct (List.map_filter caderno_key accepted)" unfolding c(1) by (rule conflicts_cadernos)
  show "mset (map (\<lambda>a. (ac_ean a, ac_storeId a)) accepted) + mset (map (\<lambda>r. (rj_ean r, rj_storeId r)) rejected) =
      mset (map (\<lambda>i. (it_ean i, it_storeId i)) (dedup_items items))"
    using split [of D] conflicts_partition [of "ok D"] by (simp add: c D_def ac_simps)
qed

text \<open>
  A batch of N distinct targets has N outcomes: every requested (product, target, store), counted
  once, is either accepted or rejected with a reason, and no accepted or rejected outcome is invented.
\<close>

lemma every_item_has_one_outcome:
  assumes "revalidate slug items db = Inr (accepted, rejected)"
  shows "length accepted + length rejected = card (item_key ` set items) \<and>
    mset (map (\<lambda>a. (ac_ean a, ac_storeId a)) accepted) + mset (map (\<lambda>r. (rj_ean r, rj_storeId r)) rejected) =
      mset (map (\<lambda>i. (it_ean i, it_storeId i)) (dedup_items items))"
proof -
  obtain cx where cx: "check_items cx items = (accepted, rejected)"
    using assms by (auto simp: revalidate_def bind_outcome_Inr_iff)
  note m = check_items_partition(1) [OF cx]
  have "card (item_key ` set items) = length (dedup_items items)"
    using dedup_items_keys [of items] distinct_card [of "map item_key (dedup_items items)"] by simp
  moreover have "length accepted + length rejected = length (dedup_items items)"
    using arg_cong [OF m, of size] by simp
  ultimately show ?thesis using m by simp
qed

text \<open>
  C18. Accepted writes never collide: no product, target and store is written twice, and no two accepted
  offers of one product go to the same offer book, whichever stores they came from, so the final
  price does not depend on the order of the batches.
\<close>

theorem accepted_writes_never_collide:
  assumes "revalidate slug items db = Inr (accepted, rejected)"
  shows "distinct (map outcome_key accepted) \<and> distinct (List.map_filter caderno_key accepted)"
proof -
  obtain cx where cx: "check_items cx items = (accepted, rejected)"
    using assms by (auto simp: revalidate_def bind_outcome_Inr_iff)
  then show ?thesis using check_items_partition(2,3) [OF cx] by blast
qed

text \<open>Why an item is rejected: by its own check, or in favour of another offer of its product.\<close>

lemma conflicts_keep_key:
  "b \<in> set as \<Longrightarrow> caderno_key b = Some k \<Longrightarrow>
   \<exists>c \<in> set (fst (resolve_caderno_conflicts as)). caderno_key c = Some k"
proof (induction as arbitrary: b rule: resolve_caderno_conflicts.induct)
  case (2 a rest)
  show ?case
  proof (cases "\<exists>c \<in> set rest. caderno_key c = Some k")
    case True
    with 2 have "\<exists>c \<in> set (fst (resolve_caderno_conflicts rest)). caderno_key c = Some k" by blast
    then show ?thesis by (auto split: prod.splits option.splits)
  next
    case False
    then have "b = a" using 2 by auto
    moreover have "find (\<lambda>b. caderno_key b = caderno_key a) (rev rest) = None"
      using False 2(3) \<open>b = a\<close> by (auto simp: find_None_iff)
    ultimately show ?thesis using 2(3) by (auto split: prod.splits)
  qed
qed simp

lemma conflict_rejections:
  assumes "r \<in> set (snd (resolve_caderno_conflicts as))"
  shows "rj_reason r \<in> {''caderno_duplicado'', ''caderno_conflitante''} \<and>
    (\<exists>b \<in> set (fst (resolve_caderno_conflicts as)). ac_ean b = rj_ean r \<and> ac_target b = PrecoOferta)"
  using assms
proof (induction as rule: resolve_caderno_conflicts.induct)
  case (2 a rest)
  obtain kept rej where r: "resolve_caderno_conflicts rest = (kept, rej)" by fastforce
  show ?case
  proof (cases "r \<in> set rej")
    case True
    with 2 r show ?thesis by (auto split: option.splits)
  next
    case False
    then obtain winner k where w: "find (\<lambda>b. caderno_key b = caderno_key a) (rev rest) = Some winner"
      "caderno_key a = Some k" "rj_ean r = ac_ean a" "rj_reason r \<in> {''caderno_duplicado'', ''caderno_conflitante''}"
      using "2.prems" r by (auto split: option.splits if_splits)
    then have "winner \<in> set (rev rest)" "caderno_key winner = Some k"
      unfolding find_Some_iff by (auto simp del: set_rev)
    then have "winner \<in> set rest" "caderno_key winner = Some k" by simp_all
    from conflicts_keep_key [OF this] r obtain c where c: "c \<in> set kept" "caderno_key c = Some k" by auto
    then have "ac_ean c = ac_ean a" "ac_target c = PrecoOferta"
      using w(2) by (auto simp: caderno_key_def split: if_splits)
    then show ?thesis using w c r by auto
  qed
qed simp

lemma check_items_rejected:
  assumes "check_items cx items = (accepted, rejected)" "r \<in> set rejected"
  shows "(\<exists>i \<in> set items. check_item cx i = Inl (rj_reason r) \<and> rj_ean r = it_ean i) \<or>
    rj_reason r \<in> {''caderno_duplicado'', ''caderno_conflitante''} \<and>
    (\<exists>b \<in> set accepted. ac_ean b = rj_ean r \<and> ac_target b = PrecoOferta)"
proof -
  let ?ok = "concat (map (\<lambda>i. case check_item cx i of Inr a \<Rightarrow> [a] | Inl _ \<Rightarrow> []) (dedup_items items))"
  have "set (dedup_items items) \<subseteq> set items"
    using set_map_of_entries_subset [of "map (\<lambda>i. ((it_ean i, it_target i, or_default (it_storeId i) []), i)) items"]
    by (fastforce simp: dedup_items_def)
  moreover have "accepted = fst (resolve_caderno_conflicts ?ok)"
    using assms(1) by (auto simp: check_items_def Let_def split: prod.splits)
  moreover have "(\<exists>i \<in> set (dedup_items items). check_item cx i = Inl (rj_reason r) \<and> rj_ean r = it_ean i) \<or>
      r \<in> set (snd (resolve_caderno_conflicts ?ok))"
  proof -
    let ?bad = "\<lambda>i. case check_item cx i of Inr _ \<Rightarrow> []
        | Inl reason \<Rightarrow> [\<lparr>rj_ean = it_ean i, rj_reason = reason, rj_storeId = it_storeId i\<rparr>]"
    have "r \<in> set (concat (map ?bad (dedup_items items))) \<or> r \<in> set (snd (resolve_caderno_conflicts ?ok))"
      using assms by (auto simp: check_items_def Let_def split: prod.splits)
    moreover have "check_item cx i = Inl (rj_reason r) \<and> rj_ean r = it_ean i" if "r \<in> set (?bad i)" for i
      using that by (cases "check_item cx i") auto
    moreover have "(\<exists>i \<in> set (dedup_items items). r \<in> set (?bad i)) \<longleftrightarrow> r \<in> set (concat (map ?bad (dedup_items items)))"
      unfolding set_concat set_map by blast
    ultimately show ?thesis by blast
  qed
  ultimately show ?thesis using conflict_rejections [of r ?ok] by blast
qed

section \<open>Idempotence and preview\<close>

lemma slice_rows_append:
  "slice_rows ids runId (xs @ ys) = bind_outcome (slice_rows ids runId xs) (\<lambda>rows.
     bind_outcome (slice_rows ids runId ys) (\<lambda>rows'. Inr (rows @ rows')))"
  by (induction ids runId xs rule: slice_rows.induct) (auto simp: bind_outcome_def split: sum.splits)

lemma insert_slices_rows:
  "insert_slices ids runId slices db = bind_outcome (slice_rows ids runId (concat slices)) (\<lambda>rows.
     Inr (db\<lparr>pd_items := pd_items db @ rows\<rparr>))"
  by (induction ids runId slices db rule: insert_slices.induct)
    (auto simp: slice_rows_append bind_outcome_def split: sum.splits)

lemma insert_items_rows:
  "insert_items ids runId accepted db = bind_outcome (slice_rows ids runId (enumerate 0 accepted)) (\<lambda>rows.
     Inr (db\<lparr>pd_items := pd_items db @ rows\<rparr>))"
  by (simp add: insert_items_def insert_slices_rows concat_chunks INSERT_CHUNK_def)

text \<open>The numbers of an accepted item fit the columns of its row.\<close>

definition row_fits :: "accepted_item \<Rightarrow> bool" where
  "row_fits a = (price_cell (ac_price a) \<noteq> None \<and> nullable price_cell (ac_priceOldSell a) \<noteq> None \<and>
     nullable price_cell (ac_priceOldOffer a) \<noteq> None \<and> nullable cost_cell (ac_costAtApply a) \<noteq> None)"

lemma item_row_fits:
  assumes "row_fits a"
  obtains row where "item_row i runId a = Inr row"
    "(ai_ean row, ai_target row, ai_storeId row, Some (ai_price row), ai_basis row) =
     (ac_ean a, ac_target a, ac_storeId a, price_cell (ac_price a), ac_basis a)"
  using assms that by (fastforce simp: row_fits_def item_row_def)

lemma item_row_overflows: "\<not> row_fits a \<Longrightarrow> item_row i runId a = Inl (Error ''22003'')"
  by (auto simp: row_fits_def item_row_def split: option.splits)

lemma slice_rows_fit:
  assumes "list_all row_fits (map snd kas)"
  shows "\<exists>rows. slice_rows ids runId kas = Inr rows \<and>
    map (\<lambda>i. (ai_ean i, ai_target i, ai_storeId i, Some (ai_price i), ai_basis i)) rows =
    map (\<lambda>(_, a). (ac_ean a, ac_target a, ac_storeId a, price_cell (ac_price a), ac_basis a)) kas"
  using assms
proof (induction ids runId kas rule: slice_rows.induct)
  case (2 ids runId k a rest)
  have "row_fits a" using 2(2) by simp
  then obtain row where row: "item_row (ids k) runId a = Inr row"
    "(ai_ean row, ai_target row, ai_storeId row, Some (ai_price row), ai_basis row) =
     (ac_ean a, ac_target a, ac_storeId a, price_cell (ac_price a), ac_basis a)" by (rule item_row_fits)
  from 2 obtain rows where "slice_rows ids runId rest = Inr rows"
    "map (\<lambda>i. (ai_ean i, ai_target i, ai_storeId i, Some (ai_price i), ai_basis i)) rows =
     map (\<lambda>(_, a). (ac_ean a, ac_target a, ac_storeId a, price_cell (ac_price a), ac_basis a)) rest" by auto
  with row show ?case by (intro exI [of _ "row # rows"]) simp
qed simp

lemma slice_rows_overflow:
  "\<not> list_all row_fits (map snd kas) \<Longrightarrow> slice_rows ids runId kas = Inl (Error ''22003'')"
proof (induction ids runId kas rule: slice_rows.induct)
  case (2 ids runId k a rest)
  show ?case
  proof (cases "row_fits a")
    case True
    then obtain row where "item_row (ids k) runId a = Inr row" by (rule item_row_fits)
    with 2 True show ?thesis by simp
  qed (simp add: item_row_overflows)
qed simp

lemma set_run_simps [simp]:
  "pd_items (set_run i f d) = pd_items d" "pd_runs (set_run i f d) = update_where (\<lambda>r. ar_id r = i) f (pd_runs d)"
  "pd_catalog (set_run i f d) = pd_catalog d"
  by (simp_all add: set_run_def)

text \<open>A successful request that was not a replay: its run, its items, and nothing else.\<close>

lemma apply_prices_new:
  assumes "find_by_idempotency_key (rq_idempotencyKey dto) db = None"
    and "revalidate slug (rq_items dto) db = Inr (accepted, rejected)"
    and "\<not> would_trip_breaker (length accepted) rejected"
    and "slice_rows ids newId (enumerate 0 accepted) = Inr rows"
  shows "\<exists>db' r run. apply_prices now newId ids slug by' dto appr db = (db', Inr r) \<and>
    rs_applyRunId r = newId \<and> rs_accepted r = int (length accepted) \<and> rs_rejected r = rejected \<and>
    pd_items (ap_pricing db') = pd_items (ap_pricing db) @ rows \<and>
    map ar_idempotencyKey (pd_runs (ap_pricing db')) = map ar_idempotencyKey (pd_runs (ap_pricing db)) @ [rq_idempotencyKey dto] \<and>
    last (pd_runs (ap_pricing db')) = run \<and> ar_id run = newId \<and> ar_total run = int (length accepted) \<and>
    ap_outbox db' = (if accepted = [] \<or> appr then ap_outbox db
      else insert_many now newId slug [dispatch_message now slug newId] (ap_outbox db))"
proof -
  have last: "last (update_where P f (xs @ [x])) = (if P x then f x else x)" for P f xs and x :: apply_run
    by (simp add: update_where_def)
  show ?thesis
    using assms
    by (cases "accepted = []"; cases appr)
      (simp_all add: apply_prices_def Let_def set_pricing_def insert_items_rows enqueue_dispatch_def map_update_where last)
qed

text \<open>
  C19. An idempotency key buys one run: after a request succeeded, every later request with its key,
  whatever it asks for, gets the same run back and changes nothing, so nothing is dispatched twice.
\<close>

theorem apply_is_idempotent:
  assumes "apply_prices now newId ids slug by' dto appr db = (db', Inr r)"
    and "rq_idempotencyKey dto' = rq_idempotencyKey dto"
  shows "\<exists>r'. apply_prices now' newId' ids' slug' by'' dto' appr' db' = (db', Inr r') \<and>
    rs_applyRunId r' = rs_applyRunId r \<and> rs_accepted r' = rs_accepted r \<and> rs_idempotent r'"
proof (cases "find_by_idempotency_key (rq_idempotencyKey dto) db")
  case (Some e)
  then have "db' = db" "r = e" using assms(1) by (auto simp: apply_prices_def)
  moreover have "rs_idempotent e" using Some by (auto simp: find_by_idempotency_key_def)
  ultimately show ?thesis using Some assms(2) by (auto simp: apply_prices_def)
next
  case None
  obtain accepted rejected where v: "revalidate slug (rq_items dto) db = Inr (accepted, rejected)"
    using assms(1) None by (auto simp: apply_prices_def split: sum.splits)
  have b: "\<not> would_trip_breaker (length accepted) rejected"
    using assms(1) None v by (auto simp: apply_prices_def)
  obtain rows where rows: "slice_rows ids newId (enumerate 0 accepted) = Inr rows"
    using assms(1) None v b
    by (cases "slice_rows ids newId (enumerate 0 accepted)") (simp_all add: apply_prices_def Let_def insert_items_rows)
  obtain run where n: "rs_applyRunId r = newId" "rs_accepted r = int (length accepted)"
      "map ar_idempotencyKey (pd_runs (ap_pricing db')) = map ar_idempotencyKey (pd_runs (ap_pricing db)) @ [rq_idempotencyKey dto]"
      "last (pd_runs (ap_pricing db')) = run" "ar_id run = newId" "ar_total run = int (length accepted)"
    using apply_prices_new [OF None v b rows, of now by' appr] assms(1) by auto
  have keys: "rq_idempotencyKey dto \<notin> ar_idempotencyKey ` set (pd_runs (ap_pricing db))"
    using None by (auto simp: find_by_idempotency_key_def find_None_iff)
  obtain rs where rs: "pd_runs (ap_pricing db') = rs @ [run]" "map ar_idempotencyKey rs = map ar_idempotencyKey (pd_runs (ap_pricing db))"
      "ar_idempotencyKey run = rq_idempotencyKey dto"
    using n(3,4) by (cases "pd_runs (ap_pricing db')" rule: rev_cases) auto
  have "ar_idempotencyKey ` set rs = ar_idempotencyKey ` set (pd_runs (ap_pricing db))"
    using arg_cong [OF rs(2), of set] by simp
  then have "\<forall>q \<in> set rs. ar_idempotencyKey q \<noteq> rq_idempotencyKey dto" using keys by (metis imageI)
  then have "find (\<lambda>q. ar_idempotencyKey q = rq_idempotencyKey dto) (rs @ [run]) = Some run"
    using rs(3) by (induction rs) simp_all
  then have "find (\<lambda>q. ar_idempotencyKey q = rq_idempotencyKey dto) (pd_runs (ap_pricing db')) = Some run"
    by (simp only: rs(1))
  then show ?thesis using n(1,2,5,6) assms(2) by (simp add: apply_prices_def find_by_idempotency_key_def)
qed

lemma apply_prices_overflow:
  assumes "find_by_idempotency_key (rq_idempotencyKey dto) db = None"
    and "revalidate slug (rq_items dto) db = Inr (accepted, rejected)"
    and "\<not> would_trip_breaker (length accepted) rejected" "\<not> list_all row_fits accepted"
  shows "apply_prices now newId ids slug by' dto appr db = (db, Inl (Error ''22003''))"
proof -
  have "slice_rows ids newId (enumerate 0 accepted) = Inl (Error ''22003'')"
    by (rule slice_rows_overflow) (use assms(4) in simp)
  then show ?thesis using assms(1-3) by (simp add: apply_prices_def Let_def insert_items_rows)
qed

text \<open>
  C21. The dry run predicts the real run: with a fresh key on the same data, the request is aborted exactly
  when the preview says so. Otherwise, when the numbers of the accepted items fit the columns of the
  item table (prices below 10^10, costs below 10^8), it rejects the same items for the same reasons and
  stores the previewed items, in order, with the previewed prices as the columns hold them; when one
  of them does not fit, which the preview does not check, the request fails on the insert and
  changes nothing.
\<close>

theorem preview_predicts_apply:
  assumes "preview_apply slug (rq_items dto) db = Inr pv" "find_by_idempotency_key (rq_idempotencyKey dto) db = None"
    and "revalidate slug (rq_items dto) db = Inr (accepted, rejected)"
  shows "if pv_wouldAbort pv
    then \<exists>m. apply_prices now newId ids slug by' dto appr db = (db, Inl (UnprocessableEntity m))
    else if list_all row_fits accepted
    then \<exists>db' r new. apply_prices now newId ids slug by' dto appr db = (db', Inr r) \<and>
      rs_rejected r = pv_rejected pv \<and> rs_accepted r = int (length (pv_accepted pv)) \<and>
      pd_items (ap_pricing db') = pd_items (ap_pricing db) @ new \<and>
      map (\<lambda>i. (ai_ean i, ai_target i, ai_storeId i, Some (ai_price i), ai_basis i)) new =
        map (\<lambda>(e, t, s, p, b). (e, t, s, price_cell p, b)) (pv_accepted pv)
    else apply_prices now newId ids slug by' dto appr db = (db, Inl (Error ''22003''))"
proof -
  have pv: "pv_wouldAbort pv = would_trip_breaker (length accepted) rejected" "pv_rejected pv = rejected"
    "pv_accepted pv = map (\<lambda>a. (ac_ean a, ac_target a, ac_storeId a, ac_price a, ac_basis a)) accepted"
    using assms(1,3) by (auto simp: preview_apply_def)
  consider "pv_wouldAbort pv" | "\<not> pv_wouldAbort pv" "list_all row_fits accepted"
    | "\<not> pv_wouldAbort pv" "\<not> list_all row_fits accepted" by blast
  then show ?thesis
  proof cases
    case 1
    then show ?thesis using pv(1) assms(2,3) by (simp add: apply_prices_def)
  next
    case 2
    then obtain rows where rows: "slice_rows ids newId (enumerate 0 accepted) = Inr rows"
      "map (\<lambda>i. (ai_ean i, ai_target i, ai_storeId i, Some (ai_price i), ai_basis i)) rows =
       map (\<lambda>(_, a). (ac_ean a, ac_target a, ac_storeId a, price_cell (ac_price a), ac_basis a)) (enumerate 0 accepted)"
      using slice_rows_fit [of "enumerate 0 accepted" ids newId] by auto
    have "map (\<lambda>(_, a). (ac_ean a, ac_target a, ac_storeId a, price_cell (ac_price a), ac_basis a)) (enumerate n as) =
        map (\<lambda>(e, t, s, p, b). (e, t, s, price_cell p, b))
          (map (\<lambda>a. (ac_ean a, ac_target a, ac_storeId a, ac_price a, ac_basis a)) as)" for n as
      by (induction as arbitrary: n) simp_all
    then show ?thesis
      using apply_prices_new [OF assms(2,3) _ rows(1), of now by' appr] rows(2) 2 pv by fastforce
  next
    case 3
    then show ?thesis using apply_prices_overflow [OF assms(2,3)] pv(1) by simp
  qed
qed

section \<open>Approval\<close>

datatype decision = Approve int string | Reject

definition decide :: "string \<Rightarrow> decision \<Rightarrow> apply_db \<Rightarrow> apply_db" where
  "decide runId d db = (case d of Approve now slug \<Rightarrow> fst (approve_run now slug runId db) | Reject \<Rightarrow> fst (reject_run runId db))"

definition waiting :: "string \<Rightarrow> apply_db \<Rightarrow> bool" where
  "waiting runId db = list_ex (awaiting runId) (pd_runs (ap_pricing db))"

lemma decide_not_waiting: "\<not> waiting runId db \<Longrightarrow> decide runId d db = db"
  by (cases d) (simp_all add: decide_def approve_run_def reject_run_def waiting_def)

lemma decide_settles: "\<not> waiting runId (decide runId d db)"
proof (cases "waiting runId db")
  case True
  have "\<not> list_ex (awaiting runId) (update_where (awaiting runId) f xs)" if "\<And>x. \<not> awaiting runId (f x)" for f xs
    using that by (auto simp: list_ex_iff set_update_where)
  moreover have "\<not> list_ex (awaiting runId) (update_where Q g (update_where (awaiting runId) f xs))"
    if "\<And>x. \<not> awaiting runId (f x)" "\<And>x. \<not> awaiting runId x \<Longrightarrow> \<not> awaiting runId (g x)" for f g Q xs
    using that by (auto simp: list_ex_iff set_update_where)
  ultimately show ?thesis using True
    by (cases d) (simp_all add: decide_def approve_run_def reject_run_def waiting_def set_pricing_def enqueue_dispatch_def Let_def,
      simp_all add: awaiting_def)
next
  case False
  then show ?thesis by (simp add: decide_not_waiting)
qed

lemma rejected_items: "filter (\<lambda>i. ai_applyRunId i = runId \<and> ai_status i = ItemPending)
    (update_where (\<lambda>i. ai_applyRunId i = runId \<and> ai_status i = ItemPending) (\<lambda>i. i\<lparr>ai_status := Failed, ai_reason := r\<rparr>) xs) = []"
  by (induction xs) (simp_all add: update_where_def)

lemma decide_writes:
  assumes "waiting runId db"
  shows "ap_outbox (decide runId (Approve now slug) db) = insert_many now runId slug [dispatch_message now slug runId] (ap_outbox db)"
    "ap_outbox (decide runId Reject db) = ap_outbox db"
    "filter (\<lambda>i. ai_applyRunId i = runId \<and> ai_status i = ItemPending) (pd_items (ap_pricing (decide runId Reject db))) = []"
  using assms by (simp_all add: decide_def approve_run_def reject_run_def waiting_def set_pricing_def enqueue_dispatch_def
      Let_def rejected_items)

text \<open>
  C20. A run is decided once: of any sequence of approvals and rejections the first one on a waiting run
  takes effect and all others change nothing. An approval stages exactly one dispatch message; a
  rejection stages none and leaves no pending item of the run.
\<close>

theorem first_decision_wins:
  "fold (decide runId) ds db = (if waiting runId db then (case ds of [] \<Rightarrow> db | d # _ \<Rightarrow> decide runId d db) else db) \<and>
   (if waiting runId db then
      ap_outbox (decide runId (Approve now slug) db) = insert_many now runId slug [dispatch_message now slug runId] (ap_outbox db) \<and>
      ap_outbox (decide runId Reject db) = ap_outbox db \<and>
      filter (\<lambda>i. ai_applyRunId i = runId \<and> ai_status i = ItemPending) (pd_items (ap_pricing (decide runId Reject db))) = []
    else True)"
proof
  have quiet: "\<not> waiting runId db \<Longrightarrow> fold (decide runId) ds db = db" for ds db
    by (induction ds) (simp_all add: decide_not_waiting)
  then show "fold (decide runId) ds db = (if waiting runId db then (case ds of [] \<Rightarrow> db | d # _ \<Rightarrow> decide runId d db) else db)"
    using decide_settles decide_not_waiting by (cases ds) simp_all
  show "if waiting runId db then
      ap_outbox (decide runId (Approve now slug) db) = insert_many now runId slug [dispatch_message now slug runId] (ap_outbox db) \<and>
      ap_outbox (decide runId Reject db) = ap_outbox db \<and>
      filter (\<lambda>i. ai_applyRunId i = runId \<and> ai_status i = ItemPending) (pd_items (ap_pricing (decide runId Reject db))) = []
    else True"
    using decide_writes by simp
qed

section \<open>Witnesses\<close>

definition demo_apply :: apply_db where
  "demo_apply = \<lparr>ap_pricing = \<lparr>pd_runs = [], pd_items = [], pd_campaigns = [],
       pd_catalog = demo_catalog\<lparr>ct_tenants := (\<lambda>_. Some ''t'')\<rparr>\<rparr>,
     ap_rules = demo_rules, ap_classifications = [], ap_shared = [], ap_outbox = []\<rparr>"

definition demo_items :: "apply_item_dto list" where
  "demo_items = [\<lparr>it_ean = ''789'', it_target = PrecoVenda, it_storeId = None, it_price = Num 8, it_cadernoId = None\<rparr>,
     \<lparr>it_ean = ''789'', it_target = PrecoVenda, it_storeId = None, it_price = Num 11, it_cadernoId = None\<rparr>,
     \<lparr>it_ean = ''123'', it_target = PrecoVenda, it_storeId = None, it_price = Num 11, it_cadernoId = None\<rparr>]"

definition demo_ctx :: apply_ctx where
  "demo_ctx = \<lparr>cx_rows = load_eans_data [] [''789'', ''123''] demo_apply, cx_stores = [], cx_storeItems = [],
     cx_defaultCaderno = None, cx_rules = [], cx_membership = [], cx_index = index_of [] Map.empty\<rparr>"

lemma demo_load: "load_ctx ''acme'' demo_items demo_apply = Inr demo_ctx"
proof -
  have o: "enabled_origins slug (rules_of demo_apply) = Inr []" for slug
    by (simp add: enabled_origins_def list_origins_def resolve_tenant_id_def rules_of_def demo_apply_def demo_rules_def
        filter_empty_conv ALL_COMPETITOR_ORIGINS_def map_of_entries_def)
  have r: "active_rules slug (rules_of demo_apply) = Inr []" for slug
    by (simp add: active_rules_def list_rules_def rules_of_def demo_apply_def demo_rules_def)
  have i: "classification_index_of (ap_classifications demo_apply) = Inr (index_of [] Map.empty)"
    by (simp add: classification_index_of_def build_classification_index_def demo_apply_def)
  have d: "default_caderno slug (catalog_of demo_apply) = None" for slug
    by (simp add: default_caderno_def catalog_of_def demo_apply_def demo_catalog_def)
  have s: "dedup (map it_ean demo_items) = [''789'', ''123'']" by code_simp
  have t: "List.map_filter (\<lambda>i. given (it_storeId i)) demo_items = []"
    by (simp add: demo_items_def List.map_filter_def given_def truthy_string_def)
  show ?thesis
    by (simp add: load_ctx_def Let_def o r i d s t load_stores_def load_store_items_def demo_ctx_def)
qed

lemma demo_revalidated:
  "case revalidate ''acme'' demo_items demo_apply of Inl _ \<Rightarrow> False
   | Inr (acc, rej) \<Rightarrow> map ac_price acc = [Num 11] \<and> map rj_reason rej = [''nao_encontrado''] \<and> list_all row_fits acc"
proof -
  define i where "i = \<lparr>it_ean = ''789'', it_target = PrecoVenda, it_storeId = None, it_price = Num 11, it_cadernoId = None\<rparr>"
  define j where "j = \<lparr>it_ean = ''123'', it_target = PrecoVenda, it_storeId = None, it_price = Num 11, it_cadernoId = None\<rparr>"
  have d: "dedup_items demo_items = [i, j]" unfolding i_def j_def by code_simp
  have "case check_item demo_ctx i of Inr a \<Rightarrow> ac_price a = Num 11 \<and> ac_target a = PrecoVenda \<and> row_fits a | Inl _ \<Rightarrow> False"
    unfolding i_def by code_simp
  then obtain a where a: "check_item demo_ctx i = Inr a" "ac_price a = Num 11" "ac_target a = PrecoVenda" "row_fits a"
    by (cases "check_item demo_ctx i") auto
  have "check_item demo_ctx j = Inl ''nao_encontrado''" unfolding j_def by code_simp
  then have "case check_items demo_ctx demo_items of (acc, rej) \<Rightarrow> map ac_price acc = [Num 11] \<and>
      map rj_reason rej = [''nao_encontrado''] \<and> list_all row_fits acc"
    using a by (simp add: check_items_def d caderno_key_def)
  then show ?thesis by (simp add: revalidate_def demo_load)
qed

lemma demo_obtain:
  obtains a rej where "revalidate ''acme'' demo_items demo_apply = Inr ([a], rej)" "ac_price a = Num 11" "length rej = 1"
    "row_fits a"
proof -
  obtain acc rej where r: "revalidate ''acme'' demo_items demo_apply = Inr (acc, rej)" "map ac_price acc = [Num 11]"
    "map rj_reason rej = [''nao_encontrado'']" "list_all row_fits acc"
    using demo_revalidated by (auto split: sum.splits)
  then show thesis using that by (cases acc) auto
qed

theorem accepted_prices_are_safe_witness:
  "\<exists>a rej p. revalidate ''acme'' demo_items demo_apply = Inr ([a], rej) \<and> ac_price a = Num p \<and> 0 < p"
proof -
  obtain a rej where r: "revalidate ''acme'' demo_items demo_apply = Inr ([a], rej)" by (rule demo_obtain)
  have wf: "list_all (\<lambda>r. rule_wf (rr_values r)) (rd_rules (ap_rules demo_apply))" by (simp add: demo_apply_def demo_rules_def)
  have fin: "list_all (\<lambda>i. js_is_finite (it_price i)) demo_items" by (simp add: demo_items_def)
  have "a \<in> set [a]" by simp
  from accepted_prices_are_safe [OF r this wf fin] r show ?thesis by blast
qed

theorem accepted_writes_never_collide_witness:
  "\<exists>acc rej. revalidate ''acme'' demo_items demo_apply = Inr (acc, rej) \<and> distinct (map outcome_key acc) \<and> length acc = 1"
proof -
  obtain a rej where r: "revalidate ''acme'' demo_items demo_apply = Inr ([a], rej)" by (rule demo_obtain)
  from accepted_writes_never_collide [OF r] have "distinct (map outcome_key [a])" by blast
  moreover have "length [a] = 1" by simp
  ultimately show ?thesis using r by blast
qed

text \<open>
  A product without a price has no variation to exceed: ten thousand millions are accepted by the
  guard rails, and do not fit the column.
\<close>

lemma accepted_price_overflows_column:
  "case check_item (demo_ctx\<lparr>cx_rows := map (\<lambda>r. r\<lparr>pw_precoVenda := None\<rparr>) (cx_rows demo_ctx)\<rparr>)
       \<lparr>it_ean = ''789'', it_target = PrecoVenda, it_storeId = None, it_price = Num (10 ^ 10), it_cadernoId = None\<rparr> of
     Inr a \<Rightarrow> \<not> row_fits a | Inl _ \<Rightarrow> False"
  by code_simp

definition demo_request :: apply_request where
  "demo_request = \<lparr>rq_idempotencyKey = ''k'', rq_mode = None, rq_items = demo_items\<rparr>"

theorem apply_is_idempotent_witness:
  "\<exists>db' r r'. apply_prices 1 ''r1'' (\<lambda>k. show_nat k) ''acme'' None demo_request False demo_apply = (db', Inr r) \<and>
     apply_prices 2 ''r2'' (\<lambda>k. show_nat k) ''acme'' None demo_request True db' = (db', Inr r') \<and> rs_applyRunId r' = rs_applyRunId r"
proof -
  obtain x rej where v: "revalidate ''acme'' (rq_items demo_request) demo_apply = Inr ([x], rej)" "length rej = 1"
    "row_fits x" by (rule demo_obtain) (simp add: demo_request_def)
  have k: "find_by_idempotency_key (rq_idempotencyKey demo_request) demo_apply = None"
    by (simp add: find_by_idempotency_key_def demo_apply_def)
  obtain rows where rows: "slice_rows (\<lambda>k. show_nat k) ''r1'' (enumerate 0 [x]) = Inr rows"
    using slice_rows_fit [of "enumerate 0 [x]"] v(3) by auto
  have "\<not> would_trip_breaker (length [x]) rej" using v(2) by (simp add: would_trip_breaker_def CIRCUIT_MIN_ITEMS_def)
  from apply_prices_new [OF k v(1) this rows, of 1 None False]
  obtain db' r where a: "apply_prices 1 ''r1'' (\<lambda>k. show_nat k) ''acme'' None demo_request False demo_apply = (db', Inr r)" by blast
  from apply_is_idempotent [OF a refl] a show ?thesis by blast
qed

theorem preview_predicts_apply_witness:
  "\<exists>pv db' r. preview_apply ''acme'' demo_items demo_apply = Inr pv \<and>
     apply_prices 1 ''r1'' (\<lambda>k. show_nat k) ''acme'' None demo_request False demo_apply = (db', Inr r) \<and>
     rs_rejected r = pv_rejected pv \<and> length (pd_items (ap_pricing db')) = 1"
proof -
  obtain x rej where v: "revalidate ''acme'' (rq_items demo_request) demo_apply = Inr ([x], rej)" "length rej = 1"
    "row_fits x" by (rule demo_obtain) (simp add: demo_request_def)
  then obtain pv where pv: "preview_apply ''acme'' (rq_items demo_request) demo_apply = Inr pv" "\<not> pv_wouldAbort pv"
    "length (pv_accepted pv) = 1"
    by (auto simp: preview_apply_def would_trip_breaker_def CIRCUIT_MIN_ITEMS_def)
  have k: "find_by_idempotency_key (rq_idempotencyKey demo_request) demo_apply = None"
    by (simp add: find_by_idempotency_key_def demo_apply_def)
  obtain db' r new where "apply_prices 1 ''r1'' (\<lambda>k. show_nat k) ''acme'' None demo_request False demo_apply = (db', Inr r)"
    "rs_rejected r = pv_rejected pv" "pd_items (ap_pricing db') = pd_items (ap_pricing demo_apply) @ new"
    and new: "map (\<lambda>i. (ai_ean i, ai_target i, ai_storeId i, Some (ai_price i), ai_basis i)) new =
        map (\<lambda>(e, t, s, p, b). (e, t, s, price_cell p, b)) (pv_accepted pv)"
    using preview_predicts_apply [OF pv(1) k v(1), of 1 "''r1''" show_nat None False] pv(2) v(3) by auto
  moreover have "length new = 1" using arg_cong [OF new, of length] pv(3) by simp
  ultimately show ?thesis using pv(1) by (auto simp: demo_request_def demo_apply_def)
qed

end
