(* ===== verification/Offer_Book_Engine.thy ===== *)
theory Offer_Book_Engine
  imports Suggestion_Engine
begin

text \<open>
  The pure part of \<open>src/tenant-api/offer-book-rules/offer-book-rules.service.ts\<close>: the
  normalisation of classification filters, the validation that refuses pricing rules and price
  locks two of which could govern one product, and the calculation of an offer price (base
  price, rule, limit, margin lock, rounding). Numbers of a request are finite doubles; an
  omitted field is \<open>None\<close>.
\<close>

section \<open>Data\<close>

datatype pricing_action = Discount | Increase
datatype calculation_base = CompetitivePrice | SalePrice | OfferPrice
datatype price_base_source = OwnPrice | Drogal | Drogasil | PagueMenos | Ikesaki | Michelassi

record pricing_rule =
  br_classifications :: "string list option"
  br_priceRangeMin :: "rat option"
  br_priceRangeMax :: "rat option"
  br_marginRangeMin :: "rat option"
  br_marginRangeMax :: "rat option"
  br_actionType :: pricing_action
  br_percentageValue :: rat
  br_active :: "bool option"

record price_lock =
  lk_classifications :: "string list option"
  lk_minMargin :: rat
  lk_active :: "bool option"

record preview_product =
  pp_ean :: string
  pp_name :: string
  pp_externalId :: "int option"
  pp_classificationId :: "string option"
  pp_classificationPath :: string
  pp_salePrice :: jsnum
  pp_cost :: jsnum
  pp_margin :: jsnum
  pp_offerPrice :: "jsnum option"
  pp_competitorPrices :: "price_base_source \<Rightarrow> jsnum option"

record rounding_bucket =
  rb_from :: jsnum
  rb_to :: jsnum
  rb_roundTo :: jsnum

record rounding_band =
  bd_priceMin :: jsnum
  bd_priceMax :: jsnum
  bd_decimals :: "rounding_bucket list"

record calculation_params =
  cq_baseType :: calculation_base
  cq_sources :: "price_base_source list option"
  cq_rules :: "pricing_rule list"
  cq_locks :: "price_lock list"
  cq_rounding :: "rounding_band list"
  cq_index :: classification_index

record preview_result =
  px_ean :: string
  px_name :: string
  px_externalId :: "int option"
  px_classification :: string
  px_baseSalePrice :: jsnum
  px_baseOfferPrice :: jsnum
  px_currentPrice :: jsnum
  px_currentMargin :: jsnum
  px_cost :: jsnum
  px_actionType :: "pricing_action option"
  px_percentageValue :: jsnum
  px_appliedPercentageValue :: jsnum
  px_finalPrice :: jsnum
  px_newMargin :: jsnum
  px_priceLockApplied :: bool
  px_discountSkipped :: bool
  px_skippedNoCompetitorPrice :: bool
  px_skippedPriceExceedsLimit :: bool
  px_priceRoundingApplied :: bool

section \<open>Classification filters\<close>

text \<open>The first two levels of a classification path.\<close>

definition normalize_classification :: "string \<Rightarrow> string" where
  "normalize_classification c =
     (if c = [] then c
      else let parts = split_on '' > '' c in
        if length parts \<le> 2 then c else parts ! 0 @ '' > '' @ parts ! 1)"

definition normalize_classification_ids :: "string list option \<Rightarrow> string list option" where
  "normalize_classification_ids cs =
     (case cs of None \<Rightarrow> None | Some [] \<Rightarrow> None | Some (c # r) \<Rightarrow> Some (dedup (c # r)))"

definition normalize_pricing_rules :: "pricing_rule list \<Rightarrow> pricing_rule list" where
  "normalize_pricing_rules rules =
     map (\<lambda>r. r\<lparr>br_classifications := normalize_classification_ids (br_classifications r)\<rparr>) rules"

definition normalize_price_locks :: "price_lock list \<Rightarrow> price_lock list" where
  "normalize_price_locks locks =
     map (\<lambda>l. l\<lparr>lk_classifications := normalize_classification_ids (lk_classifications l)\<rparr>) locks"

text \<open>\<open>!xs?.length\<close>: absent or empty.\<close>

definition no_items :: "'a list option \<Rightarrow> bool" where
  "no_items xs = (case xs of None \<Rightarrow> True | Some ys \<Rightarrow> ys = [])"

definition classification_matches :: "string option \<Rightarrow> string list option \<Rightarrow> classification_index \<Rightarrow> bool" where
  "classification_matches productClassificationId cs idx =
     (no_items cs \<or>
      (truthy_string productClassificationId \<and>
       list_ex (\<lambda>c. isUnder idx productClassificationId c) (the cs)))"

definition classifications_overlap :: "string list option \<Rightarrow> string list option \<Rightarrow> classification_index \<Rightarrow> bool" where
  "classifications_overlap as bs idx =
     (no_items as \<or> no_items bs \<or> list_ex (\<lambda>a. list_ex (idsOverlap idx a) (the bs)) (the as))"

section \<open>Ranges\<close>

definition range_matches :: "jsnum \<Rightarrow> rat option \<Rightarrow> rat option \<Rightarrow> bool" where
  "range_matches value mn mx =
     (if mn \<noteq> None \<and> js_lt value (Num (the mn)) then False
      else if mx \<noteq> None \<and> js_lt (Num (the mx)) value then False
      else True)"

definition ranges_overlap :: "rat option \<Rightarrow> rat option \<Rightarrow> rat option \<Rightarrow> rat option \<Rightarrow> bool" where
  "ranges_overlap minA maxA minB maxB =
     (let effMinA = (case minA of None \<Rightarrow> NegInf | Some x \<Rightarrow> Num x);
          effMaxA = (case maxA of None \<Rightarrow> PosInf | Some x \<Rightarrow> Num x);
          effMinB = (case minB of None \<Rightarrow> NegInf | Some x \<Rightarrow> Num x);
          effMaxB = (case maxB of None \<Rightarrow> PosInf | Some x \<Rightarrow> Num x)
      in js_le effMinA effMaxB \<and> js_le effMinB effMaxA)"

definition has_price_range :: "pricing_rule \<Rightarrow> bool" where
  "has_price_range r = (br_priceRangeMin r \<noteq> None \<or> br_priceRangeMax r \<noteq> None)"

definition has_margin_range :: "pricing_rule \<Rightarrow> bool" where
  "has_margin_range r = (br_marginRangeMin r \<noteq> None \<or> br_marginRangeMax r \<noteq> None)"

section \<open>Validation\<close>

definition rules_overlap :: "pricing_rule \<Rightarrow> pricing_rule \<Rightarrow> classification_index \<Rightarrow> bool" where
  "rules_overlap a b idx =
     (if \<not> classifications_overlap (br_classifications a) (br_classifications b) idx then False
      else
        let aPrice = has_price_range a; aMargin = has_margin_range a;
            bPrice = has_price_range b; bMargin = has_margin_range b
        in if \<not> aPrice \<and> \<not> aMargin then True
           else if \<not> bPrice \<and> \<not> bMargin then True
           else
             let price = (aPrice \<or> bPrice) \<and>
                   ranges_overlap (if aPrice then br_priceRangeMin a else None) (if aPrice then br_priceRangeMax a else None)
                                  (if bPrice then br_priceRangeMin b else None) (if bPrice then br_priceRangeMax b else None);
                 margin = (aMargin \<or> bMargin) \<and>
                   ranges_overlap (if aMargin then br_marginRangeMin a else None) (if aMargin then br_marginRangeMax a else None)
                                  (if bMargin then br_marginRangeMin b else None) (if bMargin then br_marginRangeMax b else None);
                 aBoth = aPrice \<and> aMargin; bBoth = bPrice \<and> bMargin;
                 aOnlyPrice = aPrice \<and> \<not> aMargin; aOnlyMargin = \<not> aPrice \<and> aMargin;
                 bOnlyPrice = bPrice \<and> \<not> bMargin; bOnlyMargin = \<not> bPrice \<and> bMargin
             in if aBoth \<and> bBoth then price \<and> margin
                else if aBoth \<and> bPrice \<and> \<not> bMargin then price
                else if aBoth \<and> bMargin \<and> \<not> bPrice then margin
                else if bBoth \<and> aPrice \<and> \<not> aMargin then price
                else if bBoth \<and> aMargin \<and> \<not> aPrice then margin
                else if aOnlyPrice \<and> bOnlyPrice then price
                else if aOnlyMargin \<and> bOnlyMargin then margin
                else aOnlyPrice \<and> bOnlyMargin \<or> aOnlyMargin \<and> bOnlyPrice)"

text \<open>The pairs the two nested loops visit, in their order, and the first one that clashes.\<close>

definition index_pairs :: "nat \<Rightarrow> (nat \<times> nat) list" where
  "index_pairs n = concat (map (\<lambda>i. map (\<lambda>j. (i, j)) [Suc i ..< n]) [0 ..< n])"

definition first_clash :: "('a \<Rightarrow> 'a \<Rightarrow> bool) \<Rightarrow> 'a list \<Rightarrow> (nat \<times> nat) option" where
  "first_clash clash xs = find (\<lambda>(i, j). clash (xs ! i) (xs ! j)) (index_pairs (length xs))"

definition active_rules_of :: "pricing_rule list \<Rightarrow> pricing_rule list" where
  "active_rules_of rules = filter (\<lambda>r. br_active r \<noteq> Some False) rules"

definition active_locks_of :: "price_lock list \<Rightarrow> price_lock list" where
  "active_locks_of locks = filter (\<lambda>l. lk_active l \<noteq> Some False) locks"

definition validate_pricing_rules :: "pricing_rule list \<Rightarrow> classification_index \<Rightarrow> unit outcome" where
  "validate_pricing_rules rules idx =
     (case first_clash (\<lambda>a b. rules_overlap a b idx) (active_rules_of rules) of
        None \<Rightarrow> Inr ()
      | Some (i, j) \<Rightarrow> Inl (BadRequestException (''Pricing rules overlap: Rule '' @ show_nat (i + 1) @
          '' and Rule '' @ show_nat (j + 1) @ '' can target the same products. '' @
          ''Ensure classifications and price/margin ranges do not overlap.'')))"

definition validate_price_locks :: "price_lock list \<Rightarrow> classification_index \<Rightarrow> unit outcome" where
  "validate_price_locks locks idx =
     (let active = active_locks_of locks;
          forAll = filter (\<lambda>l. no_items (lk_classifications l)) active
      in if active = [] then Inr ()
         else if forAll \<noteq> [] \<and> 1 < length active
         then Inl (BadRequestException (''Price lock targeting all classifications cannot coexist with other price locks. '' @
                ''Remove the \"all classifications\" lock or remove all other locks.''))
         else (case first_clash (\<lambda>a b. classifications_overlap (lk_classifications a) (lk_classifications b) idx) active of
             None \<Rightarrow> Inr ()
           | Some (i, j) \<Rightarrow> Inl (BadRequestException (''Price locks overlap: Lock '' @ show_nat (i + 1) @
               '' and Lock '' @ show_nat (j + 1) @ '' target overlapping classifications. '' @
               ''Ensure each classification is only targeted by one price lock.''))))"

definition unknown_ids :: "string list \<Rightarrow> classification_index \<Rightarrow> string list" where
  "unknown_ids ids idx = filter (\<lambda>i. depthById idx i = None) (dedup ids)"

definition assert_known_ids :: "string list \<Rightarrow> classification_index \<Rightarrow> unit outcome" where
  "assert_known_ids ids idx =
     (if unknown_ids ids idx \<noteq> []
      then Inl (BadRequestException (''Unknown classification id(s): '' @ join_with '', '' (unknown_ids ids idx)))
      else Inr ())"

section \<open>The calculation\<close>

definition rule_matches :: "preview_product \<Rightarrow> jsnum \<Rightarrow> classification_index \<Rightarrow> pricing_rule \<Rightarrow> bool" where
  "rule_matches product currentPrice idx rule =
     (br_active rule \<noteq> Some False \<and>
      classification_matches (pp_classificationId product) (br_classifications rule) idx \<and>
      (let price = range_matches currentPrice (br_priceRangeMin rule) (br_priceRangeMax rule);
           margin = range_matches (pp_margin product) (br_marginRangeMin rule) (br_marginRangeMax rule)
       in if has_price_range rule \<and> has_margin_range rule then price \<and> margin
          else if has_price_range rule then price
          else if has_margin_range rule then margin
          else True))"

definition find_matching_pricing_rule ::
  "preview_product \<Rightarrow> pricing_rule list \<Rightarrow> jsnum \<Rightarrow> classification_index \<Rightarrow> pricing_rule option" where
  "find_matching_pricing_rule product rules currentPrice idx = find (rule_matches product currentPrice idx) rules"

definition lock_matches :: "preview_product \<Rightarrow> classification_index \<Rightarrow> price_lock \<Rightarrow> bool" where
  "lock_matches product idx lock =
     (lk_active lock \<noteq> Some False \<and>
      classification_matches (pp_classificationId product) (lk_classifications lock) idx)"

definition find_matching_price_lock ::
  "preview_product \<Rightarrow> price_lock list \<Rightarrow> classification_index \<Rightarrow> price_lock option" where
  "find_matching_price_lock product locks idx = find (lock_matches product idx) locks"

text \<open>\<open>offerPrice ?? salePrice\<close>.\<close>

definition own_price :: "preview_product \<Rightarrow> jsnum" where
  "own_price product = (case pp_offerPrice product of None \<Rightarrow> pp_salePrice product | Some p \<Rightarrow> p)"

definition source_price :: "preview_product \<Rightarrow> price_base_source \<Rightarrow> jsnum list" where
  "source_price product source =
     (if source = OwnPrice
      then (if js_truthy (own_price product) \<and> js_lt (Num 0) (own_price product) then [own_price product] else [])
      else (case pp_competitorPrices product source of
              None \<Rightarrow> []
            | Some price \<Rightarrow> if js_truthy price \<and> js_lt (Num 0) price then [price] else []))"

definition lowest_price_from_sources :: "preview_product \<Rightarrow> price_base_source list option \<Rightarrow> jsnum option" where
  "lowest_price_from_sources product sources =
     (if no_items sources then None
      else let prices = concat (map (source_price product) (the sources)) in
        if prices = [] then None else Some (js_min_list prices))"

definition calculation_base_price ::
  "preview_product \<Rightarrow> calculation_base \<Rightarrow> price_base_source list option \<Rightarrow> jsnum option" where
  "calculation_base_price product base sources =
     (case base of
        SalePrice \<Rightarrow> Some (pp_salePrice product)
      | OfferPrice \<Rightarrow> Some (own_price product)
      | CompetitivePrice \<Rightarrow> lowest_price_from_sources product sources)"

definition effective_percentage :: "pricing_action option \<Rightarrow> jsnum \<Rightarrow> jsnum \<Rightarrow> jsnum" where
  "effective_percentage action finalPrice baseOfferPrice =
     (if action = Some Discount
      then js_mul (js_div (js_sub baseOfferPrice finalPrice) baseOfferPrice) (Num 100)
      else js_mul (js_div (js_sub finalPrice baseOfferPrice) baseOfferPrice) (Num 100))"

definition apply_offer_rounding :: "jsnum \<Rightarrow> rounding_band list \<Rightarrow> jsnum option \<Rightarrow> jsnum option" where
  "apply_offer_rounding price bands minPrice =
     (if bands = [] then None
      else (case find (\<lambda>b. js_le (bd_priceMin b) price \<and> js_le price (bd_priceMax b)) bands of
              None \<Rightarrow> None
            | Some band \<Rightarrow>
                let integerPart = js_floor price;
                    decimalPart = round2 (js_sub price integerPart)
                in (case find (\<lambda>d. js_le (rb_from d) decimalPart \<and> js_le decimalPart (rb_to d)) (bd_decimals band) of
                      None \<Rightarrow> None
                    | Some bucket \<Rightarrow>
                        let rounded0 = js_add integerPart (rb_roundTo bucket);
                            rounded = (case minPrice of
                                None \<Rightarrow> rounded0
                              | Some m \<Rightarrow> if js_lt rounded0 m
                                  then js_add (js_add integerPart (Num 1)) (rb_roundTo bucket) else rounded0)
                        in if js_eq rounded (round2 price) then None else Some (round2 rounded))))"

text \<open>\<open>((price - cost) / price) * 100\<close>.\<close>

definition margin_pct :: "jsnum \<Rightarrow> jsnum \<Rightarrow> jsnum" where
  "margin_pct price cost = js_mul (js_div (js_sub price cost) price) (Num 100)"

text \<open>The price after the rule, and its label.\<close>

definition rule_price :: "pricing_rule option \<Rightarrow> jsnum \<Rightarrow> jsnum" where
  "rule_price rule currentPrice =
     (case rule of
        None \<Rightarrow> currentPrice
      | Some r \<Rightarrow>
          if br_actionType r = Discount
          then js_mul currentPrice (js_sub (Num 1) (js_div (Num (br_percentageValue r)) (Num 100)))
          else js_mul currentPrice (js_add (Num 1) (js_div (Num (br_percentageValue r)) (Num 100))))"

text \<open>The floor of the price lock, when it has one.\<close>

definition lock_floor :: "price_lock option \<Rightarrow> jsnum \<Rightarrow> jsnum option" where
  "lock_floor lock cost =
     (case lock of
        None \<Rightarrow> None
      | Some l \<Rightarrow>
          if lk_minMargin l < 100 \<and> js_lt (Num 0) cost
          then Some (js_div cost (js_sub (Num 1) (js_div (Num (lk_minMargin l)) (Num 100))))
          else None)"

text \<open>The fields every result carries.\<close>

definition result_base :: "preview_product \<Rightarrow> preview_result" where
  "result_base product = \<lparr>
     px_ean = pp_ean product, px_name = pp_name product, px_externalId = pp_externalId product,
     px_classification = normalize_classification (pp_classificationPath product),
     px_baseSalePrice = pp_salePrice product, px_baseOfferPrice = own_price product,
     px_currentPrice = pp_salePrice product, px_currentMargin = Num 0, px_cost = pp_cost product,
     px_actionType = None, px_percentageValue = Num 0, px_appliedPercentageValue = Num 0,
     px_finalPrice = pp_salePrice product, px_newMargin = Num 0, px_priceLockApplied = False,
     px_discountSkipped = False, px_skippedNoCompetitorPrice = False, px_skippedPriceExceedsLimit = False,
     px_priceRoundingApplied = False\<rparr>"

text \<open>No competitor price: the product keeps its state.\<close>

definition no_competitor_result :: "preview_product \<Rightarrow> preview_result" where
  "no_competitor_result product =
     (let m = (if js_lt (Num 0) (pp_cost product) \<and> js_lt (Num 0) (pp_salePrice product)
               then margin_pct (pp_salePrice product) (pp_cost product) else Num 0)
      in (result_base product)\<lparr>px_currentMargin := round2 m, px_newMargin := round2 m,
            px_skippedNoCompetitorPrice := True\<rparr>)"

text \<open>The margin of the product before the calculation.\<close>

definition current_margin_of :: "preview_product \<Rightarrow> jsnum" where
  "current_margin_of product =
     (let basePrice = (case pp_offerPrice product of
            None \<Rightarrow> pp_salePrice product
          | Some p \<Rightarrow> if js_truthy p then p else pp_salePrice product)
      in if js_lt (Num 0) basePrice then margin_pct basePrice (pp_cost product) else Num 0)"

definition exceeds_limit_result :: "preview_product \<Rightarrow> pricing_rule option \<Rightarrow> jsnum \<Rightarrow> preview_result" where
  "exceeds_limit_result product rule currentPrice =
     (result_base product)\<lparr>px_currentPrice := currentPrice,
        px_currentMargin := round2 (current_margin_of product),
        px_actionType := map_option br_actionType rule,
        px_percentageValue := (case rule of None \<Rightarrow> Num 0 | Some r \<Rightarrow> Num (br_percentageValue r)),
        px_finalPrice := currentPrice, px_newMargin := round2 (current_margin_of product),
        px_skippedPriceExceedsLimit := True\<rparr>"

definition margin_of_price :: "jsnum \<Rightarrow> jsnum \<Rightarrow> jsnum" where
  "margin_of_price price cost =
     (if js_lt (Num 0) cost \<and> js_lt (Num 0) price then margin_pct price cost else Num 0)"

text \<open>The lock, then the rounding, of the price after the rule.\<close>

definition priced_result ::
  "preview_product \<Rightarrow> pricing_rule option \<Rightarrow> price_lock option \<Rightarrow> rounding_band list \<Rightarrow> jsnum \<Rightarrow> preview_result" where
  "priced_result product rule lock bands currentPrice =
     (let cost = pp_cost product;
          baseOfferPrice = own_price product;
          actionType = map_option br_actionType rule;
          percentageValue = (case rule of None \<Rightarrow> Num 0 | Some r \<Rightarrow> Num (br_percentageValue r));
          priceAfterRule = rule_price rule currentPrice;
          newMargin0 = margin_of_price priceAfterRule cost;
          floorPrice = lock_floor lock cost;
          lockApplied = (floorPrice \<noteq> None \<and>
             (js_lt (current_margin_of product) (Num (lk_minMargin (the lock))) \<or>
              js_lt newMargin0 (Num (lk_minMargin (the lock)))));
          price1 = (if lockApplied then the floorPrice else priceAfterRule);
          newMargin1 = (if lockApplied then Num (lk_minMargin (the lock)) else newMargin0);
          applied1 = (if lockApplied \<and> \<not> js_eq price1 priceAfterRule \<and> js_lt (Num 0) baseOfferPrice
             then effective_percentage actionType price1 baseOfferPrice else percentageValue);
          rounding = apply_offer_rounding price1 bands floorPrice;
          price2 = (case rounding of None \<Rightarrow> price1 | Some p \<Rightarrow> p);
          newMargin2 = (case rounding of None \<Rightarrow> newMargin1 | Some p \<Rightarrow> margin_of_price p cost);
          applied2 = (case rounding of
              None \<Rightarrow> applied1
            | Some p \<Rightarrow> if lockApplied \<and> js_lt (Num 0) baseOfferPrice
                then effective_percentage actionType p baseOfferPrice else applied1)
      in (result_base product)\<lparr>px_currentPrice := currentPrice,
            px_currentMargin := round2 (current_margin_of product),
            px_actionType := actionType, px_percentageValue := percentageValue,
            px_appliedPercentageValue := round2 applied2, px_finalPrice := round2 price2,
            px_newMargin := round2 newMargin2, px_priceLockApplied := lockApplied,
            px_priceRoundingApplied := (rounding \<noteq> None)\<rparr>)"

definition calculate_product_preview :: "calculation_params \<Rightarrow> preview_product \<Rightarrow> preview_result" where
  "calculate_product_preview params product =
     (case calculation_base_price product (cq_baseType params) (cq_sources params) of
        None \<Rightarrow> no_competitor_result product
      | Some currentPrice \<Rightarrow>
          let rule = find_matching_pricing_rule product (cq_rules params) currentPrice (cq_index params);
              lock = find_matching_price_lock product (cq_locks params) (cq_index params)
          in if js_lt (pp_salePrice product) (rule_price rule currentPrice) \<and> js_lt (Num 0) (pp_salePrice product)
             then exceeds_limit_result product rule currentPrice
             else priced_result product rule lock (cq_rounding params) currentPrice)"

definition calculate_previews :: "preview_product list \<Rightarrow> calculation_params \<Rightarrow> preview_result list" where
  "calculate_previews products params = map (calculate_product_preview params) products"

section \<open>Validated rules\<close>

lemma index_pairs_iff: "(i, j) \<in> set (index_pairs n) \<longleftrightarrow> i < j \<and> j < n"
proof -
  have "i < j \<and> j < n \<Longrightarrow> \<exists>k \<in> {0..<n}. (i, j) \<in> Pair k ` {Suc k..<n}" by (rule bexI [of _ i]) auto
  then show ?thesis by (auto simp: index_pairs_def)
qed

lemma first_clash_None_iff:
  "first_clash clash xs = None \<longleftrightarrow> sorted_wrt (\<lambda>x y. \<not> clash x y) xs"
  by (auto simp: first_clash_def find_None_iff index_pairs_iff sorted_wrt_iff_nth_less)

lemma first_clash_Some:
  "first_clash clash xs = Some (i, j) \<Longrightarrow> i < j \<and> j < length xs \<and> clash (xs ! i) (xs ! j)"
proof -
  assume f: "first_clash clash xs = Some (i, j)"
  then have "(i, j) \<in> set (index_pairs (length xs))"
    by (auto simp: first_clash_def find_Some_iff in_set_conv_nth)
  moreover have "clash (xs ! i) (xs ! j)" using f by (auto simp: first_clash_def find_Some_iff)
  ultimately show ?thesis by (simp add: index_pairs_iff)
qed

text \<open>A list without clashes has at most one element of any class of clashing elements.\<close>

lemma no_clash_unique:
  assumes "first_clash clash (filter A xs) = None"
    and clash: "\<And>x y. P x \<Longrightarrow> P y \<Longrightarrow> clash x y" and A: "\<And>x. P x \<Longrightarrow> A x"
  shows "length (filter P xs) \<le> 1"
proof -
  have "sorted_wrt (\<lambda>x y. \<not> clash x y) ys \<Longrightarrow> length (filter P ys) \<le> 1" for ys
  proof (induction ys)
    case (Cons y ys)
    show ?case
    proof (cases "P y")
      case True
      then have "filter P ys = []" using Cons.prems clash by (auto simp: filter_empty_conv)
      then show ?thesis by simp
    next
      case False
      then show ?thesis using Cons by simp
    qed
  qed simp
  moreover have "filter P (filter A xs) = filter P xs" using A by (auto intro: filter_cong)
  ultimately show ?thesis using assms(1) by (metis first_clash_None_iff)
qed

lemma find_by_filter: "find P xs = (case filter P xs of [] \<Rightarrow> None | x # _ \<Rightarrow> Some x)"
  by (induction xs) auto

lemma find_unique_perm:
  assumes "length (filter P xs) \<le> 1" "mset ys = mset xs"
  shows "find P ys = find P xs"
proof -
  have m: "mset (filter P ys) = mset (filter P xs)" using assms(2) by simp
  have "filter P ys = filter P xs"
  proof (cases "filter P xs")
    case Nil
    then show ?thesis using m by simp
  next
    case (Cons x r)
    then have "filter P xs = [x]" using assms(1) by simp
    then show ?thesis using m mset_single_iff [of "filter P ys" x] by (simp del: mset_filter)
  qed
  then show ?thesis by (simp add: find_by_filter)
qed

lemma ranges_common_value:
  assumes "range_matches v minA maxA" "range_matches v minB maxB" "v \<noteq> NaN"
  shows "ranges_overlap minA maxA minB maxB"
  using assms by (cases v) (auto simp: range_matches_def ranges_overlap_def split: option.splits if_splits)

lemma rule_matches_overlap:
  assumes "build_classification_index rows = Some idx"
    and "rule_matches product c idx a" "rule_matches product c idx b" "pp_margin product \<noteq> NaN" "c \<noteq> NaN"
  shows "rules_overlap a b idx"
proof -
  obtain ds where idx: "idx = index_of rows ds"
    using assms(1) by (auto simp: build_classification_index_def)
  have cls: "classifications_overlap (br_classifications a) (br_classifications b) idx"
    using assms(2,3) tree.some_pair_overlaps [of _ rows "pp_classificationId product"]
    by (auto simp: rule_matches_def classification_matches_def classifications_overlap_def idx index_of_def list_ex_iff)
  note ov = ranges_common_value [of c "br_priceRangeMin a" "br_priceRangeMax a" "br_priceRangeMin b" "br_priceRangeMax b", OF _ _ assms(5)]
    ranges_common_value [of "pp_margin product" "br_marginRangeMin a" "br_marginRangeMax a" "br_marginRangeMin b" "br_marginRangeMax b", OF _ _ assms(4)]
  show ?thesis
    using assms(2,3) cls ov unfolding rules_overlap_def rule_matches_def Let_def
    by (cases "has_price_range a"; cases "has_margin_range a"; cases "has_price_range b"; cases "has_margin_range b") simp_all
qed

lemma validate_pricing_rules_iff:
  "validate_pricing_rules rules idx = Inr () \<longleftrightarrow> first_clash (\<lambda>a b. rules_overlap a b idx) (active_rules_of rules) = None"
  by (auto simp: validate_pricing_rules_def split: option.splits)

lemma one_rule_matches:
  assumes "build_classification_index rows = Some idx" "validate_pricing_rules rules idx = Inr ()"
    and "pp_margin product \<noteq> NaN" "c \<noteq> NaN"
  shows "length (filter (rule_matches product c idx) rules) \<le> 1"
  using assms rule_matches_overlap [OF assms(1) _ _ assms(3,4)]
  by (intro no_clash_unique [where A = "\<lambda>r. br_active r \<noteq> Some False" and clash = "\<lambda>a b. rules_overlap a b idx"])
    (auto simp: validate_pricing_rules_iff active_rules_of_def rule_matches_def)

lemma lock_matches_overlap:
  assumes "build_classification_index rows = Some idx" "lock_matches product idx a" "lock_matches product idx b"
  shows "classifications_overlap (lk_classifications a) (lk_classifications b) idx"
proof -
  obtain ds where idx: "idx = index_of rows ds"
    using assms(1) by (auto simp: build_classification_index_def)
  show ?thesis
    using assms(2,3) tree.some_pair_overlaps [of _ rows "pp_classificationId product"]
    by (auto simp: lock_matches_def classification_matches_def classifications_overlap_def idx index_of_def list_ex_iff)
qed

lemma one_lock_matches:
  assumes "build_classification_index rows = Some idx" "validate_price_locks locks idx = Inr ()"
  shows "length (filter (lock_matches product idx) locks) \<le> 1"
proof -
  have "first_clash (\<lambda>a b. classifications_overlap (lk_classifications a) (lk_classifications b) idx) (active_locks_of locks) = None"
    using assms(2) by (auto simp: validate_price_locks_def Let_def first_clash_None_iff split: if_splits option.splits)
  then show ?thesis
    using lock_matches_overlap [OF assms(1)]
    by (intro no_clash_unique [where A = "\<lambda>r. lk_active r \<noteq> Some False"
          and clash = "\<lambda>a b. classifications_overlap (lk_classifications a) (lk_classifications b) idx"])
      (auto simp: active_locks_of_def lock_matches_def)
qed

section \<open>The two outcomes of a price\<close>

definition percentages_ok :: "pricing_rule list \<Rightarrow> bool" where
  "percentages_ok rules = list_all (\<lambda>r. 0 \<le> br_percentageValue r \<and> br_percentageValue r \<le> 100) rules"

definition bounded_buckets :: "rounding_band list \<Rightarrow> bool" where
  "bounded_buckets bands =
     list_all (\<lambda>b. list_all (\<lambda>d. case rb_roundTo d of Num r \<Rightarrow> 0 \<le> r \<and> r \<le> 100 | _ \<Rightarrow> False) (bd_decimals b)) bands"

lemma small_of_rat: "\<bar>x\<bar> \<le> 10 ^ 8 \<Longrightarrow> js_of_rat x = Num (round_double x)"
proof -
  assume x: "\<bar>x\<bar> \<le> 10 ^ 8"
  have "(10 ^ 8 :: rat) \<le> 2 ^ 30" by simp
  also have "\<dots> \<le> 2 ^ 1000" by (rule power_increasing) simp_all
  finally show ?thesis using x by (intro js_of_rat_small) simp
qed

text \<open>The factor of a rule lies between nothing and the whole for a discount, and is at least one for an increase.\<close>

lemma rule_factor:
  assumes "0 \<le> p" "p \<le> 100"
  shows "\<exists>d. js_sub (Num 1) (js_div (Num p) (Num 100)) = Num d \<and> 0 \<le> d \<and> d \<le> 1"
    and "\<exists>d. js_add (Num 1) (js_div (Num p) (Num 100)) = Num d \<and> 1 \<le> d \<and> d \<le> 2"
proof -
  define q where "q = round_double (p / 100)"
  have "\<bar>p / 100\<bar> \<le> 1" using assms by simp
  then have "js_of_rat (p / 100) = Num q" unfolding q_def by (intro small_of_rat) simp
  then have d: "js_div (Num p) (Num 100) = Num q" by simp
  have q: "0 \<le> q" "q \<le> 1"
    unfolding q_def using assms dbl.rd_nonneg [of "p / 100"] dbl.rd_le_of_int [of "p / 100" 1] by simp_all
  have "js_of_rat (1 - q) = Num (round_double (1 - q))" "js_of_rat (1 + q) = Num (round_double (1 + q))"
    using q by (intro small_of_rat; simp)+
  moreover have "0 \<le> round_double (1 - q)" "round_double (1 - q) \<le> 1"
    using q dbl.rd_nonneg [of "1 - q"] dbl.rd_le_of_int [of "1 - q" 1] by simp_all
  moreover have "1 \<le> round_double (1 + q)" "round_double (1 + q) \<le> 2"
    using q dbl.rd_ge_of_int [of 1 "1 + q"] dbl.rd_le_of_int [of "1 + q" 2] by simp_all
  ultimately show "\<exists>d. js_sub (Num 1) (js_div (Num p) (Num 100)) = Num d \<and> 0 \<le> d \<and> d \<le> 1"
    and "\<exists>d. js_add (Num 1) (js_div (Num p) (Num 100)) = Num d \<and> 1 \<le> d \<and> d \<le> 2"
    unfolding d by simp_all
qed

lemma rule_price_not_NaN:
  assumes "case rule of None \<Rightarrow> True | Some r \<Rightarrow> 0 \<le> br_percentageValue r \<and> br_percentageValue r \<le> 100"
  shows "rule_price rule (Num c) \<noteq> NaN"
proof (cases rule)
  case (Some r)
  then have "0 \<le> br_percentageValue r" "br_percentageValue r \<le> 100" using assms by simp_all
  from rule_factor [OF this] obtain d e where
    "js_sub (Num 1) (js_div (Num (br_percentageValue r)) (Num 100)) = Num d"
    "js_add (Num 1) (js_div (Num (br_percentageValue r)) (Num 100)) = Num e" by blast
  then show ?thesis using Some by (simp add: rule_price_def del: js_div.simps js_add.simps)
qed (simp add: rule_price_def)

lemma discount_lowers:
  assumes "0 \<le> c" "round_double c = c" "br_actionType r = Discount"
    and "0 \<le> br_percentageValue r" "br_percentageValue r \<le> 100"
  shows "js_le (rule_price (Some r) (Num c)) (js_of_rat c)"
proof -
  from rule_factor(1) [OF assms(4,5)] obtain d where
    d: "js_sub (Num 1) (js_div (Num (br_percentageValue r)) (Num 100)) = Num d" "0 \<le> d" "d \<le> 1" by blast
  have "c * d \<le> c" using assms(1) d by (simp add: mult_left_le)
  then show ?thesis using d assms(3) by (simp add: rule_price_def js_of_rat_mono del: js_div.simps)
qed

text \<open>What a result says about how its price came about.\<close>

lemma result_flags [simp]:
  "px_skippedNoCompetitorPrice (no_competitor_result product)" "\<not> px_priceLockApplied (no_competitor_result product)"
  "px_skippedPriceExceedsLimit (exceeds_limit_result product rule c)"
  "\<not> px_priceLockApplied (exceeds_limit_result product rule c)"
  "\<not> px_skippedNoCompetitorPrice (priced_result product rule lock bands c)"
  "\<not> px_skippedPriceExceedsLimit (priced_result product rule lock bands c)"
  by (simp_all add: no_competitor_result_def exceeds_limit_result_def priced_result_def result_base_def Let_def)

lemma locked_not_skipped:
  assumes "px_priceLockApplied (calculate_product_preview params product)"
  shows "\<not> px_skippedNoCompetitorPrice (calculate_product_preview params product)"
    and "\<not> px_skippedPriceExceedsLimit (calculate_product_preview params product)"
  using assms by (auto simp: calculate_product_preview_def Let_def split: option.splits if_splits)

lemma calculate_product_preview_inv:
  assumes "calculate_product_preview params product = r"
    and "\<not> px_skippedNoCompetitorPrice r" "\<not> px_skippedPriceExceedsLimit r"
  obtains c where "calculation_base_price product (cq_baseType params) (cq_sources params) = Some c"
    and "\<not> (js_lt (pp_salePrice product)
               (rule_price (find_matching_pricing_rule product (cq_rules params) c (cq_index params)) c) \<and>
            js_lt (Num 0) (pp_salePrice product))"
    and "r = priced_result product (find_matching_pricing_rule product (cq_rules params) c (cq_index params))
               (find_matching_price_lock product (cq_locks params) (cq_index params)) (cq_rounding params) c"
proof (cases "calculation_base_price product (cq_baseType params) (cq_sources params)")
  case None
  with assms show ?thesis by (auto simp: calculate_product_preview_def no_competitor_result_def Let_def)
next
  case (Some c)
  show ?thesis
    using assms Some that [OF Some]
    by (auto simp: calculate_product_preview_def exceeds_limit_result_def Let_def split: if_splits)
qed

lemma priced_result_plain:
  assumes "\<not> px_priceLockApplied (priced_result product rule lock bands c)"
    and "\<not> px_priceRoundingApplied (priced_result product rule lock bands c)"
  shows "px_finalPrice (priced_result product rule lock bands c) = round2 (rule_price rule c)"
  using assms by (auto simp: priced_result_def Let_def split: option.splits)

lemma priced_result_locked:
  assumes "px_priceLockApplied (priced_result product rule lock bands c)"
  obtains l f where "lock = Some l" "lock_floor lock (pp_cost product) = Some f"
    and "px_finalPrice (priced_result product rule lock bands c) =
           round2 (case apply_offer_rounding f bands (Some f) of None \<Rightarrow> f | Some p \<Rightarrow> p)"
proof -
  from assms obtain f where f: "lock_floor lock (pp_cost product) = Some f"
    by (auto simp: priced_result_def Let_def)
  then obtain l where "lock = Some l" by (cases lock) (auto simp: lock_floor_def)
  moreover have "px_finalPrice (priced_result product rule lock bands c) =
           round2 (case apply_offer_rounding f bands (Some f) of None \<Rightarrow> f | Some p \<Rightarrow> p)"
    using assms f by (auto simp: priced_result_def Let_def split: option.splits)
  ultimately show ?thesis using that f by blast
qed

lemma apply_offer_rounding_inv:
  assumes "apply_offer_rounding price bands (Some m) = Some p"
  obtains band bucket where "band \<in> set bands" "bucket \<in> set (bd_decimals band)"
    and "p = round2 (if js_lt (js_add (js_floor price) (rb_roundTo bucket)) m
                     then js_add (js_add (js_floor price) (Num 1)) (rb_roundTo bucket)
                     else js_add (js_floor price) (rb_roundTo bucket))"
proof -
  obtain band where band: "find (\<lambda>b. js_le (bd_priceMin b) price \<and> js_le price (bd_priceMax b)) bands = Some band"
    using assms by (auto simp: apply_offer_rounding_def split: if_splits option.splits)
  obtain bucket where bucket:
      "find (\<lambda>d. js_le (rb_from d) (round2 (js_sub price (js_floor price))) \<and>
                 js_le (round2 (js_sub price (js_floor price))) (rb_to d)) (bd_decimals band) = Some bucket"
    using assms band by (auto simp: apply_offer_rounding_def Let_def split: if_splits option.splits)
  have "band \<in> set bands" "bucket \<in> set (bd_decimals band)"
    using band bucket by (auto simp: find_Some_iff)
  then show ?thesis
    by (rule that)
      (use assms band bucket in \<open>auto simp: apply_offer_rounding_def Let_def split: if_splits\<close>)
qed

text \<open>Rounding a price at its own floor keeps it above the floor.\<close>

lemma apply_offer_rounding_ge_floor:
  assumes f: "0 \<le> f" "f \<le> 900000" and buckets: "bounded_buckets bands"
    and p: "apply_offer_rounding (Num f) bands (Some (Num f)) = Some p"
  shows "\<exists>x. p = round2 (Num x) \<and> f \<le> x \<and> x \<le> 950000"
proof -
  from apply_offer_rounding_inv [OF p] obtain band bucket where
    b: "band \<in> set bands" "bucket \<in> set (bd_decimals band)"
    and pq: "p = round2 (if js_lt (js_add (js_floor (Num f)) (rb_roundTo bucket)) (Num f)
                     then js_add (js_add (js_floor (Num f)) (Num 1)) (rb_roundTo bucket)
                     else js_add (js_floor (Num f)) (rb_roundTo bucket))" by blast
  with buckets have "case rb_roundTo bucket of Num r \<Rightarrow> 0 \<le> r \<and> r \<le> 100 | _ \<Rightarrow> False"
    by (auto simp: bounded_buckets_def list_all_iff)
  then obtain r where r: "rb_roundTo bucket = Num r" "0 \<le> r" "r \<le> 100" by (cases "rb_roundTo bucket") auto
  define k where "k = \<lfloor>f\<rfloor>"
  have k: "0 \<le> k" "of_int k \<le> f" "f < of_int k + 1" "of_int k \<le> (900000 :: rat)" "k \<le> 900000"
    unfolding k_def using f by (simp, linarith, linarith, linarith, linarith)
  have "0 \<le> (of_int k :: rat)" using k(1) by simp
  then have s: "js_add (Num (of_int k)) (Num r) = Num (round_double (of_int k + r))"
    and t: "js_add (Num (of_int k + 1)) (Num r) = Num (round_double (of_int k + 1 + r))"
    and "js_add (Num (of_int k)) (Num 1) = Num (round_double (of_int k + 1))"
    unfolding js_add.simps using k r by (intro small_of_rat, simp)+
  then have one: "js_add (Num (of_int k)) (Num 1) = Num (of_int k + 1)"
    using k dbl.rd_of_int [of "k + 1"] by simp
  define x where "x = (if round_double (of_int k + r) < f then round_double (of_int k + 1 + r) else round_double (of_int k + r))"
  have p': "p = round2 (Num x)"
    unfolding pq js_floor.simps k_def [symmetric] r(1) s one t x_def by simp
  have up: "of_int (k + 1) \<le> round_double (of_int k + 1 + r)"
    by (rule dbl.rd_ge_of_int) (use r k in auto)
  have "f \<le> x" using up k(3) by (auto simp: x_def)
  moreover have "round_double (of_int k + r) \<le> of_int 950000" "round_double (of_int k + 1 + r) \<le> of_int 950000"
    by (rule dbl.rd_le_of_int; use k r in simp)+
  then have "x \<le> 950000" by (simp add: x_def)
  ultimately show ?thesis using p' by blast
qed

section \<open>Properties\<close>

text \<open>A product, two rules and a lock the witnesses evaluate.\<close>

definition demo_product :: preview_product where
  "demo_product = \<lparr>pp_ean = ''789'', pp_name = ''p'', pp_externalId = Some 7, pp_classificationId = None,
     pp_classificationPath = '''', pp_salePrice = Num 30, pp_cost = Num 10, pp_margin = Num 50,
     pp_offerPrice = None, pp_competitorPrices = (\<lambda>_. None)\<rparr>"

definition demo_rule :: "rat option \<Rightarrow> rat option \<Rightarrow> rat \<Rightarrow> pricing_rule" where
  "demo_rule mn mx pct = \<lparr>br_classifications = None, br_priceRangeMin = mn, br_priceRangeMax = mx,
     br_marginRangeMin = None, br_marginRangeMax = None, br_actionType = Discount,
     br_percentageValue = pct, br_active = None\<rparr>"

definition demo_params :: "pricing_rule list \<Rightarrow> price_lock list \<Rightarrow> rounding_band list \<Rightarrow> calculation_params" where
  "demo_params rules locks bands = \<lparr>cq_baseType = SalePrice, cq_sources = None, cq_rules = rules,
     cq_locks = locks, cq_rounding = bands, cq_index = index_of [] Map.empty\<rparr>"

definition demo_lock :: price_lock where
  "demo_lock = \<lparr>lk_classifications = None, lk_minMargin = 50, lk_active = None\<rparr>"

definition demo_bands :: "rounding_band list" where
  "demo_bands = [\<lparr>bd_priceMin = Num 0, bd_priceMax = Num 100,
     bd_decimals = [\<lparr>rb_from = Num 0, rb_to = Num 1, rb_roundTo = js_of_rat (99/100)\<rparr>]\<rparr>]"

text \<open>
  C7. A set of pricing rules that passes the validation is unambiguous: for every product and every
  base price (that are numbers) at most one active rule matches, so the rule that is applied does
  not depend on the order in which the database returns the rules.
\<close>

theorem validated_rules_are_unambiguous:
  assumes "build_classification_index rows = Some idx" "validate_pricing_rules rules idx = Inr ()"
    and "mset rules' = mset rules" "pp_margin product \<noteq> NaN" "c \<noteq> NaN"
  shows "length (filter (rule_matches product c idx) rules) \<le> 1 \<and>
    find_matching_pricing_rule product rules' c idx = find_matching_pricing_rule product rules c idx"
  using one_rule_matches [OF assms(1,2,4,5)] find_unique_perm [OF one_rule_matches [OF assms(1,2,4,5)] assms(3)]
  by (simp_all add: find_matching_pricing_rule_def)

theorem validated_rules_are_unambiguous_witness:
  "find_matching_pricing_rule demo_product [demo_rule (Some 20) None 10, demo_rule None (Some 10) 5] (Num 30) (index_of [] Map.empty)
     = Some (demo_rule (Some 20) None 10)"
proof -
  have b: "build_classification_index [] = Some (index_of [] Map.empty)"
    by (simp add: build_classification_index_def)
  have "validate_pricing_rules [demo_rule None (Some 10) 5, demo_rule (Some 20) None 10] (index_of [] Map.empty) = Inr ()"
    by (simp add: validate_pricing_rules_def first_clash_def index_pairs_def active_rules_of_def rules_overlap_def
        classifications_overlap_def no_items_def demo_rule_def has_price_range_def has_margin_range_def
        ranges_overlap_def upt_rec)
  from validated_rules_are_unambiguous [OF b this, of "[demo_rule (Some 20) None 10, demo_rule None (Some 10) 5]" demo_product "Num 30"]
  show ?thesis
    by (simp add: demo_product_def find_matching_pricing_rule_def rule_matches_def demo_rule_def classification_matches_def
        no_items_def has_price_range_def has_margin_range_def range_matches_def add_mset_commute)
qed

text \<open>
  C8. A price the margin lock had to lift covers the minimum margin: whatever the base price, the
  rule and the rounding buckets, the final price is at most half a cent below the price of the
  lock's minimum margin.
\<close>

theorem locked_price_covers_margin:
  assumes "calculate_product_preview params product = r" "px_priceLockApplied r"
    and "lock_floor (find_matching_price_lock product (cq_locks params) (cq_index params)) (pp_cost product) = Some (Num f)"
    and "0 \<le> f" "f \<le> 900000" "bounded_buckets (cq_rounding params)"
  shows "\<exists>q. px_finalPrice r = Num q \<and> f - half_cent \<le> q"
proof -
  have ns: "\<not> px_skippedNoCompetitorPrice r" "\<not> px_skippedPriceExceedsLimit r"
    using locked_not_skipped assms(1,2) by blast+
  obtain c where c: "r = priced_result product (find_matching_pricing_rule product (cq_rules params) c (cq_index params))
      (find_matching_price_lock product (cq_locks params) (cq_index params)) (cq_rounding params) c"
    using calculate_product_preview_inv [OF assms(1) ns] by blast
  from priced_result_locked [OF assms(2) [unfolded c]] assms(3)
  have r: "px_finalPrice r = round2 (case apply_offer_rounding (Num f) (cq_rounding params) (Some (Num f)) of None \<Rightarrow> Num f | Some p \<Rightarrow> p)"
    unfolding c by force
  have one: "\<exists>q. round2 (Num x) = Num q \<and> f - half_cent \<le> q" if "f \<le> x" "x \<le> 950000" for x
  proof -
    have "\<bar>x\<bar> \<le> 10 ^ 6" using that assms(4) by simp
    from round2_error [OF this] obtain q where "round2 (Num x) = Num q" by blast
    moreover have "js_le (Num (f - half_cent)) (round2 (Num x))"
      using that assms(4,5) by (intro round2_ge_floor) simp_all
    ultimately show ?thesis by simp
  qed
  show ?thesis
  proof (cases "apply_offer_rounding (Num f) (cq_rounding params) (Some (Num f))")
    case None
    then show ?thesis using r one [of f] assms(5) by simp
  next
    case (Some p)
    from apply_offer_rounding_ge_floor [OF assms(4-6) Some] obtain x where
      x: "p = round2 (Num x)" "f \<le> x" "x \<le> 950000" by blast
    then have "round2 p = p" using assms(4) by (simp add: round2_idem)
    then show ?thesis using r Some one [OF x(2,3)] x(1) by simp
  qed
qed

text \<open>
  Without a lock and without rounding, a price that is not skipped is the price of the matching
  rule to the cent; it never exceeds the sale price of the product.
\<close>

lemma rule_price_within_sale_price:
  assumes "calculate_product_preview params product = r"
    and "\<not> px_skippedNoCompetitorPrice r" "\<not> px_skippedPriceExceedsLimit r"
    and "\<not> px_priceLockApplied r" "\<not> px_priceRoundingApplied r"
    and "calculation_base_price product (cq_baseType params) (cq_sources params) = Some (Num c)"
    and "percentages_ok (cq_rules params)" "pp_salePrice product = Num s" "0 < s"
  shows "px_finalPrice r = round2 (rule_price (find_matching_pricing_rule product (cq_rules params) (Num c) (cq_index params)) (Num c)) \<and>
    js_le (px_finalPrice r) (round2 (Num s))"
proof -
  define rule where "rule = find_matching_pricing_rule product (cq_rules params) (Num c) (cq_index params)"
  obtain d where d: "calculation_base_price product (cq_baseType params) (cq_sources params) = Some d"
    "\<not> (js_lt (Num s) (rule_price (find_matching_pricing_rule product (cq_rules params) d (cq_index params)) d) \<and> js_lt (Num 0) (Num s))"
    "r = priced_result product (find_matching_pricing_rule product (cq_rules params) d (cq_index params))
      (find_matching_price_lock product (cq_locks params) (cq_index params)) (cq_rounding params) d"
    using calculate_product_preview_inv [OF assms(1-3)] assms(8) by metis
  have "d = Num c" using d(1) assms(6) by simp
  note d = d [unfolded this rule_def [symmetric]]
  have lim: "\<not> js_lt (Num s) (rule_price rule (Num c))" using d(2) assms(9) by simp
  note r = d(3)
  have f: "px_finalPrice r = round2 (rule_price rule (Num c))"
    using priced_result_plain assms(4,5) unfolding r by blast
  have "case rule of None \<Rightarrow> True | Some x \<Rightarrow> 0 \<le> br_percentageValue x \<and> br_percentageValue x \<le> 100"
    using assms(7) unfolding rule_def find_matching_pricing_rule_def percentages_ok_def
    by (auto simp: list_all_iff find_Some_iff split: option.splits)
  then have "rule_price rule (Num c) \<noteq> NaN" by (rule rule_price_not_NaN)
  with lim consider p where "rule_price rule (Num c) = Num p" "p \<le> s" | "rule_price rule (Num c) = NegInf"
    by (cases "rule_price rule (Num c)") auto
  then have "js_le (px_finalPrice r) (round2 (Num s))"
  proof cases
    case 1
    then show ?thesis unfolding f using round2_mono by simp
  next
    case 2
    have "js_le NegInf (round2 (Num s))"
    proof -
      have "js_le (round2 (Num (min 0 s))) (round2 (Num s))" by (rule round2_mono) simp
      moreover have "round2 (Num 0) = Num 0" using round2_of_int [of 0] by simp
      ultimately show ?thesis using assms(9) by (cases "round2 (Num s)") simp_all
    qed
    moreover have "round2 NegInf = NegInf" by (simp add: round2_def js_inf_of_sign_def)
    ultimately show ?thesis unfolding f 2 by simp
  qed
  then show ?thesis using f rule_def by simp
qed

lemma demo_half: "rule_price (Some (demo_rule None None 50)) (Num 30) = Num 15"
  by code_simp

lemma demo_matches [simp]:
  "find_matching_pricing_rule demo_product [demo_rule None None p] c ix = Some (demo_rule None None p)"
  "find_matching_pricing_rule demo_product [] c ix = None"
  "find_matching_price_lock demo_product [demo_lock] ix = Some demo_lock"
  "find_matching_price_lock demo_product [] ix = None"
  by (simp_all add: find_matching_pricing_rule_def find_matching_price_lock_def rule_matches_def lock_matches_def
      demo_rule_def demo_lock_def classification_matches_def no_items_def has_price_range_def has_margin_range_def)

lemma demo_fields [simp]:
  "pp_salePrice demo_product = Num 30" "pp_cost demo_product = Num 10" "pp_offerPrice demo_product = None"
  "own_price demo_product = Num 30" "lk_minMargin demo_lock = 50" "br_percentageValue (demo_rule mn mx p) = p"
  "br_actionType (demo_rule mn mx p) = Discount"
  by (simp_all add: demo_product_def demo_lock_def demo_rule_def own_price_def)

lemma demo_preview:
  "calculate_product_preview (demo_params rs ls bs) demo_product =
     (if js_lt (Num 30) (rule_price (find_matching_pricing_rule demo_product rs (Num 30) (index_of [] Map.empty)) (Num 30))
      then exceeds_limit_result demo_product (find_matching_pricing_rule demo_product rs (Num 30) (index_of [] Map.empty)) (Num 30)
      else priced_result demo_product (find_matching_pricing_rule demo_product rs (Num 30) (index_of [] Map.empty))
        (find_matching_price_lock demo_product ls (index_of [] Map.empty)) bs (Num 30))"
  by (simp add: calculate_product_preview_def calculation_base_price_def demo_params_def Let_def)

theorem locked_price_covers_margin_witness:
  "\<exists>q. px_finalPrice (calculate_product_preview (demo_params [demo_rule None None 50] [demo_lock] demo_bands) demo_product) = Num q \<and>
     20 - half_cent \<le> q"
proof -
  have fl: "lock_floor (Some demo_lock) (Num 10) = Some (Num 20)" by code_simp
  have "js_lt (margin_of_price (Num 15) (Num 10)) (Num 50)" by code_simp
  then have "px_priceLockApplied (calculate_product_preview (demo_params [demo_rule None None 50] [demo_lock] demo_bands) demo_product)"
    using fl by (simp add: demo_preview demo_half priced_result_def Let_def)
  moreover have "bounded_buckets demo_bands" by code_simp
  ultimately show ?thesis
    using fl locked_price_covers_margin [OF refl, of "demo_params [demo_rule None None 50] [demo_lock] demo_bands" demo_product 20]
    by (simp add: demo_params_def)
qed

text \<open>
  The limit is checked on the price of the rule only. The rounding that follows can take the
  price above the sale price: a product that sells for 30.00 is offered for 30.99.
\<close>

lemma rounding_exceeds_sale_price:
  "\<not> px_skippedPriceExceedsLimit (calculate_product_preview (demo_params [] [] demo_bands) demo_product) \<and>
   js_lt (pp_salePrice demo_product) (px_finalPrice (calculate_product_preview (demo_params [] [] demo_bands) demo_product))"
proof -
  have "apply_offer_rounding (Num 30) demo_bands None \<noteq> None" by code_simp
  then obtain p where p: "apply_offer_rounding (Num 30) demo_bands None = Some p" by blast
  have "js_lt (Num 30) (round2 (the (apply_offer_rounding (Num 30) demo_bands None)))" by code_simp
  then show ?thesis
    using p by (simp add: demo_preview rule_price_def priced_result_def Let_def lock_floor_def result_base_def)
qed

end
