(* ===== verification/Price_Rounding.thy ===== *)
theory Price_Rounding
  imports Catalog_Mutation
begin

text \<open>
  The price rounding configuration of a tenant: \<open>src/tenant-api/config/price-rounding.service.ts\<close>
  over \<open>core.price_rounding_range\<close> and \<open>core.price_rounding_rule\<close>. The tables are shared by all
  tenants; the rules of a range are deleted with it by the foreign key. The numbers of a request
  are finite doubles; the columns keep two decimals and refuse what is too large for them.
\<close>

section \<open>Tables and requests\<close>

record range_row =
  rg_id :: string
  rg_tenantId :: string
  rg_priceMin :: rat
  rg_priceMax :: rat

record bucket_row =
  bu_tenantId :: string
  bu_rangeId :: string
  bu_decimalMin :: rat
  bu_decimalMax :: rat
  bu_roundTo :: rat

text \<open>
  Beside the tables, the order in which the database meets the rows of a query, as a rank: it is
  what an \<open>ORDER BY\<close> leaves open among rows with equal keys.
\<close>

record rounding_db =
  ro_ranges :: "range_row list"
  ro_buckets :: "bucket_row list"
  ro_tenants :: "string \<Rightarrow> string option"
  ro_rangeRank :: "range_row \<Rightarrow> nat"
  ro_bucketRank :: "string list \<Rightarrow> bucket_row \<Rightarrow> nat"

record bucket_dto =
  bk_decimalMin :: rat
  bk_decimalMax :: rat
  bk_roundTo :: rat

record create_range_dto =
  cr_priceMin :: rat
  cr_priceMax :: rat
  cr_rules :: "bucket_dto list option"

record update_range_dto =
  ur_priceMin :: "rat option"
  ur_priceMax :: "rat option"
  ur_rules :: "bucket_dto list option"

record range_api =
  rp_id :: string
  rp_priceMin :: rat
  rp_priceMax :: rat
  rp_rules :: "bucket_dto list"

text \<open>Writing a number to a column of scale two, and reading it back with \<open>Number\<close>.\<close>

definition to_column :: "rat \<Rightarrow> rat" where
  "to_column x = numeric_12_2 (decimal_of x)"

text \<open>
  \<open>numeric(p, 2)\<close> has \<open>p - 2\<close> digits before the point: a number that has more after rounding is
  refused (SQLSTATE 22003).
\<close>

definition fits_numeric :: "nat \<Rightarrow> rat \<Rightarrow> bool" where
  "fits_numeric p x = (\<bar>to_column x\<bar> < 10 ^ (p - 2))"

definition from_column :: "rat \<Rightarrow> rat" where
  "from_column x = round_double x"

section \<open>Reads\<close>

definition bucket_of_row :: "bucket_row \<Rightarrow> bucket_dto" where
  "bucket_of_row b = \<lparr>bk_decimalMin = from_column (bu_decimalMin b), bk_decimalMax = from_column (bu_decimalMax b),
     bk_roundTo = from_column (bu_roundTo b)\<rparr>"

definition rules_for :: "string list \<Rightarrow> rounding_db \<Rightarrow> string \<Rightarrow> bucket_dto list" where
  "rules_for rangeIds db i =
     map bucket_of_row (filter (\<lambda>b. bu_rangeId b = i)
       (sort_key bu_decimalMin (sort_key (ro_bucketRank db rangeIds)
         (filter (\<lambda>b. bu_rangeId b \<in> set rangeIds) (ro_buckets db)))))"

definition list_ranges :: "string \<Rightarrow> rounding_db \<Rightarrow> range_api list outcome" where
  "list_ranges slug db = bind_outcome (resolve_tenant_id slug (ro_tenants db)) (\<lambda>tenantId.
     let ranges = sort_key rg_priceMin (sort_key (ro_rangeRank db)
           (filter (\<lambda>r. rg_tenantId r = tenantId) (ro_ranges db))) in
     Inr (map (\<lambda>r. \<lparr>rp_id = rg_id r, rp_priceMin = from_column (rg_priceMin r), rp_priceMax = from_column (rg_priceMax r),
                    rp_rules = rules_for (map rg_id ranges) db (rg_id r)\<rparr>) ranges))"

definition fetch_range :: "string \<Rightarrow> string \<Rightarrow> rounding_db \<Rightarrow> range_api outcome" where
  "fetch_range tenantId i db =
     (case find (\<lambda>r. rg_tenantId r = tenantId \<and> rg_id r = i) (ro_ranges db) of
        None \<Rightarrow> Inl (NotFoundException (''range '' @ i @ '' not found''))
      | Some r \<Rightarrow> Inr \<lparr>rp_id = rg_id r, rp_priceMin = from_column (rg_priceMin r), rp_priceMax = from_column (rg_priceMax r),
                      rp_rules = rules_for [i] db i\<rparr>)"

definition get_range :: "string \<Rightarrow> string \<Rightarrow> rounding_db \<Rightarrow> range_api outcome" where
  "get_range slug i db = bind_outcome (resolve_tenant_id slug (ro_tenants db)) (\<lambda>tenantId. fetch_range tenantId i db)"

section \<open>Writes\<close>

definition sort_rules :: "bucket_dto list \<Rightarrow> bucket_dto list" where
  "sort_rules rules = sort_key bk_decimalMin rules"

definition assert_band :: "rat \<Rightarrow> rat \<Rightarrow> unit outcome" where
  "assert_band priceMin priceMax =
     (if priceMax < priceMin then Inl (BadRequestException ''priceMin must be <= priceMax'') else Inr ())"

definition assert_rules :: "bucket_dto list \<Rightarrow> unit outcome" where
  "assert_rules rules =
     (if list_ex (\<lambda>r. bk_decimalMax r < bk_decimalMin r) rules
      then Inl (BadRequestException ''decimalMin must be <= decimalMax'') else Inr ())"

definition insert_rules :: "string \<Rightarrow> string \<Rightarrow> bucket_dto list \<Rightarrow> rounding_db \<Rightarrow> rounding_db" where
  "insert_rules tenantId rangeId rules db =
     foldl (\<lambda>d r. d\<lparr>ro_buckets := ro_buckets d @ [\<lparr>bu_tenantId = tenantId, bu_rangeId = rangeId,
        bu_decimalMin = to_column (bk_decimalMin r), bu_decimalMax = to_column (bk_decimalMax r),
        bu_roundTo = to_column (bk_roundTo r)\<rparr>]\<rparr>) db rules"

text \<open>The rows an insert of these numbers would write fit their columns, \<open>numeric(10,2)\<close> and \<open>numeric(4,2)\<close>.\<close>

definition band_fits :: "rat \<Rightarrow> rat \<Rightarrow> bool" where
  "band_fits priceMin priceMax = (fits_numeric 10 priceMin \<and> fits_numeric 10 priceMax)"

definition bucket_fits :: "bucket_dto \<Rightarrow> bool" where
  "bucket_fits r = (fits_numeric 4 (bk_decimalMin r) \<and> fits_numeric 4 (bk_decimalMax r) \<and> fits_numeric 4 (bk_roundTo r))"

text \<open>
  The id is the one the database generates. A statement that fails fails the request, and its
  transaction leaves the tables as they were.
\<close>

definition create_range :: "string \<Rightarrow> string \<Rightarrow> create_range_dto \<Rightarrow> rounding_db \<Rightarrow> rounding_db \<times> range_api outcome" where
  "create_range newId slug dto db =
     (case bind_outcome (resolve_tenant_id slug (ro_tenants db)) (\<lambda>tenantId.
             bind_outcome (assert_band (cr_priceMin dto) (cr_priceMax dto)) (\<lambda>_.
             bind_outcome (assert_rules (case cr_rules dto of None \<Rightarrow> [] | Some rs \<Rightarrow> rs)) (\<lambda>_.
             if band_fits (cr_priceMin dto) (cr_priceMax dto) \<and>
                list_all bucket_fits (case cr_rules dto of None \<Rightarrow> [] | Some rs \<Rightarrow> rs)
             then Inr tenantId else Inl (Error ''22003'')))) of
        Inl e \<Rightarrow> (db, Inl e)
      | Inr tenantId \<Rightarrow>
          let rules = (case cr_rules dto of None \<Rightarrow> [] | Some rs \<Rightarrow> rs);
              db1 = db\<lparr>ro_ranges := ro_ranges db @ [\<lparr>rg_id = newId, rg_tenantId = tenantId,
                 rg_priceMin = to_column (cr_priceMin dto), rg_priceMax = to_column (cr_priceMax dto)\<rparr>]\<rparr>
          in (insert_rules tenantId newId rules db1,
              Inr \<lparr>rp_id = newId, rp_priceMin = cr_priceMin dto, rp_priceMax = cr_priceMax dto, rp_rules = sort_rules rules\<rparr>))"

definition update_range ::
  "string \<Rightarrow> string \<Rightarrow> update_range_dto \<Rightarrow> rounding_db \<Rightarrow> rounding_db \<times> range_api outcome" where
  "update_range slug i dto db =
     (case bind_outcome (resolve_tenant_id slug (ro_tenants db)) (\<lambda>tenantId.
             bind_outcome (fetch_range tenantId i db) (\<lambda>current.
             let priceMin = (case ur_priceMin dto of None \<Rightarrow> rp_priceMin current | Some x \<Rightarrow> x);
                 priceMax = (case ur_priceMax dto of None \<Rightarrow> rp_priceMax current | Some x \<Rightarrow> x)
             in bind_outcome (assert_band priceMin priceMax) (\<lambda>_.
                bind_outcome (case ur_rules dto of None \<Rightarrow> Inr () | Some rs \<Rightarrow> assert_rules rs) (\<lambda>_.
                if band_fits priceMin priceMax \<and> list_all bucket_fits (case ur_rules dto of None \<Rightarrow> [] | Some rs \<Rightarrow> rs)
                then Inr (tenantId, current, priceMin, priceMax) else Inl (Error ''22003''))))) of
        Inl e \<Rightarrow> (db, Inl e)
      | Inr (tenantId, current, priceMin, priceMax) \<Rightarrow>
          let db1 = db\<lparr>ro_ranges := update_where (\<lambda>r. rg_id r = i)
                (\<lambda>r. r\<lparr>rg_priceMin := to_column priceMin, rg_priceMax := to_column priceMax\<rparr>) (ro_ranges db)\<rparr>
          in (case ur_rules dto of
                None \<Rightarrow> (db1, Inr \<lparr>rp_id = i, rp_priceMin = priceMin, rp_priceMax = priceMax, rp_rules = rp_rules current\<rparr>)
              | Some rs \<Rightarrow>
                  (insert_rules tenantId i rs (db1\<lparr>ro_buckets := filter (\<lambda>b. bu_rangeId b \<noteq> i) (ro_buckets db1)\<rparr>),
                   Inr \<lparr>rp_id = i, rp_priceMin = priceMin, rp_priceMax = priceMax, rp_rules = sort_rules rs\<rparr>)))"

definition remove_range :: "string \<Rightarrow> string \<Rightarrow> rounding_db \<Rightarrow> rounding_db \<times> string outcome" where
  "remove_range slug i db =
     (case get_range slug i db of
        Inl e \<Rightarrow> (db, Inl e)
      | Inr _ \<Rightarrow> (db\<lparr>ro_ranges := filter (\<lambda>r. rg_id r \<noteq> i) (ro_ranges db),
                    ro_buckets := filter (\<lambda>b. bu_rangeId b \<noteq> i) (ro_buckets db)\<rparr>, Inr i))"

section \<open>Sorting by equivalent keys\<close>

lemma insort_key_cong:
  assumes "\<And>y. y \<in> set ys \<Longrightarrow> f x \<le> f y \<longleftrightarrow> g x \<le> g y"
  shows "insort_key f x ys = insort_key g x ys"
  using assms by (induction ys) auto

lemma sort_key_cong_le:
  assumes "\<And>x y. x \<in> set xs \<Longrightarrow> y \<in> set xs \<Longrightarrow> f x \<le> f y \<longleftrightarrow> g x \<le> g y"
  shows "sort_key f xs = sort_key g xs"
  using assms
proof (induction xs)
  case (Cons x xs)
  then have "sort_key f xs = sort_key g xs" by simp
  moreover have "insort_key f x (sort_key g xs) = insort_key g x (sort_key g xs)"
    by (rule insort_key_cong) (use Cons.prems in simp)
  ultimately show ?case by simp
qed simp

lemma sort_key_map: "sort_key g (map h xs) = map h (sort_key (g \<circ> h) xs)"
proof (induction xs)
  case (Cons x xs)
  have "insort_key g (h x) (map h ys) = map h (insort_key (\<lambda>a. g (h a)) x ys)" for ys
    by (induction ys) auto
  then show ?case using Cons by (simp add: comp_def)
qed simp

section \<open>Inserted rules\<close>

definition bucket_row_of :: "string \<Rightarrow> string \<Rightarrow> bucket_dto \<Rightarrow> bucket_row" where
  "bucket_row_of tenantId rangeId r = \<lparr>bu_tenantId = tenantId, bu_rangeId = rangeId,
     bu_decimalMin = to_column (bk_decimalMin r), bu_decimalMax = to_column (bk_decimalMax r),
     bu_roundTo = to_column (bk_roundTo r)\<rparr>"

lemma insert_rules_tables [simp]:
  "ro_buckets (insert_rules t i rs db) = ro_buckets db @ map (bucket_row_of t i) rs"
  "ro_ranges (insert_rules t i rs db) = ro_ranges db"
  "ro_tenants (insert_rules t i rs db) = ro_tenants db"
  "ro_rangeRank (insert_rules t i rs db) = ro_rangeRank db"
  "ro_bucketRank (insert_rules t i rs db) = ro_bucketRank db"
  by (induction rs arbitrary: db) (simp_all add: insert_rules_def bucket_row_of_def)

text \<open>A number the columns keep: it is read back as it was written.\<close>

definition two_decimals :: "rat \<Rightarrow> bool" where
  "two_decimals x = (from_column (to_column x) = x)"

lemma to_column_le_iff:
  "two_decimals x \<Longrightarrow> two_decimals y \<Longrightarrow> to_column x \<le> to_column y \<longleftrightarrow> x \<le> y"
  unfolding two_decimals_def from_column_def by (metis round_double_mono linorder_le_cases order_antisym)

definition two_decimal_rules :: "bucket_dto list \<Rightarrow> bool" where
  "two_decimal_rules rs = list_all (\<lambda>r. two_decimals (bk_decimalMin r) \<and> two_decimals (bk_decimalMax r) \<and> two_decimals (bk_roundTo r)) rs"

text \<open>Read back, in whatever order the database returns rows with equal keys.\<close>

lemma rules_for_inserted:
  assumes own: "filter (\<lambda>b. bu_rangeId b = i) (ro_buckets db) = map (bucket_row_of t i) rs"
    and two: "two_decimal_rules rs"
  shows "mset (rules_for [i] db i) = mset rs" "sorted (map bk_decimalMin (rules_for [i] db i))"
proof -
  let ?rows = "sort_key bu_decimalMin (sort_key (ro_bucketRank db [i]) (map (bucket_row_of t i) rs))"
  have "filter (\<lambda>b. bu_rangeId b = i) ?rows = ?rows"
    by (auto simp: bucket_row_of_def filter_id_conv)
  then have e: "rules_for [i] db i = map bucket_of_row ?rows"
    using own by (simp add: rules_for_def)
  have "bucket_of_row (bucket_row_of t i r) = r" if "r \<in> set rs" for r
    using that two by (auto simp: bucket_of_row_def bucket_row_of_def two_decimal_rules_def list_all_iff two_decimals_def)
  then have "map (bucket_of_row \<circ> bucket_row_of t i) rs = rs" by (intro map_idI) simp
  then have "mset (map bucket_of_row (map (bucket_row_of t i) rs)) = mset rs" by simp
  moreover have "mset ?rows = mset (map (bucket_row_of t i) rs)" by simp
  ultimately show "mset (rules_for [i] db i) = mset rs" unfolding e by (metis mset_map)
  have "sorted (map bu_decimalMin ?rows)" by simp
  then have "sorted_wrt (\<lambda>x y. from_column (bu_decimalMin x) \<le> from_column (bu_decimalMin y)) ?rows"
    unfolding sorted_map by (rule sorted_wrt_mono_rel [rotated]) (simp add: from_column_def round_double_mono)
  then show "sorted (map bk_decimalMin (rules_for [i] db i))"
    unfolding e by (simp add: sorted_map sorted_wrt_map bucket_of_row_def)
qed

lemma sorted_unique_by_key:
  assumes "mset xs = mset ys" "sorted (map f xs)" "sorted (map f ys)" "distinct (map f ys)"
  shows "xs = ys"
proof (rule map_sorted_distinct_set_unique [OF _ assms(2) _ assms(3,4)])
  show "set xs = set ys" using assms(1) by (rule mset_eq_setD)
  then show "inj_on f (set xs \<union> set ys)" using assms(4) by (simp add: distinct_map)
  show "distinct (map f xs)"
    using assms(1,4) by (metis mset_map mset_eq_imp_distinct_iff)
qed

section \<open>Properties\<close>

text \<open>
  C16. A created range reads back as the response says, when its numbers have at most two decimals
  (the columns round the others): the range fetched by the returned id has the same band and the
  same buckets, in ascending order of \<open>decimalMin\<close>. Buckets that share a \<open>decimalMin\<close>, which the
  service accepts, may come in any order among themselves; when there are none, what is fetched
  is the response.
\<close>

theorem created_range_reads_back:
  assumes "create_range newId slug dto db = (db', Inr r)"
    and "newId \<notin> rg_id ` set (ro_ranges db)" "newId \<notin> bu_rangeId ` set (ro_buckets db)"
    and "two_decimals (cr_priceMin dto)" "two_decimals (cr_priceMax dto)"
    and "two_decimal_rules (case cr_rules dto of None \<Rightarrow> [] | Some rs \<Rightarrow> rs)"
  shows "\<exists>r'. get_range slug (rp_id r) db' = Inr r' \<and> rp_id r' = rp_id r \<and>
    rp_priceMin r' = rp_priceMin r \<and> rp_priceMax r' = rp_priceMax r \<and>
    mset (rp_rules r') = mset (rp_rules r) \<and> sorted (map bk_decimalMin (rp_rules r')) \<and>
    (distinct (map bk_decimalMin (rp_rules r)) \<longrightarrow> r' = r)"
proof -
  define rules where "rules = (case cr_rules dto of None \<Rightarrow> [] | Some rs \<Rightarrow> rs)"
  obtain t where t: "resolve_tenant_id slug (ro_tenants db) = Inr t"
    and db': "db' = insert_rules t newId rules (db\<lparr>ro_ranges := ro_ranges db @ [\<lparr>rg_id = newId, rg_tenantId = t,
                 rg_priceMin = to_column (cr_priceMin dto), rg_priceMax = to_column (cr_priceMax dto)\<rparr>]\<rparr>)"
    and r: "r = \<lparr>rp_id = newId, rp_priceMin = cr_priceMin dto, rp_priceMax = cr_priceMax dto, rp_rules = sort_rules rules\<rparr>"
    using assms(1) unfolding create_range_def rules_def
    by (auto simp: Let_def bind_outcome_def split: sum.splits if_splits)
  have none: "find (\<lambda>q. rg_tenantId q = t \<and> rg_id q = newId) (ro_ranges db) = None"
    using assms(2) by (auto simp: find_None_iff)
  have app: "find P (xs @ ys) = (case find P xs of None \<Rightarrow> find P ys | Some x \<Rightarrow> Some x)" for P :: "range_row \<Rightarrow> bool" and xs ys
    by (induction xs) auto
  have "filter (\<lambda>b. bu_rangeId b = newId) (ro_buckets db') = map (bucket_row_of t newId) rules"
    using assms(3) by (auto simp: db' filter_empty_conv filter_id_conv bucket_row_of_def)
  note readback = rules_for_inserted [OF this assms(6) [folded rules_def]]
  have m: "mset (rules_for [newId] db' newId) = mset (sort_rules rules)" using readback(1) by (simp add: sort_rules_def)
  have eq: "distinct (map bk_decimalMin (sort_rules rules)) \<Longrightarrow> rules_for [newId] db' newId = sort_rules rules"
    using sorted_unique_by_key [OF m readback(2)] by (simp add: sort_rules_def)
  have g: "get_range slug newId db' = Inr \<lparr>rp_id = newId, rp_priceMin = cr_priceMin dto,
      rp_priceMax = cr_priceMax dto, rp_rules = rules_for [newId] db' newId\<rparr>"
    using t none assms(4,5) by (simp add: get_range_def fetch_range_def db' app two_decimals_def)
  show ?thesis
    by (rule exI [of _ "\<lparr>rp_id = newId, rp_priceMin = cr_priceMin dto, rp_priceMax = cr_priceMax dto,
        rp_rules = rules_for [newId] db' newId\<rparr>"]) (auto simp: r g m readback(2) eq)
qed

theorem created_range_reads_back_witness:
  "\<exists>db' r r'. create_range ''g1'' ''acme'' \<lparr>cr_priceMin = 0, cr_priceMax = 10, cr_rules = Some [\<lparr>bk_decimalMin = 0, bk_decimalMax = 1, bk_roundTo = 1\<rparr>]\<rparr>
       \<lparr>ro_ranges = [], ro_buckets = [], ro_tenants = [''acme'' \<mapsto> ''t1''], ro_rangeRank = \<lambda>_. 0, ro_bucketRank = \<lambda>_ _. 0\<rparr> = (db', Inr r) \<and>
     get_range ''acme'' (rp_id r) db' = Inr r' \<and> mset (rp_rules r') = mset (rp_rules r)"
proof -
  let ?dto = "\<lparr>cr_priceMin = 0, cr_priceMax = 10, cr_rules = Some [\<lparr>bk_decimalMin = 0, bk_decimalMax = 1, bk_roundTo = 1\<rparr>]\<rparr>"
  let ?db = "\<lparr>ro_ranges = [], ro_buckets = [], ro_tenants = [''acme'' \<mapsto> ''t1''], ro_rangeRank = \<lambda>_. 0, ro_bucketRank = \<lambda>_ _. 0\<rparr>"
  have "to_column 0 = 0" "to_column 1 = 1" "to_column 10 = 10" by code_simp+
  then obtain db' r where c: "create_range ''g1'' ''acme'' ?dto ?db = (db', Inr r)"
    by (simp add: create_range_def resolve_tenant_id_def assert_band_def assert_rules_def Let_def band_fits_def
        bucket_fits_def fits_numeric_def)
  have "two_decimals 0" "two_decimals 1" "two_decimals 10" by code_simp+
  then obtain r' where "get_range ''acme'' (rp_id r) db' = Inr r'" "mset (rp_rules r') = mset (rp_rules r)"
    using created_range_reads_back [OF c] by (auto simp: two_decimal_rules_def)
  with c show ?thesis by blast
qed

text \<open>The ids of the ranges are unique, and no bucket outlives its range.\<close>

definition rounding_ok :: "rounding_db \<Rightarrow> bool" where
  "rounding_ok db = (distinct (map rg_id (ro_ranges db)) \<and> bu_rangeId ` set (ro_buckets db) \<subseteq> rg_id ` set (ro_ranges db))"

datatype rounding_request =
    CreateRange string create_range_dto
  | UpdateRange string update_range_dto
  | RemoveRange string

fun rounding_write :: "string \<Rightarrow> rounding_request \<Rightarrow> rounding_db \<Rightarrow> rounding_db" where
  "rounding_write slug (CreateRange newId dto) db = fst (create_range newId slug dto db)"
| "rounding_write slug (UpdateRange i dto) db = fst (update_range slug i dto db)"
| "rounding_write slug (RemoveRange i) db = fst (remove_range slug i db)"

fun fresh_request :: "rounding_request \<Rightarrow> rounding_db \<Rightarrow> bool" where
  "fresh_request (CreateRange newId dto) db = (newId \<notin> rg_id ` set (ro_ranges db))"
| "fresh_request _ db = True"

text \<open>What a tenant sees: its ranges and their buckets, in table order.\<close>

definition tenant_view :: "string \<Rightarrow> rounding_db \<Rightarrow> range_row list \<times> bucket_row list" where
  "tenant_view t db = (filter (\<lambda>r. rg_tenantId r = t) (ro_ranges db),
     filter (\<lambda>b. bu_rangeId b \<in> rg_id ` {r \<in> set (ro_ranges db). rg_tenantId r = t}) (ro_buckets db))"

lemma list_ranges_of_view:
  assumes "tenant_view t db = tenant_view t db'" "ro_tenants db' = ro_tenants db" "ro_tenants db slug = Some t"
    and rank: "ro_rangeRank db' = ro_rangeRank db" "ro_bucketRank db' = ro_bucketRank db"
  shows "list_ranges slug db = list_ranges slug db'"
proof -
  define rs where "rs = sort_key rg_priceMin (sort_key (ro_rangeRank db) (filter (\<lambda>r. rg_tenantId r = t) (ro_ranges db)))"
  have rs': "sort_key rg_priceMin (sort_key (ro_rangeRank db) (filter (\<lambda>r. rg_tenantId r = t) (ro_ranges db'))) = rs"
    using assms(1) by (simp add: rs_def tenant_view_def)
  have s: "set (map rg_id rs) = rg_id ` {r \<in> set (ro_ranges db). rg_tenantId r = t}" by (auto simp: rs_def)
  have s': "set (map rg_id rs) = rg_id ` {r \<in> set (ro_ranges db'). rg_tenantId r = t}" by (auto simp: rs' [symmetric])
  have "filter (\<lambda>b. bu_rangeId b \<in> set (map rg_id rs)) (ro_buckets db) = filter (\<lambda>b. bu_rangeId b \<in> set (map rg_id rs)) (ro_buckets db')"
    using assms(1) by (subst s, subst s') (simp add: tenant_view_def)
  then have "rules_for (map rg_id rs) db = rules_for (map rg_id rs) db'"
    by (intro ext) (simp add: rules_for_def rank)
  then show ?thesis
    using assms(2,3) rs' by (simp add: list_ranges_def resolve_tenant_id_def rs_def [symmetric] Let_def rank)
qed

lemma fetch_range_row:
  assumes "fetch_range t i db = Inr r"
  obtains row where "row \<in> set (ro_ranges db)" "rg_id row = i" "rg_tenantId row = t"
  using assms by (auto simp: fetch_range_def find_Some_iff split: option.splits) (metis nth_mem)

lemma view_of_updated:
  assumes "\<forall>r \<in> set (ro_ranges db). rg_id r = i \<longrightarrow> rg_tenantId r = a" "b \<noteq> a"
    and "\<And>r. rg_id (f r) = rg_id r" "\<And>r. rg_tenantId (f r) = rg_tenantId r"
  shows "filter (\<lambda>r. rg_tenantId r = b) (update_where (\<lambda>r. rg_id r = i) f (ro_ranges db)) = filter (\<lambda>r. rg_tenantId r = b) (ro_ranges db)"
proof -
  have "\<forall>r \<in> set rs. rg_id r = i \<longrightarrow> rg_tenantId r = a \<Longrightarrow>
    filter (\<lambda>r. rg_tenantId r = b) (update_where (\<lambda>r. rg_id r = i) f rs) = filter (\<lambda>r. rg_tenantId r = b) rs" for rs
    using assms(2-4) by (induction rs) (auto simp: update_where_def)
  then show ?thesis using assms(1) by blast
qed

text \<open>
  A write that touches only the rows of the range \<open>i\<close>, of tenant \<open>a\<close>, leaves the view of any other
  tenant.
\<close>

lemma view_of_range_write:
  assumes "b \<noteq> a"
    and "filter (\<lambda>r. rg_id r \<noteq> i) (ro_ranges db') = filter (\<lambda>r. rg_id r \<noteq> i) (ro_ranges db)"
    and "filter (\<lambda>x. bu_rangeId x \<noteq> i) (ro_buckets db') = filter (\<lambda>x. bu_rangeId x \<noteq> i) (ro_buckets db)"
    and "\<forall>r \<in> set (ro_ranges db) \<union> set (ro_ranges db'). rg_id r = i \<longrightarrow> rg_tenantId r = a"
  shows "tenant_view b db' = tenant_view b db"
proof -
  have f: "filter (\<lambda>r. rg_tenantId r = b) xs = filter (\<lambda>r. rg_tenantId r = b) (filter (\<lambda>r. rg_id r \<noteq> i) xs)"
    if "\<forall>r \<in> set xs. rg_id r = i \<longrightarrow> rg_tenantId r = a" for xs
    using that assms(1) by (auto intro!: filter_cong)
  have r: "filter (\<lambda>r. rg_tenantId r = b) (ro_ranges db') = filter (\<lambda>r. rg_tenantId r = b) (ro_ranges db)"
    using f [of "ro_ranges db"] f [of "ro_ranges db'"] assms(2,4) by simp
  define I where "I = rg_id ` {r \<in> set (ro_ranges db). rg_tenantId r = b}"
  have "I = rg_id ` set (filter (\<lambda>r. rg_tenantId r = b) (ro_ranges db))" by (auto simp: I_def)
  then have I': "rg_id ` {r \<in> set (ro_ranges db'). rg_tenantId r = b} = I" unfolding r [symmetric] by auto
  have "i \<notin> I" using assms(1,4) by (auto simp: I_def)
  then have g: "filter (\<lambda>x. bu_rangeId x \<in> I) xs = filter (\<lambda>x. bu_rangeId x \<in> I) (filter (\<lambda>x. bu_rangeId x \<noteq> i) xs)" for xs
    by (auto intro!: filter_cong)
  show ?thesis
    using r g [of "ro_buckets db"] g [of "ro_buckets db'"] assms(3) by (simp add: tenant_view_def I' I_def [symmetric])
qed

lemma unique_tenant:
  assumes "rounding_ok db" "row \<in> set (ro_ranges db)" "rg_id row = i" "rg_tenantId row = a"
  shows "\<forall>r \<in> set (ro_ranges db). rg_id r = i \<longrightarrow> rg_tenantId r = a"
proof (intro ballI impI)
  fix r assume "r \<in> set (ro_ranges db)" "rg_id r = i"
  then have "r = row" using assms(1-3) by (auto simp: rounding_ok_def distinct_map dest: inj_onD)
  then show "rg_tenantId r = a" using assms(4) by simp
qed

lemma filter_update_where:
  "(\<And>r. rg_id (f r) = rg_id r) \<Longrightarrow>
   filter (\<lambda>r. rg_id r \<noteq> i) (update_where (\<lambda>r. rg_id r = i) f rs) = filter (\<lambda>r. rg_id r \<noteq> i) rs"
  by (induction rs) (auto simp: update_where_def)

lemma update_range_shape:
  assumes "fst (update_range slug i dto db) \<noteq> db"
  shows "\<exists>f bs. fst (update_range slug i dto db) = db\<lparr>ro_ranges := update_where (\<lambda>r. rg_id r = i) f (ro_ranges db), ro_buckets := bs\<rparr> \<and>
      (\<forall>r. rg_id (f r) = rg_id r \<and> rg_tenantId (f r) = rg_tenantId r) \<and>
      filter (\<lambda>x. bu_rangeId x \<noteq> i) bs = filter (\<lambda>x. bu_rangeId x \<noteq> i) (ro_buckets db)"
proof (cases "bind_outcome (resolve_tenant_id slug (ro_tenants db)) (\<lambda>tenantId.
             bind_outcome (fetch_range tenantId i db) (\<lambda>current.
             let priceMin = (case ur_priceMin dto of None \<Rightarrow> rp_priceMin current | Some x \<Rightarrow> x);
                 priceMax = (case ur_priceMax dto of None \<Rightarrow> rp_priceMax current | Some x \<Rightarrow> x)
             in bind_outcome (assert_band priceMin priceMax) (\<lambda>_.
                bind_outcome (case ur_rules dto of None \<Rightarrow> Inr () | Some rs \<Rightarrow> assert_rules rs) (\<lambda>_.
                if band_fits priceMin priceMax \<and> list_all bucket_fits (case ur_rules dto of None \<Rightarrow> [] | Some rs \<Rightarrow> rs)
                then Inr (tenantId, current, priceMin, priceMax) else Inl (Error ''22003'')))))")
  case (Inl e)
  then show ?thesis using assms unfolding update_range_def by simp
next
  case (Inr q)
  obtain t cur mn mx where q: "q = (t, cur, mn, mx)" by (cases q)
  define f where "f = (\<lambda>r :: range_row. r\<lparr>rg_priceMin := to_column mn, rg_priceMax := to_column mx\<rparr>)"
  define bs where "bs = (case ur_rules dto of None \<Rightarrow> ro_buckets db
     | Some rs \<Rightarrow> filter (\<lambda>b. bu_rangeId b \<noteq> i) (ro_buckets db) @ map (bucket_row_of t i) rs)"
  have "fst (update_range slug i dto db) = db\<lparr>ro_ranges := update_where (\<lambda>r. rg_id r = i) f (ro_ranges db), ro_buckets := bs\<rparr>"
    unfolding update_range_def Inr q f_def bs_def by (auto simp: Let_def split: option.splits)
  moreover have "filter (\<lambda>x. bu_rangeId x \<noteq> i) (map (bucket_row_of t i) rs) = []" for rs
    by (auto simp: bucket_row_of_def filter_empty_conv)
  then have "filter (\<lambda>x. bu_rangeId x \<noteq> i) bs = filter (\<lambda>x. bu_rangeId x \<noteq> i) (ro_buckets db)"
    by (auto simp: bs_def split: option.splits)
  ultimately show ?thesis by (intro exI [of _ f] exI [of _ bs]) (simp add: f_def)
qed

lemma rounding_write_ranks [simp]:
  "ro_rangeRank (rounding_write slug req db) = ro_rangeRank db"
  "ro_bucketRank (rounding_write slug req db) = ro_bucketRank db"
proof -
  have "ro_rangeRank (rounding_write slug req db) = ro_rangeRank db \<and>
      ro_bucketRank (rounding_write slug req db) = ro_bucketRank db"
  proof (cases req)
    case (UpdateRange i dto)
    then show ?thesis
      using update_range_shape [of slug i dto db] by (cases "fst (update_range slug i dto db) = db") auto
  qed (auto simp: create_range_def remove_range_def Let_def split: sum.splits)
  then show "ro_rangeRank (rounding_write slug req db) = ro_rangeRank db"
    "ro_bucketRank (rounding_write slug req db) = ro_bucketRank db" by simp_all
qed

text \<open>Every write touches at most one range, of the tenant that asks.\<close>

lemma rounding_write_scope:
  assumes "rounding_ok db" "fresh_request req db"
  shows "rounding_write slug req db = db \<or>
    (\<exists>a i. ro_tenants db slug = Some a \<and>
       filter (\<lambda>r. rg_id r \<noteq> i) (ro_ranges (rounding_write slug req db)) = filter (\<lambda>r. rg_id r \<noteq> i) (ro_ranges db) \<and>
       filter (\<lambda>x. bu_rangeId x \<noteq> i) (ro_buckets (rounding_write slug req db)) = filter (\<lambda>x. bu_rangeId x \<noteq> i) (ro_buckets db) \<and>
       (\<forall>r \<in> set (ro_ranges db) \<union> set (ro_ranges (rounding_write slug req db)). rg_id r = i \<longrightarrow> rg_tenantId r = a) \<and>
       ro_tenants (rounding_write slug req db) = ro_tenants db)"
proof (cases "rounding_write slug req db = db")
  case False
  show ?thesis
  proof (cases req)
    case (CreateRange i dto)
    then obtain a where a: "ro_tenants db slug = Some a"
      using False by (auto simp: create_range_def resolve_tenant_id_def split: option.splits)
    have w: "rounding_write slug req db = insert_rules a i (case cr_rules dto of None \<Rightarrow> [] | Some rs \<Rightarrow> rs)
        (db\<lparr>ro_ranges := ro_ranges db @ [\<lparr>rg_id = i, rg_tenantId = a,
                 rg_priceMin = to_column (cr_priceMin dto), rg_priceMax = to_column (cr_priceMax dto)\<rparr>]\<rparr>)"
      using False a CreateRange by (auto simp: create_range_def resolve_tenant_id_def Let_def bind_outcome_def split: sum.splits)
    have "filter (\<lambda>x. bu_rangeId x \<noteq> i) (map (bucket_row_of a i) rs) = []" for rs
      by (auto simp: bucket_row_of_def filter_empty_conv)
    then show ?thesis
      using a assms(2) CreateRange unfolding w by (intro disjI2 exI [of _ a] exI [of _ i]) auto
  next
    case (UpdateRange i dto)
    then obtain a row where a: "ro_tenants db slug = Some a"
      and row: "row \<in> set (ro_ranges db)" "rg_id row = i" "rg_tenantId row = a"
      using False by (auto simp: update_range_def resolve_tenant_id_def bind_outcome_def split: option.splits sum.splits
          elim!: fetch_range_row)
    note u = unique_tenant [OF assms(1) row]
    obtain f bs where w: "rounding_write slug req db = db\<lparr>ro_ranges := update_where (\<lambda>r. rg_id r = i) f (ro_ranges db), ro_buckets := bs\<rparr>"
      and f: "\<And>r. rg_id (f r) = rg_id r" "\<And>r. rg_tenantId (f r) = rg_tenantId r"
      and bs: "filter (\<lambda>x. bu_rangeId x \<noteq> i) bs = filter (\<lambda>x. bu_rangeId x \<noteq> i) (ro_buckets db)"
      using update_range_shape [of slug i dto db] False UpdateRange by auto
    have "\<forall>r \<in> set (update_where (\<lambda>r. rg_id r = i) f (ro_ranges db)). rg_id r = i \<longrightarrow> rg_tenantId r = a"
      using u f by (auto simp: update_where_def)
    then show ?thesis
      using a u bs unfolding w by (intro disjI2 exI [of _ a] exI [of _ i]) (auto simp: filter_update_where f)
  next
    case (RemoveRange i)
    then obtain a row where a: "ro_tenants db slug = Some a"
      and row: "row \<in> set (ro_ranges db)" "rg_id row = i" "rg_tenantId row = a"
      using False by (auto simp: remove_range_def get_range_def resolve_tenant_id_def bind_outcome_def split: option.splits sum.splits
          elim!: fetch_range_row)
    have w: "rounding_write slug req db = db\<lparr>ro_ranges := filter (\<lambda>r. rg_id r \<noteq> i) (ro_ranges db),
                    ro_buckets := filter (\<lambda>b. bu_rangeId b \<noteq> i) (ro_buckets db)\<rparr>"
      using False RemoveRange by (auto simp: remove_range_def split: sum.splits)
    show ?thesis
      using a unique_tenant [OF assms(1) row] unfolding w by (intro disjI2 exI [of _ a] exI [of _ i]) auto
  qed
qed simp

text \<open>
  The configuration is scoped to the tenant: a request of one tenant, accepted or refused, by
  any range id, changes nothing in what another tenant lists.
\<close>

lemma rounding_is_tenant_scoped:
  assumes "rounding_ok db" "fresh_request req db"
    and "ro_tenants db slug \<noteq> Some b" "ro_tenants db other = Some b"
  shows "list_ranges other (rounding_write slug req db) = list_ranges other db"
proof (cases "rounding_write slug req db = db")
  case False
  with rounding_write_scope [OF assms(1,2), of slug] obtain a i where a: "ro_tenants db slug = Some a"
    and scope: "filter (\<lambda>r. rg_id r \<noteq> i) (ro_ranges (rounding_write slug req db)) = filter (\<lambda>r. rg_id r \<noteq> i) (ro_ranges db)"
      "filter (\<lambda>x. bu_rangeId x \<noteq> i) (ro_buckets (rounding_write slug req db)) = filter (\<lambda>x. bu_rangeId x \<noteq> i) (ro_buckets db)"
      "\<forall>r \<in> set (ro_ranges db) \<union> set (ro_ranges (rounding_write slug req db)). rg_id r = i \<longrightarrow> rg_tenantId r = a"
    and t: "ro_tenants (rounding_write slug req db) = ro_tenants db"
    by blast
  have "b \<noteq> a" using a assms(3) by auto
  from view_of_range_write [OF this scope] have "tenant_view b db = tenant_view b (rounding_write slug req db)" by simp
  from list_ranges_of_view [OF this t assms(4) rounding_write_ranks] show ?thesis by simp
qed simp

definition demo_rounding :: rounding_db where
  "demo_rounding = \<lparr>ro_ranges = [\<lparr>rg_id = ''g1'', rg_tenantId = ''t1'', rg_priceMin = 0, rg_priceMax = 10\<rparr>],
     ro_buckets = [\<lparr>bu_tenantId = ''t1'', bu_rangeId = ''g1'', bu_decimalMin = 0, bu_decimalMax = 1, bu_roundTo = 1\<rparr>],
     ro_tenants = [''acme'' \<mapsto> ''t1'', ''beta'' \<mapsto> ''t2''], ro_rangeRank = \<lambda>_. 0, ro_bucketRank = \<lambda>_ _. 0\<rparr>"

end
