(* ===== verification/Offer_Book_Rules.thy ===== *)
theory Offer_Book_Rules
  imports Offer_Book_Engine Price_Rounding Apply_Price_Step "HOL-Library.Product_Lexorder"
begin

text \<open>
  The stored rules of the offer books: the operations of
  \<open>src/tenant-api/offer-book-rules/offer-book-rules.service.ts\<close> over the tenant tables. Barcodes
  (\<open>bigint\<close>) are compared as numbers; text is ordered by code units. A request runs in one
  transaction: a throw leaves the tables as they were. The entity manager returns related rows in
  no particular order, so \<open>compute_for_rule\<close> takes the loaded rules and locks as arguments.
\<close>

section \<open>Tables\<close>

datatype offer_rule_status = Idle | Running | Succeeded | PartiallySucceeded | Errored

record campaign_row = campaign +
  cm_name :: string
  cm_deleted :: bool

record offer_rule =
  or_id :: string
  or_offerBookInfoId :: int
  or_calculationBaseType :: calculation_base
  or_priceBaseSources :: "price_base_source list option"
  or_classifications :: "string list option"
  or_scheduleEnabled :: bool
  or_scheduledDays :: "int list option"
  or_applyPriceRounding :: bool
  or_status :: offer_rule_status
  or_activeReportId :: "string option"
  or_createdAt :: int
  or_updatedAt :: int
  or_deleted :: bool

record pricing_rule_row =
  pw_ruleId :: string
  pw_classifications :: "string list option"
  pw_priceRangeMin :: "rat option"
  pw_priceRangeMax :: "rat option"
  pw_marginRangeMin :: "rat option"
  pw_marginRangeMax :: "rat option"
  pw_actionType :: pricing_action
  pw_percentageValue :: rat
  pw_active :: bool

record price_lock_row =
  lw_ruleId :: string
  lw_classifications :: "string list option"
  lw_minMargin :: rat
  lw_active :: bool

text \<open>The columns of \<open>shared_catalog.product\<close> read here.\<close>

record competitor_row =
  co_ean :: string
  co_origin :: string
  co_price :: "rat option"
  co_deleted :: bool

text \<open>
  The tables of a tenant; the columns \<open>margin\<close> and \<open>deleted_at\<close> of \<open>product\<close> are functions of its
  id, a classification comes with its \<open>deleted_at\<close>.
\<close>

record offer_db =
  od_rules :: "offer_rule list"
  od_pricing :: "pricing_rule_row list"
  od_locks :: "price_lock_row list"
  od_products :: "(string \<times> nat) list"
  od_campaigns :: "campaign_row list"
  od_classifications :: "(classification_row \<times> bool) list"
  od_catalog :: catalog
  od_margin :: "string \<Rightarrow> rat option"
  od_productDeleted :: "string \<Rightarrow> bool"
  od_shared :: "competitor_row list"
  od_rounding :: rounding_db

record create_offer_rule_dto =
  cd_offerBookInfoId :: int
  cd_calculationBaseType :: calculation_base
  cd_priceBaseSources :: "price_base_source list option"
  cd_eans :: "string list option"
  cd_classifications :: "string list option"
  cd_pricingRules :: "pricing_rule list"
  cd_priceLocks :: "price_lock list"
  cd_scheduleEnabled :: "bool option"
  cd_scheduledDays :: "int list option"
  cd_applyPriceRounding :: "bool option"

record preview_offer_dto =
  pv_calculationBaseType :: calculation_base
  pv_priceBaseSources :: "price_base_source list option"
  pv_eans :: "string list option"
  pv_classifications :: "string list option"
  pv_pricingRules :: "pricing_rule list"
  pv_priceLocks :: "price_lock list"
  pv_applyPriceRounding :: "bool option"
  pv_page :: "nat option"
  pv_pageSize :: "nat option"

record paginated_preview =
  pg_rows :: "preview_result list"
  pg_total :: nat
  pg_page :: nat
  pg_pageSize :: nat
  pg_totalPages :: nat

definition source_value :: "price_base_source \<Rightarrow> string" where
  "source_value s = (case s of OwnPrice \<Rightarrow> ''OWN_PRICE'' | Drogal \<Rightarrow> ''DROGAL'' | Drogasil \<Rightarrow> ''DROGASIL''
     | PagueMenos \<Rightarrow> ''PAGUE_MENOS'' | Ikesaki \<Rightarrow> ''IKESAKI'' | Michelassi \<Rightarrow> ''MICHELASSI'')"

section \<open>Classifications\<close>

definition live_classifications :: "offer_db \<Rightarrow> classification_row list" where
  "live_classifications db = map fst (filter (\<lambda>(_, deleted). \<not> deleted) (od_classifications db))"

text \<open>Building the index over a cyclic table overflows the stack.\<close>

definition load_classification_index :: "offer_db \<Rightarrow> classification_index outcome" where
  "load_classification_index db =
     (case build_classification_index (live_classifications db) of
        None \<Rightarrow> Inl (Error ''Maximum call stack size exceeded'')
      | Some idx \<Rightarrow> Inr idx)"

text \<open>The recursive query that joins the names from the root; a row it does not reach has no path.\<close>

fun cls_path :: "nat \<Rightarrow> row_map \<Rightarrow> string \<Rightarrow> string option" where
  "cls_path 0 m i = None"
| "cls_path (Suc fuel) m i =
     (case m i of
        None \<Rightarrow> None
      | Some r \<Rightarrow>
          (case row_parentId r of
             None \<Rightarrow> Some (row_name r)
           | Some p \<Rightarrow> map_option (\<lambda>path. path @ '' > '' @ row_name r) (cls_path fuel m p)))"

definition classification_path :: "offer_db \<Rightarrow> string option \<Rightarrow> string" where
  "classification_path db cid =
     (case cid of
        None \<Rightarrow> ''''
      | Some i \<Rightarrow> (let rows = live_classifications db in
          case cls_path (walk_fuel rows) (by_id rows) i of None \<Rightarrow> '''' | Some path \<Rightarrow> path))"

section \<open>Products\<close>

definition ean_number :: "string \<Rightarrow> nat" where
  "ean_number ean = nat_of_digits 10 ean"

text \<open>\<open>num\<close>: a numeric column as a finite number.\<close>

definition num0 :: "rat option \<Rightarrow> jsnum" where
  "num0 v = (case v of None \<Rightarrow> Num 0 | Some r \<Rightarrow> (case js_of_rat r of Num x \<Rightarrow> Num x | _ \<Rightarrow> Num 0))"

definition to_preview_product :: "offer_db \<Rightarrow> product \<Rightarrow> offer option \<Rightarrow> preview_product" where
  "to_preview_product db p ob = \<lparr>
     pp_ean = pr_ean p, pp_name = (case pr_name p of None \<Rightarrow> '''' | Some n \<Rightarrow> n), pp_externalId = pr_externalId p,
     pp_classificationId = pr_classificationId p, pp_classificationPath = classification_path db (pr_classificationId p),
     pp_salePrice = num0 (pr_price p), pp_cost = num0 (pr_cost p), pp_margin = num0 (od_margin db (pr_id p)),
     pp_offerPrice = (case ob of None \<Rightarrow> None | Some r \<Rightarrow> map_option (\<lambda>x. num0 (Some x)) (of_targetPrice r)),
     pp_competitorPrices = Map.empty\<rparr>"

text \<open>The left join with \<open>offer_book\<close>, one row per offer of the barcode, or one without.\<close>

definition join_offers :: "offer_db \<Rightarrow> product \<Rightarrow> (product \<times> offer option) list" where
  "join_offers db p =
     (let obs = filter (\<lambda>r. of_ean r = pr_ean p) (ct_offers (od_catalog db)) in
      if obs = [] then [(p, None)] else map (\<lambda>r. (p, Some r)) obs)"

record rule_target =
  tg_eans :: "nat list option"
  tg_classifications :: "string list option"

definition target_products :: "rule_target \<Rightarrow> classification_index \<Rightarrow> offer_db \<Rightarrow> product list" where
  "target_products target idx db =
     (let live = filter (\<lambda>p. pr_active p \<and> \<not> od_productDeleted db (pr_id p)) (ct_products (od_catalog db)) in
      case tg_eans target of
        Some (e # es) \<Rightarrow> filter (\<lambda>p. ean_number (pr_ean p) \<in> set (e # es)) live
      | _ \<Rightarrow>
          let subtree = expandSubtree idx (case tg_classifications target of None \<Rightarrow> [] | Some cs \<Rightarrow> cs) in
          filter (\<lambda>p. case pr_classificationId p of None \<Rightarrow> False | Some c \<Rightarrow> c \<in> subtree) live)"

text \<open>\<open>ORDER BY p.name ASC, p.ean ASC\<close>: a missing name comes last.\<close>

definition product_order :: "product \<Rightarrow> bool \<times> string \<times> nat" where
  "product_order p = (pr_name p = None, case pr_name p of None \<Rightarrow> '''' | Some n \<Rightarrow> n, ean_number (pr_ean p))"

definition target_rows :: "rule_target \<Rightarrow> classification_index \<Rightarrow> offer_db \<Rightarrow> preview_product list" where
  "target_rows target idx db =
     map (\<lambda>(p, ob). to_preview_product db p ob)
       (sort_key (product_order \<circ> fst) (concat (map (join_offers db) (target_products target idx db))))"

definition fetch_products :: "offer_db \<Rightarrow> rule_target \<Rightarrow> classification_index \<Rightarrow> nat \<Rightarrow> nat \<Rightarrow> nat \<times> preview_product list" where
  "fetch_products db target idx page pageSize =
     (let rows = target_rows target idx db; found = length rows in
      if found = 0 then (0, []) else (found, take pageSize (drop ((page - 1) * pageSize) rows)))"

section \<open>Competitor prices and rounding\<close>

definition competitor_prices_of :: "offer_db \<Rightarrow> string list \<Rightarrow> string list \<Rightarrow> string \<Rightarrow> price_base_source \<Rightarrow> jsnum option" where
  "competitor_prices_of db eans origins ean source =
     map_of (rev (map (\<lambda>r. (co_origin r, js_of_rat (the (co_price r))))
       (filter (\<lambda>r. co_ean r \<in> set eans \<and> co_origin r \<in> set origins \<and> co_price r \<noteq> None \<and> \<not> co_deleted r \<and> co_ean r = ean)
         (od_shared db)))) (source_value source)"

definition attach_competitor_prices :: "offer_db \<Rightarrow> price_base_source list \<Rightarrow> preview_product list \<Rightarrow> preview_product list" where
  "attach_competitor_prices db sources products =
     (let origins = map source_value (filter (\<lambda>s. s \<noteq> OwnPrice) sources) in
      if origins = [] then products
      else map (\<lambda>p. p\<lparr>pp_competitorPrices := competitor_prices_of db (map pp_ean products) origins (pp_ean p)\<rparr>) products)"

definition to_rounding_band :: "range_api \<Rightarrow> rounding_band" where
  "to_rounding_band g = \<lparr>bd_priceMin = Num (rp_priceMin g), bd_priceMax = Num (rp_priceMax g),
     bd_decimals = map (\<lambda>b. \<lparr>rb_from = Num (bk_decimalMin b), rb_to = Num (bk_decimalMax b), rb_roundTo = Num (bk_roundTo b)\<rparr>) (rp_rules g)\<rparr>"

definition fetch_rounding_rules :: "string \<Rightarrow> offer_db \<Rightarrow> rounding_band list outcome" where
  "fetch_rounding_rules slug db =
     bind_outcome (list_ranges slug (od_rounding db)) (\<lambda>ranges. Inr (map to_rounding_band ranges))"

section \<open>The dry run\<close>

definition MAX_PAGE_SIZE :: nat where
  "MAX_PAGE_SIZE = 1000"

text \<open>The guards the dry run and the creation share.\<close>

definition check_target :: "calculation_base \<Rightarrow> price_base_source list option \<Rightarrow> string list option \<Rightarrow> string list option \<Rightarrow> unit outcome" where
  "check_target base sources eans cls =
     (if (\<not> no_items eans) = (\<not> no_items cls)
      then Inl (BadRequestException ''Send either a list of eans or a list of classifications, but not both'')
      else if base = CompetitivePrice \<and> no_items sources
      then Inl (BadRequestException ''priceBaseSources must contain at least one source when calculationBaseType is COMPETITIVE_PRICE'')
      else Inr ())"

definition items_of :: "'a list option \<Rightarrow> 'a list" where
  "items_of xs = (case xs of None \<Rightarrow> [] | Some ys \<Rightarrow> ys)"

definition check_rules ::
  "string list option \<Rightarrow> pricing_rule list \<Rightarrow> price_lock list \<Rightarrow> classification_index \<Rightarrow> unit outcome" where
  "check_rules cls rules locks idx =
     bind_outcome (assert_known_ids (items_of cls @ concat (map (\<lambda>r. items_of (br_classifications r)) rules) @
         concat (map (\<lambda>l. items_of (lk_classifications l)) locks)) idx) (\<lambda>_.
     bind_outcome (validate_pricing_rules rules idx) (\<lambda>_. validate_price_locks locks idx))"

definition priced_rows ::
  "string \<Rightarrow> offer_db \<Rightarrow> calculation_base \<Rightarrow> price_base_source list option \<Rightarrow> pricing_rule list \<Rightarrow> price_lock list \<Rightarrow> bool \<Rightarrow>
   classification_index \<Rightarrow> preview_product list \<Rightarrow> preview_result list outcome" where
  "priced_rows slug db base sources rules locks withRounding idx products =
     (let products1 = (if base = CompetitivePrice then attach_competitor_prices db (items_of sources) products else products)
      in bind_outcome (if withRounding then fetch_rounding_rules slug db else Inr []) (\<lambda>bands.
           Inr (calculate_previews products1
             \<lparr>cq_baseType = base, cq_sources = sources, cq_rules = rules, cq_locks = locks,
              cq_rounding = bands, cq_index = idx\<rparr>)))"

definition ceil_div :: "nat \<Rightarrow> nat \<Rightarrow> nat" where
  "ceil_div a b = (a + b - 1) div b"

definition preview_offer_rules :: "string \<Rightarrow> preview_offer_dto \<Rightarrow> offer_db \<Rightarrow> paginated_preview outcome" where
  "preview_offer_rules slug dto db =
     bind_outcome (check_target (pv_calculationBaseType dto) (pv_priceBaseSources dto) (pv_eans dto) (pv_classifications dto)) (\<lambda>_.
       let page = (case pv_page dto of None \<Rightarrow> 1 | Some p \<Rightarrow> p);
           pageSize = min (case pv_pageSize dto of None \<Rightarrow> MAX_PAGE_SIZE | Some s \<Rightarrow> s) MAX_PAGE_SIZE;
           rules = normalize_pricing_rules (pv_pricingRules dto);
           locks = normalize_price_locks (pv_priceLocks dto)
       in bind_outcome (load_classification_index db) (\<lambda>idx.
          bind_outcome (check_rules (pv_classifications dto) rules locks idx) (\<lambda>_.
          (case fetch_products db \<lparr>tg_eans = map_option (map ean_number) (pv_eans dto), tg_classifications = pv_classifications dto\<rparr>
                  idx page pageSize of
             (found, products) \<Rightarrow>
               if found = 0
               then Inr \<lparr>pg_rows = [], pg_total = 0, pg_page = page, pg_pageSize = pageSize, pg_totalPages = 0\<rparr>
               else bind_outcome (priced_rows slug db (pv_calculationBaseType dto) (pv_priceBaseSources dto) rules locks
                       (pv_applyPriceRounding dto = Some True) idx products) (\<lambda>rows.
                  Inr \<lparr>pg_rows = rows, pg_total = found, pg_page = page, pg_pageSize = pageSize,
                       pg_totalPages = ceil_div found pageSize\<rparr>)))))"

section \<open>Creation\<close>

definition or_true :: "bool option \<Rightarrow> bool" where
  "or_true b = (case b of None \<Rightarrow> True | Some x \<Rightarrow> x)"

definition or_false :: "bool option \<Rightarrow> bool" where
  "or_false b = (case b of None \<Rightarrow> False | Some x \<Rightarrow> x)"

definition pricing_row_of :: "string \<Rightarrow> pricing_rule \<Rightarrow> pricing_rule_row" where
  "pricing_row_of i r = \<lparr>pw_ruleId = i, pw_classifications = br_classifications r,
     pw_priceRangeMin = map_option to_column (br_priceRangeMin r), pw_priceRangeMax = map_option to_column (br_priceRangeMax r),
     pw_marginRangeMin = map_option to_column (br_marginRangeMin r), pw_marginRangeMax = map_option to_column (br_marginRangeMax r),
     pw_actionType = br_actionType r, pw_percentageValue = to_column (br_percentageValue r), pw_active = or_true (br_active r)\<rparr>"

definition lock_row_of :: "string \<Rightarrow> price_lock \<Rightarrow> price_lock_row" where
  "lock_row_of i l = \<lparr>lw_ruleId = i, lw_classifications = lk_classifications l, lw_minMargin = to_column (lk_minMargin l),
     lw_active = or_true (lk_active l)\<rparr>"

definition offer_rule_of :: "int \<Rightarrow> string \<Rightarrow> create_offer_rule_dto \<Rightarrow> offer_rule" where
  "offer_rule_of now i dto = \<lparr>or_id = i, or_offerBookInfoId = cd_offerBookInfoId dto,
     or_calculationBaseType = cd_calculationBaseType dto, or_priceBaseSources = cd_priceBaseSources dto,
     or_classifications = normalize_classification_ids (cd_classifications dto),
     or_scheduleEnabled = or_false (cd_scheduleEnabled dto),
     or_scheduledDays = (if cd_scheduleEnabled dto = Some True then cd_scheduledDays dto else None),
     or_applyPriceRounding = or_false (cd_applyPriceRounding dto), or_status = Idle, or_activeReportId = None,
     or_createdAt = now, or_updatedAt = now, or_deleted = False\<rparr>"

definition rule_exists :: "int \<Rightarrow> exn" where
  "rule_exists offerBookInfoId =
     ConflictException (''Ja existe regra para o caderno de ofertas '' @ show_int offerBookInfoId)"

text \<open>The checks, in their order, up to the first write.\<close>

definition check_creation ::
  "create_offer_rule_dto \<Rightarrow> offer_db \<Rightarrow> unit outcome" where
  "check_creation dto db =
     bind_outcome (check_target (cd_calculationBaseType dto) (cd_priceBaseSources dto) (cd_eans dto) (cd_classifications dto)) (\<lambda>_.
     if cd_scheduleEnabled dto = Some True \<and> no_items (cd_scheduledDays dto)
     then Inl (BadRequestException ''scheduledDays must be provided when scheduleEnabled is true'')
     else if \<not> list_ex (\<lambda>c. cp_externalId c = cd_offerBookInfoId dto \<and> cp_active c \<and> \<not> cm_deleted c) (od_campaigns db)
     then Inl (NotFoundException (''Caderno de ofertas '' @ show_int (cd_offerBookInfoId dto) @ '' nao encontrado ou inativo''))
     else if list_ex (\<lambda>r. or_offerBookInfoId r = cd_offerBookInfoId dto \<and> \<not> or_deleted r) (od_rules db)
     then Inl (rule_exists (cd_offerBookInfoId dto))
     else bind_outcome (load_classification_index db) (\<lambda>idx.
            check_rules (normalize_classification_ids (cd_classifications dto)) (normalize_pricing_rules (cd_pricingRules dto))
              (normalize_price_locks (cd_priceLocks dto)) idx))"

text \<open>The numbers of the request fit their columns, all of them \<open>numeric(12,2)\<close>.\<close>

definition opt_fits :: "rat option \<Rightarrow> bool" where
  "opt_fits x = (case x of None \<Rightarrow> True | Some r \<Rightarrow> fits_numeric 12 r)"

definition rule_fits :: "pricing_rule \<Rightarrow> bool" where
  "rule_fits r = (opt_fits (br_priceRangeMin r) \<and> opt_fits (br_priceRangeMax r) \<and>
     opt_fits (br_marginRangeMin r) \<and> opt_fits (br_marginRangeMax r) \<and> fits_numeric 12 (br_percentageValue r))"

definition creation_fits :: "create_offer_rule_dto \<Rightarrow> bool" where
  "creation_fits dto = (list_all rule_fits (cd_pricingRules dto) \<and>
     list_all (\<lambda>l. fits_numeric 12 (lk_minMargin l)) (cd_priceLocks dto))"

text \<open>
  The writes: the unique index on the offer book covers deleted rows too, a number too large for
  its column fails the insert of the rules, and a barcode given twice with different leading zeros
  breaks the unique index of the products.
\<close>

definition create_offer_rule :: "int \<Rightarrow> string \<Rightarrow> create_offer_rule_dto \<Rightarrow> offer_db \<Rightarrow> offer_db \<times> string outcome" where
  "create_offer_rule now newId dto db =
     (case check_creation dto db of
        Inl e \<Rightarrow> (db, Inl e)
      | Inr _ \<Rightarrow>
          if list_ex (\<lambda>r. or_offerBookInfoId r = cd_offerBookInfoId dto) (od_rules db)
          then (db, Inl (rule_exists (cd_offerBookInfoId dto)))
          else if \<not> creation_fits dto then (db, Inl (Error ''22003''))
          else
            let eans = map ean_number (dedup (items_of (cd_eans dto))) in
            if \<not> distinct eans then (db, Inl (Error ''duplicate key value violates unique constraint UQ_RULE_PRODUCT''))
            else (db\<lparr>od_rules := od_rules db @ [offer_rule_of now newId dto],
                     od_pricing := od_pricing db @ map (pricing_row_of newId) (normalize_pricing_rules (cd_pricingRules dto)),
                     od_locks := od_locks db @ map (lock_row_of newId) (normalize_price_locks (cd_priceLocks dto)),
                     od_products := od_products db @ map (Pair newId) eans\<rparr>, Inr newId))"

section \<open>Reads and removal\<close>

record offer_rule_item =
  oi_id :: string
  oi_offerBookInfoId :: int
  oi_cadernoName :: "string option"
  oi_calculationBaseType :: calculation_base
  oi_scheduleEnabled :: bool
  oi_status :: offer_rule_status
  oi_productsCount :: nat
  oi_createdAt :: int

record offer_rule_detail = offer_rule_item +
  ox_priceBaseSources :: "price_base_source list option"
  ox_classifications :: "string list option"
  ox_scheduledDays :: "int list option"
  ox_applyPriceRounding :: bool
  ox_eans :: "nat list"
  ox_pricingRules :: "pricing_rule list"
  ox_priceLocks :: "price_lock list"

record paginated_rules =
  pl_rows :: "offer_rule_item list"
  pl_total :: nat
  pl_page :: nat
  pl_pageSize :: nat
  pl_totalPages :: nat

definition products_count :: "offer_db \<Rightarrow> string \<Rightarrow> nat" where
  "products_count db i = length (filter (\<lambda>(r, _). r = i) (od_products db))"

text \<open>One row per campaign of the offer book (the external id is unique), deleted campaigns included.\<close>

definition to_list_items :: "offer_db \<Rightarrow> offer_rule \<Rightarrow> offer_rule_item list" where
  "to_list_items db r =
     (let item = (\<lambda>name. \<lparr>oi_id = or_id r, oi_offerBookInfoId = or_offerBookInfoId r, oi_cadernoName = name,
            oi_calculationBaseType = or_calculationBaseType r, oi_scheduleEnabled = or_scheduleEnabled r,
            oi_status = or_status r, oi_productsCount = products_count db (or_id r), oi_createdAt = or_createdAt r\<rparr>);
          cs = filter (\<lambda>c. cp_externalId c = or_offerBookInfoId r) (od_campaigns db)
      in if cs = [] then [item None] else map (\<lambda>c. item (Some (cm_name c))) cs)"

definition list_offer_rules :: "nat \<Rightarrow> nat \<Rightarrow> offer_db \<Rightarrow> paginated_rules" where
  "list_offer_rules page pageSize db =
     (let size = min (max pageSize 1) 200;
          live = filter (\<lambda>r. \<not> or_deleted r) (od_rules db);
          rows = concat (map (to_list_items db) (sort_key (\<lambda>r. - or_createdAt r) live));
          found = length live
      in \<lparr>pl_rows = take size (drop ((max page 1 - 1) * size) rows), pl_total = found, pl_page = max page 1,
          pl_pageSize = size, pl_totalPages = ceil_div found size\<rparr>)"

definition pricing_rule_of_row :: "pricing_rule_row \<Rightarrow> pricing_rule" where
  "pricing_rule_of_row r = \<lparr>br_classifications = pw_classifications r,
     br_priceRangeMin = map_option from_column (pw_priceRangeMin r), br_priceRangeMax = map_option from_column (pw_priceRangeMax r),
     br_marginRangeMin = map_option from_column (pw_marginRangeMin r), br_marginRangeMax = map_option from_column (pw_marginRangeMax r),
     br_actionType = pw_actionType r, br_percentageValue = from_column (pw_percentageValue r), br_active = Some (pw_active r)\<rparr>"

definition price_lock_of_row :: "price_lock_row \<Rightarrow> price_lock" where
  "price_lock_of_row l = \<lparr>lk_classifications = lw_classifications l, lk_minMargin = from_column (lw_minMargin l),
     lk_active = Some (lw_active l)\<rparr>"

definition live_rule :: "string \<Rightarrow> offer_db \<Rightarrow> offer_rule option" where
  "live_rule i db = find (\<lambda>r. or_id r = i \<and> \<not> or_deleted r) (od_rules db)"

definition rule_eans :: "string \<Rightarrow> offer_db \<Rightarrow> nat list" where
  "rule_eans i db = map snd (filter (\<lambda>(r, _). r = i) (od_products db))"

definition get_offer_rule :: "string \<Rightarrow> offer_db \<Rightarrow> offer_rule_detail outcome" where
  "get_offer_rule i db =
     (case live_rule i db of
        None \<Rightarrow> Inl (NotFoundException (''Regra '' @ i @ '' nao encontrada''))
      | Some r \<Rightarrow> Inr \<lparr>oi_id = or_id r, oi_offerBookInfoId = or_offerBookInfoId r,
            oi_cadernoName = map_option cm_name (find (\<lambda>c. cp_externalId c = or_offerBookInfoId r \<and> \<not> cm_deleted c) (od_campaigns db)),
            oi_calculationBaseType = or_calculationBaseType r, oi_scheduleEnabled = or_scheduleEnabled r,
            oi_status = or_status r, oi_productsCount = products_count db i, oi_createdAt = or_createdAt r,
            ox_priceBaseSources = or_priceBaseSources r, ox_classifications = or_classifications r,
            ox_scheduledDays = or_scheduledDays r, ox_applyPriceRounding = or_applyPriceRounding r,
            ox_eans = sort_key show_nat (rule_eans i db),
            ox_pricingRules = map pricing_rule_of_row (filter (\<lambda>p. pw_ruleId p = i) (od_pricing db)),
            ox_priceLocks = map price_lock_of_row (filter (\<lambda>l. lw_ruleId l = i) (od_locks db))\<rparr>)"

text \<open>
  The guard is part of the delete; the rows of the rule go with it. A running rule conflicts, as
  long as it is not marked as deleted (the check that tells the two errors apart skips deleted rows).
\<close>

definition remove_offer_rule :: "string \<Rightarrow> offer_db \<Rightarrow> offer_db \<times> string outcome" where
  "remove_offer_rule i db =
     (if \<not> list_ex (\<lambda>r. or_id r = i \<and> or_status r \<noteq> Running) (od_rules db)
      then (db, Inl (if list_ex (\<lambda>r. or_id r = i \<and> \<not> or_deleted r) (od_rules db)
                     then ConflictException (''Regra '' @ i @ '' esta em execucao'')
                     else NotFoundException (''Regra '' @ i @ '' nao encontrada'')))
      else (db\<lparr>od_rules := filter (\<lambda>r. \<not> (or_id r = i \<and> or_status r \<noteq> Running)) (od_rules db),
               od_pricing := filter (\<lambda>p. pw_ruleId p \<noteq> i) (od_pricing db),
               od_locks := filter (\<lambda>l. lw_ruleId l \<noteq> i) (od_locks db),
               od_products := filter (\<lambda>(r, _). r \<noteq> i) (od_products db)\<rparr>, Inr i))"

section \<open>The computation of a stored rule\<close>

lemma fetch_products_total: "fst (fetch_products db target idx page pageSize) = length (target_rows target idx db)"
  by (simp add: fetch_products_def Let_def)

text \<open>The loop over the pages.\<close>

function collect_pages :: "offer_db \<Rightarrow> rule_target \<Rightarrow> classification_index \<Rightarrow> nat \<Rightarrow> preview_product list \<Rightarrow> preview_product list" where
  "collect_pages db target idx page acc =
     (case fetch_products db target idx page MAX_PAGE_SIZE of
        (found, products) \<Rightarrow>
          if found \<le> length (acc @ products) \<or> products = [] then acc @ products
          else collect_pages db target idx (page + 1) (acc @ products))"
  by pat_completeness auto
termination
proof (relation "measure (\<lambda>(db, target, idx, page, acc). length (target_rows target idx db) - length acc)", goal_cases)
  case 1
  then show ?case by simp
next
  case (2 db target idx page acc found products)
  then have "found = length (target_rows target idx db)"
    using fetch_products_total [of db target idx page MAX_PAGE_SIZE] by (metis fst_conv)
  moreover obtain p ps where "products = p # ps" using 2 by (cases products) auto
  ultimately show ?case using 2 by auto
qed

declare collect_pages.simps [simp del]

definition rule_target_of :: "offer_rule \<Rightarrow> offer_db \<Rightarrow> rule_target" where
  "rule_target_of r db =
     \<lparr>tg_eans = (let es = rule_eans (or_id r) db in if es = [] then None else Some es),
      tg_classifications = (case or_classifications r of None \<Rightarrow> None | Some [] \<Rightarrow> None | Some cs \<Rightarrow> Some cs)\<rparr>"

definition compute_for_rule ::
  "string \<Rightarrow> offer_rule \<Rightarrow> pricing_rule_row list \<Rightarrow> price_lock_row list \<Rightarrow> offer_db \<Rightarrow> preview_result list outcome" where
  "compute_for_rule slug r pricing locks db =
     bind_outcome (load_classification_index db) (\<lambda>idx.
       let rules = normalize_pricing_rules (map pricing_rule_of_row pricing);
           lks = normalize_price_locks (map price_lock_of_row locks);
           target = rule_target_of r db;
           products = collect_pages db target idx 1 []
       in if tg_eans target = None \<and> tg_classifications target = None then Inl (Error ''rootIds is not iterable'')
          else if products = [] then Inr []
          else priced_rows slug db (or_calculationBaseType r) (or_priceBaseSources r) rules lks (or_applyPriceRounding r) idx products)"

section \<open>The page loop\<close>

lemma fetch_page:
  "fetch_products db target idx (Suc k) sz =
     (length (target_rows target idx db), take sz (drop (k * sz) (target_rows target idx db)))"
  by (auto simp: fetch_products_def Let_def)

text \<open>The loop collects all the rows, in order.\<close>

lemma collect_pages_from:
  "acc = take (k * MAX_PAGE_SIZE) (target_rows target idx db) \<Longrightarrow>
   collect_pages db target idx (Suc k) acc = target_rows target idx db"
proof (induction "length (target_rows target idx db) - k * MAX_PAGE_SIZE" arbitrary: k acc rule: less_induct)
  case less
  let ?rows = "target_rows target idx db"
  let ?ps = "take MAX_PAGE_SIZE (drop (k * MAX_PAGE_SIZE) ?rows)"
  have app: "acc @ ?ps = take (Suc k * MAX_PAGE_SIZE) ?rows"
    using less.prems take_add [of "k * MAX_PAGE_SIZE" MAX_PAGE_SIZE ?rows] by (simp add: add.commute)
  show ?case
  proof (cases "length ?rows \<le> length (acc @ ?ps) \<or> ?ps = []")
    case True
    then have "length ?rows \<le> Suc k * MAX_PAGE_SIZE \<or> length ?rows \<le> k * MAX_PAGE_SIZE"
      unfolding app by (auto simp: MAX_PAGE_SIZE_def)
    then have "take (Suc k * MAX_PAGE_SIZE) ?rows = ?rows" by auto
    then show ?thesis using True app by (subst collect_pages.simps) (simp add: fetch_page del: append_take_drop_id)
  next
    case False
    then have "k * MAX_PAGE_SIZE < length ?rows" by auto
    then have "length ?rows - Suc k * MAX_PAGE_SIZE < length ?rows - k * MAX_PAGE_SIZE"
      by (simp add: MAX_PAGE_SIZE_def)
    from less.hyps [OF this app] False show ?thesis
      by (subst collect_pages.simps) (simp add: fetch_page)
  qed
qed

lemma collect_pages_all: "collect_pages db target idx 1 [] = target_rows target idx db"
  using collect_pages_from [of "[]" 0] by simp

section \<open>Pages of the computation\<close>

lemma attach_competitor_prices_slice:
  "attach_competitor_prices db sources (take s (drop k ps)) = take s (drop k (attach_competitor_prices db sources ps))"
proof -
  have "competitor_prices_of db (map pp_ean qs) origins (pp_ean p) = competitor_prices_of db (map pp_ean ps) origins (pp_ean p)"
    if "p \<in> set qs" "set qs \<subseteq> set ps" for qs p origins
  proof -
    have same: "filter (\<lambda>r. co_ean r \<in> set (map pp_ean qs) \<and> co_origin r \<in> set origins \<and> co_price r \<noteq> None \<and> \<not> co_deleted r \<and> co_ean r = pp_ean p) rs =
      filter (\<lambda>r. co_ean r \<in> set (map pp_ean ps) \<and> co_origin r \<in> set origins \<and> co_price r \<noteq> None \<and> \<not> co_deleted r \<and> co_ean r = pp_ean p) rs" for rs
      using that by (intro filter_cong) auto
    show ?thesis by (rule ext) (unfold competitor_prices_of_def same, rule refl)
  qed
  moreover have "set (take s (drop k ps)) \<subseteq> set ps" by (meson order_trans set_drop_subset set_take_subset)
  ultimately show ?thesis
    by (simp add: attach_competitor_prices_def Let_def take_map drop_map)
qed

lemma priced_rows_slice:
  assumes "priced_rows slug db base sources rules locks rd idx ps = Inr rows"
  shows "priced_rows slug db base sources rules locks rd idx (take s (drop k ps)) = Inr (take s (drop k rows))"
  using assms
  by (auto simp: priced_rows_def calculate_previews_def Let_def bind_outcome_Inr_iff attach_competitor_prices_slice
      take_map drop_map split: if_splits)

section \<open>Stored rules calculate like the requested ones\<close>

definition two_decimal_opt :: "rat option \<Rightarrow> bool" where
  "two_decimal_opt x = (case x of None \<Rightarrow> True | Some r \<Rightarrow> two_decimals r)"

definition two_decimal_rule :: "pricing_rule \<Rightarrow> bool" where
  "two_decimal_rule r = (two_decimal_opt (br_priceRangeMin r) \<and> two_decimal_opt (br_priceRangeMax r) \<and>
     two_decimal_opt (br_marginRangeMin r) \<and> two_decimal_opt (br_marginRangeMax r) \<and> two_decimals (br_percentageValue r))"

text \<open>A rule as it comes back from the tables: its activity is explicit.\<close>

definition stored_rule :: "pricing_rule \<Rightarrow> pricing_rule" where
  "stored_rule r = r\<lparr>br_active := Some (or_true (br_active r))\<rparr>"

definition stored_lock :: "price_lock \<Rightarrow> price_lock" where
  "stored_lock l = l\<lparr>lk_active := Some (or_true (lk_active l))\<rparr>"

lemma column_opt: "two_decimal_opt x \<Longrightarrow> map_option from_column (map_option to_column x) = x"
  by (cases x) (simp_all add: two_decimal_opt_def two_decimals_def)

lemma rule_of_stored_row: "two_decimal_rule r \<Longrightarrow> pricing_rule_of_row (pricing_row_of i r) = stored_rule r"
  by (cases r) (simp add: pricing_rule_of_row_def pricing_row_of_def stored_rule_def two_decimal_rule_def two_decimals_def
      column_opt del: option.map_comp)

lemma lock_of_stored_row: "two_decimals (lk_minMargin l) \<Longrightarrow> price_lock_of_row (lock_row_of i l) = stored_lock l"
  by (simp add: price_lock_of_row_def lock_row_of_def stored_lock_def two_decimals_def)

lemma dedup_idem [simp]: "dedup (dedup xs) = dedup xs"
  by (simp add: dedup_def distinct_remdups_id)

lemma normalize_ids_idem [simp]: "normalize_classification_ids (normalize_classification_ids cs) = normalize_classification_ids cs"
proof (cases cs)
  case (Some xs)
  show ?thesis
  proof (cases xs)
    case (Cons c r)
    then obtain d ds where "dedup (c # r) = d # ds" by (cases "dedup (c # r)") auto
    then show ?thesis using Some Cons dedup_idem [of "c # r"] by (simp add: normalize_classification_ids_def)
  qed (simp add: Some normalize_classification_ids_def)
qed (simp add: normalize_classification_ids_def)

lemma normalize_stored:
  "normalize_pricing_rules (map stored_rule (normalize_pricing_rules rs)) = map stored_rule (normalize_pricing_rules rs)"
  "normalize_price_locks (map stored_lock (normalize_price_locks ls)) = map stored_lock (normalize_price_locks ls)"
  by (simp_all add: normalize_pricing_rules_def normalize_price_locks_def stored_rule_def stored_lock_def comp_def)

lemma mset_normalize:
  "mset xs = mset ys \<Longrightarrow> mset (normalize_pricing_rules xs) = mset (normalize_pricing_rules ys)"
  "mset xl = mset yl \<Longrightarrow> mset (normalize_price_locks xl) = mset (normalize_price_locks yl)"
  by (simp_all add: normalize_pricing_rules_def normalize_price_locks_def)

lemma or_true_iff: "or_true b \<longleftrightarrow> b \<noteq> Some False"
  by (cases b) (auto simp: or_true_def)

lemma stored_matches:
  "rule_matches p c idx (stored_rule r) = rule_matches p c idx r"
  "lock_matches p idx (stored_lock l) = lock_matches p idx l"
  by (simp_all add: rule_matches_def lock_matches_def stored_rule_def stored_lock_def or_true_iff has_price_range_def has_margin_range_def)

lemma find_map: "find P (map f xs) = map_option f (find (P \<circ> f) xs)"
  by (induction xs) auto

lemma stored_find:
  "find_matching_pricing_rule p (map stored_rule rs) c idx = map_option stored_rule (find_matching_pricing_rule p rs c idx)"
  "find_matching_price_lock p (map stored_lock ls) idx = map_option stored_lock (find_matching_price_lock p ls idx)"
  by (simp_all add: find_matching_pricing_rule_def find_matching_price_lock_def find_map comp_def stored_matches)

lemma stored_calculation:
  "rule_price (map_option stored_rule rl) c = rule_price rl c"
  "lock_floor (map_option stored_lock lk) x = lock_floor lk x"
  "exceeds_limit_result p (map_option stored_rule rl) c = exceeds_limit_result p rl c"
  by (cases rl; cases lk; simp add: rule_price_def lock_floor_def exceeds_limit_result_def stored_rule_def stored_lock_def)+

lemma stored_priced_result:
  "priced_result p (map_option stored_rule rl) (map_option stored_lock lk) bands c = priced_result p rl lk bands c"
proof -
  have lk: "lk_minMargin (the (map_option stored_lock lk)) = lk_minMargin (the lk)"
    by (cases lk) (simp_all add: stored_lock_def)
  have rl: "map_option br_actionType (map_option stored_rule rl) = map_option br_actionType rl"
    "(case map_option stored_rule rl of None \<Rightarrow> Num 0 | Some r \<Rightarrow> Num (br_percentageValue r)) =
     (case rl of None \<Rightarrow> Num 0 | Some r \<Rightarrow> Num (br_percentageValue r))"
    by (cases rl; simp add: stored_rule_def)+
  show ?thesis unfolding priced_result_def stored_calculation lk rl by (rule refl)
qed

text \<open>
  The result for one product: stored rules and locks, in any order, calculate what the validated
  request calculates.
\<close>

lemma stored_preview:
  assumes idx: "build_classification_index crows = Some idx"
    and v: "validate_pricing_rules rs idx = Inr ()" "validate_price_locks ls idx = Inr ()"
    and m: "mset rs' = mset (map stored_rule rs)" "mset ls' = mset (map stored_lock ls)"
    and num: "pp_margin p \<noteq> NaN" "calculation_base_price p base sources \<noteq> Some NaN"
  shows "calculate_product_preview \<lparr>cq_baseType = base, cq_sources = sources, cq_rules = rs', cq_locks = ls', cq_rounding = bands, cq_index = idx\<rparr> p =
     calculate_product_preview \<lparr>cq_baseType = base, cq_sources = sources, cq_rules = rs, cq_locks = ls, cq_rounding = bands, cq_index = idx\<rparr> p"
proof (cases "calculation_base_price p base sources")
  case None
  then show ?thesis by (simp add: calculate_product_preview_def)
next
  case (Some c)
  with num have c: "c \<noteq> NaN" by auto
  have "length (filter (rule_matches p c idx) (map stored_rule rs)) \<le> 1"
    using one_rule_matches [OF idx v(1) num(1) c] by (simp add: filter_map comp_def stored_matches)
  from find_unique_perm [OF this m(1)]
  have "find_matching_pricing_rule p rs' c idx = find_matching_pricing_rule p (map stored_rule rs) c idx"
    unfolding find_matching_pricing_rule_def .
  then have r: "find_matching_pricing_rule p rs' c idx = map_option stored_rule (find_matching_pricing_rule p rs c idx)"
    by (simp only: stored_find)
  have "length (filter (lock_matches p idx) (map stored_lock ls)) \<le> 1"
    using one_lock_matches [OF idx v(2)] by (simp add: filter_map comp_def stored_matches)
  from find_unique_perm [OF this m(2)]
  have "find_matching_price_lock p ls' idx = find_matching_price_lock p (map stored_lock ls) idx"
    unfolding find_matching_price_lock_def .
  then have l: "find_matching_price_lock p ls' idx = map_option stored_lock (find_matching_price_lock p ls idx)"
    by (simp only: stored_find)
  show ?thesis
    by (simp add: calculate_product_preview_def Some r l Let_def stored_calculation stored_priced_result)
qed

text \<open>What the database holds are numbers.\<close>

lemma num0_not_NaN [simp]: "num0 v \<noteq> NaN"
  by (auto simp: num0_def split: option.splits jsnum.splits)

lemma js_min_not_NaN: "x \<noteq> NaN \<Longrightarrow> y \<noteq> NaN \<Longrightarrow> js_min x y \<noteq> NaN"
  by (cases x; cases y) auto

lemma js_min_list_not_NaN: "NaN \<notin> set xs \<Longrightarrow> js_min_list xs \<noteq> NaN"
proof -
  have "acc \<noteq> NaN \<Longrightarrow> NaN \<notin> set xs \<Longrightarrow> foldl js_min acc xs \<noteq> NaN" for acc
  proof (induction xs arbitrary: acc)
    case (Cons x xs)
    then have "js_min acc x \<noteq> NaN" by (intro js_min_not_NaN) (auto simp only: list.set insert_iff)
    moreover have "NaN \<notin> set xs" using Cons.prems by simp
    ultimately show ?case using Cons.IH by simp
  qed simp
  then show "NaN \<notin> set xs \<Longrightarrow> js_min_list xs \<noteq> NaN" by (simp add: js_min_list_def)
qed

lemma base_price_not_NaN:
  assumes "pp_salePrice p \<noteq> NaN"
  shows "calculation_base_price p base sources \<noteq> Some NaN \<or> base = OfferPrice"
proof (cases base)
  case CompetitivePrice
  have "NaN \<notin> set (source_price p s)" for s
    by (cases "s = OwnPrice"; cases "pp_competitorPrices p s") (simp_all add: source_price_def js_truthy_def)
  then have "NaN \<notin> set (concat (map (source_price p) ss))" for ss by (induction ss) simp_all
  then have "js_min_list (concat (map (source_price p) ss)) \<noteq> NaN" for ss by (rule js_min_list_not_NaN)
  then show ?thesis
    using CompetitivePrice by (simp add: calculation_base_price_def lowest_price_from_sources_def Let_def)
qed (use assms in \<open>simp_all add: calculation_base_price_def\<close>)

lemma target_rows_numbers:
  assumes "p \<in> set (target_rows target idx db)"
  shows "pp_margin p \<noteq> NaN" "pp_salePrice p \<noteq> NaN" "own_price p \<noteq> NaN"
  using assms by (auto simp: target_rows_def to_preview_product_def own_price_def split: option.splits)

lemma attached_numbers:
  assumes "p \<in> set (attach_competitor_prices db ss (target_rows target idx db))"
  shows "pp_margin p \<noteq> NaN" "pp_salePrice p \<noteq> NaN" "own_price p \<noteq> NaN"
proof -
  obtain q where q: "q \<in> set (target_rows target idx db)"
    "pp_margin p = pp_margin q" "pp_salePrice p = pp_salePrice q" "pp_offerPrice p = pp_offerPrice q"
    using assms by (auto simp: attach_competitor_prices_def Let_def split: if_splits)
  moreover have "own_price p = own_price q" using q by (simp add: own_price_def split: option.split)
  ultimately show "pp_margin p \<noteq> NaN" "pp_salePrice p \<noteq> NaN" "own_price p \<noteq> NaN"
    using target_rows_numbers [OF q(1)] by simp_all
qed

text \<open>
  A discount of 12.345 percent: the dry run prices a product of 1000.00 at 876.55, and the stored
  rule, which holds 12.35, at 876.50.
\<close>

definition third_decimal :: pricing_rule where
  "third_decimal = demo_rule None None (round_double (2469 / 200))"

lemma third_decimal_changes_the_price:
  "round2 (rule_price (Some third_decimal) (Num 1000)) = Num (round_double (17531 / 20)) \<and>
   round2 (rule_price (Some (pricing_rule_of_row (pricing_row_of i third_decimal))) (Num 1000)) = Num (1753 / 2)"
  by (simp add: third_decimal_def) code_simp

section \<open>What a creation leaves in the tables\<close>

definition two_decimal_request :: "create_offer_rule_dto \<Rightarrow> bool" where
  "two_decimal_request dto = (list_all two_decimal_rule (cd_pricingRules dto) \<and>
     list_all (\<lambda>l. two_decimals (lk_minMargin l)) (cd_priceLocks dto))"

text \<open>An id no row of the tables refers to.\<close>

definition fresh_rule_id :: "string \<Rightarrow> offer_db \<Rightarrow> bool" where
  "fresh_rule_id i db = (i \<notin> or_id ` set (od_rules db) \<and> i \<notin> pw_ruleId ` set (od_pricing db) \<and>
     i \<notin> lw_ruleId ` set (od_locks db) \<and> i \<notin> fst ` set (od_products db))"

text \<open>The dry run of what a creation asks for.\<close>

definition preview_of_creation :: "create_offer_rule_dto \<Rightarrow> nat option \<Rightarrow> nat option \<Rightarrow> preview_offer_dto" where
  "preview_of_creation dto page sz = \<lparr>pv_calculationBaseType = cd_calculationBaseType dto,
     pv_priceBaseSources = cd_priceBaseSources dto, pv_eans = cd_eans dto, pv_classifications = cd_classifications dto,
     pv_pricingRules = cd_pricingRules dto, pv_priceLocks = cd_priceLocks dto,
     pv_applyPriceRounding = cd_applyPriceRounding dto, pv_page = page, pv_pageSize = sz\<rparr>"

lemma create_offer_rule_inv:
  assumes "create_offer_rule now newId dto db = (db', Inr i)"
  shows "i = newId" "check_creation dto db = Inr ()"
    and "distinct (map ean_number (dedup (items_of (cd_eans dto))))"
    and "db' = db\<lparr>od_rules := od_rules db @ [offer_rule_of now newId dto],
           od_pricing := od_pricing db @ map (pricing_row_of newId) (normalize_pricing_rules (cd_pricingRules dto)),
           od_locks := od_locks db @ map (lock_row_of newId) (normalize_price_locks (cd_priceLocks dto)),
           od_products := od_products db @ map (Pair newId) (map ean_number (dedup (items_of (cd_eans dto))))\<rparr>"
  using assms by (auto simp: create_offer_rule_def Let_def split: sum.splits if_splits)

lemma created_rows:
  assumes "create_offer_rule now newId dto db = (db', Inr i)" "fresh_rule_id newId db"
  shows "live_rule i db' = Some (offer_rule_of now newId dto)"
    and "filter (\<lambda>p. pw_ruleId p = i) (od_pricing db') = map (pricing_row_of newId) (normalize_pricing_rules (cd_pricingRules dto))"
    and "filter (\<lambda>l. lw_ruleId l = i) (od_locks db') = map (lock_row_of newId) (normalize_price_locks (cd_priceLocks dto))"
    and "rule_eans i db' = map ean_number (dedup (items_of (cd_eans dto)))"
proof -
  note c = create_offer_rule_inv [OF assms(1)]
  have f: "find P (xs @ [y]) = (if \<exists>x \<in> set xs. P x then find P xs else if P y then Some y else None)"
    for P :: "offer_rule \<Rightarrow> bool" and xs y by (induction xs) auto
  show "live_rule i db' = Some (offer_rule_of now newId dto)"
    using assms(2) unfolding c by (auto simp: live_rule_def f fresh_rule_id_def offer_rule_of_def)
  show "filter (\<lambda>p. pw_ruleId p = i) (od_pricing db') = map (pricing_row_of newId) (normalize_pricing_rules (cd_pricingRules dto))"
    using assms(2) unfolding c
    by (auto simp: fresh_rule_id_def filter_empty_conv filter_id_conv pricing_row_of_def)
  show "filter (\<lambda>l. lw_ruleId l = i) (od_locks db') = map (lock_row_of newId) (normalize_price_locks (cd_priceLocks dto))"
    using assms(2) unfolding c
    by (auto simp: fresh_rule_id_def filter_empty_conv filter_id_conv lock_row_of_def)
  have none: "filter (\<lambda>(r, _). r = newId) (od_products db) = []"
    using assms(2) by (force simp: fresh_rule_id_def filter_empty_conv)
  have all: "filter (\<lambda>(r, _). r = newId) (map (Pair newId) es) = map (Pair newId) es" for es :: "nat list"
    by (induction es) auto
  show "rule_eans i db' = map ean_number (dedup (items_of (cd_eans dto)))"
    unfolding c rule_eans_def by (simp add: none all del: map_map) (simp add: comp_def)
qed

lemma target_rows_cong:
  assumes "od_catalog db' = od_catalog db" "od_margin db' = od_margin db" "od_productDeleted db' = od_productDeleted db"
    and "od_classifications db' = od_classifications db" "target_products t' idx db = target_products t idx db"
  shows "target_rows t' idx db' = target_rows t idx db"
proof -
  have "target_products t' idx db' = target_products t' idx db" using assms(1,3) by (simp add: target_products_def)
  moreover have "join_offers db' = join_offers db" using assms(1) by (intro ext) (simp add: join_offers_def)
  moreover have live: "live_classifications db' = live_classifications db" using assms(4) by (simp add: live_classifications_def)
  have "classification_path db' = classification_path db"
    unfolding classification_path_def [abs_def] live by (rule refl)
  then have "to_preview_product db' = to_preview_product db"
    using assms(2) by (intro ext) (simp add: to_preview_product_def)
  ultimately show ?thesis using assms(5) by (simp add: target_rows_def)
qed

lemma index_of_load: "load_classification_index db = Inr idx \<longleftrightarrow> build_classification_index (live_classifications db) = Some idx"
  by (simp add: load_classification_index_def split: option.splits)

text \<open>The filters of the request and of the stored rule select the same products.\<close>

lemma created_target_products:
  assumes "create_offer_rule now newId dto db = (db', Inr i)" "fresh_rule_id newId db"
    and "load_classification_index db = Inr idx"
  shows "target_products (rule_target_of (offer_rule_of now newId dto) db') idx db =
     target_products \<lparr>tg_eans = map_option (map ean_number) (cd_eans dto), tg_classifications = cd_classifications dto\<rparr> idx db"
proof -
  note c = create_offer_rule_inv [OF assms(1)]
  have one: "(\<not> no_items (cd_eans dto)) \<noteq> (\<not> no_items (cd_classifications dto))"
    using c(2) by (auto simp: check_creation_def check_target_def split: if_splits)
  have es: "rule_eans newId db' = map ean_number (dedup (items_of (cd_eans dto)))"
    using created_rows(4) [OF assms(1,2)] c(1) by simp
  have "expandSubtree idx (dedup cs) = expandSubtree idx cs" for cs
  proof -
    obtain ds where "idx = index_of (live_classifications db) ds"
      using assms(3) by (auto simp: index_of_load build_classification_index_def)
    then show ?thesis by (simp add: index_of_def expand_subtree_reach)
  qed
  note sub = this
  show ?thesis
  proof (cases "no_items (cd_eans dto)")
    case True
    then have e: "items_of (cd_eans dto) = []" "cd_eans dto = None \<or> cd_eans dto = Some []"
      by (auto simp: no_items_def items_of_def split: option.splits)
    obtain k ks where cls: "cd_classifications dto = Some (k # ks)"
      using one True by (cases "cd_classifications dto") (auto simp: no_items_def neq_Nil_conv)
    obtain d ds where d: "dedup (k # ks) = d # ds" by (cases "dedup (k # ks)") auto
    have "rule_target_of (offer_rule_of now newId dto) db' = \<lparr>tg_eans = None, tg_classifications = Some (d # ds)\<rparr>"
      using e es cls d by (simp add: rule_target_of_def offer_rule_of_def normalize_classification_ids_def)
    then show ?thesis using e(2) cls sub [of "k # ks"] d by (auto simp: target_products_def)
  next
    case False
    then obtain k ks where e: "cd_eans dto = Some (k # ks)" by (cases "cd_eans dto") (auto simp: no_items_def neq_Nil_conv)
    obtain d ds where d: "map ean_number (dedup (k # ks)) = d # ds" by (cases "map ean_number (dedup (k # ks))") auto
    have s: "set (d # ds) = set (ean_number k # map ean_number ks)" unfolding d [symmetric] by simp
    have "tg_eans (rule_target_of (offer_rule_of now newId dto) db') = Some (d # ds)"
      using e es d by (simp add: rule_target_of_def offer_rule_of_def items_of_def)
    then show ?thesis using e s by (simp add: target_products_def del: list.set)
  qed
qed

section \<open>The dry run predicts the execution\<close>

lemma priced_rows_cong:
  assumes "od_shared db' = od_shared db" "od_rounding db' = od_rounding db"
    and "\<And>bands p. p \<in> set (if base = CompetitivePrice then attach_competitor_prices db (items_of sources) ps else ps) \<Longrightarrow>
       calculate_product_preview \<lparr>cq_baseType = base, cq_sources = sources, cq_rules = rs', cq_locks = ls', cq_rounding = bands, cq_index = idx\<rparr> p =
       calculate_product_preview \<lparr>cq_baseType = base, cq_sources = sources, cq_rules = rs, cq_locks = ls, cq_rounding = bands, cq_index = idx\<rparr> p"
  shows "priced_rows slug db' base sources rs' ls' rd idx ps = priced_rows slug db base sources rs ls rd idx ps"
proof -
  have c: "competitor_prices_of db' = competitor_prices_of db"
    using assms(1) by (intro ext) (simp add: competitor_prices_of_def)
  have a: "attach_competitor_prices db' = attach_competitor_prices db"
    by (intro ext) (simp add: attach_competitor_prices_def c)
  have r: "fetch_rounding_rules slug db' = fetch_rounding_rules slug db"
    using assms(2) by (simp add: fetch_rounding_rules_def)
  show ?thesis
    unfolding priced_rows_def a r Let_def calculate_previews_def
    by (intro arg_cong2 [where f = bind_outcome] refl ext arg_cong [where f = Inr] map_cong assms(3))
qed

lemma stored_tables:
  assumes "create_offer_rule now newId dto db = (db', Inr i)" "fresh_rule_id newId db" "two_decimal_request dto"
    and "mset pricing = mset (filter (\<lambda>p. pw_ruleId p = i) (od_pricing db'))"
    and "mset locks = mset (filter (\<lambda>l. lw_ruleId l = i) (od_locks db'))"
  shows "mset (normalize_pricing_rules (map pricing_rule_of_row pricing)) = mset (map stored_rule (normalize_pricing_rules (cd_pricingRules dto)))"
    and "mset (normalize_price_locks (map price_lock_of_row locks)) = mset (map stored_lock (normalize_price_locks (cd_priceLocks dto)))"
proof -
  note cr = created_rows [OF assms(1,2)]
  have rr: "pricing_rule_of_row (pricing_row_of newId r) = stored_rule r" if "r \<in> set (normalize_pricing_rules (cd_pricingRules dto))" for r
    using that assms(3) by (intro rule_of_stored_row)
      (auto simp: two_decimal_request_def list_all_iff normalize_pricing_rules_def two_decimal_rule_def)
  have rl: "price_lock_of_row (lock_row_of newId l) = stored_lock l" if "l \<in> set (normalize_price_locks (cd_priceLocks dto))" for l
    using that assms(3) by (intro lock_of_stored_row) (auto simp: two_decimal_request_def list_all_iff normalize_price_locks_def)
  have "mset (map pricing_rule_of_row pricing) = mset (map pricing_rule_of_row (map (pricing_row_of newId) (normalize_pricing_rules (cd_pricingRules dto))))"
    using assms(4) unfolding cr(2) mset_map by simp
  also have "map pricing_rule_of_row (map (pricing_row_of newId) (normalize_pricing_rules (cd_pricingRules dto))) =
      map stored_rule (normalize_pricing_rules (cd_pricingRules dto))"
    using rr by simp
  finally show "mset (normalize_pricing_rules (map pricing_rule_of_row pricing)) = mset (map stored_rule (normalize_pricing_rules (cd_pricingRules dto)))"
    using mset_normalize(1) normalize_stored(1) by metis
  have "mset (map price_lock_of_row locks) = mset (map price_lock_of_row (map (lock_row_of newId) (normalize_price_locks (cd_priceLocks dto))))"
    using assms(5) unfolding cr(3) mset_map by simp
  also have "map price_lock_of_row (map (lock_row_of newId) (normalize_price_locks (cd_priceLocks dto))) =
      map stored_lock (normalize_price_locks (cd_priceLocks dto))"
    using rl by simp
  finally show "mset (normalize_price_locks (map price_lock_of_row locks)) = mset (map stored_lock (normalize_price_locks (cd_priceLocks dto)))"
    using mset_normalize(2) normalize_stored(2) by metis
qed

lemma check_creation_inv:
  assumes "check_creation dto db = Inr ()"
  obtains idx where "load_classification_index db = Inr idx"
    and "check_target (cd_calculationBaseType dto) (cd_priceBaseSources dto) (cd_eans dto) (cd_classifications dto) = Inr ()"
    and "check_rules (normalize_classification_ids (cd_classifications dto)) (normalize_pricing_rules (cd_pricingRules dto))
              (normalize_price_locks (cd_priceLocks dto)) idx = Inr ()"
  using assms by (auto simp: check_creation_def bind_outcome_Inr_iff split: if_splits)

lemma check_rules_ids:
  "check_rules (normalize_classification_ids cs) rs ls idx = Inr () \<longleftrightarrow> check_rules cs rs ls idx = Inr ()"
proof -
  have "set (items_of (normalize_classification_ids cs)) = set (items_of cs)"
    by (auto simp: items_of_def normalize_classification_ids_def split: option.splits list.splits)
  moreover have "assert_known_ids ids idx = Inr () \<longleftrightarrow> (\<forall>x \<in> set ids. depthById idx x \<noteq> None)" for ids
    by (auto simp: assert_known_ids_def unknown_ids_def filter_empty_conv)
  ultimately show ?thesis by (simp add: check_rules_def bind_outcome_Inr_iff ball_Un)
qed

lemma rows_have_base_price:
  assumes "p \<in> set (if base = CompetitivePrice then attach_competitor_prices db ss (target_rows t idx db) else target_rows t idx db)"
  shows "pp_margin p \<noteq> NaN" "calculation_base_price p base sources \<noteq> Some NaN"
proof -
  have n: "pp_margin p \<noteq> NaN" "pp_salePrice p \<noteq> NaN" "own_price p \<noteq> NaN"
    using assms attached_numbers target_rows_numbers by (auto split: if_splits)
  show "pp_margin p \<noteq> NaN" by (rule n(1))
  show "calculation_base_price p base sources \<noteq> Some NaN"
    using base_price_not_NaN [OF n(2), of base sources] n(3) by (auto simp: calculation_base_price_def)
qed

text \<open>The execution prices, with the stored rules, the products the request names.\<close>

lemma execution_prices_request:
  assumes c: "create_offer_rule now newId dto db = (db', Inr i)" and fresh: "fresh_rule_id newId db"
    and two: "two_decimal_request dto"
    and pr: "mset pricing = mset (filter (\<lambda>p. pw_ruleId p = i) (od_pricing db'))"
    and lk: "mset locks = mset (filter (\<lambda>l. lw_ruleId l = i) (od_locks db'))"
    and r: "live_rule i db' = Some r" and rows: "compute_for_rule slug r pricing locks db' = Inr rows"
    and idx: "load_classification_index db = Inr idx"
    and chk: "check_rules (normalize_classification_ids (cd_classifications dto)) (normalize_pricing_rules (cd_pricingRules dto))
              (normalize_price_locks (cd_priceLocks dto)) idx = Inr ()"
  shows "if target_rows \<lparr>tg_eans = map_option (map ean_number) (cd_eans dto), tg_classifications = cd_classifications dto\<rparr> idx db = [] then rows = []
    else priced_rows slug db (cd_calculationBaseType dto) (cd_priceBaseSources dto) (normalize_pricing_rules (cd_pricingRules dto))
      (normalize_price_locks (cd_priceLocks dto)) (or_false (cd_applyPriceRounding dto)) idx (target_rows \<lparr>tg_eans = map_option (map ean_number) (cd_eans dto), tg_classifications = cd_classifications dto\<rparr> idx db) = Inr rows"
proof -
  let ?t = "\<lparr>tg_eans = map_option (map ean_number) (cd_eans dto), tg_classifications = cd_classifications dto\<rparr>"
  let ?P = "priced_rows slug db (cd_calculationBaseType dto) (cd_priceBaseSources dto) (normalize_pricing_rules (cd_pricingRules dto))
      (normalize_price_locks (cd_priceLocks dto)) (or_false (cd_applyPriceRounding dto)) idx"
  note ci = create_offer_rule_inv [OF c]
  have r': "r = offer_rule_of now newId dto" using r created_rows(1) [OF c fresh] by simp
  have idx': "load_classification_index db' = Inr idx"
    using idx unfolding ci by (simp add: load_classification_index_def live_classifications_def)
  have b: "build_classification_index (live_classifications db) = Some idx" using idx by (simp add: index_of_load)
  have v: "validate_pricing_rules (normalize_pricing_rules (cd_pricingRules dto)) idx = Inr ()"
      "validate_price_locks (normalize_price_locks (cd_priceLocks dto)) idx = Inr ()"
    using chk by (auto simp: check_rules_def bind_outcome_Inr_iff)
  have rw: "target_rows (rule_target_of r db') idx db' = target_rows ?t idx db"
    by (rule target_rows_cong) (use created_target_products [OF c fresh idx] in \<open>simp_all add: ci r'\<close>)
  have same: "priced_rows slug db' (cd_calculationBaseType dto) (cd_priceBaseSources dto) (normalize_pricing_rules (map pricing_rule_of_row pricing))
      (normalize_price_locks (map price_lock_of_row locks)) (or_false (cd_applyPriceRounding dto)) idx (target_rows ?t idx db) =
      ?P (target_rows ?t idx db)"
    by (rule priced_rows_cong)
      (use stored_preview [OF b v stored_tables [OF c fresh two pr lk]] rows_have_base_price in \<open>auto simp: ci split: if_splits\<close>)
  have rf: "or_calculationBaseType r = cd_calculationBaseType dto" "or_priceBaseSources r = cd_priceBaseSources dto"
    "or_applyPriceRounding r = or_false (cd_applyPriceRounding dto)"
    by (simp_all add: r' offer_rule_of_def)
  show ?thesis
    using rows unfolding compute_for_rule_def idx' bind_outcome_simps Let_def collect_pages_all rw rf same
    by (simp split: if_splits)
qed

text \<open>
  C9. The dry run predicts the execution of a request whose numbers have at most two decimals (the
  condition \<open>two_decimal_request\<close>; the columns are \<open>numeric(12,2)\<close>, the DTO only asks for numbers).
  After such a rule is created, what its execution computes is what the dry run of the same request
  shows, page by page, before it: the same products in the same order with the same prices, whatever
  the order in which the database returns the stored rules and locks. With a third decimal the two
  differ: \<open>third_decimal_changes_the_price\<close>.
\<close>

theorem preview_predicts_execution:
  assumes c: "create_offer_rule now newId dto db = (db', Inr i)" and fresh: "fresh_rule_id newId db"
    and two: "two_decimal_request dto"
    and pr: "mset pricing = mset (filter (\<lambda>p. pw_ruleId p = i) (od_pricing db'))"
    and lk: "mset locks = mset (filter (\<lambda>l. lw_ruleId l = i) (od_locks db'))"
    and r: "live_rule i db' = Some r" and rows: "compute_for_rule slug r pricing locks db' = Inr rows"
    and page: "1 \<le> p" "1 \<le> s" "s \<le> MAX_PAGE_SIZE"
  shows "\<exists>res. preview_offer_rules slug (preview_of_creation dto (Some p) (Some s)) db = Inr res \<and>
     pg_total res = length rows \<and> pg_rows res = take s (drop ((p - 1) * s) rows)"
proof -
  obtain idx where idx: "load_classification_index db = Inr idx"
    and t: "check_target (cd_calculationBaseType dto) (cd_priceBaseSources dto) (cd_eans dto) (cd_classifications dto) = Inr ()"
    and chk: "check_rules (normalize_classification_ids (cd_classifications dto)) (normalize_pricing_rules (cd_pricingRules dto))
              (normalize_price_locks (cd_priceLocks dto)) idx = Inr ()"
    using check_creation_inv [OF create_offer_rule_inv(2) [OF c]] by blast
  let ?t = "\<lparr>tg_eans = map_option (map ean_number) (cd_eans dto), tg_classifications = cd_classifications dto\<rparr>"
  let ?P = "priced_rows slug db (cd_calculationBaseType dto) (cd_priceBaseSources dto) (normalize_pricing_rules (cd_pricingRules dto))
      (normalize_price_locks (cd_priceLocks dto)) (or_false (cd_applyPriceRounding dto)) idx"
  note all = execution_prices_request [OF c fresh two pr lk r rows idx chk]
  obtain k where k: "p = Suc k" using page(1) by (cases p) auto
  have len: "length rows = length (target_rows ?t idx db)"
    using all by (auto simp: priced_rows_def calculate_previews_def attach_competitor_prices_def Let_def bind_outcome_Inr_iff split: if_splits)
  have rd: "(cd_applyPriceRounding dto = Some True) = or_false (cd_applyPriceRounding dto)"
    by (cases "cd_applyPriceRounding dto") (auto simp: or_false_def)
  have sz: "min s MAX_PAGE_SIZE = s" using page(3) by simp
  show ?thesis
  proof (cases "target_rows ?t idx db = []")
    case True
    then show ?thesis
      using t idx chk len all unfolding preview_offer_rules_def preview_of_creation_def
      by (simp add: check_rules_ids k fetch_page sz)
  next
    case False
    from priced_rows_slice [of slug db _ _ _ _ _ idx "target_rows ?t idx db" rows s "k * s"] all False
    have "?P (take s (drop (k * s) (target_rows ?t idx db))) = Inr (take s (drop (k * s) rows))" by simp
    then show ?thesis
      using t idx chk len False unfolding preview_offer_rules_def preview_of_creation_def
      by (simp add: check_rules_ids k fetch_page sz rd)
  qed
qed

text \<open>A tenant with one product and one active campaign, and a request for it.\<close>

definition demo_offer_db :: offer_db where
  "demo_offer_db = \<lparr>od_rules = [], od_pricing = [], od_locks = [], od_products = [],
     od_campaigns = [\<lparr>cp_externalId = 5, cp_active = True, cp_startDate = None, cp_expirationDate = None, cm_name = ''c'', cm_deleted = False\<rparr>],
     od_classifications = [], od_catalog = \<lparr>ct_products = [\<lparr>pr_id = ''p1'', pr_ean = ''789'', pr_externalId = Some 7, pr_name = Some ''p'',
        pr_active = True, pr_price = Some 30, pr_cost = Some 10, pr_averageUnitCost = None, pr_unitSalePrice = None, pr_supplier = None,
        pr_monitored = False, pr_classificationId = None\<rparr>], ct_items = [], ct_stores = [], ct_offers = [], ct_tenants = [''acme'' \<mapsto> ''t1''],
        ct_defaultCaderno = (\<lambda>_. None), ct_apiCredentials = (\<lambda>_. True), ct_erp = [], ct_erpConfirms = (\<lambda>_. True)\<rparr>,
     od_margin = (\<lambda>_. None), od_productDeleted = (\<lambda>_. False), od_shared = [],
     od_rounding = \<lparr>ro_ranges = [], ro_buckets = [], ro_tenants = [''acme'' \<mapsto> ''t1''],
       ro_rangeRank = (\<lambda>_. 0), ro_bucketRank = (\<lambda>_ _. 0)\<rparr>\<rparr>"

definition demo_creation :: create_offer_rule_dto where
  "demo_creation = \<lparr>cd_offerBookInfoId = 5, cd_calculationBaseType = SalePrice, cd_priceBaseSources = None,
     cd_eans = Some [''789''], cd_classifications = None, cd_pricingRules = [demo_rule None None 50], cd_priceLocks = [],
     cd_scheduleEnabled = None, cd_scheduledDays = None, cd_applyPriceRounding = None\<rparr>"

lemma demo_offer_index: "load_classification_index demo_offer_db = Inr (index_of [] Map.empty)"
  by (simp add: load_classification_index_def live_classifications_def demo_offer_db_def build_classification_index_def)

lemma demo_created: "\<exists>db'. create_offer_rule 1 ''r1'' demo_creation demo_offer_db = (db', Inr ''r1'')"
proof -
  have "check_creation demo_creation demo_offer_db = Inr ()"
    unfolding check_creation_def demo_offer_index
    by (simp add: demo_creation_def demo_offer_db_def check_target_def no_items_def check_rules_def assert_known_ids_def unknown_ids_def
        normalize_pricing_rules_def normalize_price_locks_def normalize_classification_ids_def items_of_def demo_rule_def
        validate_pricing_rules_def validate_price_locks_def active_rules_of_def active_locks_of_def first_clash_def index_pairs_def dedup_def)
  moreover have "fits_numeric 12 50" by code_simp
  then have "creation_fits demo_creation"
    by (simp add: creation_fits_def rule_fits_def opt_fits_def demo_creation_def demo_rule_def)
  ultimately show ?thesis
    by (auto simp: create_offer_rule_def Let_def demo_creation_def demo_offer_db_def items_of_def dedup_def)
qed

theorem preview_predicts_execution_witness:
  "\<exists>db' r rows res. create_offer_rule 1 ''r1'' demo_creation demo_offer_db = (db', Inr ''r1'') \<and> live_rule ''r1'' db' = Some r \<and>
     compute_for_rule ''acme'' r (od_pricing db') (od_locks db') db' = Inr rows \<and>
     preview_offer_rules ''acme'' (preview_of_creation demo_creation (Some 1) (Some 10)) demo_offer_db = Inr res \<and> pg_rows res = take 10 rows"
proof -
  obtain db' where c: "create_offer_rule 1 ''r1'' demo_creation demo_offer_db = (db', Inr ''r1'')" using demo_created by blast
  note ci = create_offer_rule_inv [OF c]
  have fresh: "fresh_rule_id ''r1'' demo_offer_db" by (simp add: fresh_rule_id_def demo_offer_db_def)
  have "two_decimals 50" by code_simp
  then have two: "two_decimal_request demo_creation"
    by (simp add: two_decimal_request_def demo_creation_def two_decimal_rule_def two_decimal_opt_def demo_rule_def)
  define r where "r = offer_rule_of 1 ''r1'' demo_creation"
  have r: "live_rule ''r1'' db' = Some r" unfolding r_def by (rule created_rows(1) [OF c fresh])
  have all: "filter (\<lambda>p. pw_ruleId p = ''r1'') (od_pricing db') = od_pricing db'" "filter (\<lambda>l. lw_ruleId l = ''r1'') (od_locks db') = od_locks db'"
    unfolding ci(4) by (simp_all add: demo_offer_db_def demo_creation_def normalize_pricing_rules_def normalize_price_locks_def pricing_row_of_def)
  have idx: "load_classification_index db' = Inr (index_of [] Map.empty)"
    using demo_offer_index unfolding ci(4) by (simp add: load_classification_index_def live_classifications_def)
  have "tg_eans (rule_target_of r db') = Some [ean_number ''789'']"
    using created_rows(4) [OF c fresh] by (simp add: rule_target_of_def r_def offer_rule_of_def demo_creation_def items_of_def dedup_def)
  moreover have "or_applyPriceRounding r = False" by (simp add: r_def offer_rule_of_def demo_creation_def or_false_def)
  ultimately have "\<exists>rows. compute_for_rule ''acme'' r (od_pricing db') (od_locks db') db' = Inr rows"
    by (simp add: compute_for_rule_def idx Let_def priced_rows_def)
  then obtain rows where rows: "compute_for_rule ''acme'' r (od_pricing db') (od_locks db') db' = Inr rows" ..
  from preview_predicts_execution [OF c fresh two _ _ r rows, of 1 10] all
  obtain res where "preview_offer_rules ''acme'' (preview_of_creation demo_creation (Some 1) (Some 10)) demo_offer_db = Inr res"
    "pg_rows res = take 10 rows"
    by (auto simp: MAX_PAGE_SIZE_def)
  with c r rows show ?thesis by blast
qed

text \<open>
  C10. An offer book has at most one rule. Every creation and removal, accepted or refused, keeps
  the offer books of the rules distinct; a creation for a book that has a rule is refused, and a
  refused request leaves the tables as they were; a running rule is never removed.
\<close>

theorem one_rule_per_offer_book:
  assumes "distinct (map or_offerBookInfoId (od_rules db))"
    and "create_offer_rule now newId dto db = (db', out)" "remove_offer_rule i db = (db'', out')"
  shows "distinct (map or_offerBookInfoId (od_rules db')) \<and> (\<forall>e. out = Inl e \<longrightarrow> db' = db) \<and>
      (cd_offerBookInfoId dto \<in> or_offerBookInfoId ` set (od_rules db) \<longrightarrow> (\<exists>e. out = Inl e)) \<and>
      distinct (map or_offerBookInfoId (od_rules db'')) \<and> (\<forall>e. out' = Inl e \<longrightarrow> db'' = db) \<and>
      filter (\<lambda>r. or_status r = Running) (od_rules db'') = filter (\<lambda>r. or_status r = Running) (od_rules db)"
proof -
  note c = assms(2)
  have "distinct (map or_offerBookInfoId (od_rules db')) \<and> (\<forall>e. out = Inl e \<longrightarrow> db' = db) \<and>
      (cd_offerBookInfoId dto \<in> or_offerBookInfoId ` set (od_rules db) \<longrightarrow> (\<exists>e. out = Inl e))"
  proof (cases out)
    case (Inl e)
    then have "db' = db" using c by (auto simp: create_offer_rule_def Let_def split: sum.splits if_splits)
    then show ?thesis using Inl assms by simp
  next
    case (Inr j)
    have "cd_offerBookInfoId dto \<notin> or_offerBookInfoId ` set (od_rules db)"
      using c Inr by (auto simp: create_offer_rule_def list_ex_iff Let_def split: sum.splits if_splits)
    moreover have "od_rules db' = od_rules db @ [offer_rule_of now newId dto]"
      using create_offer_rule_inv(4) c Inr by fastforce
    ultimately show ?thesis using assms(1) Inr by (auto simp: offer_rule_of_def)
  qed
  moreover have "filter (\<lambda>r. or_status r = Running) (filter (\<lambda>r. \<not> (or_id r = i \<and> or_status r \<noteq> Running)) rs) =
      filter (\<lambda>r. or_status r = Running) rs" for rs
    by (induction rs) auto
  then have "distinct (map or_offerBookInfoId (od_rules db'')) \<and> (\<forall>e. out' = Inl e \<longrightarrow> db'' = db) \<and>
      filter (\<lambda>r. or_status r = Running) (od_rules db'') = filter (\<lambda>r. or_status r = Running) (od_rules db)"
    using assms(1,3) by (auto simp: remove_offer_rule_def distinct_map_filter split: if_splits)
  ultimately show ?thesis by blast
qed

theorem one_rule_per_offer_book_witness:
  "\<exists>db' e. create_offer_rule 1 ''r1'' demo_creation demo_offer_db = (db', Inr ''r1'') \<and>
     create_offer_rule 2 ''r2'' demo_creation db' = (db', Inl e)"
proof -
  obtain db' where c: "create_offer_rule 1 ''r1'' demo_creation demo_offer_db = (db', Inr ''r1'')" using demo_created by blast
  have "distinct (map or_offerBookInfoId (od_rules demo_offer_db))" by (simp add: demo_offer_db_def)
  from one_rule_per_offer_book [OF this c surjective_pairing] have d: "distinct (map or_offerBookInfoId (od_rules db'))" by simp
  have m: "cd_offerBookInfoId demo_creation \<in> or_offerBookInfoId ` set (od_rules db')"
    unfolding create_offer_rule_inv(4) [OF c] by (simp add: offer_rule_of_def)
  obtain db2 out where c2: "create_offer_rule 2 ''r2'' demo_creation db' = (db2, out)" by fastforce
  obtain db3 out3 where r: "remove_offer_rule ''r1'' db' = (db3, out3)" by fastforce
  from one_rule_per_offer_book [OF d c2 r] m obtain e where "out = Inl e" "db2 = db'" by blast
  with c c2 show ?thesis by blast
qed

end
