(* ===== verification/Offer_Book_Execution.thy ===== *)
theory Offer_Book_Execution
  imports Offer_Book_Rules Pricing_Apply
begin

text \<open>
  The execution of an offer-book rule, the request side:
  \<open>src/tenant-api/offer-book-rules/offer-book-rules-execution.service.ts\<close> with the entities of the
  execution report and its items. An execution claims the rule, computes the prices and freezes them
  as items of a report; the worker (\<open>Offer_Book_Worker\<close>) pushes what is frozen.

  A request runs in one transaction: when it throws, the tables stay as they were. Instants are
  milliseconds; generated ids, the clock, the zone of the calendar and the advisory locks another
  session holds are arguments. Barcodes are their decimal text.
\<close>

section \<open>Tables\<close>

datatype execution_type = Manual | Scheduled
datatype execution_outcome = Success | Failure | NoChanges
datatype ledger_status = LedgerPending | ErpApplied | LedgerApplied | LedgerFailed | LedgerSkipped

record exec_report =
  er_id :: string
  er_ruleId :: string
  er_offerBookInfoId :: int
  er_executedAt :: int
  er_executionType :: execution_type
  er_calculationBaseType :: calculation_base
  er_totalProducts :: nat
  er_productsUpdated :: nat
  er_productsSkipped :: nat
  er_outcome :: "execution_outcome option"
  er_errorMessage :: "string option"
  er_deleted :: bool

text \<open>A row of the report copies the external id of the product, and so is modelled as its number too.\<close>

record report_item =
  ei_id :: string
  ei_reportId :: string
  ei_ean :: string
  ei_externalId :: "int option"
  ei_name :: string
  ei_classification :: string
  ei_baseSalePrice :: rat
  ei_currentPrice :: rat
  ei_currentMargin :: rat
  ei_cost :: rat
  ei_actionType :: "pricing_action option"
  ei_percentageValue :: rat
  ei_appliedPercentageValue :: rat
  ei_finalPrice :: rat
  ei_newMargin :: rat
  ei_priceLockApplied :: bool
  ei_discountSkipped :: bool
  ei_skippedNoCompetitorPrice :: bool
  ei_skippedPriceExceedsLimit :: bool
  ei_priceRoundingApplied :: bool
  ei_wasUpdated :: bool
  ei_applyStatus :: ledger_status
  ei_applyError :: "string option"

text \<open>One request to the ERP: the offer book, and the packages with their offer prices.\<close>

type_synonym offer_push = "int \<times> (int \<times> jsnum) list"

text \<open>
  What an execution touches. The transactions of the worker are numbered: \<open>xd_clock\<close> is the instant
  of each, \<open>xd_faults\<close> tells which of them fail, and \<open>xd_others\<close> is what other sessions did to the
  tables of the tenant before each. \<open>xd_pushes\<close> is the log of the requests to the ERP with their
  success, which \<open>xd_confirms\<close> decides.
\<close>

record exec_db =
  xd_offers :: offer_db
  xd_reports :: "exec_report list"
  xd_items :: "report_item list"
  xd_outbox :: "step_payload outbox"
  xd_pushes :: "(offer_push \<times> bool) list"
  xd_confirms :: "nat \<Rightarrow> bool"
  xd_txs :: nat
  xd_clock :: "nat \<Rightarrow> int"
  xd_faults :: "nat \<Rightarrow> bool"
  xd_others :: "nat \<Rightarrow> offer_db \<Rightarrow> offer_db"

section \<open>Numbers as columns\<close>

text \<open>A number written to a \<open>numeric\<close> column: rounded to its scale, refused past its precision.\<close>

definition numeric_column :: "(rat \<Rightarrow> rat) \<Rightarrow> rat \<Rightarrow> jsnum \<Rightarrow> rat outcome" where
  "numeric_column f limit x =
     bind_outcome (numeric_param x) (\<lambda>r. if limit \<le> \<bar>f r\<bar> then Inl (Error ''22003'') else Inr (f r))"

definition price_column :: "jsnum \<Rightarrow> rat outcome" where
  "price_column = numeric_column numeric_12_2 (10 ^ 10)"

definition percent_column :: "jsnum \<Rightarrow> rat outcome" where
  "percent_column = numeric_column numeric_12_2 (10 ^ 8)"

definition cost_column :: "jsnum \<Rightarrow> rat outcome" where
  "cost_column = numeric_column numeric_12_4 (10 ^ 8)"

section \<open>The claim\<close>

definition EXECUTE_LOCK_MINUTES :: int where
  "EXECUTE_LOCK_MINUTES = 30"

definition ITEM_INSERT_CHUNK :: nat where
  "ITEM_INSERT_CHUNK = 500"

text \<open>Goes to the ERP: not skipped, and with a price other than the one the calculation started from.\<close>

definition should_push :: "preview_result \<Rightarrow> bool" where
  "should_push r =
     (\<not> px_skippedNoCompetitorPrice r \<and> \<not> px_skippedPriceExceedsLimit r \<and> \<not> js_eq (px_finalPrice r) (px_currentPrice r))"

definition to_item :: "string \<Rightarrow> string \<Rightarrow> ledger_status \<Rightarrow> preview_result \<Rightarrow> report_item outcome" where
  "to_item itemId reportId applyStatus r =
     bind_outcome (price_column (px_baseSalePrice r)) (\<lambda>baseSalePrice.
     bind_outcome (price_column (px_currentPrice r)) (\<lambda>currentPrice.
     bind_outcome (percent_column (px_currentMargin r)) (\<lambda>currentMargin.
     bind_outcome (cost_column (px_cost r)) (\<lambda>cost.
     bind_outcome (percent_column (px_percentageValue r)) (\<lambda>percentageValue.
     bind_outcome (percent_column (px_appliedPercentageValue r)) (\<lambda>appliedPercentageValue.
     bind_outcome (price_column (px_finalPrice r)) (\<lambda>finalPrice.
     bind_outcome (percent_column (px_newMargin r)) (\<lambda>newMargin.
       Inr \<lparr>ei_id = itemId, ei_reportId = reportId, ei_ean = px_ean r, ei_externalId = px_externalId r,
            ei_name = px_name r, ei_classification = px_classification r, ei_baseSalePrice = baseSalePrice,
            ei_currentPrice = currentPrice, ei_currentMargin = currentMargin, ei_cost = cost,
            ei_actionType = px_actionType r, ei_percentageValue = percentageValue,
            ei_appliedPercentageValue = appliedPercentageValue, ei_finalPrice = finalPrice,
            ei_newMargin = newMargin, ei_priceLockApplied = px_priceLockApplied r,
            ei_discountSkipped = px_discountSkipped r, ei_skippedNoCompetitorPrice = px_skippedNoCompetitorPrice r,
            ei_skippedPriceExceedsLimit = px_skippedPriceExceedsLimit r,
            ei_priceRoundingApplied = px_priceRoundingApplied r, ei_wasUpdated = False,
            ei_applyStatus = applyStatus, ei_applyError = None\<rparr>))))))))"

fun map_outcome :: "('a \<Rightarrow> 'b outcome) \<Rightarrow> 'a list \<Rightarrow> 'b list outcome" where
  "map_outcome f [] = Inr []"
| "map_outcome f (x # xs) = bind_outcome (f x) (\<lambda>y. bind_outcome (map_outcome f xs) (\<lambda>ys. Inr (y # ys)))"

text \<open>The campaign of the offer book must be active and running.\<close>

definition campaign_valid :: "int \<Rightarrow> int \<Rightarrow> offer_db \<Rightarrow> bool" where
  "campaign_valid now offerBookInfoId db =
     list_ex (\<lambda>c. cp_externalId c = offerBookInfoId \<and> cp_active c \<and> \<not> cm_deleted c \<and>
       (case cp_startDate c of None \<Rightarrow> True | Some s \<Rightarrow> s \<le> now) \<and>
       (case cp_expirationDate c of None \<Rightarrow> True | Some e \<Rightarrow> now \<le> e)) (od_campaigns db)"

definition assert_campaign_is_executable :: "int \<Rightarrow> int \<Rightarrow> offer_db \<Rightarrow> unit outcome" where
  "assert_campaign_is_executable now offerBookInfoId db =
     (if campaign_valid now offerBookInfoId db then Inr ()
      else Inl (ConflictException (''Caderno de ofertas '' @ show_int offerBookInfoId @ '' nao esta ativo e vigente'')))"

definition enqueue_execution :: "int \<Rightarrow> string \<Rightarrow> string \<Rightarrow> exec_db \<Rightarrow> exec_db" where
  "enqueue_execution now slug reportId db =
     db\<lparr>xd_outbox := insert_many now reportId slug
         [new_pipeline_message now reportId slug (step_value EXECUTE_OFFER_BOOK_RULE) None EmptyPayload None (Some True)]
         (xd_outbox db)\<rparr>"

text \<open>The items of the new report: what is pushed first, then what is skipped.\<close>

definition frozen_items :: "(nat \<Rightarrow> string) \<Rightarrow> string \<Rightarrow> preview_result list \<Rightarrow> report_item list outcome" where
  "frozen_items itemIds reportId results =
     map_outcome (\<lambda>(k, st, r). to_item (itemIds k) reportId st r)
       (enumerate 0 (map (Pair LedgerPending) (filter should_push results) @
                     map (Pair LedgerSkipped) (filter (\<lambda>r. \<not> should_push r) results)))"

definition insert_report_items :: "report_item list \<Rightarrow> report_item list \<Rightarrow> report_item list" where
  "insert_report_items new items = foldl (@) items (chunks ITEM_INSERT_CHUNK new)"

definition new_execution ::
  "int \<Rightarrow> string \<Rightarrow> (nat \<Rightarrow> string) \<Rightarrow> string \<Rightarrow> execution_type \<Rightarrow> offer_rule \<Rightarrow> exec_db \<Rightarrow> exec_db \<times> string outcome" where
  "new_execution now reportId itemIds slug executionType rule db =
     (let ruleId = or_id rule; offers = xd_offers db;
          claimed = offers\<lparr>od_rules := update_where (\<lambda>r. or_id r = ruleId)
             (\<lambda>r. r\<lparr>or_status := Running, or_activeReportId := Some reportId, or_updatedAt := now\<rparr>) (od_rules offers)\<rparr>;
          pricing = filter (\<lambda>p. pw_ruleId p = ruleId) (od_pricing offers);
          locks = filter (\<lambda>l. lw_ruleId l = ruleId) (od_locks offers)
      in case assert_campaign_is_executable now (or_offerBookInfoId rule) offers of
           Inl e \<Rightarrow> (db, Inl e)
         | Inr _ \<Rightarrow>
             (case compute_for_rule slug rule pricing locks claimed of
                Inl e \<Rightarrow> (db, Inl e)
              | Inr results \<Rightarrow>
                  (case frozen_items itemIds reportId results of
                     Inl e \<Rightarrow> (db, Inl e)
                   | Inr items \<Rightarrow>
                       let report = \<lparr>er_id = reportId, er_ruleId = ruleId, er_offerBookInfoId = or_offerBookInfoId rule,
                             er_executedAt = now, er_executionType = executionType,
                             er_calculationBaseType = or_calculationBaseType rule,
                             er_totalProducts = length results, er_productsUpdated = 0,
                             er_productsSkipped = length (filter (\<lambda>r. \<not> should_push r) results),
                             er_outcome = None, er_errorMessage = None, er_deleted = False\<rparr>
                       in (enqueue_execution now slug reportId
                             (db\<lparr>xd_offers := claimed, xd_reports := xd_reports db @ [report],
                                 xd_items := insert_report_items items (xd_items db)\<rparr>), Inr reportId))))"

text \<open>An old execution is resumed with its own report, when no worker holds its lock.\<close>

definition resume_execution ::
  "int \<Rightarrow> (string \<Rightarrow> bool) \<Rightarrow> string \<Rightarrow> offer_rule \<Rightarrow> exec_db \<Rightarrow> exec_db \<times> string outcome" where
  "resume_execution now locked slug rule db =
     (case or_activeReportId rule of
        None \<Rightarrow> (db, Inl (ConflictException (''Regra '' @ or_id rule @ '' possui uma execucao inconsistente'')))
      | Some reportId \<Rightarrow>
          if locked reportId then (db, Inl (ConflictException (''Regra '' @ or_id rule @ '' ja esta em execucao'')))
          else let offers = xd_offers db in
            (enqueue_execution now slug reportId
               (db\<lparr>xd_offers := offers\<lparr>od_rules := update_where (\<lambda>r. or_id r = or_id rule)
                  (\<lambda>r. r\<lparr>or_updatedAt := now\<rparr>) (od_rules offers)\<rparr>\<rparr>), Inr reportId))"

definition execute_rule ::
  "int \<Rightarrow> string \<Rightarrow> (nat \<Rightarrow> string) \<Rightarrow> (string \<Rightarrow> bool) \<Rightarrow> string \<Rightarrow> string \<Rightarrow> execution_type \<Rightarrow> exec_db \<Rightarrow>
   exec_db \<times> string outcome" where
  "execute_rule now newId itemIds locked slug ruleId executionType db =
     (case live_rule ruleId (xd_offers db) of
        None \<Rightarrow> (db, Inl (NotFoundException (''Regra '' @ ruleId @ '' nao encontrada'')))
      | Some rule \<Rightarrow>
          if or_status rule \<noteq> Running then new_execution now newId itemIds slug executionType rule db
          else if \<not> or_updatedAt rule < now - EXECUTE_LOCK_MINUTES * 60000
          then (db, Inl (ConflictException (''Regra '' @ ruleId @ '' ja esta em execucao'')))
          else resume_execution now locked slug rule db)"

section \<open>The reports\<close>

text \<open>\<open>page\<close> and \<open>perPage\<close> of a query are validated: at least one, at most 100 per page.\<close>

record report_header =
  rh_id :: string
  rh_ruleId :: string
  rh_offerBookInfoId :: int
  rh_executedAt :: int
  rh_executionType :: execution_type
  rh_calculationBaseType :: calculation_base
  rh_totalProducts :: nat
  rh_productsUpdated :: nat
  rh_productsSkipped :: nat
  rh_outcome :: "execution_outcome option"
  rh_errorMessage :: "string option"

record paginated_reports =
  pg_rows :: "report_header list"
  pg_total :: nat
  pg_page :: nat
  pg_pageSize :: nat
  pg_totalPages :: nat

record item_api =
  ia_ean :: string
  ia_name :: string
  ia_classification :: string
  ia_baseSalePrice :: rat
  ia_currentPrice :: rat
  ia_currentMargin :: rat
  ia_cost :: rat
  ia_actionType :: "pricing_action option"
  ia_percentageValue :: rat
  ia_appliedPercentageValue :: rat
  ia_finalPrice :: rat
  ia_newMargin :: rat
  ia_priceLockApplied :: bool
  ia_discountSkipped :: bool
  ia_skippedNoCompetitorPrice :: bool
  ia_skippedPriceExceedsLimit :: bool
  ia_priceRoundingApplied :: bool
  ia_wasUpdated :: bool
  ia_applyStatus :: ledger_status
  ia_applyError :: "string option"

record report_detail =
  rd_report :: report_header
  rd_items :: "item_api list"
  rd_totalItems :: nat
  rd_page :: nat
  rd_pageSize :: nat
  rd_totalPages :: nat

definition to_header :: "exec_report \<Rightarrow> report_header" where
  "to_header r =
     \<lparr>rh_id = er_id r, rh_ruleId = er_ruleId r, rh_offerBookInfoId = er_offerBookInfoId r,
      rh_executedAt = er_executedAt r, rh_executionType = er_executionType r,
      rh_calculationBaseType = er_calculationBaseType r, rh_totalProducts = er_totalProducts r,
      rh_productsUpdated = er_productsUpdated r, rh_productsSkipped = er_productsSkipped r,
      rh_outcome = er_outcome r, rh_errorMessage = er_errorMessage r\<rparr>"

definition to_item_api :: "report_item \<Rightarrow> item_api" where
  "to_item_api i =
     \<lparr>ia_ean = ei_ean i, ia_name = ei_name i, ia_classification = ei_classification i,
      ia_baseSalePrice = round_double (ei_baseSalePrice i), ia_currentPrice = round_double (ei_currentPrice i),
      ia_currentMargin = round_double (ei_currentMargin i), ia_cost = round_double (ei_cost i),
      ia_actionType = ei_actionType i, ia_percentageValue = round_double (ei_percentageValue i),
      ia_appliedPercentageValue = round_double (ei_appliedPercentageValue i),
      ia_finalPrice = round_double (ei_finalPrice i), ia_newMargin = round_double (ei_newMargin i),
      ia_priceLockApplied = ei_priceLockApplied i, ia_discountSkipped = ei_discountSkipped i,
      ia_skippedNoCompetitorPrice = ei_skippedNoCompetitorPrice i,
      ia_skippedPriceExceedsLimit = ei_skippedPriceExceedsLimit i,
      ia_priceRoundingApplied = ei_priceRoundingApplied i, ia_wasUpdated = ei_wasUpdated i,
      ia_applyStatus = ei_applyStatus i, ia_applyError = ei_applyError i\<rparr>"

definition paged_reports ::
  "nat option \<Rightarrow> nat option \<Rightarrow> (exec_report \<Rightarrow> bool) \<Rightarrow> exec_db \<Rightarrow> paginated_reports" where
  "paged_reports page perPage refine db =
     (let p = (case page of None \<Rightarrow> 1 | Some n \<Rightarrow> n);
          pageSize = min (case perPage of None \<Rightarrow> 20 | Some n \<Rightarrow> n) 100;
          found = filter (\<lambda>r. \<not> er_deleted r \<and> refine r) (xd_reports db);
          rows = take pageSize (drop ((p - 1) * pageSize) (sort_key (\<lambda>r. - er_executedAt r) found))
      in \<lparr>pg_rows = map to_header rows, pg_total = length found, pg_page = p, pg_pageSize = pageSize,
          pg_totalPages = ceil_div (length found) pageSize\<rparr>)"

definition list_by_rule :: "string \<Rightarrow> nat option \<Rightarrow> nat option \<Rightarrow> exec_db \<Rightarrow> paginated_reports" where
  "list_by_rule ruleId page perPage = paged_reports page perPage (\<lambda>r. er_ruleId r = ruleId)"

record list_reports_query =
  lq_page :: "nat option"
  lq_perPage :: "nat option"
  lq_ruleId :: "string option"
  lq_offerBookInfoId :: "int option"
  lq_executionType :: "execution_type option"
  lq_outcome :: "execution_outcome option"
  lq_startDate :: "string option"
  lq_endDate :: "string option"

definition is_digit :: "char \<Rightarrow> bool" where
  "is_digit c = (48 \<le> code_unit c \<and> code_unit c \<le> 57)"

definition is_date_only :: "string \<Rightarrow> bool" where
  "is_date_only s =
     (length s = 10 \<and> s ! 4 = CHR ''-'' \<and> s ! 7 = CHR ''-'' \<and>
      list_all (\<lambda>k. is_digit (s ! k)) [0, 1, 2, 3, 5, 6, 8, 9])"

text \<open>
  The calendar is a parameter: \<open>midnight d\<close> is the first instant of the day in America/Sao_Paulo,
  \<open>next_midnight d\<close> of the day after, \<open>instant s\<close> the instant an ISO text denotes.
\<close>

definition list_all_reports ::
  "(string \<Rightarrow> int) \<Rightarrow> (string \<Rightarrow> int) \<Rightarrow> (string \<Rightarrow> int) \<Rightarrow> list_reports_query \<Rightarrow> exec_db \<Rightarrow> paginated_reports" where
  "list_all_reports midnight next_midnight instant q =
     paged_reports (lq_page q) (lq_perPage q) (\<lambda>r.
       (case given (lq_ruleId q) of None \<Rightarrow> True | Some i \<Rightarrow> er_ruleId r = i) \<and>
       (case lq_offerBookInfoId q of None \<Rightarrow> True | Some i \<Rightarrow> er_offerBookInfoId r = i) \<and>
       (case lq_executionType q of None \<Rightarrow> True | Some t \<Rightarrow> er_executionType r = t) \<and>
       (case lq_outcome q of None \<Rightarrow> True | Some x \<Rightarrow> er_outcome r = Some x) \<and>
       (case given (lq_startDate q) of None \<Rightarrow> True
         | Some d \<Rightarrow> (if is_date_only d then midnight d \<le> er_executedAt r else instant d \<le> er_executedAt r)) \<and>
       (case given (lq_endDate q) of None \<Rightarrow> True
         | Some d \<Rightarrow> (if is_date_only d then er_executedAt r < next_midnight d else er_executedAt r \<le> instant d)))"

definition get_report :: "string \<Rightarrow> nat \<Rightarrow> nat \<Rightarrow> string option \<Rightarrow> exec_db \<Rightarrow> report_detail outcome" where
  "get_report reportId page perPage name db =
     (case find (\<lambda>r. er_id r = reportId \<and> \<not> er_deleted r) (xd_reports db) of
        None \<Rightarrow> Inl (NotFoundException (''Relatorio '' @ reportId @ '' nao encontrado''))
      | Some report \<Rightarrow>
          let found = filter (\<lambda>i. ei_reportId i = reportId \<and>
                (case given name of None \<Rightarrow> True | Some n \<Rightarrow> ilike (ei_name i) (''%'' @ n @ ''%''))) (xd_items db);
              rows = take perPage (drop ((page - 1) * perPage) (sort_key (\<lambda>i. ean_number (ei_ean i)) found))
          in Inr \<lparr>rd_report = to_header report, rd_items = map to_item_api rows, rd_totalItems = length found,
                  rd_page = page, rd_pageSize = perPage, rd_totalPages = ceil_div (length found) perPage\<rparr>)"

section \<open>Facts on the claim\<close>

lemma map_outcome_Inr: "map_outcome f xs = Inr ys \<Longrightarrow> list_all2 (\<lambda>x y. f x = Inr y) xs ys"
  by (induction xs arbitrary: ys) (auto simp: bind_outcome_Inr_iff)

lemma insert_report_items_eq [simp]: "insert_report_items new items = items @ new"
proof -
  have "foldl (@) items xss = items @ concat xss" for xss :: "report_item list list"
    by (induction xss arbitrary: items) simp_all
  then show ?thesis by (simp add: insert_report_items_def ITEM_INSERT_CHUNK_def concat_chunks)
qed

lemma to_item_Inr:
  "to_item itemId reportId st r = Inr i \<Longrightarrow> ei_id i = itemId \<and> ei_reportId i = reportId \<and> ei_applyStatus i = st \<and>
     ei_ean i = px_ean r \<and> ei_externalId i = px_externalId r \<and> price_column (px_finalPrice r) = Inr (ei_finalPrice i)"
  by (auto simp: to_item_def bind_outcome_Inr_iff)

text \<open>One item per result: its id is fresh, its price the computed one, its status pending or skipped.\<close>

lemma frozen_items_Inr:
  assumes "frozen_items itemIds reportId results = Inr items"
  shows "map ei_id items = map itemIds [0..<length results]" "length items = length results"
    "list_all2 (\<lambda>(st, r) i. ei_reportId i = reportId \<and> ei_applyStatus i = st \<and> ei_ean i = px_ean r \<and>
        ei_externalId i = px_externalId r \<and> price_column (px_finalPrice r) = Inr (ei_finalPrice i))
       (map (Pair LedgerPending) (filter should_push results) @ map (Pair LedgerSkipped) (filter (\<lambda>r. \<not> should_push r) results)) items"
proof -
  let ?rows = "map (Pair LedgerPending) (filter should_push results) @ map (Pair LedgerSkipped) (filter (\<lambda>r. \<not> should_push r) results)"
  have len: "length ?rows = length results" using sum_length_filter_compl [of should_push results] by simp
  have all: "list_all2 (\<lambda>x i. to_item (itemIds (fst x)) reportId (fst (snd x)) (snd (snd x)) = Inr i) (enumerate 0 ?rows) items"
    using map_outcome_Inr [OF assms [unfolded frozen_items_def]] by (simp add: case_prod_beta)
  then show l: "length items = length results" using len list_all2_lengthD by fastforce
  have nth: "to_item (itemIds k) reportId (fst (?rows ! k)) (snd (?rows ! k)) = Inr (items ! k)" if "k < length results" for k
    using list_all2_nthD [OF all, of k] that len by (simp add: nth_enumerate_eq case_prod_beta)
  show "map ei_id items = map itemIds [0..<length results]"
  proof (rule nth_equalityI)
    fix k assume "k < length (map ei_id items)"
    then have k: "k < length results" using l by simp
    then show "map ei_id items ! k = map itemIds [0..<length results] ! k" using to_item_Inr [OF nth [OF k]] l by simp
  qed (use l in simp)
  show "list_all2 (\<lambda>(st, r) i. ei_reportId i = reportId \<and> ei_applyStatus i = st \<and> ei_ean i = px_ean r \<and>
      ei_externalId i = px_externalId r \<and> price_column (px_finalPrice r) = Inr (ei_finalPrice i)) ?rows items"
  proof (rule list_all2_all_nthI)
    fix k assume "k < length ?rows"
    then show "(\<lambda>(st, r) i. ei_reportId i = reportId \<and> ei_applyStatus i = st \<and> ei_ean i = px_ean r \<and>
        ei_externalId i = px_externalId r \<and> price_column (px_finalPrice r) = Inr (ei_finalPrice i)) (?rows ! k) (items ! k)"
      using to_item_Inr [OF nth [of k]] len by (simp add: case_prod_beta)
  qed (use len l in simp)
qed

lemma frozen_items_status:
  assumes "frozen_items itemIds reportId results = Inr items" "i \<in> set items"
  shows "ei_applyStatus i = LedgerPending \<or> ei_applyStatus i = LedgerSkipped"
proof -
  have "\<exists>x \<in> set xs. R x y" if "list_all2 R xs ys" "y \<in> set ys" for R :: "ledger_status \<times> preview_result \<Rightarrow> report_item \<Rightarrow> bool" and xs ys y
    using that by (induction rule: list_all2_induct) auto
  from this [OF frozen_items_Inr(3) [OF assms(1)] assms(2)] show ?thesis by auto
qed

text \<open>What a successful request did.\<close>

lemma new_execution_Inr:
  assumes "new_execution now newId itemIds slug etype rule db = (db', Inr i)"
  obtains results items where "i = newId"
    "campaign_valid now (or_offerBookInfoId rule) (xd_offers db)"
    "compute_for_rule slug rule (filter (\<lambda>p. pw_ruleId p = or_id rule) (od_pricing (xd_offers db)))
       (filter (\<lambda>l. lw_ruleId l = or_id rule) (od_locks (xd_offers db))) (xd_offers db') = Inr results"
    "frozen_items itemIds newId results = Inr items"
    "xd_items db' = xd_items db @ items" "xd_pushes db' = xd_pushes db"
    "\<exists>report. xd_reports db' = xd_reports db @ [report] \<and> er_id report = newId \<and> er_ruleId report = or_id rule \<and>
       er_offerBookInfoId report = or_offerBookInfoId rule \<and> er_outcome report = None"
    "od_rules (xd_offers db') = update_where (\<lambda>r. or_id r = or_id rule)
       (\<lambda>r. r\<lparr>or_status := Running, or_activeReportId := Some newId, or_updatedAt := now\<rparr>) (od_rules (xd_offers db))"
  using assms
  by (auto simp: new_execution_def Let_def assert_campaign_is_executable_def enqueue_execution_def split: sum.splits if_splits)

lemma new_execution_Inl: "new_execution now newId itemIds slug etype rule db = (db', Inl e) \<Longrightarrow> db' = db"
  by (auto simp: new_execution_def Let_def split: sum.splits)

lemma resume_execution_cases:
  assumes "resume_execution now locked slug rule db = (db', out)"
  shows "(\<exists>e. out = Inl e \<and> db' = db) \<or>
    (\<exists>reportId. out = Inr reportId \<and> or_activeReportId rule = Some reportId \<and> \<not> locked reportId \<and>
       xd_items db' = xd_items db \<and> xd_reports db' = xd_reports db \<and> xd_pushes db' = xd_pushes db)"
  using assms by (auto simp: resume_execution_def Let_def enqueue_execution_def split: option.splits if_splits)

section \<open>Properties\<close>

definition running_rule :: "string \<Rightarrow> int \<Rightarrow> offer_rule" where
  "running_rule reportId at0 = \<lparr>or_id = ''r1'', or_offerBookInfoId = 5, or_calculationBaseType = SalePrice, or_priceBaseSources = None,
     or_classifications = None, or_scheduleEnabled = True, or_scheduledDays = Some [1], or_applyPriceRounding = False,
     or_status = Running, or_activeReportId = Some reportId, or_createdAt = 0, or_updatedAt = at0, or_deleted = False\<rparr>"

definition running_report :: "string \<Rightarrow> exec_report" where
  "running_report reportId = \<lparr>er_id = reportId, er_ruleId = ''r1'', er_offerBookInfoId = 5, er_executedAt = 0,
     er_executionType = Manual, er_calculationBaseType = SalePrice, er_totalProducts = 2, er_productsUpdated = 0,
     er_productsSkipped = 0, er_outcome = None, er_errorMessage = None, er_deleted = False\<rparr>"

definition pending_item :: "string \<Rightarrow> string \<Rightarrow> int option \<Rightarrow> rat \<Rightarrow> report_item" where
  "pending_item i ean ext price = \<lparr>ei_id = i, ei_reportId = ''x1'', ei_ean = ean, ei_externalId = ext, ei_name = ''p'',
     ei_classification = ''c'', ei_baseSalePrice = 30, ei_currentPrice = 30, ei_currentMargin = 50, ei_cost = 10,
     ei_actionType = Some Discount, ei_percentageValue = 50, ei_appliedPercentageValue = 50, ei_finalPrice = price,
     ei_newMargin = 40, ei_priceLockApplied = False, ei_discountSkipped = False, ei_skippedNoCompetitorPrice = False,
     ei_skippedPriceExceedsLimit = False, ei_priceRoundingApplied = False, ei_wasUpdated = False,
     ei_applyStatus = LedgerPending, ei_applyError = None\<rparr>"

text \<open>A rule that runs with the report x1: two items wait, one of them without a package.\<close>

definition demo_exec :: exec_db where
  "demo_exec = \<lparr>xd_offers = demo_offer_db\<lparr>od_rules := [running_rule ''x1'' 0]\<rparr>, xd_reports = [running_report ''x1''],
     xd_items = [pending_item ''i1'' ''789'' (Some 7) 15, pending_item ''i2'' ''790'' None 12], xd_outbox = [], xd_pushes = [],
     xd_confirms = (\<lambda>_. True), xd_txs = 0, xd_clock = int, xd_faults = (\<lambda>_. False), xd_others = (\<lambda>_ offers. offers)\<rparr>"

text \<open>
  C14. A rule has at most one execution. A request that is refused leaves every table as it was: for
  a rule that does not exist, and for one whose execution is younger than half an hour, has no
  report, or has a worker at work. An accepted request of a running rule resumes its own report and
  computes nothing again; any other one claims the rule for a new report, in a running campaign, with
  one item per computed product, that waits if and only if its price is to be pushed. No request
  sends anything to the ERP.
\<close>

theorem execution_is_exclusive:
  assumes "execute_rule now newId itemIds locked slug ruleId etype db = (db', out)"
  shows "(\<forall>e. out = Inl e \<longrightarrow> db' = db) \<and> xd_pushes db' = xd_pushes db \<and>
    (case live_rule ruleId (xd_offers db) of
       None \<Rightarrow> \<exists>m. out = Inl (NotFoundException m)
     | Some rule \<Rightarrow>
         if or_status rule = Running
         then (case out of
             Inl e \<Rightarrow> \<exists>m. e = ConflictException m
           | Inr i \<Rightarrow> or_activeReportId rule = Some i \<and> \<not> locked i \<and> or_updatedAt rule < now - 30 * 60000 \<and>
               xd_items db' = xd_items db \<and> xd_reports db' = xd_reports db)
         else (case out of
             Inl e \<Rightarrow> True
           | Inr i \<Rightarrow> i = newId \<and> campaign_valid now (or_offerBookInfoId rule) (xd_offers db) \<and>
               (\<exists>r \<in> set (od_rules (xd_offers db')). or_id r = ruleId \<and> or_status r = Running \<and> or_activeReportId r = Some newId) \<and>
               (\<exists>results items.
                  compute_for_rule slug rule (filter (\<lambda>p. pw_ruleId p = ruleId) (od_pricing (xd_offers db)))
                    (filter (\<lambda>l. lw_ruleId l = ruleId) (od_locks (xd_offers db))) (xd_offers db') = Inr results \<and>
                  frozen_items itemIds newId results = Inr items \<and> xd_items db' = xd_items db @ items)))"
proof (cases "live_rule ruleId (xd_offers db)")
  case None
  then show ?thesis using assms by (auto simp: execute_rule_def)
next
  case (Some rule)
  then have rule: "rule \<in> set (od_rules (xd_offers db))" "or_id rule = ruleId"
    by (auto simp: live_rule_def find_Some_iff)
  show ?thesis
  proof (cases "or_status rule = Running")
    case True
    show ?thesis
      using assms Some True resume_execution_cases [of now locked slug rule db db' out]
      by (auto simp: execute_rule_def EXECUTE_LOCK_MINUTES_def resume_execution_def Let_def split: if_splits option.splits)
  next
    case False
    then have n: "new_execution now newId itemIds slug etype rule db = (db', out)"
      using assms Some by (simp add: execute_rule_def)
    show ?thesis
    proof (cases out)
      case (Inl e)
      have "db' = db" using new_execution_Inl n Inl by blast
      then show ?thesis using Some False Inl by simp
    next
      case (Inr i)
      from n [unfolded Inr] show ?thesis
      proof (rule new_execution_Inr, goal_cases)
        case (1 results items)
        let ?f = "\<lambda>r. r\<lparr>or_status := Running, or_activeReportId := Some newId, or_updatedAt := now\<rparr>"
        have "?f rule \<in> set (od_rules (xd_offers db'))"
          using rule unfolding 1(8) by (auto simp: set_update_where)
        then have "\<exists>r \<in> set (od_rules (xd_offers db')). or_id r = ruleId \<and> or_status r = Running \<and> or_activeReportId r = Some newId"
          by (rule bexI [rotated]) (simp add: rule)
        then show ?case using 1(1-6) Some False Inr rule(2) by simp
      qed
    qed
  qed
qed

theorem execution_is_exclusive_witness:
  "\<exists>m. execute_rule 1000 ''x2'' (\<lambda>_. ''i'') (\<lambda>_. False) ''acme'' ''r1'' Manual demo_exec = (demo_exec, Inl (ConflictException m))"
proof -
  obtain db' out where e: "execute_rule 1000 ''x2'' (\<lambda>_. ''i'') (\<lambda>_. False) ''acme'' ''r1'' Manual demo_exec = (db', out)" by fastforce
  have "live_rule ''r1'' (xd_offers demo_exec) = Some (running_rule ''x1'' 0)"
    by (simp add: live_rule_def demo_exec_def running_rule_def)
  with execution_is_exclusive [OF e] show ?thesis
    using e by (auto simp: running_rule_def split: sum.splits)
qed

end
