(* ===== verification/Offer_Book_Worker.thy ===== *)
theory Offer_Book_Worker
  imports Offer_Book_Execution
begin

text \<open>
  The worker of an offer-book execution: \<open>src/pipeline/steps/execute-offer-book-rule.step.ts\<close>, and
  \<open>OfferBookRepository.upsertManyByEan\<close>. The step pushes the frozen prices of a report in chunks;
  every chunk is several short transactions, and what the ERP accepted passes through the status
  \<open>ErpApplied\<close> before the local mirror. A transaction may fail (then it leaves no trace), and other
  sessions may change the tables of the tenant before any transaction.

  The loops carry a bound on their rounds: every round of the push loop settles a pending item, so
  the number of items of the report is enough, and the result \<open>None\<close> (out of rounds) is shown not
  to occur.
\<close>

section \<open>Actions and transactions\<close>

type_synonym 'a action = "exec_db \<Rightarrow> exec_db \<times> 'a outcome"

definition ret :: "'a \<Rightarrow> 'a action" where
  "ret x db = (db, Inr x)"

definition bind_action :: "'a action \<Rightarrow> ('a \<Rightarrow> 'b action) \<Rightarrow> 'b action" where
  "bind_action m k db = (case m db of (db', Inl e) \<Rightarrow> (db', Inl e) | (db', Inr x) \<Rightarrow> k x db')"

definition begin_tx :: "exec_db \<Rightarrow> exec_db" where
  "begin_tx db = db\<lparr>xd_offers := xd_others db (xd_txs db) (xd_offers db), xd_txs := Suc (xd_txs db)\<rparr>"

definition run_with_tenant :: "(int \<Rightarrow> 'a action) \<Rightarrow> 'a action" where
  "run_with_tenant body db =
     (if xd_faults db (xd_txs db) then (begin_tx db, Inl (Error ''transaction failed''))
      else case body (xd_clock db (xd_txs db)) (begin_tx db) of
             (db', Inr x) \<Rightarrow> (db', Inr x)
           | (_, Inl e) \<Rightarrow> (begin_tx db, Inl e))"

section \<open>The ledger\<close>

definition A7_CHUNK :: nat where
  "A7_CHUNK = 80"

definition owned_row :: "exec_report \<Rightarrow> offer_rule \<Rightarrow> bool" where
  "owned_row report r \<longleftrightarrow> or_id r = er_ruleId report \<and> or_status r = Running \<and> or_activeReportId r = Some (er_id report)"

definition find_owned_report :: "string \<Rightarrow> exec_db \<Rightarrow> exec_report option" where
  "find_owned_report reportId db =
     (case find (\<lambda>r. er_id r = reportId \<and> \<not> er_deleted r) (xd_reports db) of
        None \<Rightarrow> None
      | Some report \<Rightarrow>
          if list_ex (\<lambda>r. owned_row report r \<and> \<not> or_deleted r) (od_rules (xd_offers db)) then Some report else None)"

text \<open>Renews the heartbeat of the rule the report owns; false when it owns none.\<close>

definition touch_owner :: "int \<Rightarrow> exec_report \<Rightarrow> exec_db \<Rightarrow> exec_db \<times> bool" where
  "touch_owner now report db =
     (let offers = xd_offers db in
      (db\<lparr>xd_offers := offers\<lparr>od_rules := update_where (owned_row report) (\<lambda>r. r\<lparr>or_updatedAt := now\<rparr>) (od_rules offers)\<rparr>\<rparr>,
       list_ex (owned_row report) (od_rules offers)))"

definition items_with :: "ledger_status \<Rightarrow> string \<Rightarrow> exec_db \<Rightarrow> report_item list" where
  "items_with status reportId db = filter (\<lambda>i. ei_reportId i = reportId \<and> ei_applyStatus i = status) (xd_items db)"

definition items_by_status :: "string \<Rightarrow> ledger_status \<Rightarrow> exec_db \<Rightarrow> report_item list" where
  "items_by_status reportId status db =
     take A7_CHUNK (sort_key (\<lambda>i. ean_number (ei_ean i)) (items_with status reportId db))"

definition pending_ids :: "string \<Rightarrow> exec_db \<Rightarrow> string list" where
  "pending_ids reportId db = map ei_id (items_with LedgerPending reportId db)"

definition mark_many :: "string list \<Rightarrow> ledger_status \<Rightarrow> string option \<Rightarrow> exec_db \<Rightarrow> exec_db" where
  "mark_many ids status error db =
     db\<lparr>xd_items := update_where (\<lambda>i. ei_id i \<in> set ids)
        (\<lambda>i. i\<lparr>ei_applyStatus := status, ei_applyError := error,
               ei_wasUpdated := (status \<in> {ErpApplied, LedgerApplied})\<rparr>) (xd_items db)\<rparr>"

text \<open>The number the worker reads back from the frozen price.\<close>

definition sent_price :: "report_item \<Rightarrow> rat" where
  "sent_price i = from_column (ei_finalPrice i)"

section \<open>The local mirror\<close>

definition upsert_many_by_ean :: "(string \<times> rat \<times> int) list \<Rightarrow> offer list \<Rightarrow> offer list" where
  "upsert_many_by_ean inputs offers =
     (let deduped = sort_key fst (map_of_entries inputs)
      in fold (\<lambda>(ean, targetPrice, externalId). upsert_offer_row ean (numeric_12_2 targetPrice) externalId None) deduped offers)"

definition mirror_offers :: "report_item list \<Rightarrow> int \<Rightarrow> catalog \<Rightarrow> catalog" where
  "mirror_offers pushed cadernoId c =
     (let c1 = c\<lparr>ct_offers := upsert_many_by_ean (map (\<lambda>i. (ei_ean i, decimal_of (sent_price i), cadernoId)) pushed) (ct_offers c)\<rparr>
      in fold (\<lambda>i d. d\<lparr>ct_items := mirror_item_offer (ei_ean i) cadernoId (Some (decimal_of (sent_price i))) d\<rparr>) pushed c1)"

definition mirror_action :: "report_item list \<Rightarrow> int \<Rightarrow> exec_db \<Rightarrow> exec_db" where
  "mirror_action pushed cadernoId db =
     (let offers = xd_offers db in
      db\<lparr>xd_offers := offers\<lparr>od_catalog := mirror_offers pushed cadernoId (od_catalog offers)\<rparr>\<rparr>)"

section \<open>Closing a report\<close>

definition ledger_count :: "ledger_status \<Rightarrow> string \<Rightarrow> exec_db \<Rightarrow> nat" where
  "ledger_count status reportId db = length (items_with status reportId db)"

definition total_items :: "string \<Rightarrow> exec_db \<Rightarrow> nat" where
  "total_items reportId db = length (filter (\<lambda>i. ei_reportId i = reportId) (xd_items db))"

definition outcome_of :: "nat \<Rightarrow> nat \<Rightarrow> execution_outcome" where
  "outcome_of failed applied = (if 0 < failed then Failure else if 0 < applied then Success else NoChanges)"

definition rule_status_of :: "nat \<Rightarrow> nat \<Rightarrow> offer_rule_status" where
  "rule_status_of failed applied =
     (if failed = 0 then Succeeded else if 0 < applied then PartiallySucceeded else Errored)"

definition close_report_row :: "nat \<Rightarrow> nat \<Rightarrow> nat \<Rightarrow> nat \<Rightarrow> exec_report \<Rightarrow> exec_report" where
  "close_report_row found applied skipped failed r =
     r\<lparr>er_totalProducts := found, er_productsUpdated := applied, er_productsSkipped := skipped,
       er_outcome := Some (outcome_of failed applied),
       er_errorMessage := (if 0 < failed then Some (show_nat failed @ '' produto(s) falharam no envio ao ERP'') else None)\<rparr>"

definition finalize_owned :: "int \<Rightarrow> exec_report \<Rightarrow> unit action" where
  "finalize_owned now report db =
     (let i = er_id report;
          applied = ledger_count LedgerApplied i db; erpApplied = ledger_count ErpApplied i db;
          failed = ledger_count LedgerFailed i db; pending = ledger_count LedgerPending i db;
          skipped = ledger_count LedgerSkipped i db; offers = xd_offers db
      in if 0 < pending \<or> 0 < erpApplied
         then (db, Inl (Error (''report '' @ i @ '' ainda tem '' @ show_nat pending @ '' pending e '' @ show_nat erpApplied @ '' erp_applied'')))
         else let db1 = db\<lparr>xd_reports := update_where (\<lambda>r. er_id r = i) (close_report_row (total_items i db) applied skipped failed) (xd_reports db)\<rparr>
           in if \<not> list_ex (owned_row report) (od_rules offers)
              then (db1, Inl (Error (''report '' @ i @ '' perdeu ownership ao finalizar'')))
              else (db1\<lparr>xd_offers := offers\<lparr>od_rules := update_where (owned_row report)
                       (\<lambda>r. r\<lparr>or_status := rule_status_of failed applied, or_activeReportId := None, or_updatedAt := now\<rparr>)
                       (od_rules offers)\<rparr>\<rparr>, Inr ()))"

section \<open>The steps of a delivery\<close>

text \<open>A transaction that first renews the ownership; \<open>None\<close> when the report lost it.\<close>

definition owned_tx :: "exec_report \<Rightarrow> (int \<Rightarrow> 'a action) \<Rightarrow> 'a option action" where
  "owned_tx report body =
     run_with_tenant (\<lambda>now db.
       case touch_owner now report db of
         (db1, False) \<Rightarrow> (db1, Inr None)
       | (db1, True) \<Rightarrow> bind_action (body now) (\<lambda>x. ret (Some x)) db1)"

definition chunk_of :: "exec_report \<Rightarrow> ledger_status \<Rightarrow> report_item list option action" where
  "chunk_of report status = owned_tx report (\<lambda>_ db. (db, Inr (items_by_status (er_id report) status db)))"

definition mark_owned :: "exec_report \<Rightarrow> report_item list \<Rightarrow> ledger_status \<Rightarrow> string option \<Rightarrow> unit option action" where
  "mark_owned report chunk status error =
     owned_tx report (\<lambda>_ db. (mark_many (map ei_id chunk) status error db, Inr ()))"

definition mirror_erp_applied_chunk :: "exec_report \<Rightarrow> report_item list \<Rightarrow> unit option action" where
  "mirror_erp_applied_chunk report chunk =
     owned_tx report (\<lambda>_ db.
       (mark_many (map ei_id chunk) LedgerApplied None (mirror_action chunk (er_offerBookInfoId report) db), Inr ()))"

definition fail_pending :: "string \<Rightarrow> exec_report \<Rightarrow> int \<Rightarrow> unit action" where
  "fail_pending error report now db =
     finalize_owned now report (mark_many (pending_ids (er_id report) db) LedgerFailed (Some error) db)"

text \<open>Whether pending items may go to the campaign; otherwise they fail and the report closes.\<close>

definition ensure_campaign_allows_pending :: "exec_report \<Rightarrow> bool option action" where
  "ensure_campaign_allows_pending report =
     owned_tx report (\<lambda>now db.
       if campaign_valid now (er_offerBookInfoId report) (xd_offers db) then (db, Inr True)
       else bind_action (fail_pending ''campanha_nao_vigente'' report now) (\<lambda>_. ret False) db)"

definition a7_upsert_offer :: "offer_push \<Rightarrow> exec_db \<Rightarrow> exec_db \<times> bool" where
  "a7_upsert_offer p db =
     (let ok = xd_confirms db (length (xd_pushes db)) in (db\<lparr>xd_pushes := xd_pushes db @ [(p, ok)]\<rparr>, ok))"

datatype round_end = Again | Drained | Stopped

definition finish_round :: "exec_report \<Rightarrow> round_end action" where
  "finish_round report =
     bind_action (chunk_of report ErpApplied) (\<lambda>chunk.
       case chunk of
         None \<Rightarrow> ret Stopped
       | Some items \<Rightarrow>
           if items = [] then ret Drained
           else bind_action (mirror_erp_applied_chunk report items) (\<lambda>_. ret Again))"

definition push_of :: "report_item \<Rightarrow> (int \<times> jsnum) list" where
  "push_of i = (case ei_externalId i of None \<Rightarrow> [] | Some ext \<Rightarrow> [(ext, Num (sent_price i))])"

definition push_chunk :: "exec_report \<Rightarrow> report_item list \<Rightarrow> round_end action" where
  "push_chunk report pushable db =
     (case a7_upsert_offer (er_offerBookInfoId report, concat (map push_of pushable)) db of
        (db1, False) \<Rightarrow>
          bind_action (mark_owned report pushable LedgerFailed (Some ''erro_transitorio''))
            (\<lambda>owned. ret (if owned = None then Stopped else Again)) db1
      | (db1, True) \<Rightarrow>
          bind_action (mark_owned report pushable ErpApplied None) (\<lambda>checkpointed.
            if checkpointed = None then ret Stopped
            else bind_action (mirror_erp_applied_chunk report pushable) (\<lambda>_. ret Again)) db1)"

definition push_items :: "exec_report \<Rightarrow> report_item list \<Rightarrow> round_end action" where
  "push_items report items =
     (let missing = filter (\<lambda>i. ei_externalId i = None) items;
          pushable = filter (\<lambda>i. ei_externalId i \<noteq> None) items
      in bind_action (if missing = [] then ret (Some ())
           else mark_owned report missing LedgerFailed (Some ''sem_external_id'')) (\<lambda>owned.
         if owned = None then ret Stopped
         else if pushable = [] then ret Again
         else push_chunk report pushable))"

definition push_round :: "exec_report \<Rightarrow> round_end action" where
  "push_round report =
     bind_action (ensure_campaign_allows_pending report) (\<lambda>allowed.
       if allowed \<noteq> Some True then ret Stopped
       else bind_action (chunk_of report LedgerPending) (\<lambda>chunk.
         case chunk of
           None \<Rightarrow> ret Stopped
         | Some items \<Rightarrow> if items = [] then ret Drained else push_items report items))"

text \<open>A loop of rounds: whether it drained its items, \<open>None\<close> when the bound on the rounds is reached.\<close>

fun rounds :: "nat \<Rightarrow> round_end action \<Rightarrow> bool option action" where
  "rounds 0 m = ret None"
| "rounds (Suc n) m =
     bind_action m (\<lambda>r. case r of Again \<Rightarrow> rounds n m | Drained \<Rightarrow> ret (Some True) | Stopped \<Rightarrow> ret (Some False))"

section \<open>A delivery\<close>

definition push_report :: "nat \<Rightarrow> string \<Rightarrow> exec_report \<Rightarrow> unit option action" where
  "push_report fuel slug report db =
     (if \<not> ct_apiCredentials (od_catalog (xd_offers db)) slug
      then bind_action (owned_tx report (fail_pending ''a7_nao_configurado'' report)) (\<lambda>_. ret (Some ())) db
      else bind_action (rounds fuel (push_round report)) (\<lambda>r.
        case r of
          None \<Rightarrow> ret None
        | Some drained \<Rightarrow>
            if \<not> drained then ret (Some ())
            else bind_action (owned_tx report (\<lambda>now. finalize_owned now report)) (\<lambda>_. ret (Some ()))) db)"

definition run_report :: "nat \<Rightarrow> string \<Rightarrow> exec_report \<Rightarrow> unit option action" where
  "run_report fuel slug report =
     bind_action (rounds fuel (finish_round report)) (\<lambda>r.
       case r of
         None \<Rightarrow> ret None
       | Some drained \<Rightarrow>
           if \<not> drained then ret (Some ())
           else bind_action (ensure_campaign_allows_pending report) (\<lambda>allowed.
             if allowed \<noteq> Some True then ret (Some ()) else push_report fuel slug report))"

definition run_execution :: "nat \<Rightarrow> bool \<Rightarrow> string \<Rightarrow> string \<Rightarrow> unit option action" where
  "run_execution fuel locked slug reportId =
     (if locked then (\<lambda>db. (db, Inl (DuplicateDeliveryRepublishError (''report '' @ reportId @ '' ja possui um worker ativo''))))
      else bind_action (run_with_tenant (\<lambda>_ db. (db, Inr (find_owned_report reportId db)))) (\<lambda>found.
        case found of None \<Rightarrow> ret (Some ()) | Some report \<Rightarrow> run_report fuel slug report))"

section \<open>Reasoning about actions\<close>

text \<open>
  \<open>triple P m Q E\<close>: from a state that satisfies \<open>P\<close>, the action returns a value and a state that
  satisfy \<open>Q\<close>, or throws in a state that satisfies \<open>E\<close>.
\<close>

definition triple :: "(exec_db \<Rightarrow> bool) \<Rightarrow> 'a action \<Rightarrow> ('a \<Rightarrow> exec_db \<Rightarrow> bool) \<Rightarrow> (exec_db \<Rightarrow> bool) \<Rightarrow> bool" where
  "triple P m Q E \<longleftrightarrow> (\<forall>db. P db \<longrightarrow> (case m db of (db', Inr x) \<Rightarrow> Q x db' | (db', Inl _) \<Rightarrow> E db'))"

lemma tripleD: "triple P m Q E \<Longrightarrow> P db \<Longrightarrow> case m db of (db', Inr x) \<Rightarrow> Q x db' | (db', Inl _) \<Rightarrow> E db'"
  by (simp add: triple_def)

lemma triple_conseq:
  assumes "triple P' m Q' E'" "\<And>db. P db \<Longrightarrow> P' db" "\<And>x db. Q' x db \<Longrightarrow> Q x db" "\<And>db. E' db \<Longrightarrow> E db"
  shows "triple P m Q E"
  using assms unfolding triple_def by (fastforce split: prod.splits sum.splits)

lemma triple_ret: "(\<And>db. P db \<Longrightarrow> Q x db) \<Longrightarrow> triple P (ret x) Q E"
  by (simp add: triple_def ret_def)

lemma triple_bind:
  assumes "triple P m R E" "\<And>x. triple (R x) (k x) Q E"
  shows "triple P (bind_action m k) Q E"
  unfolding triple_def
proof (intro allI impI)
  fix db assume "P db"
  note m = tripleD [OF assms(1) this]
  show "case bind_action m k db of (db', Inr x) \<Rightarrow> Q x db' | (db', Inl _) \<Rightarrow> E db'"
  proof (cases "m db")
    case (Pair db1 out)
    show ?thesis
    proof (cases out)
      case (Inl e)
      then show ?thesis using m Pair by (simp add: bind_action_def)
    next
      case (Inr x)
      then have "R x db1" using m Pair by simp
      from tripleD [OF assms(2) this] show ?thesis using Pair Inr by (simp add: bind_action_def)
    qed
  qed
qed

text \<open>A transaction starts after what other sessions did; a failed one leaves the state it started from.\<close>

lemma triple_tx:
  assumes "\<And>db. P db \<Longrightarrow> P' (begin_tx db)"
    and "\<And>now db db' x. P' db \<Longrightarrow> body now db = (db', Inr x) \<Longrightarrow> Q x db'"
    and "\<And>db. P' db \<Longrightarrow> E db"
  shows "triple P (run_with_tenant body) Q E"
  unfolding triple_def
proof (intro allI impI)
  fix db assume "P db"
  then have p: "P' (begin_tx db)" by (rule assms(1))
  show "case run_with_tenant body db of (db', Inr x) \<Rightarrow> Q x db' | (db', Inl _) \<Rightarrow> E db'"
    using assms(2) [OF p, of "xd_clock db (xd_txs db)"] assms(3) [OF p]
    by (cases "body (xd_clock db (xd_txs db)) (begin_tx db)"; cases "snd (body (xd_clock db (xd_txs db)) (begin_tx db))")
      (simp_all add: run_with_tenant_def)
qed

text \<open>The heartbeat changes nothing but the instant of the rule.\<close>

definition heartbeat :: "int \<Rightarrow> exec_report \<Rightarrow> exec_db \<Rightarrow> exec_db" where
  "heartbeat now report db = fst (touch_owner now report db)"

definition owns :: "exec_report \<Rightarrow> offer_db \<Rightarrow> bool" where
  "owns report offers \<longleftrightarrow> list_ex (owned_row report) (od_rules offers)"

lemma touch_owner_eq: "touch_owner now report db = (heartbeat now report db, owns report (xd_offers db))"
  by (simp add: heartbeat_def touch_owner_def owns_def Let_def)

lemma owned_row_touch [simp]: "owned_row report (r\<lparr>or_updatedAt := t\<rparr>) = owned_row report r"
  by (simp add: owned_row_def)

lemma owns_heartbeat [simp]: "owns report (xd_offers (heartbeat now report db)) = owns report (xd_offers db)"
proof -
  have "list_ex (owned_row report) (update_where (owned_row report) (\<lambda>r. r\<lparr>or_updatedAt := now\<rparr>) rs) =
      list_ex (owned_row report) rs" for rs
    by (induction rs) (simp_all add: update_where_def)
  then show ?thesis by (simp add: owns_def heartbeat_def touch_owner_def Let_def)
qed

lemma heartbeat_simps [simp]:
  "xd_items (heartbeat now report db) = xd_items db" "xd_reports (heartbeat now report db) = xd_reports db"
  "xd_outbox (heartbeat now report db) = xd_outbox db" "xd_pushes (heartbeat now report db) = xd_pushes db"
  "xd_confirms (heartbeat now report db) = xd_confirms db" "xd_txs (heartbeat now report db) = xd_txs db"
  "xd_clock (heartbeat now report db) = xd_clock db" "xd_faults (heartbeat now report db) = xd_faults db"
  "xd_others (heartbeat now report db) = xd_others db"
  "od_campaigns (xd_offers (heartbeat now report db)) = od_campaigns (xd_offers db)"
  "od_catalog (xd_offers (heartbeat now report db)) = od_catalog (xd_offers db)"
  by (simp_all add: heartbeat_def touch_owner_def Let_def)

lemma triple_owned_tx:
  assumes "\<And>db. P db \<Longrightarrow> P' (begin_tx db)" "\<And>now db. P' db \<Longrightarrow> P' (heartbeat now report db)"
    and "\<And>now db db' x. P' db \<Longrightarrow> owns report (xd_offers db) \<Longrightarrow> body now db = (db', Inr x) \<Longrightarrow> Q (Some x) db'"
    and "\<And>db. P' db \<Longrightarrow> \<not> owns report (xd_offers db) \<Longrightarrow> Q None db"
    and "\<And>db. P' db \<Longrightarrow> E db"
  shows "triple P (owned_tx report body) Q E"
  unfolding owned_tx_def
proof (rule triple_tx [where P' = P', OF assms(1) _ assms(5)])
  fix now db db' x
  assume p: "P' db" and r: "(case touch_owner now report db of (db1, False) \<Rightarrow> (db1, Inr None)
      | (db1, True) \<Rightarrow> bind_action (body now) (\<lambda>x. ret (Some x)) db1) = (db', Inr x)"
  note h = assms(2) [OF p, of now]
  show "Q x db'"
  proof (cases "owns report (xd_offers db)")
    case False
    then show ?thesis using r assms(4) [OF h] by (auto simp: touch_owner_eq)
  next
    case True
    then obtain y where y: "body now (heartbeat now report db) = (db', Inr y)" "x = Some y"
      using r by (auto simp: touch_owner_eq bind_action_def ret_def split: prod.splits sum.splits)
    then show ?thesis using assms(3) [OF h] True by simp
  qed
qed

text \<open>A loop with an invariant.\<close>

lemma triple_rounds:
  assumes "triple I m (\<lambda>r. case r of Again \<Rightarrow> I | Drained \<Rightarrow> Q True | Stopped \<Rightarrow> Q False) E"
  shows "triple I (rounds n m) (\<lambda>r db. case r of None \<Rightarrow> I db | Some b \<Rightarrow> Q b db) E"
proof (induction n)
  case 0
  show ?case by (simp add: triple_ret)
next
  case (Suc n)
  have "triple (case r of Again \<Rightarrow> I | Drained \<Rightarrow> Q True | Stopped \<Rightarrow> Q False)
      (case r of Again \<Rightarrow> rounds n m | Drained \<Rightarrow> ret (Some True) | Stopped \<Rightarrow> ret (Some False))
      (\<lambda>r db. case r of None \<Rightarrow> I db | Some b \<Rightarrow> Q b db) E" for r
    by (cases r) (simp_all add: Suc.IH triple_ret)
  then show ?case by (simp add: triple_bind [OF assms])
qed

text \<open>A loop whose rounds lower a measure ends within that many rounds.\<close>

lemma triple_rounds_measure:
  assumes "\<And>k. triple (\<lambda>db. I db \<and> f db = k) m
      (\<lambda>r db. case r of Again \<Rightarrow> I db \<and> f db < k | Drained \<Rightarrow> Q True db | Stopped \<Rightarrow> Q False db) E"
  shows "triple (\<lambda>db. I db \<and> f db < n) (rounds n m) (\<lambda>r db. case r of None \<Rightarrow> False | Some b \<Rightarrow> Q b db) E"
proof (induction n)
  case 0
  show ?case by (simp add: triple_def)
next
  case (Suc n)
  let ?R = "\<lambda>r db. case r of Again \<Rightarrow> I db \<and> f db < n | Drained \<Rightarrow> Q True db | Stopped \<Rightarrow> Q False db"
  have "triple (\<lambda>db. I db \<and> f db < Suc n) m ?R E"
    unfolding triple_def
  proof (intro allI impI)
    fix db assume p: "I db \<and> f db < Suc n"
    have "case m db of (db', Inr r) \<Rightarrow> (case r of Again \<Rightarrow> I db' \<and> f db' < f db | Drained \<Rightarrow> Q True db' | Stopped \<Rightarrow> Q False db') | (db', Inl _) \<Rightarrow> E db'"
      using tripleD [OF assms [of "f db"], of db] p by simp
    then show "case m db of (db', Inr r) \<Rightarrow> ?R r db' | (db', Inl _) \<Rightarrow> E db'"
      using p by (auto split: prod.splits sum.splits round_end.splits)
  qed
  moreover have "triple (?R r) (case r of Again \<Rightarrow> rounds n m | Drained \<Rightarrow> ret (Some True) | Stopped \<Rightarrow> ret (Some False))
      (\<lambda>r db. case r of None \<Rightarrow> False | Some b \<Rightarrow> Q b db) E" for r
    by (cases r) (simp_all add: Suc.IH triple_ret)
  ultimately show ?case by (simp add: triple_bind)
qed

section \<open>The ledger invariant\<close>

text \<open>What an execution freezes of an item, and what no step changes of a report.\<close>

definition frozen :: "report_item \<Rightarrow> string \<times> string \<times> string \<times> int option \<times> rat" where
  "frozen i = (ei_id i, ei_reportId i, ei_ean i, ei_externalId i, ei_finalPrice i)"

definition report_key :: "exec_report \<Rightarrow> string \<times> int" where
  "report_key r = (er_id r, er_offerBookInfoId r)"

text \<open>The ERP confirmed the frozen price of the item, for its package, in the offer book of its report.\<close>

definition pushed_ok :: "exec_db \<Rightarrow> report_item \<Rightarrow> bool" where
  "pushed_ok db i \<longleftrightarrow> (\<exists>cad its ext. ((cad, its), True) \<in> set (xd_pushes db) \<and>
     (ei_reportId i, cad) \<in> set (map report_key (xd_reports db)) \<and>
     ei_externalId i = Some ext \<and> (ext, Num (sent_price i)) \<in> set its)"

definition ledger_ok :: "exec_db \<Rightarrow> bool" where
  "ledger_ok db \<longleftrightarrow> list_all (\<lambda>i. ei_applyStatus i \<in> {ErpApplied, LedgerApplied} \<longrightarrow> pushed_ok db i) (xd_items db)"

text \<open>The pushes that wait, and the pushes of a part of the log.\<close>

definition waiting :: "exec_report \<Rightarrow> exec_db \<Rightarrow> (int \<times> jsnum) multiset" where
  "waiting report db = mset (concat (map push_of (items_with LedgerPending (er_id report) db)))"

definition sent :: "(offer_push \<times> bool) list \<Rightarrow> (int \<times> jsnum) multiset" where
  "sent ws = mset (concat (map (\<lambda>w. snd (fst w)) ws))"

definition push_fits :: "exec_report \<Rightarrow> offer_push \<times> bool \<Rightarrow> bool" where
  "push_fits report w \<longleftrightarrow> fst (fst w) = er_offerBookInfoId report \<and> length (snd (fst w)) \<le> A7_CHUNK"

text \<open>
  The invariant of a delivery that started in \<open>db0\<close>, with the pushes \<open>M\<close> in flight: nothing frozen
  changed, and what was sent and what still waits was waiting at the start.
\<close>

definition delivery_inv :: "exec_report \<Rightarrow> exec_db \<Rightarrow> (int \<times> jsnum) multiset \<Rightarrow> exec_db \<Rightarrow> bool" where
  "delivery_inv report db0 M db \<longleftrightarrow>
     map frozen (xd_items db) = map frozen (xd_items db0) \<and>
     map report_key (xd_reports db) = map report_key (xd_reports db0) \<and>
     report_key report \<in> set (map report_key (xd_reports db0)) \<and>
     distinct (map ei_id (xd_items db)) \<and> ledger_ok db \<and>
     (\<exists>ws. xd_pushes db = xd_pushes db0 @ ws \<and> list_all (push_fits report) ws \<and>
        sent ws \<subseteq># waiting report db0 \<and> sent ws + waiting report db \<subseteq># waiting report db0 + M)"

definition chunk_in :: "exec_report \<Rightarrow> ledger_status \<Rightarrow> report_item list \<Rightarrow> exec_db \<Rightarrow> bool" where
  "chunk_in report status chunk db \<longleftrightarrow>
     mset chunk \<subseteq># mset (items_with status (er_id report) db) \<and> length chunk \<le> A7_CHUNK"

lemma pushed_ok_cong:
  assumes "frozen i = frozen j" "set (xd_pushes db) \<subseteq> set (xd_pushes db')"
    and "map report_key (xd_reports db') = map report_key (xd_reports db)" "pushed_ok db i"
  shows "pushed_ok db' j"
  using assms unfolding pushed_ok_def frozen_def sent_price_def by auto

lemma delivery_inv_cong:
  assumes "delivery_inv report db0 M db" "xd_items db' = xd_items db" "xd_pushes db' = xd_pushes db"
    and "map report_key (xd_reports db') = map report_key (xd_reports db)"
  shows "delivery_inv report db0 M db'"
proof -
  have "pushed_ok db' i = pushed_ok db i" for i
    using assms by (simp add: pushed_ok_def)
  then show ?thesis
    using assms by (simp add: delivery_inv_def ledger_ok_def waiting_def items_with_def)
qed

lemma chunk_in_cong: "chunk_in report st chunk db \<Longrightarrow> xd_items db' = xd_items db \<Longrightarrow> chunk_in report st chunk db'"
  by (simp add: chunk_in_def items_with_def)

lemma begin_tx_simps [simp]:
  "xd_items (begin_tx db) = xd_items db" "xd_reports (begin_tx db) = xd_reports db"
  "xd_outbox (begin_tx db) = xd_outbox db" "xd_pushes (begin_tx db) = xd_pushes db"
  "xd_confirms (begin_tx db) = xd_confirms db" "xd_clock (begin_tx db) = xd_clock db"
  "xd_faults (begin_tx db) = xd_faults db" "xd_others (begin_tx db) = xd_others db"
  "xd_txs (begin_tx db) = Suc (xd_txs db)"
  "xd_offers (begin_tx db) = xd_others db (xd_txs db) (xd_offers db)"
  by (simp_all add: begin_tx_def)

lemma delivery_inv_frames [simp]:
  "delivery_inv report db0 M db \<Longrightarrow> delivery_inv report db0 M (begin_tx db)"
  "delivery_inv report db0 M db \<Longrightarrow> delivery_inv report db0 M (heartbeat now report' db)"
  "delivery_inv report db0 M db \<Longrightarrow> delivery_inv report db0 M (mirror_action chunk cad db)"
  using delivery_inv_cong [of report db0 M db "begin_tx db"] delivery_inv_cong [of report db0 M db "heartbeat now report' db"]
    delivery_inv_cong [of report db0 M db "mirror_action chunk cad db"]
  by (simp_all add: mirror_action_def Let_def)

lemma chunk_in_frames [simp]:
  "chunk_in report st chunk db \<Longrightarrow> chunk_in report st chunk (begin_tx db)"
  "chunk_in report st chunk db \<Longrightarrow> chunk_in report st chunk (heartbeat now report' db)"
  by (simp_all add: chunk_in_def items_with_def)

text \<open>Marking rows.\<close>

lemma mark_many_simps [simp]:
  "xd_items (mark_many ids st e db) = update_where (\<lambda>i. ei_id i \<in> set ids)
     (\<lambda>i. i\<lparr>ei_applyStatus := st, ei_applyError := e, ei_wasUpdated := (st \<in> {ErpApplied, LedgerApplied})\<rparr>) (xd_items db)"
  "xd_reports (mark_many ids st e db) = xd_reports db" "xd_pushes (mark_many ids st e db) = xd_pushes db"
  "xd_offers (mark_many ids st e db) = xd_offers db" "xd_txs (mark_many ids st e db) = xd_txs db"
  "xd_faults (mark_many ids st e db) = xd_faults db" "xd_others (mark_many ids st e db) = xd_others db"
  by (simp_all add: mark_many_def)

lemma frozen_mark [simp]:
  "frozen (i\<lparr>ei_applyStatus := st, ei_applyError := e, ei_wasUpdated := b\<rparr>) = frozen i"
  by (simp add: frozen_def)

lemma filter_update_other:
  assumes "\<And>x. Q x \<Longrightarrow> \<not> P (f x)"
  shows "filter P (update_where Q f xs) = filter (\<lambda>x. \<not> Q x) (filter P xs)"
  using assms by (induction xs) (auto simp: update_where_def)

lemma items_with_mark:
  "st \<noteq> st' \<Longrightarrow> items_with st r (mark_many ids st' e db) = filter (\<lambda>i. ei_id i \<notin> set ids) (items_with st r db)"
  unfolding items_with_def mark_many_simps by (rule filter_update_other) simp_all

lemma mset_concat_mono: "mset xs \<subseteq># mset ys \<Longrightarrow> mset (concat (map f xs)) \<subseteq># mset (concat (map f ys))"
proof -
  assume "mset xs \<subseteq># mset ys"
  then obtain zs where "mset ys = mset (xs @ zs)"
    by (metis ex_mset mset_append subset_mset.le_iff_add)
  then have "\<Sum>\<^sub># (image_mset (\<lambda>x. mset (f x)) (mset ys)) = \<Sum>\<^sub># (image_mset (\<lambda>x. mset (f x)) (mset (xs @ zs)))" by (rule arg_cong)
  then have "mset (concat (map f ys)) = mset (concat (map f (xs @ zs)))"
    by (simp add: mset_concat comp_def sum_mset_sum_list flip: mset_map)
  then show ?thesis by simp
qed

lemma waiting_mark: "st \<noteq> LedgerPending \<Longrightarrow> waiting report (mark_many ids st e db) \<subseteq># waiting report db"
  unfolding waiting_def by (simp add: items_with_mark mset_concat_mono)

lemma mset_split: "mset xs = mset (filter (\<lambda>x. \<not> P x) xs) + mset (filter P xs)"
  by (induction xs) simp_all

lemma waiting_mark_chunk:
  assumes "st \<noteq> LedgerPending" "chunk_in report LedgerPending chunk db"
  shows "waiting report (mark_many (map ei_id chunk) st e db) + mset (concat (map push_of chunk)) \<subseteq># waiting report db"
proof -
  let ?P = "\<lambda>i. ei_id i \<in> set (map ei_id chunk)" and ?w = "items_with LedgerPending (er_id report) db"
  have "filter_mset ?P (mset chunk) \<subseteq># filter_mset ?P (mset ?w)"
    using assms(2) by (intro multiset_filter_mono) (simp add: chunk_in_def)
  moreover have "filter_mset ?P (mset chunk) = mset chunk" by (simp add: filter_mset_eq_conv)
  ultimately have "mset chunk \<subseteq># mset (filter ?P ?w)" by simp
  then have "mset (filter (\<lambda>i. \<not> ?P i) ?w @ chunk) \<subseteq># mset ?w"
    unfolding mset_append by (subst mset_split [of ?w ?P]) (rule subset_mset.add_left_mono)
  from mset_concat_mono [OF this, of push_of] show ?thesis
    unfolding waiting_def using assms(1) by (simp add: items_with_mark)
qed

lemma pushed_ok_mark [simp]: "pushed_ok (mark_many ids st e db) i = pushed_ok db i"
  by (simp add: pushed_ok_def)

lemma pushed_ok_status [simp]:
  "pushed_ok db (i\<lparr>ei_applyStatus := st, ei_applyError := e, ei_wasUpdated := b\<rparr>) = pushed_ok db i"
  by (simp add: pushed_ok_def sent_price_def)

lemma delivery_inv_mark:
  assumes "delivery_inv report db0 M db" "st \<noteq> LedgerPending"
    and "st \<in> {ErpApplied, LedgerApplied} \<Longrightarrow> list_all (\<lambda>i. ei_id i \<in> set ids \<longrightarrow> pushed_ok db i) (xd_items db)"
    and "waiting report (mark_many ids st e db) + N \<subseteq># waiting report db" "M = M' + N"
  shows "delivery_inv report db0 M' (mark_many ids st e db)"
proof -
  have keep: "map frozen (xd_items (mark_many ids st e db)) = map frozen (xd_items db)"
    "map ei_id (xd_items (mark_many ids st e db)) = map ei_id (xd_items db)"
    by (simp_all add: map_update_where)
  have led: "ledger_ok (mark_many ids st e db)"
    using assms(1,3) unfolding ledger_ok_def delivery_inv_def
    by (auto simp: list_all_iff set_update_where)
  obtain ws where ws: "xd_pushes db = xd_pushes db0 @ ws" "list_all (push_fits report) ws" "sent ws \<subseteq># waiting report db0"
    "sent ws + waiting report db \<subseteq># waiting report db0 + M"
    using assms(1) by (auto simp: delivery_inv_def)
  have "sent ws + waiting report (mark_many ids st e db) + N \<subseteq># waiting report db0 + M' + N"
    using ws(4) assms(4,5) by (metis add.assoc subset_mset.add_left_mono subset_mset.order_trans)
  then have "sent ws + waiting report (mark_many ids st e db) \<subseteq># waiting report db0 + M'"
    by (simp add: subset_mset.add_le_cancel_right)
  then show ?thesis
    using assms(1) ws(1-3) led unfolding delivery_inv_def keep by auto
qed

text \<open>Closing the report changes its counters and the rule only.\<close>

lemma finalize_inv:
  assumes "finalize_owned now report db = (db', Inr ())"
  shows "owns report (xd_offers db)"
    "items_with LedgerPending (er_id report) db = []" "items_with ErpApplied (er_id report) db = []"
    "db' = db\<lparr>xd_reports := update_where (\<lambda>r. er_id r = er_id report)
         (close_report_row (total_items (er_id report) db) (ledger_count LedgerApplied (er_id report) db)
            (ledger_count LedgerSkipped (er_id report) db) (ledger_count LedgerFailed (er_id report) db)) (xd_reports db),
       xd_offers := (xd_offers db)\<lparr>od_rules := update_where (owned_row report)
         (\<lambda>r. r\<lparr>or_status := rule_status_of (ledger_count LedgerFailed (er_id report) db) (ledger_count LedgerApplied (er_id report) db),
                or_activeReportId := None, or_updatedAt := now\<rparr>) (od_rules (xd_offers db))\<rparr>\<rparr>"
  using assms by (auto simp: finalize_owned_def Let_def owns_def ledger_count_def split: if_splits)

lemma delivery_inv_finalize:
  assumes "finalize_owned now report db = (db', Inr ())" "delivery_inv report db0 M db"
  shows "delivery_inv report db0 M db'"
  by (rule delivery_inv_cong [OF assms(2)])
    (simp_all add: finalize_inv(4) [OF assms(1)] map_update_where report_key_def close_report_row_def)

section \<open>What a delivery sends\<close>

text \<open>All the rows a mark of the chunk reaches have a confirmed push.\<close>

definition covered :: "report_item list \<Rightarrow> exec_db \<Rightarrow> bool" where
  "covered chunk db \<longleftrightarrow> list_all (\<lambda>i. ei_id i \<in> set (map ei_id chunk) \<longrightarrow> pushed_ok db i) (xd_items db)"

lemma covered_frames [simp]:
  "covered chunk (begin_tx db) = covered chunk db" "covered chunk (heartbeat now report db) = covered chunk db"
  "covered chunk (mirror_action its cad db) = covered chunk db"
  by (simp_all add: covered_def pushed_ok_def mirror_action_def Let_def)

lemma covered_mark: "covered chunk db \<Longrightarrow> covered chunk (mark_many ids st e db)"
  by (auto simp: covered_def list_all_iff set_update_where)

text \<open>The rows a chunk names are its own rows.\<close>

lemma chunk_row:
  assumes "distinct (map ei_id (xd_items db))" "chunk_in report st chunk db"
    and "i \<in> set (xd_items db)" "ei_id i \<in> set (map ei_id chunk)"
  shows "i \<in> set chunk" "ei_reportId i = er_id report" "ei_applyStatus i = st"
proof -
  from assms(4) obtain j where j: "j \<in> set chunk" "ei_id j = ei_id i" by auto
  have "set chunk \<subseteq> set (items_with st (er_id report) db)"
    using assms(2) set_mset_mono unfolding chunk_in_def by fastforce
  then have k: "j \<in> set (xd_items db)" "ei_reportId j = er_id report" "ei_applyStatus j = st"
    using j(1) by (auto simp: items_with_def)
  then have "j = i" using assms(1,3) j(2) by (metis distinct_map inj_on_contraD)
  then show "i \<in> set chunk" "ei_reportId i = er_id report" "ei_applyStatus i = st" using j k by simp_all
qed

lemma chunk_covered: "delivery_inv report db0 M db \<Longrightarrow> chunk_in report ErpApplied chunk db \<Longrightarrow> covered chunk db"
  unfolding covered_def list_all_iff
proof (intro ballI impI)
  fix i assume d: "delivery_inv report db0 M db" "chunk_in report ErpApplied chunk db"
    and i: "i \<in> set (xd_items db)" "ei_id i \<in> set (map ei_id chunk)"
  have "distinct (map ei_id (xd_items db))" "ledger_ok db" using d(1) by (simp_all add: delivery_inv_def)
  with chunk_row(3) [OF this(1) d(2) i] i(1) show "pushed_ok db i" by (simp add: ledger_ok_def list_all_iff)
qed

lemma items_by_status_chunk: "chunk_in report st (items_by_status (er_id report) st db) db"
proof -
  have "mset (take A7_CHUNK xs) \<subseteq># mset xs" for xs :: "report_item list"
    by (metis append_take_drop_id mset_append mset_subset_eq_add_left)
  from this [of "sort_key (\<lambda>i. ean_number (ei_ean i)) (items_with st (er_id report) db)"] show ?thesis
    by (simp add: chunk_in_def items_by_status_def)
qed

definition delivery_end :: "exec_report \<Rightarrow> exec_db \<Rightarrow> exec_db \<Rightarrow> bool" where
  "delivery_end report db0 db \<longleftrightarrow> (\<exists>M. delivery_inv report db0 M db)"

lemma delivery_endI: "delivery_inv report db0 M db \<Longrightarrow> delivery_end report db0 db"
  by (auto simp: delivery_end_def)

lemma chunk_of_triple:
  "triple (delivery_inv report db0 {#}) (chunk_of report st)
     (\<lambda>c db. delivery_inv report db0 {#} db \<and> (case c of None \<Rightarrow> True | Some items \<Rightarrow> chunk_in report st items db))
     (delivery_end report db0)"
  unfolding chunk_of_def
  by (rule triple_owned_tx [where P' = "delivery_inv report db0 {#}"])
    (auto simp: items_by_status_chunk delivery_endI)

lemma mark_triple:
  assumes "\<And>db. R db \<Longrightarrow> R (begin_tx db)" "\<And>now db. R db \<Longrightarrow> R (heartbeat now report db)"
    and "\<And>db. delivery_inv report db0 M db \<Longrightarrow> R db \<Longrightarrow>
      delivery_inv report db0 M' (mark_many (map ei_id chunk) st e db) \<and> R' (mark_many (map ei_id chunk) st e db)"
  shows "triple (\<lambda>db. delivery_inv report db0 M db \<and> R db) (mark_owned report chunk st e)
     (\<lambda>r db. case r of None \<Rightarrow> delivery_end report db0 db | Some _ \<Rightarrow> delivery_inv report db0 M' db \<and> R' db)
     (delivery_end report db0)"
  unfolding mark_owned_def
  by (rule triple_owned_tx [where P' = "\<lambda>db. delivery_inv report db0 M db \<and> R db"])
    (use assms in \<open>auto intro: delivery_endI\<close>)

lemma mirror_triple:
  "triple (\<lambda>db. delivery_inv report db0 {#} db \<and> covered chunk db) (mirror_erp_applied_chunk report chunk)
     (\<lambda>_. delivery_inv report db0 {#}) (delivery_end report db0)"
  unfolding mirror_erp_applied_chunk_def
proof (rule triple_owned_tx [where P' = "\<lambda>db. delivery_inv report db0 {#} db \<and> covered chunk db"], goal_cases)
  case (3 now db db' x)
  have "delivery_inv report db0 {#} (mark_many (map ei_id chunk) LedgerApplied None (mirror_action chunk (er_offerBookInfoId report) db))"
    by (rule delivery_inv_mark [where M = "{#}" and N = "{#}"])
      (use 3(1) covered_frames(3) in \<open>auto simp: covered_def waiting_mark\<close>)
  then show ?case using 3(3) by simp
qed (auto intro: delivery_endI)

lemma finish_round_triple:
  "triple (delivery_inv report db0 {#}) (finish_round report) (\<lambda>_. delivery_inv report db0 {#}) (delivery_end report db0)"
  unfolding finish_round_def
proof (rule triple_bind [OF chunk_of_triple], goal_cases)
  case (1 c)
  show ?case
  proof (cases c)
    case None
    then show ?thesis by (simp add: triple_ret)
  next
    case (Some items)
    have "triple (\<lambda>db. delivery_inv report db0 {#} db \<and> chunk_in report ErpApplied items db)
        (bind_action (mirror_erp_applied_chunk report items) (\<lambda>_. ret Again)) (\<lambda>_. delivery_inv report db0 {#}) (delivery_end report db0)"
      by (rule triple_bind [where R = "\<lambda>_. delivery_inv report db0 {#}"], rule triple_conseq [OF mirror_triple [of report db0 items]])
        (auto intro: chunk_covered triple_ret)
    then show ?thesis using Some by (auto intro: triple_ret)
  qed
qed

lemma ensure_campaign_triple:
  "triple (delivery_inv report db0 {#}) (ensure_campaign_allows_pending report)
     (\<lambda>_. delivery_inv report db0 {#}) (delivery_end report db0)"
  unfolding ensure_campaign_allows_pending_def
proof (rule triple_owned_tx [where P' = "delivery_inv report db0 {#}"], goal_cases)
  case (3 now db db' x)
  let ?m = "mark_many (pending_ids (er_id report) db) LedgerFailed (Some ''campanha_nao_vigente'') db"
  have "delivery_inv report db0 {#} ?m"
    by (rule delivery_inv_mark [where M = "{#}" and N = "{#}"]) (use 3(1) in \<open>auto simp: waiting_mark\<close>)
  then show ?case
    using 3 delivery_inv_finalize [of now report ?m db' db0 "{#}"]
    by (auto simp: bind_action_def ret_def fail_pending_def split: if_splits prod.splits sum.splits)
qed (auto intro: delivery_endI)

lemma length_pushes: "length (concat (map push_of xs)) \<le> length xs"
  by (induction xs) (auto simp: push_of_def split: option.splits)

text \<open>The request itself: the pushes of the chunk are in flight, and covered when it is confirmed.\<close>

lemma a7_inv:
  assumes "delivery_inv report db0 {#} db" "chunk_in report LedgerPending chunk db"
    and "a7_upsert_offer (er_offerBookInfoId report, concat (map push_of chunk)) db = (db1, ok)"
  shows "delivery_inv report db0 (mset (concat (map push_of chunk))) db1" "chunk_in report LedgerPending chunk db1"
    "ok \<Longrightarrow> list_all (\<lambda>i. ei_externalId i \<noteq> None) chunk \<Longrightarrow> covered chunk db1"
proof -
  let ?w = "((er_offerBookInfoId report, concat (map push_of chunk)), ok)"
  have db1: "db1 = db\<lparr>xd_pushes := xd_pushes db @ [?w]\<rparr>"
    using assms(3) by (auto simp: a7_upsert_offer_def Let_def)
  have mono: "pushed_ok db i \<Longrightarrow> pushed_ok db1 i" for i
    by (rule pushed_ok_cong [of i i db]) (auto simp: db1)
  obtain ws where ws: "xd_pushes db = xd_pushes db0 @ ws" "list_all (push_fits report) ws" "sent ws \<subseteq># waiting report db0"
    "sent ws + waiting report db \<subseteq># waiting report db0"
    using assms(1) by (auto simp: delivery_inv_def)
  have c: "mset (concat (map push_of chunk)) \<subseteq># waiting report db"
    using assms(2) mset_concat_mono unfolding chunk_in_def waiting_def by blast
  have s: "sent (ws @ [?w]) = sent ws + mset (concat (map push_of chunk))" by (simp add: sent_def)
  have "sent (ws @ [?w]) \<subseteq># waiting report db0"
    unfolding s using c ws(4) by (meson subset_mset.add_left_mono subset_mset.order_trans)
  moreover have "sent (ws @ [?w]) + waiting report db \<subseteq># waiting report db0 + mset (concat (map push_of chunk))"
    unfolding s using ws(4) by (simp add: add.commute add.left_commute)
  moreover have "push_fits report ?w"
    using assms(2) length_pushes [of chunk] by (simp add: push_fits_def chunk_in_def)
  moreover have "waiting report db1 = waiting report db" by (simp add: waiting_def items_with_def db1)
  moreover have "ledger_ok db1"
    using assms(1) mono by (auto simp: delivery_inv_def ledger_ok_def list_all_iff db1)
  ultimately show "delivery_inv report db0 (mset (concat (map push_of chunk))) db1"
    using assms(1) ws(1,2) unfolding delivery_inv_def by (auto simp: db1 intro!: exI [of _ "ws @ [?w]"])
  show ch: "chunk_in report LedgerPending chunk db1" by (rule chunk_in_cong [OF assms(2)]) (simp add: db1)
  assume ok and ext: "list_all (\<lambda>i. ei_externalId i \<noteq> None) chunk"
  show "covered chunk db1"
    unfolding covered_def list_all_iff
  proof (intro ballI impI)
    fix i assume i: "i \<in> set (xd_items db1)" "ei_id i \<in> set (map ei_id chunk)"
    have d: "distinct (map ei_id (xd_items db1))" using assms(1) by (simp add: delivery_inv_def db1)
    have k: "(er_id report, er_offerBookInfoId report) \<in> set (map report_key (xd_reports db1))"
      using assms(1) by (auto simp: delivery_inv_def db1 report_key_def [of report])
    obtain ext where e: "ei_externalId i = Some ext"
      using chunk_row(1) [OF d ch i] ext by (auto simp: list_all_iff)
    then have "(ext, Num (sent_price i)) \<in> set (concat (map push_of chunk))"
      using chunk_row(1) [OF d ch i] by (force simp: push_of_def)
    then show "pushed_ok db1 i"
      using chunk_row(2) [OF d ch i] k e \<open>ok\<close> unfolding pushed_ok_def by (force simp: db1)
  qed
qed

lemma push_chunk_triple:
  assumes "list_all (\<lambda>i. ei_externalId i \<noteq> None) chunk"
  shows "triple (\<lambda>db. delivery_inv report db0 {#} db \<and> chunk_in report LedgerPending chunk db) (push_chunk report chunk)
     (\<lambda>r db. case r of Stopped \<Rightarrow> delivery_end report db0 db | _ \<Rightarrow> delivery_inv report db0 {#} db) (delivery_end report db0)"
    (is "triple ?P _ ?Q ?E")
proof -
  let ?M = "mset (concat (map push_of chunk))"
  have failed: "triple (\<lambda>db. delivery_inv report db0 ?M db \<and> chunk_in report LedgerPending chunk db)
      (bind_action (mark_owned report chunk LedgerFailed (Some ''erro_transitorio'')) (\<lambda>owned. ret (if owned = None then Stopped else Again))) ?Q ?E"
    by (rule triple_bind, rule mark_triple [where M' = "{#}" and R' = "\<lambda>_. True"])
      (auto simp: waiting_mark_chunk intro!: triple_ret delivery_inv_mark [where N = ?M] split: option.splits)
  have mirrored: "triple (\<lambda>db. delivery_inv report db0 {#} db \<and> covered chunk db)
      (bind_action (mirror_erp_applied_chunk report chunk) (\<lambda>_. ret Again)) ?Q ?E"
    by (rule triple_bind [OF mirror_triple]) (simp add: triple_ret)
  have applied: "triple (\<lambda>db. delivery_inv report db0 ?M db \<and> chunk_in report LedgerPending chunk db \<and> covered chunk db)
      (bind_action (mark_owned report chunk ErpApplied None) (\<lambda>checkpointed.
         if checkpointed = None then ret Stopped
         else bind_action (mirror_erp_applied_chunk report chunk) (\<lambda>_. ret Again))) ?Q ?E"
  proof (rule triple_bind, rule mark_triple [where M' = "{#}" and R' = "covered chunk"], goal_cases)
    case (3 db)
    have c: "list_all (\<lambda>i. ei_id i \<in> set (map ei_id chunk) \<longrightarrow> pushed_ok db i) (xd_items db)"
      using 3 by (simp add: covered_def)
    show ?case
    proof (intro conjI)
      show "delivery_inv report db0 {#} (mark_many (map ei_id chunk) ErpApplied None db)"
        by (rule delivery_inv_mark [where N = ?M and M = ?M]) (use 3 c waiting_mark_chunk in auto)
      show "covered chunk (mark_many (map ei_id chunk) ErpApplied None db)" using 3 by (simp add: covered_mark)
    qed
  next
    case (4 x)
    then show ?case using mirrored by (cases x) (auto intro: triple_ret)
  qed auto
  show ?thesis
    unfolding triple_def
  proof (intro allI impI)
    fix db assume p: "?P db"
    obtain db1 ok where a: "a7_upsert_offer (er_offerBookInfoId report, concat (map push_of chunk)) db = (db1, ok)" by fastforce
    note i = a7_inv [OF conjunct1 [OF p] conjunct2 [OF p] a]
    show "case push_chunk report chunk db of (db', Inr r) \<Rightarrow> ?Q r db' | (db', Inl _) \<Rightarrow> ?E db'"
      using tripleD [OF failed, of db1] tripleD [OF applied, of db1] i assms a
      by (cases ok) (simp_all add: push_chunk_def)
  qed
qed

text \<open>Marking the items without a package leaves the others of the chunk pending.\<close>

lemma chunk_after_missing:
  assumes "delivery_inv report db0 {#} db" "chunk_in report LedgerPending items db"
  shows "chunk_in report LedgerPending (filter Q items) (mark_many (map ei_id (filter (\<lambda>i. \<not> Q i) items)) LedgerFailed e db)"
proof -
  let ?ids = "ei_id ` set (filter (\<lambda>i. \<not> Q i) items)" and ?w = "mset (items_with LedgerPending (er_id report) db)"
  have d: "distinct (map ei_id (xd_items db))" using assms(1) by (simp add: delivery_inv_def)
  have mem: "i \<in> set items \<Longrightarrow> i \<in> set (xd_items db)" for i
    using assms(2) set_mset_mono unfolding chunk_in_def items_with_def by fastforce
  have inj: "x = y" if "x \<in> set items" "y \<in> set items" "ei_id x = ei_id y" for x y
    using d mem that by (auto simp: distinct_map inj_on_def)
  have "ei_id i \<notin> ?ids" if "i \<in> set (filter Q items)" for i
  proof
    assume "ei_id i \<in> ?ids"
    then obtain j where "j \<in> set items" "\<not> Q j" "ei_id i = ei_id j" by auto
    then show False using inj [of i j] that by simp
  qed
  then have f: "filter_mset (\<lambda>i. ei_id i \<notin> ?ids) (mset (filter Q items)) = mset (filter Q items)"
    by (simp add: filter_mset_eq_conv)
  have "mset (filter Q items) \<subseteq># ?w"
    using assms(2) unfolding chunk_in_def mset_filter by (meson multiset_filter_subset subset_mset.order_trans)
  from multiset_filter_mono [OF this, of "\<lambda>i. ei_id i \<notin> ?ids"]
  have "mset (filter Q items) \<subseteq># filter_mset (\<lambda>i. ei_id i \<notin> ?ids) ?w" unfolding f .
  moreover have "length (filter Q items) \<le> A7_CHUNK"
    using assms(2) by (meson chunk_in_def length_filter_le order_trans)
  ultimately show ?thesis by (simp add: chunk_in_def items_with_mark)
qed

lemma push_items_triple:
  "triple (\<lambda>db. delivery_inv report db0 {#} db \<and> chunk_in report LedgerPending items db) (push_items report items)
     (\<lambda>r db. case r of Stopped \<Rightarrow> delivery_end report db0 db | _ \<Rightarrow> delivery_inv report db0 {#} db) (delivery_end report db0)"
    (is "triple ?P _ ?Q ?E")
proof -
  let ?has = "\<lambda>i. ei_externalId i \<noteq> None"
  let ?R = "\<lambda>r db. case r of None \<Rightarrow> ?E db
    | Some (_::unit) \<Rightarrow> delivery_inv report db0 {#} db \<and> chunk_in report LedgerPending (filter ?has items) db"
  have mark: "triple ?P (mark_owned report (filter (\<lambda>i. ei_externalId i = None) items) LedgerFailed (Some ''sem_external_id'')) ?R ?E"
  proof (rule mark_triple, goal_cases)
    case (3 db)
    then show ?case
      using chunk_after_missing [of report db0 db items ?has, unfolded not_not]
      by (auto simp: waiting_mark intro!: delivery_inv_mark [where M = "{#}" and N = "{#}"])
  qed auto
  have none: "filter (\<lambda>i. ei_externalId i = None) items = [] \<Longrightarrow> filter ?has items = items"
    by (simp add: filter_empty_conv filter_id_conv)
  have first: "triple ?P (if filter (\<lambda>i. ei_externalId i = None) items = [] then ret (Some ())
      else mark_owned report (filter (\<lambda>i. ei_externalId i = None) items) LedgerFailed (Some ''sem_external_id'')) ?R ?E"
    using mark none by (cases "filter (\<lambda>i. ei_externalId i = None) items = []") (auto intro: triple_ret)
  have all: "list_all ?has (filter ?has items)" by (simp add: list_all_iff)
  have "triple (?R owned) (if owned = None then ret Stopped else if filter ?has items = [] then ret Again
      else push_chunk report (filter ?has items)) ?Q ?E" for owned
    using push_chunk_triple [OF all, of report db0] by (cases owned) (auto intro!: triple_ret)
  then show ?thesis unfolding push_items_def Let_def by (rule triple_bind [OF first])
qed

lemma push_round_triple:
  "triple (delivery_inv report db0 {#}) (push_round report)
     (\<lambda>r db. case r of Stopped \<Rightarrow> delivery_end report db0 db | _ \<Rightarrow> delivery_inv report db0 {#} db) (delivery_end report db0)"
    (is "triple _ _ ?Q ?E")
proof -
  have stop: "triple (delivery_inv report db0 {#}) (ret Stopped) ?Q ?E"
    by (rule triple_ret) (simp add: delivery_endI)
  have items: "triple (\<lambda>db. delivery_inv report db0 {#} db \<and> chunk_in report LedgerPending its db) (push_items report its) ?Q ?E" for its
    by (rule push_items_triple)
  have "triple (delivery_inv report db0 {#}) (bind_action (chunk_of report LedgerPending) (\<lambda>chunk.
      case chunk of None \<Rightarrow> ret Stopped | Some its \<Rightarrow> if its = [] then ret Drained else push_items report its)) ?Q ?E"
  proof (rule triple_bind [OF chunk_of_triple], goal_cases)
    case (1 c)
    show ?case using stop items by (cases c) (auto intro: triple_ret)
  qed
  then show ?thesis
    unfolding push_round_def using stop by (intro triple_bind [OF ensure_campaign_triple]) simp
qed

section \<open>A delivery without faults\<close>

text \<open>No transaction fails any more, and the other sessions leave the rule to the report.\<close>

definition steady :: "exec_report \<Rightarrow> exec_db \<Rightarrow> bool" where
  "steady report db \<longleftrightarrow> (\<forall>n \<ge> xd_txs db. \<not> xd_faults db n \<and>
     (\<forall>offers. owns report offers \<longrightarrow> owns report (xd_others db n offers)))"

definition live :: "exec_report \<Rightarrow> nat \<Rightarrow> exec_db \<Rightarrow> bool" where
  "live report n db \<longleftrightarrow> owns report (xd_offers db) \<and> steady report db \<and> length (xd_items db) = n"

text \<open>The report is closed with the counters of its items, and the rule is released.\<close>

definition settled :: "exec_report \<Rightarrow> exec_db \<Rightarrow> bool" where
  "settled report db \<longleftrightarrow> \<not> owns report (xd_offers db) \<and>
     items_with LedgerPending (er_id report) db = [] \<and> items_with ErpApplied (er_id report) db = [] \<and>
     list_all (\<lambda>r. er_id r = er_id report \<longrightarrow>
        er_outcome r = Some (outcome_of (ledger_count LedgerFailed (er_id report) db) (ledger_count LedgerApplied (er_id report) db)) \<and>
        er_productsUpdated r = ledger_count LedgerApplied (er_id report) db \<and>
        er_productsSkipped r = ledger_count LedgerSkipped (er_id report) db \<and>
        er_totalProducts r = total_items (er_id report) db) (xd_reports db)"

lemma live_begin: "live report n db \<Longrightarrow> live report n (begin_tx db)"
  by (auto simp: live_def steady_def)

lemma live_cong:
  assumes "live report n db" "owns report (xd_offers db') = owns report (xd_offers db)" "xd_txs db' = xd_txs db"
    and "xd_faults db' = xd_faults db" "xd_others db' = xd_others db" "length (xd_items db') = length (xd_items db)"
  shows "live report n db'"
  using assms by (simp add: live_def steady_def)

lemma mirror_action_simps:
  "xd_txs (mirror_action chunk cad db) = xd_txs db" "xd_faults (mirror_action chunk cad db) = xd_faults db"
  "xd_others (mirror_action chunk cad db) = xd_others db" "xd_items (mirror_action chunk cad db) = xd_items db"
  by (simp_all add: mirror_action_def Let_def)

lemma owns_mirror [simp]: "owns report (xd_offers (mirror_action chunk cad db)) = owns report (xd_offers db)"
  by (simp add: mirror_action_def owns_def Let_def)

lemma live_frames [simp]:
  "live report n db \<Longrightarrow> live report n (heartbeat now report db)"
  "live report n db \<Longrightarrow> live report n (mark_many ids st e db)"
  "live report n db \<Longrightarrow> live report n (mirror_action chunk cad db)"
  using live_cong [of report n db "heartbeat now report db"] live_cong [of report n db "mark_many ids st e db"]
    live_cong [of report n db "mirror_action chunk cad db"]
  by (simp_all add: mirror_action_simps)

lemma ledger_count_frames [simp]:
  "ledger_count st i (begin_tx db) = ledger_count st i db"
  "ledger_count st i (heartbeat now report db) = ledger_count st i db"
  "ledger_count st i (mirror_action chunk cad db) = ledger_count st i db"
  "items_by_status i st (begin_tx db) = items_by_status i st db"
  "items_by_status i st (heartbeat now report db) = items_by_status i st db"
  by (simp_all add: ledger_count_def items_with_def items_by_status_def mirror_action_def Let_def)

lemma triple_live_tx:
  assumes "\<And>db. P db \<Longrightarrow> live report n db"
    and "\<And>now db. P db \<Longrightarrow> live report n (heartbeat now report (begin_tx db)) \<Longrightarrow>
      \<exists>x db'. body now (heartbeat now report (begin_tx db)) = (db', Inr x) \<and> Q (Some x) db'"
  shows "triple P (owned_tx report body) Q (\<lambda>_. False)"
  unfolding triple_def
proof (intro allI impI)
  fix db assume p: "P db"
  let ?now = "xd_clock db (xd_txs db)"
  have l: "live report n (begin_tx db)" "\<not> xd_faults db (xd_txs db)"
    using assms(1) [OF p] live_begin by (auto simp: live_def steady_def)
  obtain x db' where b: "body ?now (heartbeat ?now report (begin_tx db)) = (db', Inr x)" "Q (Some x) db'"
    using assms(2) [OF p, of ?now] l(1) by auto
  have "owns report (xd_offers (begin_tx db))" using l(1) by (simp only: live_def)
  then show "case owned_tx report body db of (db', Inr x) \<Rightarrow> Q x db' | (db', Inl _) \<Rightarrow> False"
    using l(2) b by (simp add: owned_tx_def run_with_tenant_def touch_owner_eq bind_action_def ret_def)
qed

text \<open>Marking a part of the rows of a status.\<close>

lemma count_mark:
  assumes "st \<noteq> st'" "set chunk \<subseteq> set (items_with st i db)" "chunk \<noteq> []"
  shows "ledger_count st i (mark_many (map ei_id chunk) st' e db) < ledger_count st i db"
proof -
  obtain x where "x \<in> set chunk" using assms(3) by (cases chunk) auto
  then have "x \<in> set (items_with st i db)" "\<not> ei_id x \<notin> set (map ei_id chunk)" using assms(2) by auto
  then show ?thesis unfolding ledger_count_def items_with_mark [OF assms(1)] by (rule length_filter_less)
qed

lemma count_mark_other:
  "st \<noteq> st' \<Longrightarrow> ledger_count st i (mark_many ids st' e db) \<le> ledger_count st i db"
  by (simp add: ledger_count_def items_with_mark)

lemma count_mark_all:
  assumes "st \<noteq> st'" "set (map ei_id (items_with st i db)) \<subseteq> set ids"
  shows "ledger_count st i (mark_many ids st' e db) = 0"
  using assms by (auto simp: ledger_count_def items_with_mark filter_empty_conv)

lemma items_by_status_sub: "set (items_by_status i st db) \<subseteq> set (items_with st i db)"
  using set_take_subset by (fastforce simp: items_by_status_def)

lemma items_by_status_empty: "items_by_status i st db = [] \<longleftrightarrow> ledger_count st i db = 0"
  by (simp add: items_by_status_def ledger_count_def A7_CHUNK_def) (metis length_0_conv length_sort)

text \<open>A condition on the items holds through the fetch of a chunk.\<close>

lemma chunk_of_live:
  assumes "\<And>db db'. R db \<Longrightarrow> xd_items db' = xd_items db \<Longrightarrow> R db'"
  shows "triple (\<lambda>db. live report n db \<and> R db) (chunk_of report st)
     (\<lambda>c db. c = Some (items_by_status (er_id report) st db) \<and> live report n db \<and> R db) (\<lambda>_. False)"
  unfolding chunk_of_def
proof (rule triple_live_tx [where n = n], goal_cases)
  case (2 now db)
  then have "R (heartbeat now report (begin_tx db))" using assms [of db "heartbeat now report (begin_tx db)"] by simp
  then show ?case using 2(2) by simp
qed simp

lemma ledger_count_items: "xd_items db' = xd_items db \<Longrightarrow> ledger_count st i db' = ledger_count st i db"
  by (simp add: ledger_count_def items_with_def)

lemma finish_round_live:
  "triple (\<lambda>db. live report n db \<and> ledger_count ErpApplied (er_id report) db = k) (finish_round report)
     (\<lambda>r db. case r of Again \<Rightarrow> live report n db \<and> ledger_count ErpApplied (er_id report) db < k
        | Drained \<Rightarrow> live report n db \<and> ledger_count ErpApplied (er_id report) db = 0 | Stopped \<Rightarrow> False) (\<lambda>_. False)"
    (is "triple _ _ ?Q _")
proof -
  let ?R = "\<lambda>db. ledger_count ErpApplied (er_id report) db = k"
  have chunk: "triple (\<lambda>db. live report n db \<and> ?R db) (chunk_of report ErpApplied)
      (\<lambda>c db. c = Some (items_by_status (er_id report) ErpApplied db) \<and> live report n db \<and> ?R db) (\<lambda>_. False)"
    by (rule chunk_of_live) (metis ledger_count_items)
  show ?thesis
    unfolding finish_round_def
  proof (rule triple_bind [OF chunk])
    fix c
    let ?P = "\<lambda>items db. items = items_by_status (er_id report) ErpApplied db \<and> live report n db \<and> ?R db"
    have m: "triple (\<lambda>db. ?P items db \<and> items \<noteq> []) (mirror_erp_applied_chunk report items)
        (\<lambda>_ db. live report n db \<and> ledger_count ErpApplied (er_id report) db < k) (\<lambda>_. False)" for items
      unfolding mirror_erp_applied_chunk_def
    proof (rule triple_live_tx [where n = n], goal_cases)
      case (2 now db)
      let ?db = "mirror_action items (er_offerBookInfoId report) (heartbeat now report (begin_tx db))"
      have "items = items_by_status (er_id report) ErpApplied db" "items \<noteq> []" using 2(1) by auto
      then have "set items \<subseteq> set (items_with ErpApplied (er_id report) ?db)"
        using items_by_status_sub [of "er_id report" ErpApplied db] by (simp add: items_with_def mirror_action_simps)
      from count_mark [OF _ this \<open>items \<noteq> []\<close>, of LedgerApplied None] 2 show ?case by simp
    qed simp
    have again: "triple (\<lambda>db. ?P items db \<and> items \<noteq> []) (bind_action (mirror_erp_applied_chunk report items) (\<lambda>_. ret Again)) ?Q (\<lambda>_. False)" for items
      by (rule triple_bind [OF m]) (simp add: triple_ret)
    show "triple (\<lambda>db. c = Some (items_by_status (er_id report) ErpApplied db) \<and> live report n db \<and> ?R db)
        (case c of None \<Rightarrow> ret Stopped
         | Some items \<Rightarrow> if items = [] then ret Drained
             else bind_action (mirror_erp_applied_chunk report items) (\<lambda>_. ret Again)) ?Q (\<lambda>_. False)"
    proof (cases c)
      case None
      then show ?thesis by (simp add: triple_def)
    next
      case (Some items)
      show ?thesis
      proof (cases "items = []")
        case True
        then show ?thesis unfolding Some
          using items_by_status_empty by (fastforce intro: triple_ret)
      next
        case False
        then show ?thesis unfolding Some using again [of items] by simp
      qed
    qed
  qed
qed

text \<open>Closing: nothing is open, so the report gets its counters and the rule is released.\<close>

lemma finalize_settles:
  assumes "owns report (xd_offers db)" "ledger_count LedgerPending (er_id report) db = 0" "ledger_count ErpApplied (er_id report) db = 0"
  shows "\<exists>db'. finalize_owned now report db = (db', Inr ()) \<and> settled report db'"
proof -
  have "\<exists>db'. finalize_owned now report db = (db', Inr ())"
    using assms by (simp add: finalize_owned_def Let_def owns_def)
  then obtain db' where f: "finalize_owned now report db = (db', Inr ())" by blast
  note eq = finalize_inv(4) [OF f]
  have its: "xd_items db' = xd_items db" by (simp add: eq)
  have c: "ledger_count st i db' = ledger_count st i db" "total_items i db' = total_items i db" for st i
    by (simp_all add: ledger_count_def items_with_def total_items_def its)
  have "\<not> list_ex (owned_row report) (update_where (owned_row report)
      (\<lambda>r. r\<lparr>or_status := rule_status_of a b, or_activeReportId := None, or_updatedAt := now\<rparr>) rs)" for rs a b
    by (induction rs) (auto simp: update_where_def owned_row_def)
  then have "\<not> owns report (xd_offers db')" by (simp add: owns_def eq)
  moreover have "items_with LedgerPending (er_id report) db' = []" "items_with ErpApplied (er_id report) db' = []"
    using finalize_inv(2,3) [OF f] by (simp_all add: items_with_def its)
  ultimately have "settled report db'"
    unfolding settled_def c by (auto simp: eq list_all_iff set_update_where close_report_row_def)
  with f show ?thesis by blast
qed

lemma fail_pending_settles:
  assumes "owns report (xd_offers db)" "ledger_count ErpApplied (er_id report) db = 0"
  shows "\<exists>db'. fail_pending e report now db = (db', Inr ()) \<and> settled report db'"
  unfolding fail_pending_def
proof (rule finalize_settles)
  show "ledger_count LedgerPending (er_id report) (mark_many (pending_ids (er_id report) db) LedgerFailed (Some e) db) = 0"
    by (rule count_mark_all) (simp_all add: pending_ids_def)
  show "ledger_count ErpApplied (er_id report) (mark_many (pending_ids (er_id report) db) LedgerFailed (Some e) db) = 0"
    using count_mark_other [of ErpApplied LedgerFailed "er_id report" "pending_ids (er_id report) db" "Some e" db] assms(2) by simp
qed (simp add: assms(1))

lemma owned_of_live: "live report n db \<Longrightarrow> owns report (xd_offers db)"
  by (simp add: live_def)

lemma ensure_campaign_live:
  assumes "\<And>db db'. R db \<Longrightarrow> xd_items db' = xd_items db \<Longrightarrow> R db'" "\<And>db. R db \<Longrightarrow> ledger_count ErpApplied (er_id report) db = 0"
  shows "triple (\<lambda>db. live report n db \<and> R db) (ensure_campaign_allows_pending report)
     (\<lambda>a db. if a = Some True then live report n db \<and> R db else settled report db) (\<lambda>_. False)"
  unfolding ensure_campaign_allows_pending_def
proof (rule triple_live_tx [where n = n], goal_cases)
  case (2 now db)
  let ?db = "heartbeat now report (begin_tx db)"
  have r: "R ?db" using assms(1) [of db ?db] 2(1) by simp
  obtain db' where "fail_pending ''campanha_nao_vigente'' report now ?db = (db', Inr ())" "settled report db'"
    using fail_pending_settles [OF owned_of_live [OF 2(2)] assms(2) [OF r]] by blast
  then show ?case using r 2(2) by (auto simp: bind_action_def ret_def)
qed simp

text \<open>A round in progress: it has already settled an item, or has a chunk of pending items to settle.\<close>

definition progressing :: "exec_report \<Rightarrow> nat \<Rightarrow> nat \<Rightarrow> report_item list \<Rightarrow> exec_db \<Rightarrow> bool" where
  "progressing report n k chunk db \<longleftrightarrow> live report n db \<and> ledger_count ErpApplied (er_id report) db = 0 \<and>
     (ledger_count LedgerPending (er_id report) db < k \<or>
      ledger_count LedgerPending (er_id report) db = k \<and> chunk \<noteq> [] \<and> set chunk \<subseteq> set (items_with LedgerPending (er_id report) db))"

definition progressed :: "exec_report \<Rightarrow> nat \<Rightarrow> nat \<Rightarrow> string list \<Rightarrow> exec_db \<Rightarrow> bool" where
  "progressed report n k ids db \<longleftrightarrow> live report n db \<and> ledger_count LedgerPending (er_id report) db < k \<and>
     set (map ei_id (items_with ErpApplied (er_id report) db)) \<subseteq> set ids"

lemma progressed_none: "progressed report n k [] db \<longleftrightarrow>
    live report n db \<and> ledger_count LedgerPending (er_id report) db < k \<and> ledger_count ErpApplied (er_id report) db = 0"
  by (auto simp: progressed_def ledger_count_def)

lemma mark_live:
  assumes "st = LedgerFailed \<and> ids = [] \<or> st = ErpApplied \<and> ids = map ei_id chunk"
  shows "triple (progressing report n k chunk) (mark_owned report chunk st e)
     (\<lambda>r db. r = Some () \<and> progressed report n k ids db) (\<lambda>_. False)"
  unfolding mark_owned_def
proof (rule triple_live_tx [where n = n], goal_cases)
  case (2 now db)
  let ?db = "heartbeat now report (begin_tx db)" let ?m = "mark_many (map ei_id chunk) st e ?db"
  have its: "items_with st' (er_id report) ?db = items_with st' (er_id report) db" for st' by (simp add: items_with_def)
  have "ledger_count LedgerPending (er_id report) ?m \<le> ledger_count LedgerPending (er_id report) db"
    using count_mark_other [of LedgerPending st "er_id report" "map ei_id chunk" e ?db] assms by auto
  moreover have "chunk \<noteq> [] \<Longrightarrow> set chunk \<subseteq> set (items_with LedgerPending (er_id report) db) \<Longrightarrow>
      ledger_count LedgerPending (er_id report) ?m < ledger_count LedgerPending (er_id report) db"
    using count_mark [of LedgerPending st chunk "er_id report" ?db e] assms its by auto
  ultimately have "ledger_count LedgerPending (er_id report) ?m < k" using 2(1) by (auto simp: progressing_def)
  moreover have "items_with ErpApplied (er_id report) db = []" using 2(1) by (simp add: progressing_def ledger_count_def)
  then have "\<forall>i \<in> set (xd_items db). \<not> (ei_reportId i = er_id report \<and> ei_applyStatus i = ErpApplied)"
    by (simp add: items_with_def filter_empty_conv)
  then have "set (map ei_id (items_with ErpApplied (er_id report) ?m)) \<subseteq> set ids"
    using assms by (fastforce simp: items_with_def set_update_where)
  ultimately show ?case using 2(2) by (simp add: progressed_def)
qed (simp add: progressing_def)

lemma mirror_live:
  "triple (progressed report n k (map ei_id chunk)) (mirror_erp_applied_chunk report chunk)
     (\<lambda>_. progressed report n k []) (\<lambda>_. False)"
  unfolding mirror_erp_applied_chunk_def
proof (rule triple_live_tx [where n = n], goal_cases)
  case (2 now db)
  let ?db = "mirror_action chunk (er_offerBookInfoId report) (heartbeat now report (begin_tx db))"
  have its: "items_with st (er_id report) ?db = items_with st (er_id report) db" for st
    by (simp add: items_with_def mirror_action_simps)
  have "ledger_count ErpApplied (er_id report) (mark_many (map ei_id chunk) LedgerApplied None ?db) = 0"
    by (rule count_mark_all) (use 2(1) its in \<open>simp_all add: progressed_def\<close>)
  moreover have "ledger_count LedgerPending (er_id report) (mark_many (map ei_id chunk) LedgerApplied None ?db) < k"
    using count_mark_other [of LedgerPending LedgerApplied "er_id report" "map ei_id chunk" None ?db] 2(1)
    by (simp add: progressed_def)
  ultimately show ?case using 2(2) by (simp add: progressed_none)
qed (simp add: progressed_def)

lemma a7_live: "a7_upsert_offer p db = (db1, ok) \<Longrightarrow> progressing report n k chunk db1 = progressing report n k chunk db"
  by (auto simp: a7_upsert_offer_def Let_def progressing_def live_def steady_def ledger_count_def items_with_def)

lemma push_chunk_live:
  "triple (progressing report n k chunk) (push_chunk report chunk)
     (\<lambda>r db. r = Again \<and> progressed report n k [] db) (\<lambda>_. False)" (is "triple ?P _ ?Q ?E")
proof -
  have failed: "triple ?P (bind_action (mark_owned report chunk LedgerFailed (Some ''erro_transitorio''))
      (\<lambda>owned. ret (if owned = None then Stopped else Again))) ?Q ?E"
    by (rule triple_bind, rule mark_live [where ids = "[]"]) (auto intro: triple_ret)
  have mirrored: "triple (progressed report n k (map ei_id chunk)) (bind_action (mirror_erp_applied_chunk report chunk) (\<lambda>_. ret Again)) ?Q ?E"
    by (rule triple_bind [OF mirror_live]) (simp add: triple_ret)
  have applied: "triple ?P (bind_action (mark_owned report chunk ErpApplied None) (\<lambda>checkpointed.
      if checkpointed = None then ret Stopped else bind_action (mirror_erp_applied_chunk report chunk) (\<lambda>_. ret Again))) ?Q ?E"
  proof (rule triple_bind, rule mark_live [where ids = "map ei_id chunk"], goal_cases)
    case (2 x)
    show ?case using mirrored by (cases x) (auto simp: triple_def)
  qed simp
  show ?thesis
    unfolding triple_def
  proof (intro allI impI)
    fix db assume p: "?P db"
    obtain db1 ok where a: "a7_upsert_offer (er_offerBookInfoId report, concat (map push_of chunk)) db = (db1, ok)" by fastforce
    then have "?P db1" using a7_live p by blast
    then show "case push_chunk report chunk db of (db', Inr r) \<Rightarrow> ?Q r db' | (db', Inl _) \<Rightarrow> False"
      using tripleD [OF failed, of db1] tripleD [OF applied, of db1] a by (cases ok) (simp_all add: push_chunk_def)
  qed
qed

lemma push_items_live:
  "items \<noteq> [] \<Longrightarrow> triple (progressing report n k items) (push_items report items)
     (\<lambda>r db. r = Again \<and> progressed report n k [] db) (\<lambda>_. False)" (is "_ \<Longrightarrow> triple _ _ ?Q _")
proof -
  assume ne: "items \<noteq> []"
  let ?miss = "filter (\<lambda>i. ei_externalId i = None) items" and ?has = "filter (\<lambda>i. ei_externalId i \<noteq> None) items"
  show ?thesis
  proof (cases "?miss = []")
    case True
    then have "?has = items" by (simp add: filter_empty_conv filter_id_conv)
    then show ?thesis
      using push_chunk_live ne by (simp add: push_items_def True bind_action_def [abs_def] ret_def [abs_def])
  next
    case False
    have sub: "progressing report n k items db \<Longrightarrow> progressing report n k ?miss db" for db
      using False by (auto simp: progressing_def)
    have rest: "progressed report n k [] db \<Longrightarrow> progressing report n k chunk db" for db chunk
      by (simp add: progressed_none progressing_def)
    have "triple (\<lambda>db. owned = Some () \<and> progressed report n k [] db)
        (if owned = None then ret Stopped else if ?has = [] then ret Again else push_chunk report ?has) ?Q (\<lambda>_. False)" for owned
    proof (cases owned)
      case None
      then show ?thesis by (simp add: triple_def)
    next
      case (Some u)
      have "triple (progressed report n k []) (push_chunk report ?has) ?Q (\<lambda>_. False)"
        by (rule triple_conseq [OF push_chunk_live]) (simp_all add: rest)
      then show ?thesis using Some by (auto intro: triple_ret)
    qed
    moreover have "triple (progressing report n k items) (mark_owned report ?miss LedgerFailed (Some ''sem_external_id''))
        (\<lambda>r db. r = Some () \<and> progressed report n k [] db) (\<lambda>_. False)"
      by (rule triple_conseq [OF mark_live [where ids = "[]"]]) (simp_all add: sub)
    ultimately show ?thesis unfolding push_items_def Let_def using False by (simp add: triple_bind)
  qed
qed

lemma push_round_live:
  "triple (\<lambda>db. (live report n db \<and> ledger_count ErpApplied (er_id report) db = 0) \<and> ledger_count LedgerPending (er_id report) db = k)
     (push_round report)
     (\<lambda>r db. case r of
        Again \<Rightarrow> (live report n db \<and> ledger_count ErpApplied (er_id report) db = 0) \<and> ledger_count LedgerPending (er_id report) db < k
      | Drained \<Rightarrow> live report n db \<and> ledger_count ErpApplied (er_id report) db = 0 \<and> ledger_count LedgerPending (er_id report) db = 0
      | Stopped \<Rightarrow> settled report db) (\<lambda>_. False)" (is "triple _ _ ?Q _")
proof -
  let ?R = "\<lambda>db. ledger_count ErpApplied (er_id report) db = 0 \<and> ledger_count LedgerPending (er_id report) db = k"
  have r: "?R db \<Longrightarrow> xd_items db' = xd_items db \<Longrightarrow> ?R db'" for db db' by (metis ledger_count_items)
  have items: "triple (\<lambda>db. c = Some (items_by_status (er_id report) LedgerPending db) \<and> live report n db \<and> ?R db)
      (case c of None \<Rightarrow> ret Stopped | Some its \<Rightarrow> if its = [] then ret Drained else push_items report its) ?Q (\<lambda>_. False)" for c
  proof (cases c)
    case None
    then show ?thesis by (simp add: triple_def)
  next
    case (Some its)
    show ?thesis
    proof (cases "its = []")
      case True
      then show ?thesis unfolding Some
        using items_by_status_empty by (fastforce intro: triple_ret)
    next
      case False
      have p: "progressing report n k its db" if "Some its = Some (items_by_status (er_id report) LedgerPending db) \<and> live report n db \<and> ?R db" for db
        using that False items_by_status_sub [of "er_id report" LedgerPending db] by (simp add: progressing_def)
      show ?thesis
        unfolding Some using False
        by (simp, intro triple_conseq [OF push_items_live [OF False, of report n k]]) (use p in \<open>auto simp: progressed_none\<close>)
    qed
  qed
  have chunk: "triple (\<lambda>db. live report n db \<and> ?R db) (bind_action (chunk_of report LedgerPending) (\<lambda>chunk.
      case chunk of None \<Rightarrow> ret Stopped | Some its \<Rightarrow> if its = [] then ret Drained else push_items report its)) ?Q (\<lambda>_. False)"
    by (rule triple_bind [OF chunk_of_live [where R = ?R, OF r] items])
  have "triple (\<lambda>db. if a = Some True then live report n db \<and> ?R db else settled report db)
      (if a \<noteq> Some True then ret Stopped else bind_action (chunk_of report LedgerPending) (\<lambda>chunk.
        case chunk of None \<Rightarrow> ret Stopped | Some its \<Rightarrow> if its = [] then ret Drained else push_items report its)) ?Q (\<lambda>_. False)" for a
    using chunk by (cases "a = Some True") (auto intro: triple_ret)
  then have "triple (\<lambda>db. live report n db \<and> ?R db) (push_round report) ?Q (\<lambda>_. False)"
    unfolding push_round_def by (intro triple_bind [OF ensure_campaign_live [where R = ?R, OF r]]) simp_all
  then show ?thesis by (simp add: conj_ac)
qed

section \<open>The properties of the worker\<close>

lemma push_report_triple:
  "triple (delivery_inv report db0 {#}) (push_report fuel slug report) (\<lambda>_. delivery_end report db0) (delivery_end report db0)"
proof -
  have fin: "triple (delivery_inv report db0 {#}) (owned_tx report (\<lambda>now. finalize_owned now report))
      (\<lambda>_. delivery_inv report db0 {#}) (delivery_end report db0)"
    by (rule triple_owned_tx [where P' = "delivery_inv report db0 {#}"])
      (auto intro: delivery_endI delivery_inv_finalize simp: delivery_inv_finalize)
  have nocreds: "triple (delivery_inv report db0 {#}) (owned_tx report (fail_pending ''a7_nao_configurado'' report))
      (\<lambda>_. delivery_inv report db0 {#}) (delivery_end report db0)"
  proof (rule triple_owned_tx [where P' = "delivery_inv report db0 {#}"], goal_cases)
    case (3 now db db' x)
    have "delivery_inv report db0 {#} (mark_many (pending_ids (er_id report) db) LedgerFailed (Some ''a7_nao_configurado'') db)"
      by (rule delivery_inv_mark [where M = "{#}" and N = "{#}"]) (use 3(1) in \<open>auto simp: waiting_mark\<close>)
    then show ?case using 3(3) delivery_inv_finalize by (auto simp: fail_pending_def)
  qed (auto intro: delivery_endI)
  have close: "triple (delivery_inv report db0 {#}) (bind_action m (\<lambda>_. ret (Some ()))) (\<lambda>_. delivery_end report db0) (delivery_end report db0)"
    if "triple (delivery_inv report db0 {#}) m (\<lambda>_. delivery_inv report db0 {#}) (delivery_end report db0)" for m :: "unit option action"
    by (rule triple_bind [OF that]) (auto intro: triple_ret delivery_endI)
  have loop: "triple (delivery_inv report db0 {#}) (rounds fuel (push_round report))
      (\<lambda>r db. case r of None \<Rightarrow> delivery_inv report db0 {#} db
         | Some b \<Rightarrow> if b then delivery_inv report db0 {#} db else delivery_end report db0 db) (delivery_end report db0)"
    by (rule triple_rounds, rule triple_conseq [OF push_round_triple]) (auto split: round_end.splits)
  have "triple (delivery_inv report db0 {#}) (bind_action (rounds fuel (push_round report)) (\<lambda>r.
      case r of None \<Rightarrow> ret None
      | Some drained \<Rightarrow> if \<not> drained then ret (Some ())
          else bind_action (owned_tx report (\<lambda>now. finalize_owned now report)) (\<lambda>_. ret (Some ()))))
      (\<lambda>_. delivery_end report db0) (delivery_end report db0)"
  proof (rule triple_bind [OF loop], goal_cases)
    case (1 r)
    show ?case
    proof (cases r)
      case None
      then show ?thesis by (auto intro: triple_ret delivery_endI)
    next
      case (Some b)
      then show ?thesis using close [OF fin] by (cases b) (auto intro: triple_ret)
    qed
  qed
  then show ?thesis
    using close [OF nocreds] unfolding triple_def push_report_def by simp
qed

lemma run_report_triple:
  "triple (delivery_inv report db0 {#}) (run_report fuel slug report) (\<lambda>_. delivery_end report db0) (delivery_end report db0)"
proof -
  have loop: "triple (delivery_inv report db0 {#}) (rounds fuel (finish_round report))
      (\<lambda>_. delivery_inv report db0 {#}) (delivery_end report db0)"
  proof -
    have "triple (delivery_inv report db0 {#}) (finish_round report)
        (\<lambda>r. case r of Again \<Rightarrow> delivery_inv report db0 {#} | Drained \<Rightarrow> delivery_inv report db0 {#}
          | Stopped \<Rightarrow> delivery_inv report db0 {#}) (delivery_end report db0)"
      by (rule triple_conseq [OF finish_round_triple]) (auto split: round_end.splits)
    from triple_rounds [where Q = "\<lambda>_. delivery_inv report db0 {#}", OF this] show ?thesis
      by (rule triple_conseq) (auto split: option.splits)
  qed
  have push: "triple (delivery_inv report db0 {#}) (bind_action (ensure_campaign_allows_pending report) (\<lambda>allowed.
      if allowed \<noteq> Some True then ret (Some ()) else push_report fuel slug report)) (\<lambda>_. delivery_end report db0) (delivery_end report db0)"
    by (rule triple_bind [OF ensure_campaign_triple]) (use push_report_triple in \<open>auto intro: triple_ret delivery_endI\<close>)
  show ?thesis
    unfolding run_report_def
  proof (rule triple_bind [OF loop], goal_cases)
    case (1 r)
    show ?case
    proof (cases r)
      case None
      then show ?thesis by (auto intro: triple_ret delivery_endI)
    next
      case (Some b)
      then show ?thesis using push by (cases b) (auto intro: triple_ret delivery_endI)
    qed
  qed
qed

lemma find_owned_report_Some:
  "find_owned_report i db = Some report \<Longrightarrow> report \<in> set (xd_reports db) \<and> er_id report = i \<and> owns report (xd_offers db)"
  by (auto simp: find_owned_report_def find_Some_iff owns_def list_ex_iff split: option.splits if_splits)

text \<open>A delivery is one of a report it found owned, or it only looked.\<close>

lemma run_execution_cases:
  assumes "run_execution fuel locked slug reportId db = (db', out)"
  obtains "db' = db" | "db' = begin_tx db" |
    report where "find_owned_report reportId (begin_tx db) = Some report" "run_report fuel slug report (begin_tx db) = (db', out)"
  using assms
  by (auto simp: run_execution_def run_with_tenant_def bind_action_def ret_def split: if_splits option.splits)

lemma push_report_live:
  assumes "n < fuel"
  shows "triple (\<lambda>db. live report n db \<and> ledger_count ErpApplied (er_id report) db = 0) (push_report fuel slug report)
     (\<lambda>r db. r = Some () \<and> settled report db) (\<lambda>_. False)" (is "triple ?P _ ?Q _")
proof -
  have fin: "triple (\<lambda>db. live report n db \<and> ledger_count ErpApplied (er_id report) db = 0 \<and> ledger_count LedgerPending (er_id report) db = 0)
      (bind_action (owned_tx report (\<lambda>now. finalize_owned now report)) (\<lambda>_. ret (Some ()))) ?Q (\<lambda>_. False)"
  proof (rule triple_bind, rule triple_live_tx [where n = n and Q = "\<lambda>_. settled report"], goal_cases)
    case (2 now db)
    then show ?case using finalize_settles [OF owned_of_live [OF 2(2)], of now] by auto
  qed (auto intro: triple_ret)
  have nocreds: "triple ?P (bind_action (owned_tx report (fail_pending ''a7_nao_configurado'' report)) (\<lambda>_. ret (Some ()))) ?Q (\<lambda>_. False)"
  proof (rule triple_bind, rule triple_live_tx [where n = n and Q = "\<lambda>_. settled report"], goal_cases)
    case (2 now db)
    then show ?case using fail_pending_settles [OF owned_of_live [OF 2(2)], of "''a7_nao_configurado''" now] by auto
  qed (auto intro: triple_ret)
  have bound: "?P db \<Longrightarrow> ledger_count LedgerPending (er_id report) db < fuel" for db
    using length_filter_le [of _ "xd_items db"] assms unfolding live_def ledger_count_def items_with_def
    by (meson le_less_trans order_trans order_eq_refl)
  have loop: "triple ?P (rounds fuel (push_round report))
      (\<lambda>r db. case r of None \<Rightarrow> False | Some b \<Rightarrow>
        if b then live report n db \<and> ledger_count ErpApplied (er_id report) db = 0 \<and> ledger_count LedgerPending (er_id report) db = 0
        else settled report db) (\<lambda>_. False)"
  proof -
    let ?f = "ledger_count LedgerPending (er_id report)"
    let ?R = "\<lambda>b db. if b then live report n db \<and> ledger_count ErpApplied (er_id report) db = 0 \<and> ?f db = 0 else settled report db"
    have "triple (\<lambda>db. ?P db \<and> ?f db = k) (push_round report)
        (\<lambda>r db. case r of Again \<Rightarrow> ?P db \<and> ?f db < k | Drained \<Rightarrow> ?R True db | Stopped \<Rightarrow> ?R False db) (\<lambda>_. False)" for k
      by (rule triple_conseq [OF push_round_live]) (auto split: round_end.splits)
    from triple_rounds_measure [where Q = ?R, OF this, of fuel] show ?thesis
      by (rule triple_conseq) (use bound in auto)
  qed
  have "triple ?P (bind_action (rounds fuel (push_round report)) (\<lambda>r.
      case r of None \<Rightarrow> ret None
      | Some drained \<Rightarrow> if \<not> drained then ret (Some ())
          else bind_action (owned_tx report (\<lambda>now. finalize_owned now report)) (\<lambda>_. ret (Some ())))) ?Q (\<lambda>_. False)"
  proof (rule triple_bind [OF loop], goal_cases)
    case (1 r)
    show ?case using fin by (cases r) (auto simp: triple_def ret_def)
  qed
  then show ?thesis using nocreds unfolding triple_def push_report_def by simp
qed

lemma run_report_live:
  assumes "n < fuel"
  shows "triple (live report n) (run_report fuel slug report) (\<lambda>r db. r = Some () \<and> settled report db) (\<lambda>_. False)"
    (is "triple _ _ ?Q _")
proof -
  have bound: "live report n db \<Longrightarrow> ledger_count ErpApplied (er_id report) db < fuel" for db
    using length_filter_le [of _ "xd_items db"] assms unfolding live_def ledger_count_def items_with_def
    by (meson le_less_trans order_trans order_eq_refl)
  have loop: "triple (live report n) (rounds fuel (finish_round report))
      (\<lambda>r db. case r of None \<Rightarrow> False | Some b \<Rightarrow> b \<and> live report n db \<and> ledger_count ErpApplied (er_id report) db = 0) (\<lambda>_. False)"
  proof -
    let ?f = "ledger_count ErpApplied (er_id report)"
    let ?R = "\<lambda>b db. b \<and> live report n db \<and> ?f db = 0"
    have "triple (\<lambda>db. live report n db \<and> ?f db = k) (finish_round report)
        (\<lambda>r db. case r of Again \<Rightarrow> live report n db \<and> ?f db < k | Drained \<Rightarrow> ?R True db | Stopped \<Rightarrow> ?R False db) (\<lambda>_. False)" for k
      by (rule triple_conseq [OF finish_round_live]) (auto split: round_end.splits)
    from triple_rounds_measure [where Q = ?R, OF this, of fuel] show ?thesis
      by (rule triple_conseq) (use bound in auto)
  qed
  have r: "ledger_count ErpApplied (er_id report) db = 0 \<Longrightarrow> xd_items db' = xd_items db \<Longrightarrow> ledger_count ErpApplied (er_id report) db' = 0" for db db'
    by (metis ledger_count_items)
  have push: "triple (\<lambda>db. live report n db \<and> ledger_count ErpApplied (er_id report) db = 0)
      (bind_action (ensure_campaign_allows_pending report) (\<lambda>allowed. if allowed \<noteq> Some True then ret (Some ()) else push_report fuel slug report)) ?Q (\<lambda>_. False)"
  proof -
    let ?R = "\<lambda>db. ledger_count ErpApplied (er_id report) db = 0"
    have "triple (\<lambda>db. if a = Some True then live report n db \<and> ?R db else settled report db)
        (if a \<noteq> Some True then ret (Some ()) else push_report fuel slug report) ?Q (\<lambda>_. False)" for a
      using push_report_live [OF assms, of report slug] by (cases "a = Some True") (auto intro: triple_ret)
    from triple_bind [OF ensure_campaign_live [where R = ?R, OF r] this] show ?thesis by simp
  qed
  show ?thesis
    unfolding run_report_def
  proof (rule triple_bind [OF loop], goal_cases)
    case (1 r)
    show ?case using push by (cases r) (auto simp: triple_def ret_def)
  qed
qed

lemma delivery_start:
  assumes "ledger_ok db" "distinct (map ei_id (xd_items db))" "find_owned_report reportId (begin_tx db) = Some report"
  shows "delivery_inv report (begin_tx db) {#} (begin_tx db)" "er_id report = reportId"
proof -
  have r: "report \<in> set (xd_reports db)" "er_id report = reportId"
    using find_owned_report_Some [OF assms(3)] by simp_all
  have "ledger_ok (begin_tx db)" using assms(1) by (simp add: ledger_ok_def pushed_ok_def)
  then show "delivery_inv report (begin_tx db) {#} (begin_tx db)"
    using assms(2) r(1) by (auto simp: delivery_inv_def sent_def)
  show "er_id report = reportId" by (rule r(2))
qed

text \<open>
  C12. The ledger is money-safe. Whatever transactions fail and whatever other sessions do between
  them, a delivery changes nothing frozen, every item it leaves as sent or applied has a confirmed
  push of its frozen price to its package in the offer book of its report, and the requests it sends
  carry at most eighty prices each, to the offer book of the report, and together only pushes that were
  waiting when it started, none of them twice.
\<close>

theorem delivery_sends_frozen_prices:
  assumes "run_execution fuel locked slug reportId db = (db', out)" "ledger_ok db" "distinct (map ei_id (xd_items db))"
  shows "ledger_ok db' \<and> map frozen (xd_items db') = map frozen (xd_items db) \<and>
    (\<exists>ws. xd_pushes db' = xd_pushes db @ ws \<and>
       sent ws \<subseteq># mset (concat (map push_of (items_with LedgerPending reportId db))) \<and>
       list_all (\<lambda>((cad, its), ok). length its \<le> 80 \<and> (reportId, cad) \<in> set (map report_key (xd_reports db))) ws)"
  using assms(1)
proof (cases rule: run_execution_cases)
  case 1
  then show ?thesis using assms(2) by (simp add: sent_def)
next
  case 2
  then show ?thesis using assms(2) by (simp add: sent_def ledger_ok_def pushed_ok_def)
next
  case (3 report)
  note start = delivery_start [OF assms(2,3) 3(1)]
  from tripleD [OF run_report_triple start(1), of fuel slug] obtain M where m: "delivery_inv report (begin_tx db) M db'"
    unfolding 3(2) by (auto simp: delivery_end_def split: sum.splits)
  then obtain ws where ws: "xd_pushes db' = xd_pushes db @ ws" "list_all (push_fits report) ws" "sent ws \<subseteq># waiting report (begin_tx db)"
    by (auto simp: delivery_inv_def)
  have k: "(reportId, er_offerBookInfoId report) \<in> set (map report_key (xd_reports db))"
    using m start(2) by (auto simp: delivery_inv_def report_key_def [of report])
  have "list_all (\<lambda>((cad, its), ok). length its \<le> 80 \<and> (reportId, cad) \<in> set (map report_key (xd_reports db))) ws"
    using ws(2) k by (auto simp: list_all_iff push_fits_def A7_CHUNK_def)
  moreover have "waiting report (begin_tx db) = mset (concat (map push_of (items_with LedgerPending reportId db)))"
    by (simp add: waiting_def items_with_def start(2))
  ultimately show ?thesis using m ws(1,3) by (auto simp: delivery_inv_def)
qed

lemma demo_exec_ledger: "ledger_ok demo_exec" "distinct (map ei_id (xd_items demo_exec))"
  by (simp_all add: demo_exec_def ledger_ok_def pending_item_def)

theorem delivery_sends_frozen_prices_witness:
  "\<exists>db' out ws. run_execution 3 False ''acme'' ''x1'' demo_exec = (db', out) \<and> ledger_ok db' \<and> xd_pushes db' = ws \<and>
     sent ws \<subseteq># {#(7, Num (round_double 15))#}"
proof -
  obtain db' out where r: "run_execution 3 False ''acme'' ''x1'' demo_exec = (db', out)" by fastforce
  have "concat (map push_of (items_with LedgerPending ''x1'' demo_exec)) = [(7, Num (round_double 15))]"
    by (simp add: demo_exec_def items_with_def pending_item_def push_of_def sent_price_def from_column_def)
  moreover have "xd_pushes demo_exec = []" by (simp add: demo_exec_def)
  ultimately show ?thesis
    using delivery_sends_frozen_prices [OF r demo_exec_ledger] r by auto
qed

text \<open>
  C13. A delivery that meets no fault settles its report, whatever earlier deliveries left behind: no
  item stays pending or without its mirror, the report gets the counters of its items and an outcome,
  and the rule is released. The number of items is enough for the rounds of its loops.
\<close>

theorem steady_delivery_settles:
  assumes "find_owned_report reportId (begin_tx db) = Some report" "steady report db" "length (xd_items db) < fuel"
  shows "\<exists>db'. run_execution fuel False slug reportId db = (db', Inr (Some ())) \<and> settled report db'"
proof -
  have f: "\<not> xd_faults db (xd_txs db)" using assms(2) by (auto simp: steady_def)
  have "owns report (xd_offers (begin_tx db))" using find_owned_report_Some [OF assms(1)] by blast
  then have "live report (length (xd_items db)) (begin_tx db)"
    using assms(2) by (auto simp: live_def steady_def)
  from tripleD [OF run_report_live [OF assms(3)] this, of slug]
  obtain db' where "run_report fuel slug report (begin_tx db) = (db', Inr (Some ()))" "settled report db'"
    by (auto split: prod.splits sum.splits)
  then show ?thesis
    using f assms(1) by (simp add: run_execution_def run_with_tenant_def bind_action_def ret_def)
qed

theorem steady_delivery_settles_witness:
  "\<exists>db'. run_execution 3 False ''acme'' ''x1'' demo_exec = (db', Inr (Some ())) \<and> settled (running_report ''x1'') db'"
proof (rule steady_delivery_settles)
  show "find_owned_report ''x1'' (begin_tx demo_exec) = Some (running_report ''x1'')"
    by (simp add: find_owned_report_def demo_exec_def running_report_def running_rule_def owned_row_def begin_tx_def)
qed (simp_all add: steady_def demo_exec_def)

section \<open>The life of the ledger\<close>

text \<open>
  What happens to the tables, from a ledger in which nothing was sent: requests (whose generated ids
  are new), deliveries, and whatever other sessions do to the other tables of the tenant.
\<close>

inductive exec_step :: "exec_db \<Rightarrow> exec_db \<Rightarrow> bool" where
  Request: "inj itemIds \<Longrightarrow> range itemIds \<inter> ei_id ` set (xd_items db) = {} \<Longrightarrow>
    exec_step db (fst (execute_rule now newId itemIds locked slug ruleId executionType db))"
| Delivery: "exec_step db (fst (run_execution fuel locked slug reportId db))"
| Elsewhere: "exec_step db (db\<lparr>xd_offers := offers\<rparr>)"

inductive exec_reachable :: "exec_db \<Rightarrow> bool" where
  Start: "distinct (map ei_id (xd_items db)) \<Longrightarrow>
    list_all (\<lambda>i. ei_applyStatus i \<notin> {ErpApplied, LedgerApplied}) (xd_items db) \<Longrightarrow> exec_reachable db"
| Step: "exec_reachable db \<Longrightarrow> exec_step db db' \<Longrightarrow> exec_reachable db'"

definition ledger_inv :: "exec_db \<Rightarrow> bool" where
  "ledger_inv db \<longleftrightarrow> distinct (map ei_id (xd_items db)) \<and> ledger_ok db"

lemma delivery_keeps_ledger:
  assumes "ledger_inv db"
  shows "ledger_inv (fst (run_execution fuel locked slug reportId db))"
proof -
  obtain db' out where r: "run_execution fuel locked slug reportId db = (db', out)" by fastforce
  have inv: "ledger_ok db" "distinct (map ei_id (xd_items db))" using assms by (simp_all add: ledger_inv_def)
  from r show ?thesis
  proof (cases rule: run_execution_cases)
    case (3 report)
    note start = delivery_start [OF inv 3(1)]
    from tripleD [OF run_report_triple start(1), of fuel slug] show ?thesis
      unfolding r 3(2) by (auto simp: delivery_end_def ledger_inv_def delivery_inv_def split: sum.splits)
  qed (use r inv in \<open>simp_all add: ledger_inv_def ledger_ok_def pushed_ok_def\<close>)
qed

lemma request_keeps_ledger:
  assumes "ledger_inv db" "inj itemIds" "range itemIds \<inter> ei_id ` set (xd_items db) = {}"
  shows "ledger_inv (fst (execute_rule now newId itemIds locked slug ruleId executionType db))"
proof -
  obtain db' out where e: "execute_rule now newId itemIds locked slug ruleId executionType db = (db', out)" by fastforce
  have same: "ledger_inv db'" if "xd_items db' = xd_items db" "xd_pushes db' = xd_pushes db" "xd_reports db' = xd_reports db"
    using assms(1) that by (simp add: ledger_inv_def ledger_ok_def pushed_ok_def)
  have "ledger_inv db'" if n: "new_execution now newId itemIds slug executionType rule db = (db', Inr i)" for rule i
    using n
  proof (rule new_execution_Inr, goal_cases)
    case (1 results items)
    note ids = frozen_items_Inr(1) [OF 1(4)]
    have "set (map ei_id items) \<subseteq> range itemIds" unfolding ids by auto
    moreover have "distinct (map ei_id items)" unfolding ids using inj_on_subset [OF assms(2) subset_UNIV] by (simp add: distinct_map)
    ultimately have d: "distinct (map ei_id (xd_items db'))"
      using assms(1,3) unfolding 1(5) by (auto simp: ledger_inv_def)
    have "ei_applyStatus i \<notin> {ErpApplied, LedgerApplied}" if "i \<in> set items" for i
      using frozen_items_status [OF 1(4) that] by auto
    moreover obtain report where "xd_reports db' = xd_reports db @ [report]" using 1(7) by blast
    then have "pushed_ok db i \<Longrightarrow> pushed_ok db' i" for i
      using 1(6) unfolding pushed_ok_def by (metis Un_iff map_append set_append)
    ultimately have "ledger_ok db'"
      using assms(1) unfolding ledger_ok_def ledger_inv_def list_all_iff 1(5) by auto
    then show ?case using d by (simp add: ledger_inv_def)
  qed
  then show ?thesis
    using e same resume_execution_cases [of now locked slug _ db db' out] new_execution_Inl [of now newId itemIds slug executionType _ db db'] assms(1)
    by (cases out) (auto simp: execute_rule_def split: option.splits if_splits)
qed

lemma reachable_ledger: "exec_reachable db \<Longrightarrow> ledger_inv db"
proof (induction rule: exec_reachable.induct)
  case (Start db)
  then show ?case by (auto simp: ledger_inv_def ledger_ok_def list_all_iff)
next
  case (Step db db')
  from Step.hyps(2) show ?case
  proof cases
    case (Elsewhere offers)
    then show ?thesis using Step.IH by (simp add: ledger_inv_def ledger_ok_def pushed_ok_def)
  qed (use Step.IH delivery_keeps_ledger request_keeps_ledger in auto)
qed

text \<open>
  C11. Over any history of requests, deliveries (with any faults), and changes by other sessions, an
  item that counts as sent or applied has a confirmed push of exactly the price that was frozen when
  the rule was executed.
\<close>

theorem applied_ledger_items_were_pushed:
  assumes "exec_reachable db" "i \<in> set (xd_items db)" "ei_applyStatus i = ErpApplied \<or> ei_applyStatus i = LedgerApplied"
  shows "\<exists>cad its ext. ((cad, its), True) \<in> set (xd_pushes db) \<and> ei_externalId i = Some ext \<and>
    (ext, Num (from_column (ei_finalPrice i))) \<in> set its \<and>
    (\<exists>r \<in> set (xd_reports db). er_id r = ei_reportId i \<and> er_offerBookInfoId r = cad)"
  using reachable_ledger [OF assms(1)] assms(2,3)
  by (fastforce simp: ledger_inv_def ledger_ok_def list_all_iff pushed_ok_def sent_price_def report_key_def)

lemma demo_chunks:
  "items_with LedgerPending ''x1'' db = [a, b] \<Longrightarrow> ean_number (ei_ean a) \<le> ean_number (ei_ean b) \<Longrightarrow>
     items_by_status ''x1'' LedgerPending db = [a, b]"
  "items_with ErpApplied ''x1'' db = [] \<Longrightarrow> items_by_status ''x1'' ErpApplied db = []"
  by (simp_all add: items_by_status_def A7_CHUNK_def)

text \<open>The demonstration delivery, cut off before the local mirror of the item it pushed.\<close>

definition demo_crash :: exec_db where
  "demo_crash = demo_exec\<lparr>xd_faults := (\<lambda>n. n = 7)\<rparr>"

lemma demo_delivery:
  "map (\<lambda>i. (ei_id i, ei_applyStatus i)) (xd_items (fst (run_execution 3 False ''acme'' ''x1'' demo_crash))) =
     [(''i1'', ErpApplied), (''i2'', LedgerFailed)]"
proof -
  have e: "ean_number ''789'' = 789" "ean_number ''790'' = 790" by code_simp+
  show ?thesis
    by (simp add: demo_crash_def run_execution_def run_with_tenant_def bind_action_def [abs_def] ret_def [abs_def] find_owned_report_def owned_row_def demo_exec_def
      running_report_def running_rule_def begin_tx_def run_report_def numeral_3_eq_3 finish_round_def chunk_of_def owned_tx_def touch_owner_def
      update_where_def demo_chunks items_with_def pending_item_def e
      ensure_campaign_allows_pending_def campaign_valid_def demo_offer_db_def push_report_def push_round_def push_items_def mark_owned_def
      mark_many_def push_chunk_def a7_upsert_offer_def mirror_erp_applied_chunk_def Let_def)
qed

theorem applied_ledger_items_were_pushed_witness:
  "\<exists>i \<in> set (xd_items (fst (run_execution 3 False ''acme'' ''x1'' demo_crash))). ei_id i = ''i1'' \<and>
     (\<exists>cad its ext. ((cad, its), True) \<in> set (xd_pushes (fst (run_execution 3 False ''acme'' ''x1'' demo_crash))) \<and>
        (ext, Num (from_column (ei_finalPrice i))) \<in> set its)"
proof -
  let ?db = "fst (run_execution 3 False ''acme'' ''x1'' demo_crash)"
  have "exec_reachable demo_crash"
    by (rule Start) (simp_all add: demo_crash_def demo_exec_def pending_item_def)
  then have r: "exec_reachable ?db" by (rule Step) (rule Delivery)
  have "(''i1'', ErpApplied) \<in> set (map (\<lambda>i. (ei_id i, ei_applyStatus i)) (xd_items ?db))"
    unfolding demo_delivery by simp
  then obtain i where i: "i \<in> set (xd_items ?db)" "ei_id i = ''i1''" "ei_applyStatus i = ErpApplied" by auto
  from applied_ledger_items_were_pushed [OF r i(1) disjI1 [OF i(3)]] i(1,2) show ?thesis by blast
qed

end
