(* ===== verification/Offer_Book_Schedule.thy ===== *)
theory Offer_Book_Schedule
  imports Offer_Book_Worker
begin

text \<open>
  The scheduled executions: \<open>src/tenant-api/offer-book-rules/offer-book-rule-schedule.cron.ts\<close>. Once an
  hour, within the commercial window, every enabled rule of the day that has no scheduled report of
  the day is executed. The calendar of America/Sao_Paulo is a parameter: the hour, the day of the week
  and the civil day of an instant. Every turn of the loop has its own instant, ids and transaction.
\<close>

section \<open>The calendar\<close>

record calendar =
  cl_hour :: "int \<Rightarrow> nat"
  cl_dow :: "int \<Rightarrow> int"
  cl_day :: "int \<Rightarrow> int"

definition WINDOW_START_HOUR :: nat where
  "WINDOW_START_HOUR = 7"

definition WINDOW_END_HOUR :: nat where
  "WINDOW_END_HOUR = 21"

definition within_window :: "calendar \<Rightarrow> int \<Rightarrow> bool" where
  "within_window cal now = (WINDOW_START_HOUR \<le> cl_hour cal now \<and> cl_hour cal now \<le> WINDOW_END_HOUR)"

section \<open>The rules that are due\<close>

definition has_scheduled_report :: "calendar \<Rightarrow> int \<Rightarrow> string \<Rightarrow> exec_db \<Rightarrow> bool" where
  "has_scheduled_report cal now ruleId db =
     list_ex (\<lambda>x. er_ruleId x = ruleId \<and> er_executionType x = Scheduled \<and> cl_day cal (er_executedAt x) = cl_day cal now)
       (xd_reports db)"

definition due_rule_ids :: "calendar \<Rightarrow> int \<Rightarrow> exec_db \<Rightarrow> string list" where
  "due_rule_ids cal now db =
     map or_id (sort_key or_createdAt (filter (\<lambda>r. \<not> or_deleted r \<and> or_scheduleEnabled r \<and> or_status r \<noteq> Running \<and>
        (case or_scheduledDays r of None \<Rightarrow> False | Some days \<Rightarrow> cl_dow cal now \<in> set days) \<and>
        \<not> has_scheduled_report cal now (or_id r) db) (od_rules (xd_offers db))))"

section \<open>Firing\<close>

text \<open>What the turns of the loop draw: the instant, the ids, the locks, and whether the transaction fails.\<close>

record firing =
  fi_now :: "nat \<Rightarrow> int"
  fi_reportId :: "nat \<Rightarrow> string"
  fi_itemIds :: "nat \<Rightarrow> nat \<Rightarrow> string"
  fi_locked :: "string \<Rightarrow> bool"
  fi_fails :: "nat \<Rightarrow> bool"

text \<open>One transaction per rule: a rule that conflicts or fails is skipped.\<close>

fun execute_due :: "firing \<Rightarrow> string \<Rightarrow> nat \<Rightarrow> string list \<Rightarrow> exec_db \<Rightarrow> exec_db" where
  "execute_due fi slug k [] db = db"
| "execute_due fi slug k (ruleId # rest) db =
     execute_due fi slug (Suc k) rest
       (if fi_fails fi k then db
        else fst (execute_rule (fi_now fi k) (fi_reportId fi k) (fi_itemIds fi k) (fi_locked fi) slug ruleId Scheduled db))"

definition fire_for_tenant :: "calendar \<Rightarrow> firing \<Rightarrow> int \<Rightarrow> string \<Rightarrow> exec_db \<Rightarrow> exec_db" where
  "fire_for_tenant cal fi now slug db = execute_due fi slug 0 (due_rule_ids cal now db) db"

text \<open>All active tenants with the module; each has its own tables, and draws, per slug.\<close>

record active_tenant =
  tn_slug :: string
  tn_modules :: "string list"

definition fire :: "bool \<Rightarrow> calendar \<Rightarrow> (string \<Rightarrow> firing) \<Rightarrow> (string \<Rightarrow> bool) \<Rightarrow> int \<Rightarrow> active_tenant list \<Rightarrow>
    (string \<Rightarrow> exec_db) \<Rightarrow> (string \<Rightarrow> exec_db)" where
  "fire workerMode cal fi fails now tenants dbs =
     (if workerMode \<or> \<not> within_window cal now then dbs
      else fold (\<lambda>t dbs. let slug = tn_slug t in
        if slug = ''system'' \<or> ''offer-book-rules'' \<notin> set (tn_modules t) \<or> fails slug then dbs
        else dbs(slug := fire_for_tenant cal (fi slug) now slug (dbs slug))) tenants dbs)"

section \<open>Once per day\<close>

text \<open>A request adds at most its own report.\<close>

lemma execute_rule_reports:
  assumes "execute_rule now newId itemIds locked slug ruleId etype db = (db', out)"
  shows "xd_reports db' = xd_reports db \<or>
    (\<exists>r. xd_reports db' = xd_reports db @ [r] \<and> er_ruleId r = ruleId \<and> er_executionType r = etype \<and> er_executedAt r = now)"
proof (cases "live_rule ruleId (xd_offers db)")
  case None
  then show ?thesis using assms by (auto simp: execute_rule_def)
next
  case (Some rule)
  then have i: "or_id rule = ruleId" by (auto simp: live_rule_def find_Some_iff)
  have resume: "resume_execution now locked slug rule db = (db', out) \<Longrightarrow> xd_reports db' = xd_reports db"
    using resume_execution_cases by metis
  have new: "new_execution now newId itemIds slug etype rule db = (db', out) \<Longrightarrow> ?thesis"
    unfolding new_execution_def Let_def enqueue_execution_def using i by (auto split: sum.splits)
  show ?thesis
    using assms Some new resume by (auto simp: execute_rule_def split: if_splits)
qed

definition daily_once :: "calendar \<Rightarrow> exec_db \<Rightarrow> bool" where
  "daily_once cal db \<longleftrightarrow> distinct (map (\<lambda>r. (er_ruleId r, cl_day cal (er_executedAt r)))
     (filter (\<lambda>r. er_executionType r = Scheduled) (xd_reports db)))"

lemma execute_due_reports:
  assumes "distinct ids" "\<And>j. cl_day cal (fi_now fi j) = cl_day cal now"
    and "list_all (\<lambda>i. \<not> has_scheduled_report cal now i db) ids" "daily_once cal db"
  shows "daily_once cal (execute_due fi slug k ids db) \<and>
    (\<exists>new. xd_reports (execute_due fi slug k ids db) = xd_reports db @ new \<and> er_ruleId ` set new \<subseteq> set ids \<and>
       list_all (\<lambda>r. er_executionType r = Scheduled) new)"
  using assms
proof (induction ids arbitrary: k db)
  case Nil
  then show ?case by simp
next
  case (Cons i ids)
  define db1 where "db1 = (if fi_fails fi k then db
    else fst (execute_rule (fi_now fi k) (fi_reportId fi k) (fi_itemIds fi k) (fi_locked fi) slug i Scheduled db))"
  have r: "xd_reports db1 = xd_reports db \<or> (\<exists>r. xd_reports db1 = xd_reports db @ [r] \<and> er_ruleId r = i \<and>
      er_executionType r = Scheduled \<and> cl_day cal (er_executedAt r) = cl_day cal now)"
    using execute_rule_reports [of "fi_now fi k" "fi_reportId fi k" "fi_itemIds fi k" "fi_locked fi" slug i Scheduled db] Cons.prems(2)
    by (cases "execute_rule (fi_now fi k) (fi_reportId fi k) (fi_itemIds fi k) (fi_locked fi) slug i Scheduled db") (auto simp: db1_def)
  have "daily_once cal db1"
    using r Cons.prems(3,4) by (fastforce simp: daily_once_def has_scheduled_report_def list_ex_iff)
  moreover have "list_all (\<lambda>i. \<not> has_scheduled_report cal now i db1) ids"
    using r Cons.prems(1,3) by (auto simp: list_all_iff has_scheduled_report_def)
  ultimately have ih: "daily_once cal (execute_due fi slug (Suc k) ids db1)"
    "\<exists>new. xd_reports (execute_due fi slug (Suc k) ids db1) = xd_reports db1 @ new \<and> er_ruleId ` set new \<subseteq> set ids \<and>
       list_all (\<lambda>r. er_executionType r = Scheduled) new"
    using Cons.IH [of db1 "Suc k"] Cons.prems(1,2) by simp_all
  have step: "execute_due fi slug k (i # ids) db = execute_due fi slug (Suc k) ids db1" by (simp add: db1_def)
  from ih(2) obtain new where new: "xd_reports (execute_due fi slug (Suc k) ids db1) = xd_reports db1 @ new"
    "er_ruleId ` set new \<subseteq> set ids" "list_all (\<lambda>r. er_executionType r = Scheduled) new" by blast
  from r have "\<exists>new. xd_reports (execute_due fi slug (Suc k) ids db1) = xd_reports db @ new \<and> er_ruleId ` set new \<subseteq> set (i # ids) \<and>
      list_all (\<lambda>r. er_executionType r = Scheduled) new"
  proof
    assume "xd_reports db1 = xd_reports db"
    then show ?thesis using new by auto
  next
    assume "\<exists>r. xd_reports db1 = xd_reports db @ [r] \<and> er_ruleId r = i \<and> er_executionType r = Scheduled \<and>
        cl_day cal (er_executedAt r) = cl_day cal now"
    then obtain r where "xd_reports db1 = xd_reports db @ [r]" "er_ruleId r = i" "er_executionType r = Scheduled" by blast
    then show ?thesis using new by (intro exI [of _ "r # new"]) auto
  qed
  then show ?case unfolding step using ih(1) by blast
qed

text \<open>
  C15. The schedule executes a rule at most once per civil day: a firing, whose turns all fall on the
  day it started, keeps the scheduled reports of a rule on distinct days, and adds scheduled reports
  only, of rules that were enabled for the day of the week, idle, and without a scheduled report of
  the day.
\<close>

theorem scheduled_once_per_day:
  assumes "daily_once cal db" "distinct (map or_id (od_rules (xd_offers db)))" "\<And>k. cl_day cal (fi_now fi k) = cl_day cal now"
  shows "daily_once cal (fire_for_tenant cal fi now slug db) \<and>
    (\<exists>new. xd_reports (fire_for_tenant cal fi now slug db) = xd_reports db @ new \<and>
       list_all (\<lambda>x. er_executionType x = Scheduled \<and> \<not> has_scheduled_report cal now (er_ruleId x) db \<and>
          (\<exists>r \<in> set (od_rules (xd_offers db)). or_id r = er_ruleId x \<and> or_scheduleEnabled r \<and> or_status r \<noteq> Running \<and>
             (\<exists>days. or_scheduledDays r = Some days \<and> cl_dow cal now \<in> set days))) new)"
proof -
  have due: "\<exists>r \<in> set (od_rules (xd_offers db)). or_id r = i \<and> or_scheduleEnabled r \<and> or_status r \<noteq> Running \<and>
      (\<exists>days. or_scheduledDays r = Some days \<and> cl_dow cal now \<in> set days) \<and> \<not> has_scheduled_report cal now i db"
    if "i \<in> set (due_rule_ids cal now db)" for i
  proof -
    from that obtain r where "r \<in> set (od_rules (xd_offers db))" "or_id r = i" "or_scheduleEnabled r" "or_status r \<noteq> Running"
      "case or_scheduledDays r of None \<Rightarrow> False | Some days \<Rightarrow> cl_dow cal now \<in> set days" "\<not> has_scheduled_report cal now (or_id r) db"
      unfolding due_rule_ids_def set_map set_sort set_filter by blast
    then show ?thesis by (intro bexI [of _ r]) (simp_all split: option.splits)
  qed
  have "distinct (map or_id (sort_key or_createdAt (filter P rs)))" if "distinct (map or_id rs)" for P rs
  proof -
    have "mset (map or_id (sort_key or_createdAt (filter P rs))) = mset (map or_id (filter P rs))" by simp
    then have "distinct (map or_id (sort_key or_createdAt (filter P rs))) = distinct (map or_id (filter P rs))"
      by (rule mset_eq_imp_distinct_iff)
    then show ?thesis using that by (simp add: distinct_map_filter)
  qed
  then have "distinct (due_rule_ids cal now db)" using assms(2) by (simp add: due_rule_ids_def)
  from execute_due_reports [OF this assms(3) _ assms(1), of slug 0] due
  obtain new where "daily_once cal (fire_for_tenant cal fi now slug db)"
    "xd_reports (fire_for_tenant cal fi now slug db) = xd_reports db @ new" "er_ruleId ` set new \<subseteq> set (due_rule_ids cal now db)"
    "list_all (\<lambda>r. er_executionType r = Scheduled) new"
    unfolding fire_for_tenant_def list_all_iff by blast
  moreover have "er_executionType x = Scheduled \<and> \<not> has_scheduled_report cal now (er_ruleId x) db \<and>
      (\<exists>r \<in> set (od_rules (xd_offers db)). or_id r = er_ruleId x \<and> or_scheduleEnabled r \<and> or_status r \<noteq> Running \<and>
         (\<exists>days. or_scheduledDays r = Some days \<and> cl_dow cal now \<in> set days))" if "x \<in> set new" for x
    using due [of "er_ruleId x"] that calculation(3,4) by (auto simp: list_all_iff)
  ultimately show ?thesis unfolding list_all_iff by blast
qed

text \<open>A rule that is due, whose target is a barcode the catalog does not have.\<close>

definition demo_calendar :: calendar where
  "demo_calendar = \<lparr>cl_hour = (\<lambda>_. 9), cl_dow = (\<lambda>_. 1), cl_day = (\<lambda>_. 0)\<rparr>"

definition demo_firing :: "string \<Rightarrow> firing" where
  "demo_firing i = \<lparr>fi_now = (\<lambda>_. 5), fi_reportId = (\<lambda>_. i), fi_itemIds = (\<lambda>_ _. i), fi_locked = (\<lambda>_. False), fi_fails = (\<lambda>_. False)\<rparr>"

definition demo_due :: exec_db where
  "demo_due = demo_exec\<lparr>xd_offers := demo_offer_db\<lparr>od_rules := [(running_rule ''x'' 0)\<lparr>or_status := Idle, or_activeReportId := None\<rparr>],
     od_products := [(''r1'', 999)]\<rparr>, xd_reports := [], xd_items := []\<rparr>"

lemma demo_compute:
  assumes "od_catalog db = od_catalog demo_offer_db" "od_classifications db = []" "od_products db = [(''r1'', 999)]" "or_id r = ''r1''"
    "or_classifications r = None" "od_productDeleted db = od_productDeleted demo_offer_db"
  shows "compute_for_rule slug r [] [] db = Inr []"
proof -
  have e: "ean_number ''789'' = 789" by code_simp
  have idx: "load_classification_index db = Inr (index_of [] Map.empty)"
    using assms(2) by (simp add: load_classification_index_def live_classifications_def build_classification_index_def)
  have t: "rule_target_of r db = \<lparr>tg_eans = Some [999], tg_classifications = None\<rparr>"
    using assms by (simp add: rule_target_of_def rule_eans_def)
  have "target_rows \<lparr>tg_eans = Some [999], tg_classifications = None\<rparr> (index_of [] Map.empty) db = []"
    using assms e by (simp add: target_rows_def target_products_def demo_offer_db_def)
  then have "collect_pages db \<lparr>tg_eans = Some [999], tg_classifications = None\<rparr> (index_of [] Map.empty) 1 [] = []"
    by (simp only: collect_pages_all)
  then show ?thesis unfolding compute_for_rule_def idx t Let_def bind_outcome_simps by simp
qed

text \<open>The request of a turn, for a rule that is not running.\<close>

lemma demo_execute:
  assumes "od_rules (xd_offers db) = [(running_rule ''x'' t)\<lparr>or_status := st, or_activeReportId := None\<rparr>]" "st \<noteq> Running"
    "xd_offers db = (xd_offers demo_due)\<lparr>od_rules := od_rules (xd_offers db)\<rparr>" "xd_items db = []"
  shows "\<exists>db' r. execute_rule 5 i (\<lambda>_. i) (\<lambda>_. False) ''acme'' ''r1'' Scheduled db = (db', Inr i) \<and>
    xd_offers db' = (xd_offers demo_due)\<lparr>od_rules := [(running_rule i 5)]\<rparr> \<and> xd_items db' = [] \<and>
    xd_reports db' = xd_reports db @ [r] \<and> er_id r = i \<and> er_ruleId r = ''r1'' \<and> er_executionType r = Scheduled \<and> \<not> er_deleted r \<and>
    er_offerBookInfoId r = 5 \<and> xd_faults db' = xd_faults db \<and> xd_others db' = xd_others db"
proof -
  let ?r = "(running_rule ''x'' t)\<lparr>or_status := st, or_activeReportId := None\<rparr>"
  let ?o = "(xd_offers demo_due)\<lparr>od_rules := [running_rule i 5]\<rparr>"
  have live: "live_rule ''r1'' (xd_offers db) = Some ?r" using assms(1) by (simp add: live_rule_def running_rule_def)
  have claim: "update_where (\<lambda>r. or_id r = or_id ?r) (\<lambda>r. r\<lparr>or_status := Running, or_activeReportId := Some i, or_updatedAt := 5\<rparr>)
      (od_rules (xd_offers db)) = [running_rule i 5]"
    using assms(1) by (simp add: update_where_def running_rule_def)
  have o: "xd_offers db = (xd_offers demo_due)\<lparr>od_rules := [?r]\<rparr>" using assms(1,3) by simp
  have valid: "campaign_valid 5 (or_offerBookInfoId ?r) (xd_offers db)"
    unfolding o by (simp add: campaign_valid_def demo_due_def demo_offer_db_def running_rule_def)
  have comp: "compute_for_rule ''acme'' ?r [] [] ?o = Inr []"
    by (rule demo_compute) (simp_all add: demo_due_def demo_offer_db_def running_rule_def)
  have tabs: "od_pricing (xd_offers db) = []" "od_locks (xd_offers db) = []"
    unfolding o by (simp_all add: demo_due_def demo_offer_db_def)
  have up: "(xd_offers db)\<lparr>od_rules := [running_rule i 5]\<rparr> = ?o" unfolding o by simp
  have "\<exists>db' r. new_execution 5 i (\<lambda>_. i) ''acme'' Scheduled ?r db = (db', Inr i) \<and> xd_offers db' = ?o \<and> xd_items db' = [] \<and>
      xd_reports db' = xd_reports db @ [r] \<and> er_id r = i \<and> er_ruleId r = ''r1'' \<and> er_executionType r = Scheduled \<and> \<not> er_deleted r \<and>
      er_offerBookInfoId r = 5 \<and> xd_faults db' = xd_faults db \<and> xd_others db' = xd_others db"
    unfolding new_execution_def Let_def claim up tabs filter.simps assert_campaign_is_executable_def if_P [OF valid] comp sum.case
    using assms(4) by (simp add: frozen_items_def enqueue_execution_def running_rule_def)
  then show ?thesis
    unfolding execute_rule_def live option.case using assms(2) by simp
qed

lemma demo_due_ids: "due_rule_ids demo_calendar 5 demo_due = [''r1'']"
  by (simp add: due_rule_ids_def demo_due_def demo_calendar_def running_rule_def has_scheduled_report_def)

theorem scheduled_once_per_day_witness:
  "daily_once demo_calendar (fire_for_tenant demo_calendar (demo_firing ''x1'') 5 ''acme'' demo_due) \<and>
     xd_reports (fire_for_tenant demo_calendar (demo_firing ''x1'') 5 ''acme'' demo_due) \<noteq> []"
proof -
  have e: "\<exists>db' r. execute_rule 5 ''x1'' (\<lambda>_. ''x1'') (\<lambda>_. False) ''acme'' ''r1'' Scheduled demo_due = (db', Inr ''x1'') \<and>
      xd_reports db' = xd_reports demo_due @ [r]"
    using demo_execute [of demo_due Idle 0 "''x1''"] by (auto simp: demo_due_def)
  then have "xd_reports (fire_for_tenant demo_calendar (demo_firing ''x1'') 5 ''acme'' demo_due) \<noteq> []"
    by (auto simp: fire_for_tenant_def demo_due_ids demo_firing_def)
  moreover have "daily_once demo_calendar demo_due" "distinct (map or_id (od_rules (xd_offers demo_due)))"
    by (simp_all add: daily_once_def demo_due_def)
  from scheduled_once_per_day [OF this, of "demo_firing ''x1''" 5 "''acme''"]
  have "daily_once demo_calendar (fire_for_tenant demo_calendar (demo_firing ''x1'') 5 ''acme'' demo_due)"
    by (simp add: demo_calendar_def)
  ultimately show ?thesis by blast
qed

lemma demo_empty_delivery:
  assumes "xd_offers db = (xd_offers demo_due)\<lparr>od_rules := [running_rule ''x1'' 5]\<rparr>" "xd_items db = []"
    and "xd_reports db = [r]" "er_id r = ''x1''" "er_ruleId r = ''r1''" "\<not> er_deleted r" "er_offerBookInfoId r = 5"
    and "xd_faults db = (\<lambda>_. False)" "xd_others db = (\<lambda>_ offers. offers)"
  shows "\<exists>db' r' t. run_execution 1 False ''acme'' ''x1'' db = (db', Inr (Some ())) \<and>
    xd_offers db' = (xd_offers demo_due)\<lparr>od_rules := [(running_rule ''x'' t)\<lparr>or_status := Succeeded, or_activeReportId := None\<rparr>]\<rparr> \<and>
    xd_items db' = [] \<and> xd_reports db' = [r'] \<and> er_ruleId r' = er_ruleId r \<and> er_executionType r' = er_executionType r \<and>
    er_outcome r' = Some NoChanges"
proof -
  have c: "od_campaigns (xd_offers demo_due) = od_campaigns demo_offer_db" "od_catalog (xd_offers demo_due) = od_catalog demo_offer_db"
    by (simp_all add: demo_due_def)
  show ?thesis
    using assms
    apply (simp add: c run_execution_def run_with_tenant_def bind_action_def [abs_def] ret_def [abs_def] find_owned_report_def owned_row_def
      running_rule_def begin_tx_def run_report_def finish_round_def chunk_of_def owned_tx_def touch_owner_def
      update_where_def items_by_status_def items_with_def ensure_campaign_allows_pending_def campaign_valid_def
      demo_offer_db_def push_report_def push_round_def finalize_owned_def ledger_count_def total_items_def
      close_report_row_def outcome_of_def rule_status_of_def Let_def)
    by (rule exI, rule refl)
qed

text \<open>
  The list of due rules is read in a transaction of its own. Two firings that overlap (two replicas of
  the API) both find the rule due; when the execution of the first has been delivered by the time the
  second comes to the rule, it is executed again on the same day.
\<close>

lemma overlapping_firings_execute_twice:
  "\<exists>db. due_rule_ids demo_calendar 5 demo_due = [''r1''] \<and>
     run_execution 1 False ''acme'' ''x1'' (execute_due (demo_firing ''x1'') ''acme'' 0 [''r1''] demo_due) = (db, Inr (Some ())) \<and>
     \<not> daily_once demo_calendar (execute_due (demo_firing ''x2'') ''acme'' 0 [''r1''] db)"
proof -
  obtain db1 r where e1: "execute_rule 5 ''x1'' (\<lambda>_. ''x1'') (\<lambda>_. False) ''acme'' ''r1'' Scheduled demo_due = (db1, Inr ''x1'')"
    and o1: "xd_offers db1 = (xd_offers demo_due)\<lparr>od_rules := [running_rule ''x1'' 5]\<rparr>" "xd_items db1 = []"
    and r1: "xd_reports db1 = [r]" "er_id r = ''x1''" "er_ruleId r = ''r1''" "er_executionType r = Scheduled" "\<not> er_deleted r"
      "er_offerBookInfoId r = 5"
    and f1: "xd_faults db1 = (\<lambda>_. False)" "xd_others db1 = (\<lambda>_ offers. offers)"
    using demo_execute [of demo_due Idle 0 "''x1''"] by (auto simp: demo_due_def demo_exec_def)
  from demo_empty_delivery [OF o1 r1(1-3,5,6) f1] r1(4) obtain db2 r2 t where d2: "run_execution 1 False ''acme'' ''x1'' db1 = (db2, Inr (Some ()))"
    and o2: "xd_offers db2 = (xd_offers demo_due)\<lparr>od_rules := [(running_rule ''x'' t)\<lparr>or_status := Succeeded, or_activeReportId := None\<rparr>]\<rparr>"
      "xd_items db2 = []" "xd_reports db2 = [r2]" "er_ruleId r2 = ''r1''" "er_executionType r2 = Scheduled"
    using r1(3) by metis
  have "od_rules (xd_offers db2) = [(running_rule ''x'' t)\<lparr>or_status := Succeeded, or_activeReportId := None\<rparr>]"
    "xd_offers db2 = (xd_offers demo_due)\<lparr>od_rules := od_rules (xd_offers db2)\<rparr>" by (simp_all add: o2)
  from demo_execute [OF this(1) _ this(2) o2(2), of "''x2''"]
  obtain db3 r3 where e3: "execute_rule 5 ''x2'' (\<lambda>_. ''x2'') (\<lambda>_. False) ''acme'' ''r1'' Scheduled db2 = (db3, Inr ''x2'')"
    "xd_reports db3 = [r2, r3]" "er_ruleId r3 = ''r1''" "er_executionType r3 = Scheduled"
    using o2(3) by auto
  have "\<not> daily_once demo_calendar db3"
    using e3 o2 by (simp add: daily_once_def demo_calendar_def)
  then show ?thesis
    using demo_due_ids d2 e1 e3(1) by (simp add: demo_firing_def)
qed

end
