(* ===== verification/Pricing_Suggestions.thy ===== *)
theory Pricing_Suggestions
  imports Pricing_Apply Price_Rounding
begin

text \<open>
  The suggestion listing, \<open>src/tenant-api/pricing/pricing-suggestions.service.ts\<close>: the products of
  the catalogue with the prices of a store or the global ones, the rules that take part, the
  suggestion of every product, the filters and pages of the listing, and the map of suggested prices
  that recalculates a schedule. The tables are those of the bulk application and of the rounding
  configuration; columns only the listing reads are functions of the ids. \<open>ILIKE\<close> is the pattern
  match of the database without regard to ASCII case, the collation of the locale is a key function,
  and the margin of a store is the exact quotient rounded to four digits.
\<close>

section \<open>Data\<close>

record suggestions_db =
  sg_apply :: apply_db
  sg_rounding :: rounding_db
  sg_deleted :: "string \<Rightarrow> bool"
  sg_margin :: "string \<Rightarrow> rat option"
  sg_averageVariation :: "string \<Rightarrow> rat option"
  sg_status :: "string \<Rightarrow> string option"
  sg_offerDescription :: "string \<Rightarrow> string \<Rightarrow> string option"
  sg_van :: "string \<Rightarrow> string \<Rightarrow> string option"

record competitor_view =
  vw_origin :: string
  vw_price :: "jsnum option"
  vw_isPbm :: bool
  vw_van :: "string option"

record response_product =
  rq_ean :: string
  rq_name :: string
  rq_supplier :: "string option"
  rq_classificationId :: "string option"
  rq_classification :: "string option"
  rq_book :: "string option"
  rq_cost :: "jsnum option"
  rq_priceForSell :: "jsnum option"
  rq_priceForOffer :: "jsnum option"
  rq_margin :: "jsnum option"
  rq_averageVariation :: "jsnum option"
  rq_status :: "string option"
  rq_competitors :: "competitor_view list"

record cluster_origin =
  cg_clusterId :: string
  cg_clusterName :: "string option"
  cg_overrodeRuleName :: "string option"

record computed_row =
  rw_product :: response_product
  rw_sp :: suggestion_product
  rw_result :: suggestion_result
  rw_origem :: "cluster_origin option"

record suggestions_query =
  qs_page :: "int option"
  qs_perPage :: "int option"
  qs_name :: "string option"
  qs_store :: "string option"
  qs_classification :: "string option"
  qs_books :: "string option"
  qs_onlyWithSuggestion :: "string option"
  qs_direction :: "string option"
  qs_origem :: "string option"

record suggestions_response =
  sr_rows :: "(response_product \<times> suggestion_result \<times> cluster_origin option) list"
  sr_count :: nat
  sr_suggestionCount :: nat
  sr_lockCount :: nat
  sr_activeRuleCount :: nat
  sr_availableBooks :: "string list"

record suggest_ctx =
  sx_activeRules :: "rule_api list"
  sx_clusterRules :: "suggestion_rule list"
  sx_classRules :: "suggestion_rule list"
  sx_membership :: "(string \<times> string list) list"
  sx_roundingRanges :: "price_rounding_range list"
  sx_index :: classification_index

section \<open>Products\<close>

text \<open>A column that contains the fragment; a missing value does not.\<close>

definition contains_ilike :: "string \<Rightarrow> string option \<Rightarrow> bool" where
  "contains_ilike fragment txt = (case txt of None \<Rightarrow> False | Some s \<Rightarrow> ilike s (''%'' @ fragment @ ''%''))"

text \<open>The row of the store, and the columns it overrides.\<close>

definition store_item_of :: "string option \<Rightarrow> product \<Rightarrow> catalog \<Rightarrow> product_item option" where
  "store_item_of storeUuid p c =
     (case given storeUuid of None \<Rightarrow> None
      | Some s \<Rightarrow> find (\<lambda>i. pi_productId i = pr_id p \<and> pi_storeId i = s) (ct_items c))"

definition effective_cost :: "product_item option \<Rightarrow> product \<Rightarrow> rat option" where
  "effective_cost si p = (case si of None \<Rightarrow> pr_cost p | Some i \<Rightarrow> or_else (pi_cost i) (pr_cost p))"

definition effective_price :: "product_item option \<Rightarrow> product \<Rightarrow> rat option" where
  "effective_price si p = (case si of None \<Rightarrow> pr_price p | Some i \<Rightarrow> or_else (pi_price i) (pr_price p))"

definition effective_offer :: "product_item option \<Rightarrow> offer option \<Rightarrow> rat option" where
  "effective_offer si ob =
     (case si of None \<Rightarrow> (case ob of None \<Rightarrow> None | Some o' \<Rightarrow> of_targetPrice o') | Some i \<Rightarrow> pi_priceOffer i)"

definition positive :: "rat option \<Rightarrow> bool" where
  "positive v = (case v of None \<Rightarrow> False | Some r \<Rightarrow> 0 < r)"

definition effective_margin :: "rat option \<Rightarrow> rat option \<Rightarrow> rat option \<Rightarrow> rat option" where
  "effective_margin offer price cost =
     (case (case offer of None \<Rightarrow> price | Some q \<Rightarrow> if q = 0 then price else Some q) of
        None \<Rightarrow> None
      | Some b \<Rightarrow> if 0 < b then Some (numeric_12_4 ((b - or_default cost 0) / b * 100)) else None)"

definition competitor_view_of :: "suggestions_db \<Rightarrow> string \<Rightarrow> string \<Rightarrow> competitor_view" where
  "competitor_view_of db ean origin =
     (case find (\<lambda>s. sh_ean s = ean \<and> sh_origin s = origin) (ap_shared (sg_apply db)) of
        None \<Rightarrow> \<lparr>vw_origin = origin, vw_price = None, vw_isPbm = False, vw_van = None\<rparr>
      | Some s \<Rightarrow> \<lparr>vw_origin = origin, vw_price = num (sh_price s), vw_isPbm = sh_isPbm s, vw_van = sg_van db ean origin\<rparr>)"

definition response_product_of :: "string list \<Rightarrow> string option \<Rightarrow> suggestions_db \<Rightarrow> product \<Rightarrow> response_product" where
  "response_product_of origins storeUuid db p =
     (let c = catalog_of (sg_apply db);
          si = store_item_of storeUuid p c;
          ob = find (\<lambda>o'. of_ean o' = pr_ean p) (ct_offers c);
          cost = effective_cost si p; price = effective_price si p; offer = effective_offer si ob
      in \<lparr>rq_ean = pr_ean p, rq_name = or_default (pr_name p) [], rq_supplier = pr_supplier p,
          rq_classificationId = pr_classificationId p,
          rq_classification = (case pr_classificationId p of None \<Rightarrow> None
            | Some k \<Rightarrow> map_option row_name (find (\<lambda>r. row_id r = k) (ap_classifications (sg_apply db)))),
          rq_book = (case si of None \<Rightarrow> (case ob of None \<Rightarrow> None | Some o' \<Rightarrow> of_description o')
            | Some i \<Rightarrow> sg_offerDescription db (pi_productId i) (pi_storeId i)),
          rq_cost = num cost, rq_priceForSell = num price, rq_priceForOffer = num offer,
          rq_margin = num (if given storeUuid = None then sg_margin db (pr_id p) else effective_margin offer price cost),
          rq_averageVariation = num (sg_averageVariation db (pr_id p)), rq_status = sg_status db (pr_id p),
          rq_competitors = map (competitor_view_of db (pr_ean p)) origins\<rparr>)"

text \<open>The rows of the query: products on sale that are not competitor-only, by barcode.\<close>

definition product_selected ::
  "string option \<Rightarrow> string option \<Rightarrow> string option \<Rightarrow> string list option \<Rightarrow> suggestions_db \<Rightarrow> product \<Rightarrow> bool" where
  "product_selected name classification storeUuid eans db p =
     (let c = catalog_of (sg_apply db);
          si = store_item_of storeUuid p c;
          ob = find (\<lambda>o'. of_ean o' = pr_ean p) (ct_offers c)
      in pr_active p \<and> \<not> sg_deleted db (pr_id p) \<and>
         (positive (effective_cost si p) \<or> positive (effective_price si p) \<or> positive (effective_offer si ob)) \<and>
         (case eans of None \<Rightarrow> True | Some es \<Rightarrow> es = [] \<or> nat_of_digits 10 (pr_ean p) \<in> set (map (nat_of_digits 10) es)) \<and>
         (case given name of None \<Rightarrow> True | Some n \<Rightarrow> contains_ilike n (pr_name p)) \<and>
         (case given classification of None \<Rightarrow> True
          | Some n \<Rightarrow> contains_ilike n (case pr_classificationId p of None \<Rightarrow> None
              | Some k \<Rightarrow> map_option row_name (find (\<lambda>r. row_id r = k) (ap_classifications (sg_apply db))))))"

definition load_products ::
  "string list \<Rightarrow> string option \<Rightarrow> string option \<Rightarrow> string option \<Rightarrow> string list option \<Rightarrow> suggestions_db \<Rightarrow> response_product list" where
  "load_products origins name classification storeUuid eans db =
     map (response_product_of origins storeUuid db)
       (sort_key (\<lambda>p. nat_of_digits 10 (pr_ean p))
         (filter (product_selected name classification storeUuid eans db) (ct_products (catalog_of (sg_apply db)))))"

definition money :: "jsnum option \<Rightarrow> jsnum" where
  "money v = or_default v (Num 0)"

definition product_of_response :: "response_product \<Rightarrow> suggestion_product" where
  "product_of_response p = \<lparr>
     sp_ean = rq_ean p, sp_classificationId = rq_classificationId p,
     sp_classificacao = or_default (rq_classification p) [], sp_custo = money (rq_cost p),
     sp_precoVenda = money (rq_priceForSell p), sp_precoOferta = money (rq_priceForOffer p),
     sp_competitorPrices = map_of (concat (map (\<lambda>c. case vw_price c of None \<Rightarrow> []
       | Some n \<Rightarrow> if js_lt (Num 0) n then [(vw_origin c, n)] else []) (rq_competitors p))),
     sp_pbm = list_ex vw_isPbm (rq_competitors p)\<rparr>"

section \<open>Rules that take part\<close>

text \<open>A store id of the query is numeric and names an active store of the tenant.\<close>

definition store_uuid :: "string \<Rightarrow> string option \<Rightarrow> catalog \<Rightarrow> string option outcome" where
  "store_uuid slug store c =
     (case given store of
        None \<Rightarrow> Inr None
      | Some s \<Rightarrow>
          if \<not> (1 \<le> length s \<and> length s \<le> 18 \<and> list_all is_digit s)
          then Inl (BadRequestException ''store must be a numeric store id'')
          else bind_outcome (resolve_tenant_id slug (ct_tenants c)) (\<lambda>tenantId.
            case find (\<lambda>t. st_tenantId t = tenantId \<and> st_externalId t = int (nat_of_digits 10 s) \<and> st_active t \<and> \<not> st_deleted t)
                   (ct_stores c) of
              None \<Rightarrow> Inl (BadRequestException (''store '' @ s @ '' unknown or inactive''))
            | Some t \<Rightarrow> Inr (Some (st_id t))))"

definition to_rounding_range :: "range_api \<Rightarrow> price_rounding_range" where
  "to_rounding_range r = \<lparr>price_min = Num (rp_priceMin r), price_max = Num (rp_priceMax r),
     range_rules = map (\<lambda>d. \<lparr>decimal_min = Num (bk_decimalMin d), decimal_max = Num (bk_decimalMax d), round_to = Num (bk_roundTo d)\<rparr>)
       (rp_rules r)\<rparr>"

definition rounding_ranges :: "string \<Rightarrow> suggestions_db \<Rightarrow> price_rounding_range list outcome" where
  "rounding_ranges slug db = bind_outcome (list_ranges slug (sg_rounding db)) (\<lambda>rs. Inr (map to_rounding_range rs))"

definition cascades :: "rule_api list \<Rightarrow> bool" where
  "cascades rs = list_ex (\<lambda>r. sr_competitorMode (ru_rule r) = Cascade \<and> sr_cascadeByPriority (ru_rule r)) rs"

definition uses_clusters :: "rule_api list \<Rightarrow> bool" where
  "uses_clusters rs = list_ex (\<lambda>r. truthy_string (sr_clusterId (ru_rule r)) \<or> sr_excludeClusterIds (ru_rule r) \<noteq> []) rs"

definition prioritised :: "string \<Rightarrow> rules_db \<Rightarrow> rule_api list \<Rightarrow> rule_api list outcome" where
  "prioritised slug db rs =
     (if cascades rs then bind_outcome (origin_priorities slug db) (\<lambda>ps. Inr (apply_cascade_priority rs ps)) else Inr rs)"

definition rule_context :: "string \<Rightarrow> rule_api list option \<Rightarrow> string option \<Rightarrow> suggestions_db \<Rightarrow> suggest_ctx outcome" where
  "rule_context slug overrideRules storeUuid db =
     (let rdb = rules_of (sg_apply db) in
      bind_outcome (prioritised slug rdb
        (filter (\<lambda>r. sr_active (ru_rule r) \<and> rule_participates r storeUuid) (or_default overrideRules (list_rules rdb)))) (\<lambda>active.
      bind_outcome (if list_ex (\<lambda>r. sr_applyRounding (ru_rule r)) active then rounding_ranges slug db else Inr []) (\<lambda>ranges.
      bind_outcome (classification_index_of (ap_classifications (sg_apply db))) (\<lambda>ix.
        Inr \<lparr>sx_activeRules = active,
             sx_clusterRules = filter (\<lambda>r. truthy_string (sr_clusterId r)) (map ru_rule active),
             sx_classRules = filter (\<lambda>r. \<not> truthy_string (sr_clusterId r)) (map ru_rule active),
             sx_membership = (if uses_clusters active then load_active_cluster_membership rdb else []),
             sx_roundingRanges = ranges, sx_index = ix\<rparr>))))"

section \<open>The suggestion of a product\<close>

definition winner_of :: "suggest_ctx \<Rightarrow> suggestion_product \<Rightarrow> suggestion_rule option \<times> suggestion_rule option" where
  "winner_of ctx sp =
     (let clusterIds = or_default (map_of (sx_membership ctx) (sp_ean sp)) [] in
      resolve_winner
        (if clusterIds \<noteq> [] then find_cluster_rule_for_product (sx_clusterRules ctx) clusterIds else None)
        (find_rule_for_product sp (sx_classRules ctx) clusterIds (Some (sx_index ctx))))"

definition compute_row :: "suggest_ctx \<Rightarrow> response_product \<Rightarrow> computed_row" where
  "compute_row ctx product =
     (let sp = product_of_response product in
      (case winner_of ctx sp of (winner, overrode) \<Rightarrow>
        \<lparr>rw_product = product, rw_sp = sp,
         rw_result = (case winner of
             Some w \<Rightarrow> compute_suggestion sp w (if sr_applyRounding w then sx_roundingRanges ctx else [])
           | None \<Rightarrow> NoSuggestion SemRegra None),
         rw_origem = (case winner of None \<Rightarrow> None
           | Some w \<Rightarrow> map_option (\<lambda>k. \<lparr>cg_clusterId = k, cg_clusterName = sr_clusterName w,
                                         cg_overrodeRuleName = map_option sr_name overrode\<rparr>) (given (sr_clusterId w)))\<rparr>))"

definition is_suggestion :: "suggestion_result \<Rightarrow> bool" where
  "is_suggestion r = (case r of Suggestion _ \<Rightarrow> True | NoSuggestion _ _ \<Rightarrow> False)"

definition result_had_rule :: "suggestion_result \<Rightarrow> bool" where
  "result_had_rule r = (case r of Suggestion _ \<Rightarrow> True | NoSuggestion reason _ \<Rightarrow> reason \<noteq> SemRegra)"

section \<open>The listing\<close>

definition book_of :: "response_product \<Rightarrow> string" where
  "book_of p = js_trim (or_default (rq_book p) [])"

definition available_books :: "(string \<Rightarrow> string) \<Rightarrow> response_product list \<Rightarrow> string list" where
  "available_books collate rows = sort_key collate (dedup (filter (\<lambda>b. b \<noteq> []) (map book_of rows)))"

definition asked_books :: "suggestions_query \<Rightarrow> string list" where
  "asked_books q = filter (\<lambda>b. b \<noteq> []) (map js_trim (split_on '','' (or_default (qs_books q) [])))"

definition keeps_row :: "suggestions_query \<Rightarrow> computed_row \<Rightarrow> bool" where
  "keeps_row q r =
     (let direction = or_default (qs_direction q) ''todas''; origem = or_default (qs_origem q) ''todas'' in
      (qs_onlyWithSuggestion q = Some ''true'' \<longrightarrow> is_suggestion (rw_result r)) \<and>
      (if origem = ''cluster'' then rw_origem r \<noteq> None
       else if origem = ''classificacao'' then rw_origem r = None \<and> result_had_rule (rw_result r) else True) \<and>
      (if direction = ''subir'' \<or> direction = ''abaixar'' then
         (case suggestion_delta (rw_sp r) (rw_result r) of None \<Rightarrow> False
          | Some delta \<Rightarrow> if direction = ''subir'' then js_lt (Num 0) delta else js_lt delta (Num 0))
       else True))"

definition listing ::
  "(string \<Rightarrow> string) \<Rightarrow> string \<Rightarrow> suggestions_query \<Rightarrow> rule_api list option \<Rightarrow> suggestions_db
   \<Rightarrow> (computed_row list \<times> nat \<times> string list) outcome" where
  "listing collate slug q overrideRules db =
     bind_outcome (store_uuid slug (qs_store q) (catalog_of (sg_apply db))) (\<lambda>storeUuid.
     bind_outcome (enabled_origins slug (rules_of (sg_apply db))) (\<lambda>origins.
       let allRows = load_products origins (qs_name q) (qs_classification q) storeUuid None db;
           books = asked_books q;
           productRows = (if books \<noteq> [] then filter (\<lambda>p. book_of p \<in> set books) allRows else allRows)
       in bind_outcome (rule_context slug overrideRules storeUuid db) (\<lambda>ctx.
         Inr (filter (keeps_row q) (map (compute_row ctx) productRows), length (sx_activeRules ctx), available_books collate allRows))))"

definition suggestions ::
  "(string \<Rightarrow> string) \<Rightarrow> string \<Rightarrow> suggestions_query \<Rightarrow> rule_api list option \<Rightarrow> suggestions_db \<Rightarrow> suggestions_response outcome" where
  "suggestions collate slug q overrideRules db =
     bind_outcome (listing collate slug q overrideRules db) (\<lambda>(filtered, activeRuleCount, books).
       let page = max 1 (or_default (qs_page q) 1);
           perPage = min 1000 (max 1 (or_default (qs_perPage q) 50));
           start = nat ((page - 1) * perPage)
       in Inr \<lparr>sr_rows = map (\<lambda>r. (rw_product r, rw_result r, rw_origem r)) (take (nat perPage) (drop start filtered)),
               sr_count = length filtered,
               sr_suggestionCount = length (filter (\<lambda>r. is_suggestion (rw_result r)) filtered),
               sr_lockCount = length (filter (\<lambda>r. case rw_result r of Suggestion s \<Rightarrow> ps_lockApplied s | NoSuggestion _ _ \<Rightarrow> False) filtered),
               sr_activeRuleCount = activeRuleCount, sr_availableBooks = books\<rparr>)"

definition preview :: "(string \<Rightarrow> string) \<Rightarrow> string \<Rightarrow> rule_dto \<Rightarrow> suggestions_query \<Rightarrow> suggestions_db \<Rightarrow> suggestions_response outcome" where
  "preview collate slug dto q db = bind_outcome (build_transient dto) (\<lambda>r. suggestions collate slug q (Some [r]) db)"

text \<open>The suggested prices by barcode, over the given products or the whole catalogue.\<close>

definition price_map ::
  "string \<Rightarrow> string option \<Rightarrow> string list option \<Rightarrow> suggestions_db \<Rightarrow> (string \<times> suggestion_target \<times> jsnum) list outcome" where
  "price_map slug storeUuid eans db =
     bind_outcome (enabled_origins slug (rules_of (sg_apply db))) (\<lambda>origins.
     bind_outcome (rule_context slug None storeUuid db) (\<lambda>ctx.
       Inr (map_of_entries (concat (map (\<lambda>p. case rw_result (compute_row ctx p) of
           Suggestion s \<Rightarrow> [(rq_ean p, ps_target s, ps_price s)] | NoSuggestion _ _ \<Rightarrow> [])
         (load_products origins None None storeUuid eans db))))))"

end
