(* ===== verification/Suggestion_Guard.thy ===== *)
theory Suggestion_Guard
  imports Pricing_Suggestions
begin

text \<open>
  How the listing and the bulk application fit together: the price the engine suggests, rounded to
  cents in binary64 and compared with the floor in binary64 again, passes the guard rails the
  application puts in front of the ERP, and the application finds the same governing rule.
\<close>

section \<open>Two decimals and half a cent never fall short of the floor\<close>

lemma ulp_mono: "0 < a \<Longrightarrow> a \<le> b \<Longrightarrow> ulp a \<le> ulp b"
  using binade_mono [of a b] by (auto simp: ulp_def intro!: power_int_increasing)

lemma rne_ge: "of_int n - 1/2 < q \<Longrightarrow> n \<le> rne q"
proof -
  assume q: "of_int n - 1/2 < q"
  have "q - 1/2 \<le> of_int (rne q)" using rne_error [of q] unfolding abs_le_iff by linarith
  then have "(of_int n - 1 :: rat) < of_int (rne q)" using q by linarith
  then have "n - 1 < rne q" by linarith
  then show ?thesis by simp
qed

text \<open>A number within half a unit in the last place below a double rounds to that double or above.\<close>

lemma rd_reaches:
  assumes y: "0 < y" and f: "f = round_double z" and near: "f - ulp y / 2 < y"
  shows "f \<le> round_double y"
proof (cases "z \<le> y")
  case True
  then show ?thesis unfolding f by (rule round_double_mono)
next
  case False
  define ey ez where "ey = max (binade y - 52) (-1074)" and "ez = max (binade z - 52) (-1074)"
  have le: "ey \<le> ez" using binade_mono [of y z] y False unfolding ey_def ez_def by linarith
  have u: "ulp y = 2 powi ey" "ulp z = 2 powi ez" using y False by (simp_all add: ulp_def ey_def ez_def)
  have "(2::rat) powi ez = 2 powi (ez - ey) * 2 powi ey" by (simp flip: power_int_add)
  also have "(2::rat) powi (ez - ey) = of_int (2 ^ nat (ez - ey))" using le by (simp add: power_int_def)
  finally have uz: "ulp z = of_int (2 ^ nat (ez - ey)) * ulp y" by (simp only: u)
  define n where "n = rne (z / ulp z) * 2 ^ nat (ez - ey)"
  have fn: "f = of_int n * ulp y" using y False uz by (simp add: f round_double_def n_def)
  have "of_int n - 1/2 < y / ulp y"
    using near by (simp add: fn pos_less_divide_eq left_diff_distrib)
  then have "n \<le> rne (y / ulp y)" by (rule rne_ge)
  then show ?thesis using y by (simp add: fn round_double_def mult_right_mono less_imp_le)
qed

lemma rd_double: "f = round_double z \<Longrightarrow> 0 < f \<Longrightarrow> f \<le> y \<Longrightarrow> f \<le> round_double y"
  using rd_reaches [of f f z] round_double_mono [of f y] by simp

lemma rd_half:
  assumes "0 \<le> k" "k \<le> 10 ^ 9"
  shows "round_double (of_int k + 1/2) = of_int k + 1/2"
proof -
  define y :: rat where "y = of_int k + 1/2"
  define e where "e = max (binade y - 52) (-1074)"
  have y: "0 < y" using assms by (simp add: y_def add_nonneg_pos)
  have "2 powi binade y \<le> y" using binade_bounds [OF y] by blast
  moreover have "y < 2 powi 40"
  proof -
    have "(of_int k :: rat) \<le> of_int (10 ^ 9)" using assms by (simp only: of_int_le_iff)
    then show ?thesis by (simp add: y_def power_int_def)
  qed
  ultimately have "(2::rat) powi binade y < 2 powi 40" by linarith
  then have "binade y < 40" using power_int_increasing [of 40 "binade y" "2::rat"] by (cases "binade y < 40") auto
  then have e: "e \<le> -1" by (simp add: e_def)
  have u: "ulp y = 2 powi e" using y by (simp add: ulp_def e_def)
  have "(2::rat) powi (- e - 1 + 1) = 2 powi (- e - 1) * 2 powi 1" by (rule power_int_add) simp
  then have "(2::rat) powi (- e) = 2 powi (- e - 1) * 2" by simp
  also have "(2::rat) powi (- e - 1) = of_int (2 ^ nat (- e - 1))" using e by (simp add: power_int_def)
  finally have "y * 2 powi (- e) = of_int ((2 * k + 1) * 2 ^ nat (- e - 1))" by (simp add: y_def algebra_simps)
  moreover have "y / ulp y = y * 2 powi (- e)" by (simp add: u power_int_minus divide_inverse)
  ultimately have q: "y / ulp y = of_int ((2 * k + 1) * 2 ^ nat (- e - 1))" by simp
  then have "round_double y = (y / ulp y) * ulp y" using y by (simp only: round_double_def rne_of_int) simp
  then show ?thesis by (simp add: y_def)
qed

definition cents :: "rat \<Rightarrow> int" where
  "cents x = \<lfloor>round_double (x * 100) + 1/2\<rfloor>"

lemma cents_above:
  assumes "0 \<le> x" "x \<le> 10 ^ 6"
  shows "0 \<le> cents x" "cents x \<le> 10 ^ 9" "x < of_int (cents x) / 100 + 1/200"
proof -
  have "0 \<le> round_double (x * 100)" using assms(1) by (simp add: round_double_nonneg)
  then show n: "0 \<le> cents x" by (simp add: cents_def)
  have "round_double (x * 100) \<le> of_int (10 ^ 8)"
    using assms by (intro dbl.rd_le_of_int) simp_all
  then have "cents x \<le> 10 ^ 8 + 1" unfolding cents_def by linarith
  then show b: "cents x \<le> 10 ^ 9" by simp
  show "x < of_int (cents x) / 100 + 1/200"
  proof (rule ccontr)
    assume "\<not> x < of_int (cents x) / 100 + 1/200"
    then have "of_int (cents x) + 1/2 \<le> x * 100" by simp
    then have "round_double (of_int (cents x) + 1/2) \<le> round_double (x * 100)" by (rule round_double_mono)
    then have "of_int (cents x) + 1/2 \<le> round_double (x * 100)" using rd_half [OF n b] by simp
    then show False unfolding cents_def by linarith
  qed
qed

lemma epsilon_half_cent: "5 / 1000 \<le> epsilon_value"
proof -
  have "5 / 1000 \<le> round_double (5 / 1000)" by code_simp
  then show ?thesis by (simp add: epsilon_value_def)
qed

lemma cents_cover:
  assumes x: "0 \<le> x" "x \<le> 10 ^ 6" and f: "f = round_double z" "0 < f" "f \<le> x"
  shows "f \<le> round_double (round_double (of_int (cents x) / 100) + epsilon_value)"
    and "f \<le> of_int \<lfloor>round_double (of_int (cents x) / 100)\<rfloor> + 1"
proof -
  note c = cents_above [OF x]
  define r where "r = round_double (of_int (cents x) / 100)"
  define y where "y = r + epsilon_value"
  have "(of_int (cents x) :: rat) \<le> of_int (10 ^ 9)" using c(2) by (simp only: of_int_le_iff)
  then have "of_int (cents x) / 100 \<le> (100000000 :: rat)" by simp
  moreover have "(- 100000000 :: rat) \<le> of_int (cents x) / 100" using c(1) by (simp add: order_trans [of _ 0])
  ultimately have r1: "of_int (cents x) / 100 - 1 / 10000000 \<le> r" using small_rat(3) [of "of_int (cents x) / 100"] by (simp add: r_def)
  have r0: "0 \<le> r" using c(1) by (simp add: r_def round_double_nonneg)
  have y: "0 < y" using r0 epsilon_half_cent by (simp add: y_def)
  have "f - ulp y / 2 < y"
  proof (cases "cents x = 0")
    case True
    then have "f < 1/200" using c(3) f(3) by simp
    moreover have "1/200 \<le> y" using r0 epsilon_half_cent by (simp add: y_def)
    moreover have "0 < ulp y" by simp
    ultimately show ?thesis by linarith
  next
    case False
    then have p: "0 < (of_int (cents x) / 100 :: rat)" using c(1) by simp
    have "of_int (cents x) / 100 \<le> y" using r1 epsilon_half_cent by (simp add: y_def)
    then have "ulp (of_int (cents x) / 100) \<le> ulp y" using p by (intro ulp_mono)
    moreover have "of_int (cents x) / 100 - ulp (of_int (cents x) / 100) / 2 \<le> r"
      using round_double_ulp_error [of "of_int (cents x) / 100"] unfolding r_def abs_le_iff by linarith
    ultimately have "of_int (cents x) / 100 - ulp y / 2 \<le> r" by linarith
    then show ?thesis using c(3) f(3) epsilon_half_cent unfolding y_def by linarith
  qed
  then show "f \<le> round_double (round_double (of_int (cents x) / 100) + epsilon_value)"
    using rd_reaches [OF y f(1)] by (simp add: y_def r_def)
  define j where "j = cents x div 100"
  have j: "100 * j \<le> cents x" "cents x < 100 * j + 100" "0 \<le> j" "j \<le> 10 ^ 9" using c(1,2) by (simp_all add: j_def)
  have "of_int (100 * j) \<le> (of_int (cents x) :: rat)" using j(1) by (simp only: of_int_le_iff)
  then have "of_int j \<le> (of_int (cents x) / 100 :: rat)" by simp
  then have "of_int j \<le> r" unfolding r_def using j by (intro dbl.rd_ge_of_int) simp_all
  then have "j \<le> \<lfloor>r\<rfloor>" by (simp add: le_floor_iff)
  moreover have "(of_int (cents x + 1) :: rat) \<le> of_int (100 * j + 100)" using j(2) by (simp only: of_int_le_iff)
  then have "f < of_int j + 1" using c(3) f(3) by simp
  ultimately show "f \<le> of_int \<lfloor>round_double (of_int (cents x) / 100)\<rfloor> + 1" unfolding r_def by linarith
qed

section \<open>The same for the numbers of the engine\<close>

text \<open>What a price must satisfy to clear a floor: with half a cent it reaches it, its next integer passes it.\<close>

definition clears :: "rat \<Rightarrow> jsnum \<Rightarrow> bool" where
  "clears f p = (case p of Num q \<Rightarrow> f \<le> of_int \<lfloor>q\<rfloor> + 1 \<and> js_le (Num f) (js_add (Num q) PRICE_EPSILON)
     | PosInf \<Rightarrow> True | _ \<Rightarrow> False)"

lemma add_epsilon_mono: "p \<le> q \<Longrightarrow> js_le (js_add (Num p) PRICE_EPSILON) (js_add (Num q) PRICE_EPSILON)"
  by (simp add: epsilon(1) js_of_rat_mono)

lemma clears_mono: "clears f (Num p) \<Longrightarrow> p \<le> q \<Longrightarrow> clears f (Num q)"
  using js_le_trans [OF _ add_epsilon_mono [of p q], of "Num f"] floor_mono [of p q]
  by (auto simp: clears_def simp del: js_add.simps)

lemma clears_above:
  assumes "f = round_double z" "0 < f" "f \<le> q" "f \<le> 10 ^ 6"
  shows "clears f (Num q)"
proof -
  have "f \<le> f + epsilon_value" using epsilon(3) by simp
  then have "f \<le> round_double (f + epsilon_value)" by (rule rd_double [OF assms(1,2)])
  moreover have "js_of_rat (f + epsilon_value) = Num (round_double (f + epsilon_value))"
    using assms epsilon(2,3) by (intro small_rat(1)) simp_all
  ultimately have "js_le (Num f) (js_add (Num f) PRICE_EPSILON)" by (simp add: epsilon(1))
  then have "clears f (Num f)" by (simp add: clears_def) linarith
  then show ?thesis using assms(3) by (rule clears_mono)
qed

lemma round2_clears:
  assumes f: "f = round_double z" "0 < f" "f \<le> 10 ^ 6 - 1" and t: "js_le (Num f) t"
  shows "clears f (round2 t)"
proof (cases t)
  case (Num x)
  define x' where "x' = min x (10 ^ 6)"
  have x': "0 \<le> x'" "x' \<le> 10 ^ 6" "f \<le> x'" "x' \<le> x" using t Num f by (auto simp: x'_def)
  define p where "p = round_double (of_int (cents x') / 100)"
  have p: "round2 (Num x') = Num p" using x' round2_Num [of x'] by (simp add: p_def cents_def)
  note c = cents_cover [OF x'(1,2) f(1,2) x'(3), folded p_def]
  have "\<bar>x'\<bar> \<le> 10 ^ 6" using x'(1,2) by simp
  from round2_error [OF this] p have "\<bar>p - x'\<bar> \<le> 1/200 + 2 / 10 ^ 7" by simp
  then have "p \<le> x' + 1" unfolding abs_le_iff powers_of_ten by linarith
  moreover have "0 \<le> p" using cents_above(1) [OF x'(1,2)] by (simp add: p_def round_double_nonneg)
  ultimately have b: "0 \<le> p" "p \<le> 10000001" using x'(2) unfolding powers_of_ten by linarith+
  have "js_of_rat (p + epsilon_value) = Num (round_double (p + epsilon_value))"
    using b epsilon(2,3) by (intro small_rat(1)) simp_all
  then have cl: "clears f (Num p)" using c by (simp add: clears_def epsilon(1))
  have "js_le (round2 (Num x')) (round2 (Num x))" using x'(4) by (rule round2_mono)
  then have le: "js_le (Num p) (round2 t)" using p Num by simp
  show ?thesis
  proof (cases "round2 t")
    case (Num q)
    then show ?thesis using le clears_mono [OF cl] by simp
  qed (use le in \<open>simp_all add: clears_def\<close>)
next
  case PosInf
  then show ?thesis by (simp add: round2_def js_inf_of_sign_def clears_def)
qed (use t in simp_all)

lemma rounding_clears:
  assumes f: "f = round_double z" "0 < f" "f \<le> 10 ^ 6 - 1" and p: "clears f (Num p)"
    and buckets: "nonneg_buckets ranges" and q: "apply_price_rounding (Num p) ranges (Some (Num f)) = Num q"
  shows "clears f (Num q)"
proof (cases "find (\<lambda>r. js_le (price_min r) (Num p) \<and> js_le (Num p) (price_max r)) ranges")
  case None
  with q p show ?thesis by (simp add: apply_price_rounding_def)
next
  case (Some g)
  define i where "i = js_floor (Num p)"
  define d where "d = round2 (js_sub (Num p) i)"
  have g: "g \<in> set ranges" using Some by (auto simp: find_Some_iff)
  show ?thesis
  proof (cases "find (\<lambda>r. js_le (decimal_min r) d \<and> js_le d (decimal_max r)) (range_rules g)")
    case None
    with Some q p show ?thesis by (simp add: apply_price_rounding_def i_def d_def Let_def)
  next
    case b: (Some b)
    then have "b \<in> set (range_rules g)" by (auto simp: find_Some_iff)
    with buckets g have "case round_to b of Num r \<Rightarrow> 0 \<le> r | _ \<Rightarrow> False"
      by (auto simp: nonneg_buckets_def list_all_iff)
    then obtain r where r: "round_to b = Num r" "0 \<le> r" by (cases "round_to b") auto
    have "(if js_lt (round2 (js_add i (round_to b))) (Num f)
        then round2 (js_add (js_add i (Num 1)) (round_to b)) else round2 (js_add i (round_to b))) = Num q"
      using q Some b unfolding apply_price_rounding_def i_def [symmetric] d_def [symmetric]
      by (simp add: Let_def d_def [symmetric])
    note q' = this [unfolded r(1)]
    have "f \<le> q"
    proof (cases "js_lt (round2 (js_add i (Num r))) (Num f)")
      case False
      then show ?thesis using q' by simp
    next
      case True
      define k where "k = min (\<lfloor>p\<rfloor> + 1) (10 ^ 6)"
      have fk: "f \<le> of_int k"
      proof -
        have "f \<le> of_int (\<lfloor>p\<rfloor> + 1)" "f \<le> of_int (10 ^ 6)" using p f(3) by (simp_all add: clears_def)
        then show ?thesis unfolding k_def by (simp add: min_def)
      qed
      then have "0 < (of_int k :: rat)" using f(2) by linarith
      then have k: "\<bar>k\<bar> \<le> 10 ^ 6" by (simp add: k_def)
      have "(of_int k :: rat) \<le> of_int (\<lfloor>p\<rfloor> + 1)" by (simp add: k_def)
      then have "js_le (Num (of_int k)) (js_add i (Num 1))" using k by (simp add: i_def js_of_rat_ge_of_int)
      then have "js_le (Num (of_int k)) (round2 (js_add (js_add i (Num 1)) (Num r)))"
        using round2_ge_of_int [OF js_add_nonneg_ge [OF _ k r(2)] k] by blast
      then show ?thesis using q' True fk by simp
    qed
    then show ?thesis using f by (intro clears_above [of f z]) simp_all
  qed
qed

text \<open>The price of a suggestion, over a positive floor of at most a million.\<close>

lemma suggestion_clears:
  assumes s: "compute_suggestion product rule ranges = Suggestion s"
    and f: "price_for_margin (sp_custo product) (to_finite_number (sr_minMargin rule) (Num 0)) = Num f"
      "f = round_double z" "0 < f" "f \<le> 10 ^ 6 - 1" and "nonneg_buckets ranges"
  shows "\<exists>q. ps_price s = Num q \<and> 0 < q \<and> js_le (Num f) (js_add (Num q) PRICE_EPSILON)"
proof -
  from compute_suggestion_inv [OF s] obtain t bs lck compo where
    t: "aim product rule = Inr (t, bs, lck, compo)"
    and ps: "ps_price s = (if sr_applyRounding rule
        then apply_price_rounding (round2 t) ranges (Some (Num f)) else round2 t)"
    and fin: "js_is_finite (ps_price s)" "\<not> js_le (ps_price s) (Num 0)"
    unfolding f(1) by metis
  obtain q where q: "ps_price s = Num q" "0 < q" using fin by (auto simp: js_is_finite_iff)
  have tn: "js_le (Num f) t"
  proof (rule ccontr)
    assume "\<not> js_le (Num f) t"
    then have "t = NaN" using aim_ge_floor [OF t f(1)] by blast
    then have "round2 t = NaN" by (simp add: round2_def)
    then have "ps_price s = NaN"
      using ps by (auto simp: apply_price_rounding_def js_le_def split: option.splits dest: find_Some_iff [THEN iffD1])
    with q show False by simp
  qed
  have cl: "clears f (round2 t)" using round2_clears [OF f(2-4) tn] .
  have "clears f (Num q)"
  proof (cases "round2 t")
    case (Num p)
    then show ?thesis
      using cl ps q(1) rounding_clears [OF f(2-4) _ assms(6), of p q] by (cases "sr_applyRounding rule") simp_all
  next
    case PosInf
    have "apply_price_rounding PosInf ranges (Some (Num f)) \<noteq> Num q"
    proof
      assume "apply_price_rounding PosInf ranges (Some (Num f)) = Num q"
      then show False
        by (auto simp: apply_price_rounding_def Let_def round2_def js_sub_def js_inf_of_sign_def
            js_le_def split: option.splits if_splits dest!: find_Some_iff [THEN iffD1])
    qed
    then show ?thesis using ps q(1) PosInf by (simp split: if_splits)
  qed (use cl in \<open>simp_all add: clears_def\<close>)
  with q show ?thesis by (auto simp: clears_def)
qed

section \<open>Both sides find the same rule\<close>

lemma active_rules_prioritised:
  "active_rules slug db = prioritised slug db (filter (\<lambda>r. sr_active (ru_rule r)) (list_rules db))"
  by (simp add: active_rules_def prioritised_def cascades_def Let_def)

text \<open>The priority of a cascade changes the order of its competitors only.\<close>

definition with_priority :: "(string \<times> int) list \<Rightarrow> rule_api \<Rightarrow> rule_api" where
  "with_priority ps r = hd (apply_cascade_priority [r] ps)"

lemma apply_cascade_map: "apply_cascade_priority rs ps = map (with_priority ps) rs"
  by (simp add: apply_cascade_priority_def with_priority_def)

lemma with_priority_simps [simp]:
  "ru_storeIds (with_priority ps r) = ru_storeIds r"
  "sr_clusterId (ru_rule (with_priority ps r)) = sr_clusterId (ru_rule r)"
  "sr_excludeClusterIds (ru_rule (with_priority ps r)) = sr_excludeClusterIds (ru_rule r)"
  "sr_minMargin (ru_rule (with_priority ps r)) = sr_minMargin (ru_rule r)"
  "rule_participates (with_priority ps r) s = rule_participates r s"
  by (simp_all add: with_priority_def apply_cascade_priority_def rule_participates_def split: option.splits)

lemma with_priority_other:
  "\<not> (sr_competitorMode (ru_rule r) = Cascade \<and> sr_cascadeByPriority (ru_rule r)) \<Longrightarrow> with_priority ps r = r"
  by (simp add: with_priority_def apply_cascade_priority_def)

lemma prioritised_filter:
  assumes "prioritised slug db rs = Inr all" "prioritised slug db (filter (\<lambda>r. rule_participates r s) rs) = Inr part"
  shows "part = filter (\<lambda>r. rule_participates r s) all"
proof (cases "cascades rs")
  case True
  then obtain ps where ps: "origin_priorities slug db = Inr ps" "all = map (with_priority ps) rs"
    using assms(1) by (auto simp: prioritised_def bind_outcome_Inr_iff apply_cascade_map)
  have f: "filter (\<lambda>r. rule_participates r s) all = map (with_priority ps) (filter (\<lambda>r. rule_participates r s) rs)"
    by (simp add: ps(2) filter_map comp_def)
  show ?thesis
  proof (cases "cascades (filter (\<lambda>r. rule_participates r s) rs)")
    case True
    then show ?thesis using assms(2) ps(1) f by (simp add: prioritised_def apply_cascade_map)
  next
    case False
    then have "map (with_priority ps) (filter (\<lambda>r. rule_participates r s) rs) = filter (\<lambda>r. rule_participates r s) rs"
      by (intro map_idI with_priority_other) (auto simp: cascades_def list_ex_iff)
    then show ?thesis using assms(2) f False by (simp add: prioritised_def)
  qed
next
  case False
  then have "\<not> cascades (filter (\<lambda>r. rule_participates r s) rs)" by (auto simp: cascades_def list_ex_iff)
  then show ?thesis using assms False by (simp add: prioritised_def)
qed

lemma find_rule_cong:
  assumes "sp_classificationId sp = sp_classificationId sp'"
    and "\<And>r. r \<in> set rules \<Longrightarrow> sr_excludeClusterIds r \<noteq> [] \<Longrightarrow> ks = ks'"
  shows "find_rule_for_product sp rules ks ix = find_rule_for_product sp' rules ks' ix"
proof -
  have "match_specificity sp ix = match_specificity sp' ix"
    by (intro ext) (simp only: match_specificity_def assms(1))
  then have "foldl (find_rule_step sp ks ix) a rules = foldl (find_rule_step sp' ks' ix) a rules" for a
    using assms(2) by (intro foldl_cong) (auto simp: find_rule_step_def is_excluded_def)
  then show ?thesis by (simp add: find_rule_for_product_def)
qed

lemma rule_context_active:
  assumes "rule_context slug None storeUuid db = Inr ctx" "active_rules slug (rules_of (sg_apply db)) = Inr all"
  shows "sx_activeRules ctx = filter (\<lambda>r. rule_participates r storeUuid) all"
proof -
  have "prioritised slug (rules_of (sg_apply db)) (filter (\<lambda>r. rule_participates r storeUuid)
      (filter (\<lambda>r. sr_active (ru_rule r)) (list_rules (rules_of (sg_apply db))))) = Inr (sx_activeRules ctx)"
    using assms(1) unfolding filter_filter by (auto simp: rule_context_def Let_def or_default_def bind_outcome_Inr_iff)
  then show ?thesis by (rule prioritised_filter [OF assms(2) [unfolded active_rules_prioritised]])
qed

lemma rule_context_fields:
  assumes "rule_context slug overrides storeUuid db = Inr ctx"
  shows "sx_clusterRules ctx = filter (\<lambda>r. truthy_string (sr_clusterId r)) (map ru_rule (sx_activeRules ctx))"
    and "sx_classRules ctx = filter (\<lambda>r. \<not> truthy_string (sr_clusterId r)) (map ru_rule (sx_activeRules ctx))"
    and "sx_membership ctx = (if uses_clusters (sx_activeRules ctx) then load_active_cluster_membership (rules_of (sg_apply db)) else [])"
    and "classification_index_of (ap_classifications (sg_apply db)) = Inr (sx_index ctx)"
    and "sx_roundingRanges ctx = [] \<or> rounding_ranges slug db = Inr (sx_roundingRanges ctx)"
  using assms by (auto simp: rule_context_def Let_def bind_outcome_Inr_iff split: if_splits)

lemma load_ctx_fields:
  assumes "load_ctx slug items db = Inr cx"
  obtains origins where "enabled_origins slug (rules_of db) = Inr origins"
    "cx_rows cx = load_eans_data origins (dedup (map it_ean items)) db"
    "load_stores slug (dedup (List.map_filter (\<lambda>i. given (it_storeId i)) items)) (catalog_of db) = Inr (cx_stores cx)"
    "cx_storeItems cx = load_store_items (dedup (map it_ean items)) (dedup (List.map_filter (\<lambda>i. given (it_storeId i)) items)) (catalog_of db)"
    "active_rules slug (rules_of db) = Inr (cx_rules cx)"
    "cx_membership cx = (if uses_clusters (cx_rules cx) then load_active_cluster_membership (rules_of db) else [])"
    "classification_index_of (ap_classifications db) = Inr (cx_index cx)"
  using assms that by (auto simp: load_ctx_def Let_def bind_outcome_Inr_iff uses_clusters_def)

lemma winner_agrees:
  assumes ctx: "rule_context slug None storeUuid db = Inr ctx" and cx: "load_ctx slug items (sg_apply db) = Inr cx"
    and sp: "sp_classificationId sp = sp_classificationId sp'"
  shows "fst (winner_of ctx sp) = winning_rule cx storeUuid (sp_ean sp) sp'"
proof -
  from load_ctx_fields [OF cx] have c: "active_rules slug (rules_of (sg_apply db)) = Inr (cx_rules cx)"
    "cx_membership cx = (if uses_clusters (cx_rules cx) then load_active_cluster_membership (rules_of (sg_apply db)) else [])"
    "classification_index_of (ap_classifications (sg_apply db)) = Inr (cx_index cx)" by metis+
  note f = rule_context_fields [OF ctx] and act = rule_context_active [OF ctx c(1)]
  have ix: "sx_index ctx = cx_index cx" using f(4) c(3) by simp
  define part where "part = map ru_rule (sx_activeRules ctx)"
  have part: "part = map ru_rule (filter (\<lambda>r. rule_participates r storeUuid) (cx_rules cx))" by (simp add: part_def act)
  define ks ks' where "ks = or_default (map_of (sx_membership ctx) (sp_ean sp)) []"
    and "ks' = or_default (map_of (cx_membership cx) (sp_ean sp)) []"
  show ?thesis
  proof (cases "uses_clusters (sx_activeRules ctx)")
    case True
    then have "uses_clusters (cx_rules cx)" by (auto simp: uses_clusters_def list_ex_iff act)
    then have "ks = ks'" using True c(2) f(3) by (simp add: ks_def ks'_def)
    moreover have "find_rule_for_product sp rs ks' i = find_rule_for_product sp' rs ks' i" for rs i
      by (rule find_rule_cong) (use sp in simp_all)
    ultimately show ?thesis
      by (simp add: winner_of_def winning_rule_def Let_def f(1,2) ix ks_def [symmetric] ks'_def [symmetric] part_def [symmetric] part [symmetric])
  next
    case False
    then have no: "\<not> truthy_string (sr_clusterId r)" "sr_excludeClusterIds r = []" if "r \<in> set part" for r
      using that by (auto simp: uses_clusters_def list_ex_iff part_def)
    then have e: "filter (\<lambda>r. truthy_string (sr_clusterId r)) part = []" by (simp add: filter_empty_conv)
    have "find_rule_for_product sp (filter (\<lambda>r. \<not> truthy_string (sr_clusterId r)) part) ks i =
        find_rule_for_product sp' (filter (\<lambda>r. \<not> truthy_string (sr_clusterId r)) part) ks' i" for i
      by (rule find_rule_cong) (use sp no in auto)
    moreover have "find_cluster_rule_for_product [] zs = None" for zs by (simp add: find_cluster_rule_for_product_def)
    ultimately show ?thesis
      by (simp add: winner_of_def winning_rule_def Let_def f(1,2) ix ks_def [symmetric] ks'_def [symmetric] part_def [symmetric] part [symmetric] e)
  qed
qed

section \<open>Both sides read the same numbers\<close>

lemma map_of_entries_unique:
  assumes "(k, v) \<in> set es" "\<And>w. (k, w) \<in> set es \<Longrightarrow> w = v"
  shows "map_of (map_of_entries es) k = Some v"
proof -
  have "\<exists>w. map_of (rev es) k = Some w" using assms(1) weak_map_of_SomeI [of k v "rev es"] by simp
  then obtain w where "map_of (rev es) k = Some w" ..
  then show ?thesis using assms(2) [of w] map_of_SomeD [of "rev es" k w] by (simp add: map_of_map_of_entries)
qed

lemma map_of_entries_absent: "(\<And>w. (k, w) \<notin> set es) \<Longrightarrow> map_of (map_of_entries es) k = None"
  by (auto simp: map_of_map_of_entries map_of_eq_None_iff)

text \<open>The unique indexes of the tables, and the range of a money column.\<close>

definition catalogue_keyed :: "catalog \<Rightarrow> bool" where
  "catalogue_keyed c \<longleftrightarrow> distinct (map pr_ean (ct_products c)) \<and> distinct (map pr_id (ct_products c)) \<and>
     distinct (map (\<lambda>i. (pi_productId i, pi_storeId i)) (ct_items c)) \<and> distinct (map st_id (ct_stores c))"

definition fits :: "rat option \<Rightarrow> bool" where
  "fits v = (case v of None \<Rightarrow> True | Some r \<Rightarrow> \<bar>r\<bar> \<le> 10 ^ 10)"

definition columns_fit :: "catalog \<Rightarrow> bool" where
  "columns_fit c \<longleftrightarrow> list_all (\<lambda>i. fits (pi_cost i) \<and> fits (pi_price i)) (ct_items c)"

lemma num_fits: "fits (Some r) \<Longrightarrow> num (Some r) = Some (Num (round_double r))"
proof -
  assume "fits (Some r)"
  then have "\<bar>r\<bar> \<le> 10 ^ 10" by (simp add: fits_def)
  also have "(10 ^ 10 :: rat) \<le> 2 ^ 40" by simp
  also have "(2 ^ 40 :: rat) \<le> 2 ^ 1000" by (rule power_increasing) simp_all
  finally show ?thesis by (simp add: num_def js_of_rat_small)
qed

lemma money_first: "fits a \<Longrightarrow> money (num (or_else a b)) = first_num (num a) (num b)"
proof (cases a)
  case None
  then show ?thesis by (simp add: money_def or_default_def first_num_def or_else_def num_def [of None] split: option.splits)
next
  case (Some r)
  assume "fits a"
  then show ?thesis using Some by (simp add: money_def or_default_def first_num_def or_else_def num_fits)
qed

lemma first_num_None: "first_num (num v) None = money (num v)"
  by (simp add: first_num_def money_def or_default_def split: option.splits)


lemma product_numbers:
  assumes "\<And>i. store_item_of storeUuid p (catalog_of (sg_apply db)) = Some i \<Longrightarrow> fits (pi_cost i) \<and> fits (pi_price i)"
    and row: "pw_cost row = pr_cost p" "pw_precoVenda row = pr_price p"
      "pw_precoOferta row = (case find (\<lambda>o'. of_ean o' = pr_ean p) (ct_offers (catalog_of (sg_apply db))) of None \<Rightarrow> None | Some o' \<Rightarrow> of_targetPrice o')"
    and si: "si = store_item_of storeUuid p (catalog_of (sg_apply db))"
    and sp: "sp = product_of_response (response_product_of origins storeUuid db p)"
  shows "sp_custo sp = item_cost si row" "sp_precoVenda sp = item_preco_venda si row" "sp_precoOferta sp = item_preco_oferta si row"
    "sp_classificationId sp = pr_classificationId p" "sp_ean sp = pr_ean p"
proof -
  have none: "si = None \<Longrightarrow> money (num a) = first_num None (num a)" for a
    by (simp add: first_num_def money_def or_default_def split: option.splits)
  show "sp_custo sp = item_cost si row"
    using assms(1) si [symmetric] by (cases si) (simp_all add: sp row response_product_of_def product_of_response_def Let_def
        effective_cost_def item_cost_def money_first none)
  show "sp_precoVenda sp = item_preco_venda si row"
    using assms(1) si [symmetric] by (cases si) (simp_all add: sp row response_product_of_def product_of_response_def Let_def
        effective_price_def item_preco_venda_def money_first none)
  show "sp_precoOferta sp = item_preco_oferta si row"
    using si [symmetric] by (cases si) (simp_all add: sp row response_product_of_def product_of_response_def Let_def
        effective_offer_def item_preco_oferta_def first_num_None)
  show "sp_classificationId sp = pr_classificationId p" "sp_ean sp = pr_ean p"
    by (simp_all add: sp response_product_of_def product_of_response_def Let_def)
qed

lemma row_of_product:
  assumes "catalogue_keyed (catalog_of db)" "p \<in> set (ct_products (catalog_of db))" "pr_ean p \<in> set eans"
  obtains row where "map_of (map_of_entries (map (\<lambda>r. (pw_ean r, r)) (load_eans_data origins eans db))) (pr_ean p) = Some row"
    "pw_cost row = pr_cost p" "pw_precoVenda row = pr_price p" "pw_classificationId row = pr_classificationId p"
    "pw_precoOferta row = (case find (\<lambda>o'. of_ean o' = pr_ean p) (ct_offers (catalog_of db)) of None \<Rightarrow> None | Some o' \<Rightarrow> of_targetPrice o')"
    "pw_ean row = pr_ean p"
proof -
  obtain F where F: "load_eans_data origins eans db = map F (filter (\<lambda>p. pr_ean p \<in> set eans) (ct_products (catalog_of db)))"
    "\<And>p. pw_ean (F p) = pr_ean p" "\<And>p. pw_cost (F p) = pr_cost p" "\<And>p. pw_precoVenda (F p) = pr_price p"
    "\<And>p. pw_classificationId (F p) = pr_classificationId p"
    "\<And>p. pw_precoOferta (F p) = (case find (\<lambda>o'. of_ean o' = pr_ean p) (ct_offers (catalog_of db)) of None \<Rightarrow> None | Some o' \<Rightarrow> of_targetPrice o')"
    by (rule that [OF load_eans_data_def]) (simp_all add: Let_def)
  have "map_of (map_of_entries (map (\<lambda>r. (pw_ean r, r)) (load_eans_data origins eans db))) (pr_ean p) = Some (F p)"
  proof (rule map_of_entries_unique)
    show "(pr_ean p, F p) \<in> set (map (\<lambda>r. (pw_ean r, r)) (load_eans_data origins eans db))"
      using assms(2,3) by (force simp: F(1,2))
    fix w
    assume "(pr_ean p, w) \<in> set (map (\<lambda>r. (pw_ean r, r)) (load_eans_data origins eans db))"
    then obtain p' where p': "p' \<in> set (ct_products (catalog_of db))" "w = F p'" "pr_ean p' = pr_ean p"
      by (auto simp: F(1,2))
    then have "p' = p" using assms(1,2) by (auto simp: catalogue_keyed_def distinct_map dest: inj_onD)
    then show "w = F p" using p'(2) by simp
  qed
  then show thesis using F by (intro that [of "F p"]) simp_all
qed

lemma store_item_agrees:
  assumes keyed: "catalogue_keyed c" and p: "p \<in> set (ct_products c)" "pr_ean p \<in> set eans"
    and s: "given storeUuid = Some s" "s \<in> set ids"
  shows "map_of (load_store_items eans ids c) (pr_ean p, s) = store_item_of storeUuid p c"
proof -
  define es where "es = concat (map (\<lambda>i. concat (map (\<lambda>p. if pr_id p = pi_productId i \<and> pr_ean p \<in> set eans \<and> pi_storeId i \<in> set ids
      then [((pr_ean p, pi_storeId i), i)] else []) (ct_products c))) (ct_items c))"
  have ls: "load_store_items eans ids c = map_of_entries es" using s(2) by (auto simp: load_store_items_def es_def)
  have mem: "((e, t), i) \<in> set es \<longleftrightarrow> i \<in> set (ct_items c) \<and> pi_storeId i = t \<and> t \<in> set ids \<and> e \<in> set eans \<and>
      (\<exists>p \<in> set (ct_products c). pr_id p = pi_productId i \<and> pr_ean p = e)" for e t i
    by (auto simp: es_def split: if_splits)
  have same: "pr_id p' = pr_id p" if "p' \<in> set (ct_products c)" "pr_ean p' = pr_ean p" for p'
    using that keyed p(1) by (auto simp: catalogue_keyed_def distinct_map dest: inj_onD)
  show ?thesis
  proof (cases "find (\<lambda>i. pi_productId i = pr_id p \<and> pi_storeId i = s) (ct_items c)")
    case None
    then have "(pr_ean p, s) \<notin> fst ` set es" using same by (force simp: mem find_None_iff)
    then have "map_of (map_of_entries es) (pr_ean p, s) = None" by (intro map_of_entries_absent) force
    then show ?thesis using None s(1) by (simp add: ls store_item_of_def)
  next
    case (Some i)
    then have i: "i \<in> set (ct_items c)" "pi_productId i = pr_id p" "pi_storeId i = s" by (auto simp: find_Some_iff)
    have "map_of (map_of_entries es) (pr_ean p, s) = Some i"
    proof (rule map_of_entries_unique)
      show "((pr_ean p, s), i) \<in> set es" using i p s(2) by (auto simp: mem)
      fix w
      assume "((pr_ean p, s), w) \<in> set es"
      then have "w \<in> set (ct_items c)" "pi_productId w = pr_id p" "pi_storeId w = s" using same by (auto simp: mem)
      then show "w = i" using i keyed
        by (auto simp: catalogue_keyed_def distinct_map dest!: inj_onD [of "\<lambda>i. (pi_productId i, pi_storeId i)" _ w i])
    qed
    then show ?thesis using Some s(1) by (simp add: ls store_item_of_def)
  qed
qed

section \<open>A suggested price passes the guard rails\<close>

lemma floor_exists:
  assumes m: "0 \<le> m" "m \<le> 95" and c: "c = round_double w" "0 < c" "c \<le> 20000"
  shows "\<exists>f z. price_for_margin (Num c) (js_of_rat m) = Num f \<and> f = round_double z \<and> 0 < f \<and> f \<le> 10 ^ 6 - 1"
proof -
  have q: "0 \<le> round_double m / 100" "round_double m / 100 \<le> 95 / 100"
    using m dbl.rd_nonneg [of m] dbl.rd_le_of_int [of m 95] by simp_all
  have rm: "js_of_rat m = Num (round_double m)" using small_rat(1) [of m] m by simp
  define e where "e = round_double (round_double m / 100)"
  have e: "js_of_rat (round_double m / 100) = Num e" "0 \<le> e" "e \<le> 96 / 100"
    using small_rat [of "round_double m / 100"] q dbl.rd_nonneg [OF q(1)] unfolding e_def by linarith+
  define d where "d = round_double (1 - e)"
  have d: "js_of_rat (1 - e) = Num d" "d \<le> 1" "3 / 100 \<le> d"
    using small_rat [of "1 - e"] e(2,3) dbl.rd_le_of_int [of "1 - e" 1] unfolding d_def by (simp, simp, linarith)
  have cd: "c \<le> c / d" using d(2,3) c(2) by (simp add: pos_le_divide_eq mult_left_le)
  have "c / d \<le> 20000 / (3 / 100)" using d(3) c by (intro frac_le) simp_all
  also have "\<dots> \<le> (700000 :: rat)" by simp
  finally have ub: "c / d \<le> 700000" .
  define f where "f = round_double (c / d)"
  have "price_for_margin (Num c) (js_of_rat m) = js_of_rat (c / d)"
    using d(3) e(1) d(1) by (simp add: price_for_margin_def rm)
  moreover have "js_of_rat (c / d) = Num f" using ub cd c(2) unfolding f_def by (intro small_rat(1)) simp_all
  moreover have "c \<le> f" unfolding f_def using rd_double [OF c(1,2) cd] .
  moreover have "f \<le> of_int 700000" unfolding f_def using ub by (intro dbl.rd_le_of_int) simp_all
  ultimately show ?thesis using c(2) f_def by (intro exI [of _ f] exI [of _ "c / d"]) simp
qed

lemma num_double: "num v = Some (Num c) \<Longrightarrow> c = round_double (the v)"
  by (cases v) (auto simp: num_def Let_def js_of_rat_def split: if_splits)

lemma first_num_double:
  assumes "first_num (num a) (num b) = Num c" shows "\<exists>w. c = round_double w"
proof (cases "num a")
  case (Some n)
  then show ?thesis using assms num_double [of a c] by (auto simp: first_num_def)
next
  case None
  show ?thesis
  proof (cases "num b")
    case (Some n)
    then show ?thesis using assms None num_double [of b c] by (auto simp: first_num_def)
  next
    case n: None
    then show ?thesis using assms None by (intro exI [of _ 0]) (simp add: first_num_def)
  qed
qed

lemma item_numbers_double:
  assumes "item_cost si row = Num c" shows "\<exists>w. c = round_double w"
  using assms first_num_double [of None "pw_cost row" c] first_num_double [of "pi_cost (the si)" "pw_cost row" c]
  by (cases si) (simp_all add: item_cost_def num_def [of None])

lemma venda_double:
  assumes "item_preco_venda si row = Num v" shows "\<exists>w. v = round_double w"
  using assms first_num_double [of None "pw_precoVenda row" v] first_num_double [of "pi_price (the si)" "pw_precoVenda row" v]
  by (cases si) (simp_all add: item_preco_venda_def num_def [of None])

lemma above_sale_price:
  assumes "v = round_double w" "0 < v" "v \<le> 10 ^ 12" "q \<le> v"
  shows "\<not> js_lt (js_add (Num v) PRICE_EPSILON) (Num q)"
proof -
  have "\<bar>v + epsilon_value\<bar> \<le> 2 ^ 50" using assms(2,3) epsilon(2,3) by (simp add: abs_le_iff)
  also have "(2 ^ 50 :: rat) \<le> 2 ^ 1000" by (rule power_increasing) simp_all
  finally have "js_add (Num v) PRICE_EPSILON = Num (round_double (v + epsilon_value))" by (simp add: epsilon(1) js_of_rat_small)
  moreover have "v \<le> round_double (v + epsilon_value)" using rd_double [OF assms(1,2)] epsilon(3) by simp
  ultimately show ?thesis using assms(4) by simp
qed

lemma listing_row:
  assumes "listing collate slug q None db = Inr (rows, n, books)" "r \<in> set rows"
  obtains storeUuid ctx p origins where "store_uuid slug (qs_store q) (catalog_of (sg_apply db)) = Inr storeUuid"
    "rule_context slug None storeUuid db = Inr ctx" "p \<in> set (ct_products (catalog_of (sg_apply db)))"
    "r = compute_row ctx (response_product_of origins storeUuid db p)"
  using assms that by (auto simp: listing_def Let_def bind_outcome_Inr_iff load_products_def split: if_splits)

lemma find_SomeD: "find P xs = Some x \<Longrightarrow> x \<in> set xs \<and> P x"
  by (induction xs) (auto split: if_splits)

definition serving_store :: "string \<Rightarrow> string \<Rightarrow> catalog \<Rightarrow> bool" where
  "serving_store slug s c = list_ex (\<lambda>t. st_id t = s \<and> st_active t \<and> \<not> st_deleted t \<and>
     resolve_tenant_id slug (ct_tenants c) = Inr (st_tenantId t)) (ct_stores c)"

lemma store_uuid_active:
  assumes "store_uuid slug store c = Inr (Some s)"
  shows "serving_store slug s c"
proof -
  obtain sid where sid: "given store = Some sid" "1 \<le> length sid \<and> length sid \<le> 18 \<and> list_all is_digit sid"
    using assms by (auto simp: store_uuid_def split: option.splits if_splits)
  with assms obtain tenantId where t: "resolve_tenant_id slug (ct_tenants c) = Inr tenantId"
    and f: "(case find (\<lambda>t. st_tenantId t = tenantId \<and> st_externalId t = int (nat_of_digits 10 sid) \<and> st_active t \<and> \<not> st_deleted t) (ct_stores c) of
       None \<Rightarrow> Inl (BadRequestException (''store '' @ sid @ '' unknown or inactive'')) | Some t \<Rightarrow> Inr (Some (st_id t))) = Inr (Some s)"
    by (simp add: store_uuid_def bind_outcome_Inr_iff del: One_nat_def) blast
  then obtain x where x: "find (\<lambda>t. st_tenantId t = tenantId \<and> st_externalId t = int (nat_of_digits 10 sid) \<and> st_active t \<and> \<not> st_deleted t) (ct_stores c) = Some x"
    "st_id x = s" by (auto split: option.splits)
  then show ?thesis using find_SomeD [OF x(1)] t by (auto simp: serving_store_def list_ex_iff intro!: bexI [of _ x])
qed

lemma check_store_agrees:
  assumes store: "\<And>s. storeUuid = Some s \<Longrightarrow> serving_store slug s c" and keyed: "catalogue_keyed c" "list_all (\<lambda>s. st_id s \<noteq> []) (ct_stores c)"
    and p: "p \<in> set (ct_products c)" "it_ean item = pr_ean p" and item: "it_storeId item = storeUuid" "item \<in> set items"
    and cx: "load_stores slug (dedup (List.map_filter (\<lambda>i. given (it_storeId i)) items)) c = Inr (cx_stores cx)"
      "cx_storeItems cx = load_store_items (dedup (map it_ean items)) (dedup (List.map_filter (\<lambda>i. given (it_storeId i)) items)) c"
  shows "check_store cx item = Inr (store_item_of storeUuid p c)"
proof (cases storeUuid)
  case None
  then show ?thesis by (simp add: check_store_def store_item_of_def item(1) given_def truthy_string_def)
next
  case (Some s)
  from store [OF Some] obtain t tenantId where
    t: "t \<in> set (ct_stores c)" "st_id t = s" "st_active t" "\<not> st_deleted t"
      "resolve_tenant_id slug (ct_tenants c) = Inr tenantId" "st_tenantId t = tenantId"
    by (auto simp: serving_store_def list_ex_iff)
  have "s \<noteq> []" using keyed(2) t(1,2) by (auto simp: list_all_iff)
  then have g: "given storeUuid = Some s" by (simp add: given_def truthy_string_def Some)
  define ids where "ids = dedup (List.map_filter (\<lambda>i. given (it_storeId i)) items)"
  have s: "s \<in> set ids" using item g by (force simp: ids_def set_map_filter)
  then have "ids \<noteq> []" by auto
  then have st: "cx_stores cx = map_of_entries (map (\<lambda>s. (st_id s, st_active s))
      (filter (\<lambda>s. st_tenantId s = tenantId \<and> st_id s \<in> set ids \<and> \<not> st_deleted s) (ct_stores c)))"
    using cx(1) t(5) unfolding ids_def [symmetric] by (simp add: load_stores_def)
  have "map_of (cx_stores cx) s = Some True" unfolding st
  proof (rule map_of_entries_unique)
    show "(s, True) \<in> set (map (\<lambda>s. (st_id s, st_active s)) (filter (\<lambda>s. st_tenantId s = tenantId \<and> st_id s \<in> set ids \<and> \<not> st_deleted s) (ct_stores c)))"
      using t s by force
    fix w
    assume "(s, w) \<in> set (map (\<lambda>s. (st_id s, st_active s)) (filter (\<lambda>s. st_tenantId s = tenantId \<and> st_id s \<in> set ids \<and> \<not> st_deleted s) (ct_stores c)))"
    then obtain t' where t': "t' \<in> set (ct_stores c)" "st_id t' = s" "w = st_active t'" by auto
    have "inj_on st_id (set (ct_stores c))" using keyed(1) by (simp add: catalogue_keyed_def distinct_map)
    then have "t' = t" by (rule inj_onD) (simp_all add: t t'(1,2))
    then show "w = True" using t(3) t'(3) by simp
  qed
  moreover have "it_ean item \<in> set (dedup (map it_ean items))" using item(2) by simp
  moreover have "map_of (cx_storeItems cx) (pr_ean p, s) = store_item_of storeUuid p c"
    unfolding cx(2) ids_def [symmetric]
    by (rule store_item_agrees [OF keyed(1) p(1) _ g s]) (use item(2) p(2) in force)
  ultimately show ?thesis using g by (simp add: check_store_def item(1) p(2))
qed

text \<open>What is left of the guard rails once the price cleared the floor and the sale price.\<close>

lemma check_item_cleared:
  assumes row: "map_of (map_of_entries (map (\<lambda>r. (pw_ean r, r)) (cx_rows cx))) (it_ean item) = Some row"
    and si: "check_store cx item = Inr si" and cost: "\<not> js_le (item_cost si row) (Num 0)" and price: "\<not> js_le (it_price item) (Num 0)"
    and winner: "winner = winning_rule cx (it_storeId item) (it_ean item)
       (to_suggestion_product row (item_cost si row) (item_preco_venda si row) (item_preco_oferta si row))"
    and floor: "\<not> js_lt (js_add (it_price item) PRICE_EPSILON) (price_floor winner (item_cost si row))"
    and venda: "it_target item = PrecoOferta \<Longrightarrow> js_lt (Num 0) (item_preco_venda si row) \<Longrightarrow>
       \<not> js_lt (js_add (item_preco_venda si row) PRICE_EPSILON) (it_price item)"
  shows "case check_item cx item of
      Inr a \<Rightarrow> ac_ean a = it_ean item \<and> ac_price a = it_price item \<and> ac_ruleId a = map_option sr_id winner
    | Inl reason \<Rightarrow> reason \<in> {''variacao_excessiva'', ''sem_caderno'', ''caderno_nao_cobre_loja''}"
proof -
  have cad: "item_caderno cx item row si = Inl reason \<Longrightarrow> reason \<in> {''sem_caderno'', ''caderno_nao_cobre_loja''}" for reason
    by (auto simp: item_caderno_def Let_def split: option.splits if_splits)
  have v: "\<not> (it_target item = PrecoOferta \<and> js_lt (Num 0) (item_preco_venda si row) \<and>
       js_lt (js_add (item_preco_venda si row) PRICE_EPSILON) (it_price item))" using venda by blast
  show ?thesis
    unfolding check_item_def row si option.case sum.case Let_def winner [symmetric] if_not_P [OF cost] if_not_P [OF price] if_not_P [OF floor] if_not_P [OF v]
    using cad by (auto split: sum.splits)
qed

lemma nonneg_rounding:
  assumes "rounding_ranges slug db = Inr ranges" "list_all (\<lambda>b. 0 \<le> bu_roundTo b) (ro_buckets (sg_rounding db))"
  shows "nonneg_buckets ranges"
  using assms by (auto simp: rounding_ranges_def list_ranges_def Let_def bind_outcome_Inr_iff nonneg_buckets_def list_all_iff
      to_rounding_range_def rules_for_def bucket_of_row_def from_column_def round_double_nonneg)

text \<open>The tables the unique indexes, the columns and the checks of the requests guarantee.\<close>

definition tables_sound :: "suggestions_db \<Rightarrow> bool" where
  "tables_sound db \<longleftrightarrow>
     (let c = catalog_of (sg_apply db) in
      catalogue_keyed c \<and> list_all (\<lambda>s. st_id s \<noteq> []) (ct_stores c) \<and> columns_fit c \<and>
      list_all (\<lambda>r. rule_wf (rr_values r)) (rd_rules (ap_rules (sg_apply db))) \<and>
      list_all (\<lambda>b. 0 \<le> bu_roundTo b) (ro_buckets (sg_rounding db)))"

lemma item_row:
  assumes cx: "load_ctx slug items db = Inr cx" and keyed: "catalogue_keyed (catalog_of db)"
    and p: "p \<in> set (ct_products (catalog_of db))" and item: "item \<in> set items" "it_ean item = pr_ean p"
  obtains row where "map_of (map_of_entries (map (\<lambda>r. (pw_ean r, r)) (cx_rows cx))) (it_ean item) = Some row"
    "pw_cost row = pr_cost p" "pw_precoVenda row = pr_price p" "pw_classificationId row = pr_classificationId p"
    "pw_precoOferta row = (case find (\<lambda>o'. of_ean o' = pr_ean p) (ct_offers (catalog_of db)) of None \<Rightarrow> None | Some o' \<Rightarrow> of_targetPrice o')"
proof -
  have e: "pr_ean p \<in> set (dedup (map it_ean items))" using item by force
  from load_ctx_fields [OF cx] obtain origins where "cx_rows cx = load_eans_data origins (dedup (map it_ean items)) db" .
  note rows = this
  show thesis by (rule row_of_product [OF keyed p e, of origins]) (rule that, simp_all add: rows item(2))
qed

text \<open>The product, the rule and the computation behind a suggestion of the listing.\<close>

lemma listed_suggestion:
  assumes "listing collate slug q None db = Inr (rows, n, books)" "r \<in> set rows" "rw_result r = Suggestion s"
    and "store_uuid slug (qs_store q) (catalog_of (sg_apply db)) = Inr storeUuid"
  obtains ctx p origins rule where "rule_context slug None storeUuid db = Inr ctx" "p \<in> set (ct_products (catalog_of (sg_apply db)))"
    "rw_sp r = product_of_response (response_product_of origins storeUuid db p)" "rq_ean (rw_product r) = pr_ean p"
    "fst (winner_of ctx (rw_sp r)) = Some rule"
    "compute_suggestion (rw_sp r) rule (if sr_applyRounding rule then sx_roundingRanges ctx else []) = Suggestion s"
proof -
  from listing_row [OF assms(1,2)] obtain u ctx p origins where l: "store_uuid slug (qs_store q) (catalog_of (sg_apply db)) = Inr u"
    "rule_context slug None u db = Inr ctx" "p \<in> set (ct_products (catalog_of (sg_apply db)))"
    "r = compute_row ctx (response_product_of origins u db p)" .
  have u: "u = storeUuid" using l(1) assms(4) by simp
  have f: "rw_sp r = product_of_response (response_product_of origins storeUuid db p)" "rq_ean (rw_product r) = pr_ean p"
    by (simp_all add: l(4) u compute_row_def Let_def response_product_of_def split: prod.splits)
  have "rw_result r = (case fst (winner_of ctx (rw_sp r)) of
      Some w \<Rightarrow> compute_suggestion (rw_sp r) w (if sr_applyRounding w then sx_roundingRanges ctx else []) | None \<Rightarrow> NoSuggestion SemRegra None)"
    unfolding f(1) by (cases "winner_of ctx (product_of_response (response_product_of origins storeUuid db p))")
      (simp add: l(4) u compute_row_def Let_def)
  with assms(3) show thesis using that [OF l(2) [unfolded u] l(3) f] by (auto split: option.splits)
qed

text \<open>
  The price of a suggestion clears the application: the floor, the sale price and the cost are the
  same numbers on both sides, and the same rule governs.
\<close>

lemma guard_rails_cleared:
  assumes ctx: "rule_context slug None storeUuid db = Inr ctx" and p: "p \<in> set (ct_products (catalog_of (sg_apply db)))"
    and sp: "sp = product_of_response (response_product_of origins storeUuid db p)"
    and rule: "fst (winner_of ctx sp) = Some rule"
      "compute_suggestion sp rule (if sr_applyRounding rule then sx_roundingRanges ctx else []) = Suggestion s"
    and store: "\<And>i. storeUuid = Some i \<Longrightarrow> serving_store slug i (catalog_of (sg_apply db))"
    and load: "load_ctx slug items (sg_apply db) = Inr cx"
    and item: "item \<in> set items" "it_ean item = pr_ean p" "it_storeId item = storeUuid" "it_target item = ps_target s" "it_price item = ps_price s"
    and sound: "tables_sound db" and small: "js_le (sp_custo sp) (Num 20000)" "js_le (sp_precoVenda sp) (Num (10 ^ 12))"
  shows "case check_item cx item of
      Inr a \<Rightarrow> ac_ean a = pr_ean p \<and> ac_price a = ps_price s \<and> ac_ruleId a = Some (sr_id (ps_rule s))
    | Inl reason \<Rightarrow> reason \<in> {''variacao_excessiva'', ''sem_caderno'', ''caderno_nao_cobre_loja''}"
proof -
  define c where "c = catalog_of (sg_apply db)"
  have snd: "catalogue_keyed c" "list_all (\<lambda>s. st_id s \<noteq> []) (ct_stores c)" "columns_fit c"
    "list_all (\<lambda>r. rule_wf (rr_values r)) (rd_rules (ap_rules (sg_apply db)))"
    "list_all (\<lambda>b. 0 \<le> bu_roundTo b) (ro_buckets (sg_rounding db))"
    using sound by (simp_all add: tables_sound_def Let_def c_def)
  from load_ctx_fields [OF load] obtain
    cx: "load_stores slug (dedup (List.map_filter (\<lambda>i. given (it_storeId i)) items)) c = Inr (cx_stores cx)"
    "cx_storeItems cx = load_store_items (dedup (map it_ean items)) (dedup (List.map_filter (\<lambda>i. given (it_storeId i)) items)) c"
    "active_rules slug (rules_of (sg_apply db)) = Inr (cx_rules cx)" unfolding c_def .
  from item_row [OF load snd(1) [unfolded c_def] p item(1,2)] obtain row where
    row: "map_of (map_of_entries (map (\<lambda>r. (pw_ean r, r)) (cx_rows cx))) (it_ean item) = Some row"
    "pw_cost row = pr_cost p" "pw_precoVenda row = pr_price p" "pw_classificationId row = pr_classificationId p"
    "pw_precoOferta row = (case find (\<lambda>o'. of_ean o' = pr_ean p) (ct_offers (catalog_of (sg_apply db))) of None \<Rightarrow> None | Some o' \<Rightarrow> of_targetPrice o')" .
  define si where "si = store_item_of storeUuid p c"
  have st: "check_store cx item = Inr si"
    unfolding si_def using check_store_agrees [OF store [folded c_def] snd(1,2) p [folded c_def] item(2,3,1) cx(1,2)] .
  have fits: "fits (pi_cost i) \<and> fits (pi_price i)" if "store_item_of storeUuid p (catalog_of (sg_apply db)) = Some i" for i
    using that snd(3) find_SomeD [of _ "ct_items c" i] by (auto simp: store_item_of_def columns_fit_def list_all_iff c_def split: option.splits)
  note nums = product_numbers [OF fits row(2,3,5) si_def [unfolded c_def] sp]
  obtain cst v where cv: "item_cost si row = Num cst" "item_preco_venda si row = Num v"
    using item_numbers_finite [of si row] by blast
  from compute_suggestion_inv [OF rule(2)] have inv: "\<not> js_le (ps_price s) (Num 0)" "\<not> js_le (sp_custo sp) (Num 0)" "ps_rule s = rule"
    "\<not> (ps_target s = PrecoOferta \<and> js_lt (Num 0) (sp_precoVenda sp) \<and> js_lt (sp_precoVenda sp) (ps_price s))" by metis+
  have cst: "0 < cst" "cst \<le> 20000" using inv(2) small(1) nums(1) cv(1) by simp_all
  define sp' where "sp' = to_suggestion_product row (item_cost si row) (item_preco_venda si row) (item_preco_oferta si row)"
  have "sp_classificationId sp = sp_classificationId sp'" by (simp add: sp'_def to_suggestion_product_def row(4) nums(4))
  from winner_agrees [OF ctx load this] have win: "winning_rule cx (it_storeId item) (it_ean item) sp' = Some rule"
    using rule(1) nums(5) item(2,3) by simp
  obtain q' where q': "q' \<in> set (cx_rules cx)" "rule = ru_rule q'" using winning_rule_member [OF win] by blast
  obtain m where m: "sr_minMargin rule = JNumber (js_of_rat m)" "0 \<le> m" "m \<le> 95"
    using active_rules_margin [OF cx(3) _ q'(1)] snd(4) by (auto simp: rules_of_def q'(2))
  have jm: "to_finite_number (sr_minMargin rule) (Num 0) = js_of_rat m" "js_number (sr_minMargin rule) = js_of_rat m"
    using small_rat(1) [of m] m by (simp_all add: to_finite_number_def js_number_def)
  obtain u where u: "cst = round_double u" using item_numbers_double [OF cv(1)] by blast
  obtain f z where f: "price_for_margin (Num cst) (js_of_rat m) = Num f" "f = round_double z" "0 < f" "f \<le> 10 ^ 6 - 1"
    using floor_exists [OF m(2,3) u cst] by blast
  have nb: "nonneg_buckets (if sr_applyRounding rule then sx_roundingRanges ctx else [])"
    using rule_context_fields(5) [OF ctx] nonneg_rounding [OF _ snd(5)] by (auto simp: nonneg_buckets_def)
  obtain qq where qq: "ps_price s = Num qq" "0 < qq" "js_le (Num f) (js_add (Num qq) PRICE_EPSILON)"
    using suggestion_clears [OF rule(2) _ f(2-4) nb] f(1) jm(1) nums(1) cv(1) by auto
  have "case check_item cx item of
      Inr a \<Rightarrow> ac_ean a = it_ean item \<and> ac_price a = it_price item \<and> ac_ruleId a = map_option sr_id (Some rule)
    | Inl reason \<Rightarrow> reason \<in> {''variacao_excessiva'', ''sem_caderno'', ''caderno_nao_cobre_loja''}"
  proof (rule check_item_cleared [OF row(1) st])
    show "\<not> js_le (item_cost si row) (Num 0)" "\<not> js_le (it_price item) (Num 0)"
      using cv(1) cst(1) item(5) qq(1,2) by simp_all
    show "Some rule = winning_rule cx (it_storeId item) (it_ean item)
        (to_suggestion_product row (item_cost si row) (item_preco_venda si row) (item_preco_oferta si row))"
      using win by (simp add: sp'_def)
    show "\<not> js_lt (js_add (it_price item) PRICE_EPSILON) (price_floor (Some rule) (item_cost si row))"
      using qq(3) js_lt_trans [of "js_add (Num qq) PRICE_EPSILON" "Num f" "js_add (Num qq) PRICE_EPSILON"]
      by (auto simp: price_floor_def cv(1) jm(2) f(1) item(5) qq(1) js_le_def)
    assume o: "it_target item = PrecoOferta" "js_lt (Num 0) (item_preco_venda si row)"
    then have "qq \<le> v" "0 < v" "v \<le> 10 ^ 12" using inv(4) item(4) small(2) nums(2) cv(2) qq(1) by simp_all
    moreover obtain u' where u': "v = round_double u'" using venda_double [OF cv(2)] by blast
    ultimately show "\<not> js_lt (js_add (item_preco_venda si row) PRICE_EPSILON) (it_price item)"
      unfolding cv(2) item(5) qq(1) by (intro above_sale_price [OF u'])
  qed
  then show ?thesis using item(2) inv(3) item(5) by (simp split: sum.splits)
qed

text \<open>
  C32. What the listing suggests, the application accepts. Take any row of a listing, of a store or of
  the base, and request its suggested price for its product, target and store before the tables
  change. The application finds the row and the store, applies the same rule, and never refuses the
  price for the margin floor, the sale price or a missing cost: neither rounding, to cents or by the
  buckets, nor the binary64 comparisons make it fall short by a single bit. What may still stop it is
  the ceiling on the variation, which the engine does not know, and an offer book that does not cover
  the store.
\<close>

theorem suggested_prices_pass_the_guard_rails:
  assumes "listing collate slug q None db = Inr (rows, n, books)" "r \<in> set rows" "rw_result r = Suggestion s"
    and "store_uuid slug (qs_store q) (catalog_of (sg_apply db)) = Inr storeUuid"
    and "load_ctx slug items (sg_apply db) = Inr cx" "item \<in> set items" "it_ean item = rq_ean (rw_product r)"
      "it_storeId item = storeUuid" "it_target item = ps_target s" "it_price item = ps_price s"
    and "tables_sound db" "js_le (sp_custo (rw_sp r)) (Num 20000)" "js_le (sp_precoVenda (rw_sp r)) (Num (10 ^ 12))"
  shows "case check_item cx item of
      Inr a \<Rightarrow> ac_ean a = rq_ean (rw_product r) \<and> ac_price a = ps_price s \<and> ac_ruleId a = Some (sr_id (ps_rule s))
    | Inl reason \<Rightarrow> reason \<in> {''variacao_excessiva'', ''sem_caderno'', ''caderno_nao_cobre_loja''}"
proof -
  from listed_suggestion [OF assms(1-4)] obtain ctx p origins rule where
    l: "rule_context slug None storeUuid db = Inr ctx" "p \<in> set (ct_products (catalog_of (sg_apply db)))"
      "rw_sp r = product_of_response (response_product_of origins storeUuid db p)"
    and ean: "rq_ean (rw_product r) = pr_ean p"
    and rule: "fst (winner_of ctx (rw_sp r)) = Some rule"
      "compute_suggestion (rw_sp r) rule (if sr_applyRounding rule then sx_roundingRanges ctx else []) = Suggestion s" .
  have "it_ean item = pr_ean p" using assms(7) ean by simp
  from guard_rails_cleared [OF l rule _ assms(5,6) this assms(8-13)] show ?thesis
    using store_uuid_active assms(4) unfolding ean by blast
qed

definition demo_margin_rule :: rule_row where
  "demo_margin_rule = \<lparr>rr_id = ''r1'', rr_values = \<lparr>rv_name = ''margem'', rv_classifications = [], rv_storeIds = [],
     rv_clusterId = None, rv_excludeClusterIds = [], rv_strategy = Margem, rv_minMargin = 75, rv_competitorMode = Weighted,
     rv_competitors = [], rv_variationPct = 0, rv_noCompetitorMargin = None, rv_priceControlled = False, rv_ignorePbm = False,
     rv_blockPbmInMargin = False, rv_cascadeByPriority = False, rv_applyRounding = False, rv_active = True\<rparr>,
     rr_createdAt = ''2026'', rr_updatedAt = ''2026'', rr_deleted = False\<rparr>"

definition demo_suggestions :: suggestions_db where
  "demo_suggestions = \<lparr>sg_apply = demo_apply\<lparr>ap_rules := demo_rules\<lparr>rd_rules := [demo_margin_rule]\<rparr>\<rparr>,
     sg_rounding = \<lparr>ro_ranges = [], ro_buckets = [], ro_tenants = (\<lambda>_. Some ''t''),
       ro_rangeRank = (\<lambda>_. 0), ro_bucketRank = (\<lambda>_ _. 0)\<rparr>,
     sg_deleted = (\<lambda>_. False), sg_margin = Map.empty, sg_averageVariation = Map.empty, sg_status = Map.empty,
     sg_offerDescription = (\<lambda>_ _. None), sg_van = (\<lambda>_ _. None)\<rparr>"

definition demo_query :: suggestions_query where
  "demo_query = \<lparr>qs_page = None, qs_perPage = None, qs_name = None, qs_store = None, qs_classification = None, qs_books = None,
     qs_onlyWithSuggestion = Some ''true'', qs_direction = None, qs_origem = None\<rparr>"


definition demo_sctx :: suggest_ctx where
  "demo_sctx = \<lparr>sx_activeRules = [to_api (rd_clusters demo_rules) demo_margin_rule], sx_clusterRules = [],
     sx_classRules = [ru_rule (to_api (rd_clusters demo_rules) demo_margin_rule)], sx_membership = [], sx_roundingRanges = [],
     sx_index = index_of [] Map.empty\<rparr>"

lemma demo_origins: "enabled_origins ''acme'' (rules_of (sg_apply demo_suggestions)) = Inr []"
  by (simp add: enabled_origins_def list_origins_def resolve_tenant_id_def rules_of_def demo_suggestions_def demo_apply_def demo_rules_def
        filter_empty_conv ALL_COMPETITOR_ORIGINS_def map_of_entries_def)

lemma demo_rule_context: "rule_context ''acme'' None None demo_suggestions = Inr demo_sctx"
  by (simp add: rule_context_def Let_def or_default_def list_rules_def prioritised_def cascades_def uses_clusters_def
      rules_of_def demo_suggestions_def demo_apply_def demo_rules_def demo_margin_rule_def demo_sctx_def to_api_def engine_rule_def
      rule_participates_def truthy_string_def classification_index_of_def build_classification_index_def)



lemma demo_rows: "case map (compute_row demo_sctx) (load_products [] None None None None demo_suggestions) of
      [r] \<Rightarrow> rq_ean (rw_product r) = ''789'' \<and> sp_custo (rw_sp r) = Num 5 \<and>
          sp_precoVenda (rw_sp r) = Num 10 \<and> keeps_row demo_query r \<and>
          (case rw_result r of Suggestion s \<Rightarrow> ps_price s = Num 20 \<and> ps_target s = PrecoVenda | NoSuggestion _ _ \<Rightarrow> False)
        | _ \<Rightarrow> False"
  by code_simp

lemma demo_listing:
  obtains rows n books r s where "listing id ''acme'' demo_query None demo_suggestions = Inr (rows, n, books)" "r \<in> set rows"
    "rq_ean (rw_product r) = ''789''" "sp_custo (rw_sp r) = Num 5" "sp_precoVenda (rw_sp r) = Num 10"
    "rw_result r = Suggestion s" "ps_price s = Num 20" "ps_target s = PrecoVenda"
proof -
  obtain r where r: "map (compute_row demo_sctx) (load_products [] None None None None demo_suggestions) = [r]"
    "rq_ean (rw_product r) = ''789''" "sp_custo (rw_sp r) = Num 5" "sp_precoVenda (rw_sp r) = Num 10" "keeps_row demo_query r"
    "case rw_result r of Suggestion s \<Rightarrow> ps_price s = Num 20 \<and> ps_target s = PrecoVenda | NoSuggestion _ _ \<Rightarrow> False"
    using demo_rows by (auto split: list.splits)
  obtain s where s: "rw_result r = Suggestion s" "ps_price s = Num 20" "ps_target s = PrecoVenda"
    using r(6) by (auto split: suggestion_result.splits)
  have b: "asked_books demo_query = []" by code_simp
  have q: "qs_store demo_query = None" "qs_name demo_query = None" "qs_classification demo_query = None"
    by (simp_all add: demo_query_def)
  have u: "store_uuid slug None c = Inr None" for slug c by (simp add: store_uuid_def given_def truthy_string_def)
  have "listing id ''acme'' demo_query None demo_suggestions =
      Inr ([r], length (sx_activeRules demo_sctx), available_books id (load_products [] None None None None demo_suggestions))"
    using r(5) by (simp add: listing_def Let_def q u demo_origins demo_rule_context b r(1))
  then show thesis by (rule that) (use r s in simp_all)
qed

definition demo_price_item :: apply_item_dto where
  "demo_price_item = \<lparr>it_ean = ''789'', it_target = PrecoVenda, it_storeId = None, it_price = Num 20, it_cadernoId = None\<rparr>"

lemma demo_load_item: "\<exists>cx. load_ctx ''acme'' [demo_price_item] (sg_apply demo_suggestions) = Inr cx"
proof -
  have a: "active_rules ''acme'' (rules_of (sg_apply demo_suggestions)) = Inr [to_api (rd_clusters demo_rules) demo_margin_rule]"
    by (simp add: active_rules_def list_rules_def rules_of_def demo_suggestions_def demo_apply_def demo_rules_def demo_margin_rule_def
        to_api_def engine_rule_def Let_def)
  have i: "classification_index_of (ap_classifications (sg_apply demo_suggestions)) = Inr (index_of [] Map.empty)"
    by (simp add: classification_index_of_def build_classification_index_def demo_suggestions_def demo_apply_def)
  have t: "List.map_filter (\<lambda>i. given (it_storeId i)) [] = []" "given (it_storeId demo_price_item) = None"
    by (simp_all add: demo_price_item_def List.map_filter_def given_def truthy_string_def)
  show ?thesis by (simp add: load_ctx_def Let_def demo_origins a i t load_stores_def)
qed

lemma demo_tables: "tables_sound demo_suggestions"
  by (simp add: tables_sound_def Let_def catalogue_keyed_def columns_fit_def fits_def catalog_of_def demo_suggestions_def demo_apply_def
      demo_catalog_def demo_rules_def demo_margin_rule_def rule_wf_def truthy_string_def)

theorem suggested_prices_pass_the_guard_rails_witness:
  "\<exists>cx. load_ctx ''acme'' [demo_price_item] (sg_apply demo_suggestions) = Inr cx \<and>
     (case check_item cx demo_price_item of Inr a \<Rightarrow> ac_price a = Num 20
      | Inl reason \<Rightarrow> reason \<in> {''variacao_excessiva'', ''sem_caderno'', ''caderno_nao_cobre_loja''})"
proof -
  obtain rows n books r s where l: "listing id ''acme'' demo_query None demo_suggestions = Inr (rows, n, books)" "r \<in> set rows"
    "rq_ean (rw_product r) = ''789''" "sp_custo (rw_sp r) = Num 5" "sp_precoVenda (rw_sp r) = Num 10"
    "rw_result r = Suggestion s" "ps_price s = Num 20" "ps_target s = PrecoVenda" by (rule demo_listing)
  obtain cx where cx: "load_ctx ''acme'' [demo_price_item] (sg_apply demo_suggestions) = Inr cx" using demo_load_item ..
  have u: "store_uuid ''acme'' (qs_store demo_query) (catalog_of (sg_apply demo_suggestions)) = Inr None"
    by (simp add: store_uuid_def given_def truthy_string_def demo_query_def)
  show ?thesis
    using suggested_prices_pass_the_guard_rails [OF l(1,2,6) u cx _ _ _ _ _ demo_tables, of demo_price_item] cx l(3-5,7,8)
    by (intro exI [of _ cx]) (simp add: demo_price_item_def split: sum.splits)
qed

section \<open>The pages of the listing and the price map show the same suggestions\<close>

lemma on_some_page:
  assumes "x \<in> set xs" "0 < n"
  shows "\<exists>k \<ge> 1. x \<in> set (take (nat n) (drop (nat ((k - 1) * n)) xs))"
proof -
  obtain j where j: "j < length xs" "x = xs ! j" using assms(1) by (auto simp: in_set_conv_nth)
  define m where "m = nat n"
  have n: "n = int m" "0 < m" using assms(2) by (simp_all add: m_def)
  define a where "a = j div m * m"
  have "j - j div m * m < m" using n(2) by (simp add: minus_div_mult_eq_mod)
  then have b: "a \<le> j" "j - a < m" by (simp_all add: a_def)
  have a: "nat ((int (j div m) + 1 - 1) * n) = a"
    by (simp only: a_def n(1) add_diff_cancel_right' of_nat_mult [symmetric] nat_int)
  have "j - a < length (take m (drop a xs))" using j b by simp
  from nth_mem [OF this] have "x \<in> set (take m (drop a xs))" using j b by simp
  then show ?thesis by (intro exI [of _ "int (j div m) + 1"]) (simp add: a [simplified] m_def [symmetric])
qed

lemma listing_page [simp]: "listing collate slug (q\<lparr>qs_page := k\<rparr>) rs db = listing collate slug q rs db"
proof -
  have "asked_books (q\<lparr>qs_page := k\<rparr>) = asked_books q" by (simp add: asked_books_def)
  moreover have "keeps_row (q\<lparr>qs_page := k\<rparr>) = keeps_row q" by (intro ext) (simp add: keeps_row_def)
  ultimately show ?thesis by (simp add: listing_def)
qed

definition unfiltered :: "suggestions_query \<Rightarrow> bool" where
  "unfiltered q \<longleftrightarrow> given (qs_name q) = None \<and> given (qs_classification q) = None \<and> asked_books q = [] \<and>
     qs_direction q \<in> {None, Some ''todas''} \<and> qs_origem q \<in> {None, Some ''todas''}"

lemma unfiltered_listing:
  assumes "unfiltered q" "listing collate slug q None db = Inr (rows, n, books)"
    and "store_uuid slug (qs_store q) (catalog_of (sg_apply db)) = Inr storeUuid"
  obtains origins ctx where "enabled_origins slug (rules_of (sg_apply db)) = Inr origins" "rule_context slug None storeUuid db = Inr ctx"
    "\<And>r. is_suggestion (rw_result r) \<Longrightarrow>
       r \<in> set rows \<longleftrightarrow> r \<in> compute_row ctx ` set (load_products origins None None storeUuid None db)"
proof -
  have f: "given (qs_name q) = None" "given (qs_classification q) = None" "asked_books q = []"
    "qs_direction q = None \<or> qs_direction q = Some ''todas''" "qs_origem q = None \<or> qs_origem q = Some ''todas''"
    using assms(1) by (auto simp: unfiltered_def)
  have lp: "load_products origins (qs_name q) (qs_classification q) u e d = load_products origins None None u e d" for origins u e d
    by (simp add: load_products_def product_selected_def [abs_def] f(1,2) given_def [of None] truthy_string_def)
  obtain origins ctx where o: "enabled_origins slug (rules_of (sg_apply db)) = Inr origins" "rule_context slug None storeUuid db = Inr ctx"
    "rows = filter (keeps_row q) (map (compute_row ctx) (load_products origins None None storeUuid None db))"
    using assms(2,3) by (auto simp: listing_def Let_def bind_outcome_Inr_iff f(3) lp)
  have "keeps_row q r" if "is_suggestion (rw_result r)" for r
    using that f(4,5) by (auto simp: keeps_row_def Let_def or_default_def)
  then show thesis by (intro that [OF o(1,2)]) (auto simp: o(3))
qed

lemma load_products_eans:
  assumes "distinct (map pr_ean (ct_products (catalog_of (sg_apply db))))"
  shows "inj_on rq_ean (set (load_products origins None None u es db))"
proof -
  have "rq_ean (response_product_of origins u db p) = pr_ean p" for p by (simp add: response_product_of_def Let_def)
  then show ?thesis using assms by (auto simp: load_products_def distinct_map inj_on_def)
qed

text \<open>Every row of the listing is on some page, and the pages show nothing else.\<close>

lemma pages_show_listing:
  assumes "listing collate slug q None db = Inr (rows, n, books)"
  shows "(\<exists>r \<in> set rows. \<exists>s. rw_result r = Suggestion s \<and> rq_ean (rw_product r) = ean \<and> ps_target s = t \<and> ps_price s = x) \<longleftrightarrow>
    (\<exists>k resp p s o'. 1 \<le> k \<and> suggestions collate slug (q\<lparr>qs_page := Some k\<rparr>) None db = Inr resp \<and>
       (p, Suggestion s, o') \<in> set (sr_rows resp) \<and> rq_ean p = ean \<and> ps_target s = t \<and> ps_price s = x)" (is "_ \<longleftrightarrow> ?pages")
proof -
  define per where "per = min 1000 (max 1 (or_default (qs_perPage q) 50))"
  have resp: "\<exists>resp. suggestions collate slug (q\<lparr>qs_page := Some k\<rparr>) None db = Inr resp \<and>
      sr_rows resp = map (\<lambda>r. (rw_product r, rw_result r, rw_origem r)) (take (nat per) (drop (nat ((k - 1) * per)) rows))" if "1 \<le> k" for k
    using that assms by (simp add: suggestions_def Let_def or_default_def [of "Some k"] per_def)
  have "0 < per" by (simp add: per_def)
  note page = on_some_page [OF _ this]
  show ?thesis
  proof
    assume "\<exists>r \<in> set rows. \<exists>s. rw_result r = Suggestion s \<and> rq_ean (rw_product r) = ean \<and> ps_target s = t \<and> ps_price s = x"
    then obtain r s where r: "r \<in> set rows" "rw_result r = Suggestion s" "rq_ean (rw_product r) = ean" "ps_target s = t" "ps_price s = x" by blast
    from page [OF r(1)] obtain k where k: "1 \<le> k" "r \<in> set (take (nat per) (drop (nat ((k - 1) * per)) rows))" by blast
    from resp [OF k(1)] obtain rs where rs: "suggestions collate slug (q\<lparr>qs_page := Some k\<rparr>) None db = Inr rs"
      "sr_rows rs = map (\<lambda>r. (rw_product r, rw_result r, rw_origem r)) (take (nat per) (drop (nat ((k - 1) * per)) rows))" by blast
    have "(rw_product r, Suggestion s, rw_origem r) \<in> set (sr_rows rs)" using k(2) r(2) by (force simp: rs(2))
    with k(1) rs(1) r(3-5) show ?pages by blast
  next
    assume ?pages
    then obtain k rs p s o' where k: "1 \<le> k" "suggestions collate slug (q\<lparr>qs_page := Some k\<rparr>) None db = Inr rs"
      "(p, Suggestion s, o') \<in> set (sr_rows rs)" "rq_ean p = ean" "ps_target s = t" "ps_price s = x" by blast
    from resp [OF k(1)] k(2) have "sr_rows rs = map (\<lambda>r. (rw_product r, rw_result r, rw_origem r))
        (take (nat per) (drop (nat ((k - 1) * per)) rows))" by simp
    with k(3) obtain r where "r \<in> set (take (nat per) (drop (nat ((k - 1) * per)) rows))" "rw_result r = Suggestion s" "rw_product r = p"
      by auto
    with k(4-6) show "\<exists>r \<in> set rows. \<exists>s. rw_result r = Suggestion s \<and> rq_ean (rw_product r) = ean \<and> ps_target s = t \<and> ps_price s = x"
      using in_set_dropD [OF in_set_takeD] by fast
  qed
qed

text \<open>
  C33. The price map and the pages. For a listing without filters, at whatever page size, a product has
  a target and price in the map that recalculates schedules exactly when some page of the listing
  shows it with a suggestion of that target and price: no page is skipped and none is read twice at
  its border, and the two computations agree on rules, prices and rounding.
\<close>

theorem price_map_is_what_the_pages_show:
  assumes "unfiltered q" "listing collate slug q None db = Inr (rows, n, books)"
    and "store_uuid slug (qs_store q) (catalog_of (sg_apply db)) = Inr storeUuid"
    and "price_map slug storeUuid None db = Inr m" "distinct (map pr_ean (ct_products (catalog_of (sg_apply db))))"
  shows "map_of m ean = Some (t, x) \<longleftrightarrow>
    (\<exists>k resp p s o'. 1 \<le> k \<and> suggestions collate slug (q\<lparr>qs_page := Some k\<rparr>) None db = Inr resp \<and>
       (p, Suggestion s, o') \<in> set (sr_rows resp) \<and> rq_ean p = ean \<and> ps_target s = t \<and> ps_price s = x)"
proof -
  from unfiltered_listing [OF assms(1-3)] obtain origins ctx where
    o: "enabled_origins slug (rules_of (sg_apply db)) = Inr origins" "rule_context slug None storeUuid db = Inr ctx"
    and rows: "\<And>r. is_suggestion (rw_result r) \<Longrightarrow>
       r \<in> set rows \<longleftrightarrow> r \<in> compute_row ctx ` set (load_products origins None None storeUuid None db)" by metis
  define ps where "ps = load_products origins None None storeUuid None db"
  define es where "es = concat (map (\<lambda>p. case rw_result (compute_row ctx p) of
      Suggestion s \<Rightarrow> [(rq_ean p, ps_target s, ps_price s)] | NoSuggestion _ _ \<Rightarrow> []) ps)"
  have m: "m = map_of_entries es" using assms(4) o by (simp add: price_map_def es_def ps_def)
  have prod: "rw_product (compute_row ctx p) = p" for p by (simp add: compute_row_def Let_def split: prod.splits)
  have es: "(e, v) \<in> set es \<longleftrightarrow> (\<exists>p s. p \<in> set ps \<and> rw_result (compute_row ctx p) = Suggestion s \<and> e = rq_ean p \<and> v = (ps_target s, ps_price s))" for e v
    by (force simp: es_def split: suggestion_result.splits)
  have uniq: "w = v" if "(e, v) \<in> set es" "(e, w) \<in> set es" for e v w
    using that load_products_eans [OF assms(5), of origins storeUuid None] by (fastforce simp: es ps_def [symmetric] dest: inj_onD)
  have "map_of m ean = Some (t, x) \<longleftrightarrow> (ean, t, x) \<in> set es"
    using set_map_of_entries_subset [of es] map_of_entries_unique [of ean "(t, x)" es] uniq by (auto simp: m dest: map_of_SomeD)
  also have "\<dots> \<longleftrightarrow> (\<exists>r \<in> set rows. \<exists>s. rw_result r = Suggestion s \<and> rq_ean (rw_product r) = ean \<and> ps_target s = t \<and> ps_price s = x)"
    using rows by (fastforce simp: es ps_def [symmetric] prod is_suggestion_def)
  also have "\<dots> \<longleftrightarrow> (\<exists>k resp p s o'. 1 \<le> k \<and> suggestions collate slug (q\<lparr>qs_page := Some k\<rparr>) None db = Inr resp \<and>
       (p, Suggestion s, o') \<in> set (sr_rows resp) \<and> rq_ean p = ean \<and> ps_target s = t \<and> ps_price s = x)"
    by (rule pages_show_listing [OF assms(2)])
  finally show ?thesis .
qed

theorem price_map_is_what_the_pages_show_witness:
  "\<exists>m rows n books. price_map ''acme'' None None demo_suggestions = Inr m \<and>
     listing id ''acme'' demo_query None demo_suggestions = Inr (rows, n, books) \<and>
     (map_of m ''789'' = Some (PrecoVenda, Num 20) \<longleftrightarrow>
       (\<exists>k resp p s o'. 1 \<le> k \<and> suggestions id ''acme'' (demo_query\<lparr>qs_page := Some k\<rparr>) None demo_suggestions = Inr resp \<and>
         (p, Suggestion s, o') \<in> set (sr_rows resp) \<and> rq_ean p = ''789'' \<and> ps_target s = PrecoVenda \<and> ps_price s = Num 20))"
proof -
  obtain rows n books r s where l: "listing id ''acme'' demo_query None demo_suggestions = Inr (rows, n, books)" "r \<in> set rows"
    by (rule demo_listing)
  have f: "unfiltered demo_query"
    by (simp add: unfiltered_def demo_query_def given_def truthy_string_def asked_books_def or_default_def split_on.simps js_trim_def)
  have u: "store_uuid ''acme'' (qs_store demo_query) (catalog_of (sg_apply demo_suggestions)) = Inr None"
    by (simp add: store_uuid_def given_def truthy_string_def demo_query_def)
  obtain m where m: "price_map ''acme'' None None demo_suggestions = Inr m"
    by (simp add: price_map_def demo_origins demo_rule_context)
  have d: "distinct (map pr_ean (ct_products (catalog_of (sg_apply demo_suggestions))))"
    by (simp add: catalog_of_def demo_suggestions_def demo_apply_def demo_catalog_def)
  show ?thesis
    by (intro exI conjI) (rule m, rule l(1), rule price_map_is_what_the_pages_show [OF f l(1) u m d])
qed

end
