(* ===== verification/Auth.thy ===== *)
theory Auth
  imports Apply_Price_Step
begin

text \<open>
  Sessions: \<open>src/auth/auth.service.ts\<close> with the tables \<open>core.user\<close>, \<open>core.tenant\<close> and
  \<open>core.refresh_token\<close>, the two guards of \<open>src/auth/guards\<close> and the lookups of
  \<open>src/tenant/tenant.service.ts\<close>. The digest, the password check, the random token and the clock
  (milliseconds) are arguments; a signed access token is its payload and the instant it expires.
  The e-mail column ignores case.
\<close>

section \<open>Tables\<close>

datatype user_role = Admin | Operator | Viewer
datatype tenant_status = TenantActive | TenantPaused | TenantSuspended
datatype module_code = CrossedProducts | ActiveIngredientAnalysis | PricingRulesModule | OfferBookRulesModule | StrategicPricing

fun module_value :: "module_code \<Rightarrow> string" where
  "module_value CrossedProducts = ''crossed-products''"
| "module_value ActiveIngredientAnalysis = ''active-ingredient-analysis''"
| "module_value PricingRulesModule = ''pricing-rules''"
| "module_value OfferBookRulesModule = ''offer-book-rules''"
| "module_value StrategicPricing = ''strategic-pricing''"

record auth_user =
  us_id :: string
  us_tenantId :: string
  us_email :: string
  us_passwordHash :: string
  us_role :: user_role
  us_active :: bool
  us_deleted :: bool

record auth_tenant =
  te_slug :: string
  te_status :: tenant_status
  te_modules :: "module_code list"
  te_storeLimit :: "nat option"
  te_deleted :: bool

record refresh_token =
  rt_userId :: string
  rt_tokenHash :: string
  rt_expiresAt :: int
  rt_revokedAt :: "int option"

record auth_db =
  au_users :: "auth_user list"
  au_tenants :: "auth_tenant list"
  au_tokens :: "refresh_token list"

record jwt_payload =
  jw_sub :: string
  jw_tenantId :: string
  jw_role :: user_role

record login_response =
  lr_accessToken :: "jwt_payload \<times> int"
  lr_refreshToken :: string
  lr_expiresIn :: int

record login_dto =
  lg_email :: string
  lg_password :: string
  lg_tenantSlug :: string

definition ACCESS_TOKEN_TTL_SECONDS :: int where
  "ACCESS_TOKEN_TTL_SECONDS = 60 * 60"

definition REFRESH_TOKEN_TTL_SECONDS :: int where
  "REFRESH_TOKEN_TTL_SECONDS = 60 * 60 * 24 * 14"

definition GRACE_MS :: int where
  "GRACE_MS = 60000"

section \<open>Tenants\<close>

definition find_tenant :: "string \<Rightarrow> auth_db \<Rightarrow> auth_tenant option" where
  "find_tenant slug db = find (\<lambda>t. te_slug t = slug \<and> \<not> te_deleted t) (au_tenants db)"

definition find_by_slug :: "string \<Rightarrow> auth_db \<Rightarrow> auth_tenant outcome" where
  "find_by_slug slug db =
     (case find_tenant slug db of
        None \<Rightarrow> Inl (NotFoundException (''Tenant '' @ slug @ '' not found'')) | Some t \<Rightarrow> Inr t)"

definition find_active :: "string \<Rightarrow> auth_db \<Rightarrow> auth_tenant outcome" where
  "find_active slug db =
     bind_outcome (find_by_slug slug db) (\<lambda>t.
       if te_status t \<noteq> TenantActive then Inl (NotFoundException (''Tenant '' @ slug @ '' is not active'')) else Inr t)"

definition list_active :: "auth_db \<Rightarrow> auth_tenant list" where
  "list_active db = filter (\<lambda>t. te_status t = TenantActive \<and> \<not> te_deleted t) (au_tenants db)"

section \<open>Tokens\<close>

text \<open>A new pair; the digests of the stored tokens are unique.\<close>

definition issue_tokens ::
  "(string \<Rightarrow> string) \<Rightarrow> int \<Rightarrow> string \<Rightarrow> auth_user \<Rightarrow> auth_db \<Rightarrow> auth_db \<times> login_response outcome" where
  "issue_tokens digest now fresh user db =
     (let row = \<lparr>rt_userId = us_id user, rt_tokenHash = digest fresh,
            rt_expiresAt = now + REFRESH_TOKEN_TTL_SECONDS * 1000, rt_revokedAt = None\<rparr>
      in if list_ex (\<lambda>r. rt_tokenHash r = digest fresh) (au_tokens db)
         then (db, Inl (Error ''duplicate key value violates unique constraint''))
         else (db\<lparr>au_tokens := au_tokens db @ [row]\<rparr>,
               Inr \<lparr>lr_accessToken = (\<lparr>jw_sub = us_id user, jw_tenantId = us_tenantId user, jw_role = us_role user\<rparr>,
                                      now + ACCESS_TOKEN_TTL_SECONDS * 1000),
                    lr_refreshToken = fresh, lr_expiresIn = ACCESS_TOKEN_TTL_SECONDS\<rparr>))"

text \<open>Revokes what is not revoked yet, dated before the grace window.\<close>

definition revoke_all_for_user :: "int \<Rightarrow> string \<Rightarrow> auth_db \<Rightarrow> auth_db" where
  "revoke_all_for_user now userId db =
     db\<lparr>au_tokens := update_where (\<lambda>r. rt_userId r = userId \<and> rt_revokedAt r = None)
        (\<lambda>r. r\<lparr>rt_revokedAt := Some (now - GRACE_MS)\<rparr>) (au_tokens db)\<rparr>"

definition tenant_admits :: "string \<Rightarrow> auth_db \<Rightarrow> bool" where
  "tenant_admits slug db = (case find_tenant slug db of None \<Rightarrow> False | Some t \<Rightarrow> te_status t \<noteq> TenantSuspended)"

section \<open>The service\<close>

definition login ::
  "(string \<Rightarrow> string) \<Rightarrow> (string \<Rightarrow> string \<Rightarrow> bool) \<Rightarrow> int \<Rightarrow> string \<Rightarrow> login_dto \<Rightarrow> auth_db \<Rightarrow> auth_db \<times> login_response outcome" where
  "login digest verify now fresh dto db =
     (case find (\<lambda>u. us_tenantId u = lg_tenantSlug dto \<and> lower (us_email u) = lower (lg_email dto) \<and> \<not> us_deleted u) (au_users db) of
        None \<Rightarrow> (db, Inl (UnauthorizedException ''Invalid credentials''))
      | Some user \<Rightarrow>
          if \<not> tenant_admits (lg_tenantSlug dto) db \<or> \<not> us_active user
          then (db, Inl (UnauthorizedException ''Invalid credentials''))
          else if \<not> verify (us_passwordHash user) (lg_password dto)
          then (db, Inl (UnauthorizedException ''Invalid credentials''))
          else issue_tokens digest now fresh user db)"

definition invalid_refresh :: exn where
  "invalid_refresh = UnauthorizedException ''Invalid refresh token''"

text \<open>Whether the presented token was rotated or revoked too long ago.\<close>

definition reused :: "int \<Rightarrow> refresh_token \<Rightarrow> bool" where
  "reused now row = (case rt_revokedAt row of None \<Rightarrow> False | Some t \<Rightarrow> GRACE_MS \<le> now - t)"

text \<open>The checks of a refresh, with the response to a reuse; then the rotation of the row that was read.\<close>

definition refresh_check ::
  "(string \<Rightarrow> string) \<Rightarrow> int \<Rightarrow> string \<Rightarrow> auth_db \<Rightarrow> auth_db \<times> (refresh_token \<times> auth_user) outcome" where
  "refresh_check digest now token db =
     (case find (\<lambda>r. rt_tokenHash r = digest token) (au_tokens db) of
        None \<Rightarrow> (db, Inl invalid_refresh)
      | Some row \<Rightarrow>
          if reused now row then (revoke_all_for_user now (rt_userId row) db, Inl invalid_refresh)
          else if rt_expiresAt row < now then (db, Inl invalid_refresh)
          else (case find (\<lambda>u. us_id u = rt_userId row \<and> \<not> us_deleted u) (au_users db) of
             None \<Rightarrow> (db, Inl invalid_refresh)
           | Some user \<Rightarrow>
               if \<not> us_active user \<or> \<not> tenant_admits (us_tenantId user) db then (db, Inl invalid_refresh)
               else (db, Inr (row, user))))"

definition refresh_rotate ::
  "(string \<Rightarrow> string) \<Rightarrow> int \<Rightarrow> string \<Rightarrow> refresh_token \<Rightarrow> auth_user \<Rightarrow> auth_db \<Rightarrow> auth_db \<times> login_response outcome" where
  "refresh_rotate digest now fresh row user db =
     issue_tokens digest now fresh user
       (if rt_revokedAt row = None
        then db\<lparr>au_tokens := update_where (\<lambda>r. rt_tokenHash r = rt_tokenHash row \<and> rt_revokedAt r = None)
                  (\<lambda>r. r\<lparr>rt_revokedAt := Some now\<rparr>) (au_tokens db)\<rparr>
        else db)"

definition refresh ::
  "(string \<Rightarrow> string) \<Rightarrow> int \<Rightarrow> string \<Rightarrow> string \<Rightarrow> auth_db \<Rightarrow> auth_db \<times> login_response outcome" where
  "refresh digest now fresh token db =
     (case refresh_check digest now token db of
        (db', Inl e) \<Rightarrow> (db', Inl e)
      | (db', Inr (row, user)) \<Rightarrow> refresh_rotate digest now fresh row user db')"

definition logout :: "int \<Rightarrow> string \<Rightarrow> auth_db \<Rightarrow> auth_db" where
  "logout now userId db = revoke_all_for_user now userId db"

section \<open>Guards\<close>

definition roles_guard :: "user_role list option \<Rightarrow> user_role option \<Rightarrow> unit outcome" where
  "roles_guard required role =
     (case required of
        None \<Rightarrow> Inr ()
      | Some rs \<Rightarrow>
          if rs = [] then Inr ()
          else (case role of
             None \<Rightarrow> Inl (ForbiddenException ''Insufficient role'')
           | Some r \<Rightarrow> if r \<in> set rs then Inr () else Inl (ForbiddenException ''Insufficient role'')))"

fun join_or :: "string list \<Rightarrow> string" where
  "join_or [] = ''''"
| "join_or [x] = x"
| "join_or (x # y # xs) = x @ '' or '' @ join_or (y # xs)"

definition modules_guard :: "module_code list option \<Rightarrow> jwt_payload option \<Rightarrow> auth_db \<Rightarrow> unit outcome" where
  "modules_guard required user db =
     (case required of
        None \<Rightarrow> Inr ()
      | Some ms \<Rightarrow>
          if ms = [] then Inr ()
          else (case user of
             None \<Rightarrow> Inl (ForbiddenException ''Missing user'')
           | Some u \<Rightarrow>
               if jw_tenantId u = ''system'' then Inr ()
               else (case find_by_slug (jw_tenantId u) db of
                  Inl e \<Rightarrow> Inl (ForbiddenException ''Tenant offboarded'')
                | Inr t \<Rightarrow>
                    if te_status t \<noteq> TenantActive then Inl (ForbiddenException ''Tenant not active'')
                    else if \<not> list_ex (\<lambda>m. m \<in> set (te_modules t)) ms then Inl (ForbiddenException (''Module not enabled for tenant: '' @ join_or (map module_value ms)))
                    else Inr ())))"

definition me :: "jwt_payload \<Rightarrow> auth_db \<Rightarrow> (jwt_payload \<times> module_code list) outcome" where
  "me user db =
     (if jw_tenantId user = ''system''
      then Inr (user, [CrossedProducts, ActiveIngredientAnalysis, PricingRulesModule, OfferBookRulesModule, StrategicPricing])
      else (case find_by_slug (jw_tenantId user) db of
         Inl e \<Rightarrow> Inl (UnauthorizedException ''Unauthorized'')
       | Inr t \<Rightarrow> Inr (user, te_modules t)))"

section \<open>Sessions end\<close>

text \<open>What happens to the tables of the sessions, one operation at a time; users and tenants may change.\<close>

inductive session_step :: "(string \<Rightarrow> string) \<Rightarrow> auth_db \<Rightarrow> auth_db \<Rightarrow> bool" for digest where
  Login: "session_step digest db (fst (login digest verify now fresh dto db))"
| Check: "session_step digest db (fst (refresh_check digest now token db))"
| Rotate: "session_step digest db (fst (refresh_rotate digest now fresh row user db))"
| Logout: "session_step digest db (logout now userId db)"
| Administration: "session_step digest db (db\<lparr>au_users := users, au_tenants := tenants\<rparr>)"

text \<open>A stored token whose revocation is dated past the grace window at the instant.\<close>

definition dead_token :: "int \<Rightarrow> string \<Rightarrow> auth_db \<Rightarrow> bool" where
  "dead_token now h db \<longleftrightarrow> distinct (map rt_tokenHash (au_tokens db)) \<and>
     (\<exists>r \<in> set (au_tokens db). rt_tokenHash r = h \<and> (\<exists>t. rt_revokedAt r = Some t \<and> t \<le> now - GRACE_MS))"

lemma dead_update:
  assumes "dead_token now h db" "\<And>r. rt_tokenHash (f r) = rt_tokenHash r"
  shows "dead_token now h (db\<lparr>au_tokens := update_where (\<lambda>r. P r \<and> rt_revokedAt r = None) f (au_tokens db)\<rparr>)"
proof -
  obtain r t where r: "r \<in> set (au_tokens db)" "rt_tokenHash r = h" "rt_revokedAt r = Some t" "t \<le> now - GRACE_MS"
    using assms(1) by (auto simp: dead_token_def)
  then have "r \<in> set (update_where (\<lambda>r. P r \<and> rt_revokedAt r = None) f (au_tokens db))"
    by (force simp: set_update_where)
  then show ?thesis using assms r by (auto simp: dead_token_def map_update_where)
qed

lemma dead_issue: "dead_token now h db \<Longrightarrow> dead_token now h (fst (issue_tokens digest now' fresh user db))"
  by (auto simp: issue_tokens_def Let_def dead_token_def list_ex_iff)

lemma dead_revoke: "dead_token now h db \<Longrightarrow> dead_token now h (revoke_all_for_user now' u db)"
  unfolding revoke_all_for_user_def by (rule dead_update) simp_all

lemma dead_rotate: "dead_token now h db \<Longrightarrow> dead_token now h (fst (refresh_rotate digest now' fresh row user db))"
  unfolding refresh_rotate_def by (intro dead_issue) (auto intro: dead_update)

lemma dead_check: "dead_token now h db \<Longrightarrow> dead_token now h (fst (refresh_check digest now' token db))"
  by (auto simp: refresh_check_def dead_revoke split: option.splits)

lemma dead_stays: "session_step digest db db' \<Longrightarrow> dead_token now h db \<Longrightarrow> dead_token now h db'"
proof (induction rule: session_step.induct)
  case (Login db verify now' fresh dto)
  then show ?case by (auto simp: login_def dead_issue split: option.splits)
next
  case (Administration db users tenants)
  then show ?case by (simp add: dead_token_def)
qed (simp_all add: dead_check dead_rotate logout_def dead_revoke)

lemma dead_refused:
  assumes "dead_token now (digest token) db" "now \<le> later"
  shows "snd (refresh digest later fresh token db) = Inl invalid_refresh"
proof -
  obtain r t where r: "r \<in> set (au_tokens db)" "rt_tokenHash r = digest token" "rt_revokedAt r = Some t" "t \<le> now - GRACE_MS"
    and d: "distinct (map rt_tokenHash (au_tokens db))"
    using assms(1) by (auto simp: dead_token_def)
  obtain r' where f: "find (\<lambda>r. rt_tokenHash r = digest token) (au_tokens db) = Some r'"
    using r(1,2) by (cases "find (\<lambda>r. rt_tokenHash r = digest token) (au_tokens db)") (auto simp: find_None_iff)
  then have "r' \<in> set (au_tokens db)" "rt_tokenHash r' = digest token" by (auto simp: find_Some_iff)
  then have "r' = r" using d r(1,2) by (metis distinct_map inj_on_contraD)
  then have "reused later r'" using r(3,4) assms(2) by (simp add: reused_def GRACE_MS_def)
  then show ?thesis by (simp add: refresh_def refresh_check_def f)
qed

text \<open>
  C31. A logout ends the live sessions of the user: a token that was not revoked when the user logged
  out is refused ever after, whatever operations follow, those of other sessions included.
\<close>

theorem logout_ends_live_sessions:
  assumes "distinct (map rt_tokenHash (au_tokens db))" "row \<in> set (au_tokens db)" "rt_userId row = userId" "rt_revokedAt row = None"
    and "(session_step digest)\<^sup>*\<^sup>* (logout now userId db) db'" "rt_tokenHash row = digest token" "now \<le> later"
  shows "snd (refresh digest later fresh token db') = Inl (UnauthorizedException ''Invalid refresh token'')"
proof -
  have mem: "row\<lparr>rt_revokedAt := Some (now - GRACE_MS)\<rparr> \<in> set (au_tokens (logout now userId db))"
    using assms(2-4) by (auto simp: logout_def revoke_all_for_user_def set_update_where)
  have "distinct (map rt_tokenHash (au_tokens (logout now userId db)))"
    using assms(1) by (simp add: logout_def revoke_all_for_user_def map_update_where)
  with mem have "dead_token now (digest token) (logout now userId db)"
    using assms(6) unfolding dead_token_def by (intro conjI bexI [of _ "row\<lparr>rt_revokedAt := Some (now - GRACE_MS)\<rparr>"]) simp_all
  with assms(5) have "dead_token now (digest token) db'"
    by (induction rule: rtranclp_induct) (auto intro: dead_stays)
  from dead_refused [where now = now and token = token and digest = digest and db = db', OF this assms(7)] show ?thesis by (simp add: invalid_refresh_def)
qed

section \<open>A concrete tenant\<close>

definition demo_user :: auth_user where
  "demo_user = \<lparr>us_id = ''u1'', us_tenantId = ''acme'', us_email = ''a@b.c'', us_passwordHash = ''pw'', us_role = Operator,
     us_active = True, us_deleted = False\<rparr>"

definition demo_auth :: "refresh_token list \<Rightarrow> auth_db" where
  "demo_auth tokens = \<lparr>au_users = [demo_user],
     au_tenants = [\<lparr>te_slug = ''acme'', te_status = TenantActive, te_modules = [], te_storeLimit = None, te_deleted = False\<rparr>],
     au_tokens = tokens\<rparr>"

definition demo_token :: "string \<Rightarrow> int option \<Rightarrow> refresh_token" where
  "demo_token h revoked = \<lparr>rt_userId = ''u1'', rt_tokenHash = h, rt_expiresAt = 1000000000, rt_revokedAt = revoked\<rparr>"

theorem logout_ends_live_sessions_witness:
  "snd (refresh (\<lambda>x. x) 30 ''t9'' ''t1'' (logout 20 ''u1'' (demo_auth [demo_token ''t1'' None]))) =
     Inl (UnauthorizedException ''Invalid refresh token'')"
  by (rule logout_ends_live_sessions [where db = "demo_auth [demo_token ''t1'' None]" and row = "demo_token ''t1'' None" and userId = "''u1''" and now = 20])
    (simp_all add: demo_auth_def demo_token_def)

lemma issue_tokens_cases:
  "(\<exists>r. issue_tokens digest now fresh u db = (db\<lparr>au_tokens := au_tokens db @ [\<lparr>rt_userId = us_id u, rt_tokenHash = digest fresh,
        rt_expiresAt = now + REFRESH_TOKEN_TTL_SECONDS * 1000, rt_revokedAt = None\<rparr>]\<rparr>, Inr r) \<and> lr_refreshToken r = fresh \<and>
      fst (lr_accessToken r) = \<lparr>jw_sub = us_id u, jw_tenantId = us_tenantId u, jw_role = us_role u\<rparr>) \<or>
   (\<exists>m. issue_tokens digest now fresh u db = (db, Inl (Error m)))"
  by (simp add: issue_tokens_def Let_def)

text \<open>A user who logs in is active, in a tenant that is not suspended; a refused login changes nothing.\<close>

lemma login_admits:
  assumes "login digest verify now fresh dto db = (db', out)"
  shows "case out of
       Inr r \<Rightarrow> \<exists>u \<in> set (au_users db). us_active u \<and> us_tenantId u = lg_tenantSlug dto \<and> tenant_admits (us_tenantId u) db \<and>
          verify (us_passwordHash u) (lg_password dto) \<and> jw_sub (fst (lr_accessToken r)) = us_id u
     | Inl e \<Rightarrow> db' = db"
proof (cases "find (\<lambda>u. us_tenantId u = lg_tenantSlug dto \<and> lower (us_email u) = lower (lg_email dto) \<and> \<not> us_deleted u) (au_users db)")
  case None
  then show ?thesis using assms by (auto simp: login_def)
next
  case (Some u)
  then have u: "u \<in> set (au_users db)" "us_tenantId u = lg_tenantSlug dto" by (auto simp: find_Some_iff)
  show ?thesis
    using assms issue_tokens_cases [of digest now fresh u db] u
    by (auto simp: login_def Some split: if_splits intro!: bexI [of _ u])
qed

lemma refresh_check_cases:
  assumes "refresh_check digest now token db = (db1, out)"
  shows "case out of
      Inr (row, u) \<Rightarrow> db1 = db \<and> row \<in> set (au_tokens db) \<and> rt_tokenHash row = digest token \<and> \<not> reused now row \<and>
        now \<le> rt_expiresAt row \<and> u \<in> set (au_users db) \<and> us_id u = rt_userId row \<and> us_active u \<and> tenant_admits (us_tenantId u) db
    | Inl e \<Rightarrow> e = invalid_refresh \<and> (db1 = db \<or> (\<exists>row \<in> set (au_tokens db). rt_tokenHash row = digest token \<and> reused now row \<and>
        db1 = revoke_all_for_user now (rt_userId row) db))"
proof (cases "find (\<lambda>r. rt_tokenHash r = digest token) (au_tokens db)")
  case None
  then show ?thesis using assms by (auto simp: refresh_check_def)
next
  case (Some row)
  then have row: "row \<in> set (au_tokens db)" "rt_tokenHash row = digest token" by (auto simp: find_Some_iff)
  show ?thesis
  proof (cases "reused now row \<or> rt_expiresAt row < now")
    case True
    then show ?thesis using assms row by (auto simp: refresh_check_def Some split: if_splits)
  next
    case False
    show ?thesis
    proof (cases "find (\<lambda>u. us_id u = rt_userId row \<and> \<not> us_deleted u) (au_users db)")
      case None
      then show ?thesis using assms False by (auto simp: refresh_check_def Some)
    next
      case (Some u)
      then have "u \<in> set (au_users db)" "us_id u = rt_userId row" by (auto simp: find_Some_iff)
      then show ?thesis
        using assms False row Some \<open>find (\<lambda>r. rt_tokenHash r = digest token) (au_tokens db) = Some row\<close>
        by (auto simp: refresh_check_def split: if_splits)
    qed
  qed
qed

text \<open>
  A refresh on every branch. It opens a session only for a stored token within its expiry, not
  revoked or rotated less than a minute ago, of an active user in a tenant that is not suspended: the
  new access token names that user, exactly one refresh token is added, and the presented one is
  revoked. A refused refresh opens no session: every token that is live afterwards was live before.
  When it is refused because the token was reused too late, no live token of its user remains.
\<close>

lemma refresh_rotates_or_refuses:
  assumes "refresh digest now fresh token db = (db', out)" "distinct (map rt_tokenHash (au_tokens db))"
  shows "case out of
      Inr r \<Rightarrow> \<exists>row \<in> set (au_tokens db). \<exists>u \<in> set (au_users db).
          rt_tokenHash row = digest token \<and> now \<le> rt_expiresAt row \<and> \<not> reused now row \<and> us_id u = rt_userId row \<and> us_active u \<and>
          tenant_admits (us_tenantId u) db \<and>
          fst (lr_accessToken r) = \<lparr>jw_sub = us_id u, jw_tenantId = us_tenantId u, jw_role = us_role u\<rparr> \<and>
          map rt_tokenHash (au_tokens db') = map rt_tokenHash (au_tokens db) @ [digest fresh] \<and>
          list_all (\<lambda>r. rt_tokenHash r = digest token \<longrightarrow> rt_revokedAt r \<noteq> None) (butlast (au_tokens db'))
    | Inl e \<Rightarrow> list_all (\<lambda>r. rt_revokedAt r = None \<longrightarrow> r \<in> set (au_tokens db)) (au_tokens db') \<and>
        (list_ex (\<lambda>r. rt_tokenHash r = digest token \<and> reused now r) (au_tokens db) \<longrightarrow>
           (\<exists>u. list_ex (\<lambda>r. rt_tokenHash r = digest token \<and> rt_userId r = u) (au_tokens db) \<and>
              list_all (\<lambda>r. rt_userId r = u \<longrightarrow> rt_revokedAt r \<noteq> None) (au_tokens db')))"
proof -
  obtain db1 c where c: "refresh_check digest now token db = (db1, c)" by fastforce
  note cs = refresh_check_cases [OF c]
  show ?thesis
  proof (cases c)
    case (Inl e)
    then have o: "out = Inl e" "db' = db1" using assms(1) c by (simp_all add: refresh_def)
    have reuse: "\<exists>u. list_ex (\<lambda>r. rt_tokenHash r = digest token \<and> rt_userId r = u) (au_tokens db) \<and>
        list_all (\<lambda>r. rt_userId r = u \<longrightarrow> rt_revokedAt r \<noteq> None) (au_tokens db1)"
      if r: "list_ex (\<lambda>r. rt_tokenHash r = digest token \<and> reused now r) (au_tokens db)"
    proof -
      obtain row where row: "row \<in> set (au_tokens db)" "rt_tokenHash row = digest token" "reused now row"
        using r by (auto simp: list_ex_iff)
      have "find (\<lambda>r. rt_tokenHash r = digest token) (au_tokens db) \<noteq> None" using row by (auto simp: find_None_iff)
      then obtain r' where f: "find (\<lambda>r. rt_tokenHash r = digest token) (au_tokens db) = Some r'" by blast
      then have "r' \<in> set (au_tokens db)" "rt_tokenHash r' = digest token" by (auto simp: find_Some_iff)
      then have "r' = row" using assms(2) row(1,2) by (metis distinct_map inj_on_contraD)
      then have "db1 = revoke_all_for_user now (rt_userId row) db" using c row(3) f by (simp add: refresh_check_def)
      then have "list_all (\<lambda>r. rt_userId r = rt_userId row \<longrightarrow> rt_revokedAt r \<noteq> None) (au_tokens db1)"
        by (auto simp: revoke_all_for_user_def list_all_iff set_update_where)
      with row(1,2) show ?thesis by (intro exI [of _ "rt_userId row"]) (auto simp: list_ex_iff)
    qed
    have "list_all (\<lambda>r. rt_revokedAt r = None \<longrightarrow> r \<in> set (au_tokens db)) (au_tokens db1)"
      using cs Inl by (auto simp: revoke_all_for_user_def list_all_iff set_update_where)
    then show ?thesis using o reuse by simp
  next
    case (Inr p)
    obtain row u where p: "p = (row, u)" by (cases p)
    have row: "db1 = db" "row \<in> set (au_tokens db)" "rt_tokenHash row = digest token" "\<not> reused now row" "now \<le> rt_expiresAt row"
      "u \<in> set (au_users db)" "us_id u = rt_userId row" "us_active u" "tenant_admits (us_tenantId u) db"
      using cs Inr p by simp_all
    let ?rot = "if rt_revokedAt row = None
        then db\<lparr>au_tokens := update_where (\<lambda>r. rt_tokenHash r = rt_tokenHash row \<and> rt_revokedAt r = None) (\<lambda>r. r\<lparr>rt_revokedAt := Some now\<rparr>) (au_tokens db)\<rparr>
        else db"
    have r: "issue_tokens digest now fresh u ?rot = (db', out)"
      using assms(1) c Inr p row(1) by (simp add: refresh_def refresh_rotate_def)
    have h: "map rt_tokenHash (au_tokens ?rot) = map rt_tokenHash (au_tokens db)" by (simp add: map_update_where)
    have live: "list_all (\<lambda>r. rt_revokedAt r = None \<longrightarrow> r \<in> set (au_tokens db)) (au_tokens ?rot)"
      by (auto simp: list_all_iff set_update_where)
    have gone: "list_all (\<lambda>r. rt_tokenHash r = digest token \<longrightarrow> rt_revokedAt r \<noteq> None) (au_tokens ?rot)"
    proof (cases "rt_revokedAt row = None")
      case True
      then show ?thesis using row(3) by (auto simp: list_all_iff set_update_where)
    next
      case False
      have "r = row" if "r \<in> set (au_tokens db)" "rt_tokenHash r = digest token" for r
        using that assms(2) row(2,3) by (metis distinct_map inj_on_contraD)
      then show ?thesis using False by (auto simp: list_all_iff)
    qed
    from issue_tokens_cases [of digest now fresh u ?rot] show ?thesis
    proof (elim disjE exE conjE)
      fix x
      assume i: "issue_tokens digest now fresh u ?rot = (?rot\<lparr>au_tokens := au_tokens ?rot @ [\<lparr>rt_userId = us_id u, rt_tokenHash = digest fresh,
          rt_expiresAt = now + REFRESH_TOKEN_TTL_SECONDS * 1000, rt_revokedAt = None\<rparr>]\<rparr>, Inr x)"
        and x: "fst (lr_accessToken x) = \<lparr>jw_sub = us_id u, jw_tenantId = us_tenantId u, jw_role = us_role u\<rparr>"
      have o: "out = Inr x" "map rt_tokenHash (au_tokens db') = map rt_tokenHash (au_tokens db) @ [digest fresh]"
        "butlast (au_tokens db') = au_tokens ?rot"
        using r h unfolding i by auto
      show ?thesis
        unfolding o sum.case using row gone x by (intro bexI [of _ row] bexI [of _ u]) simp_all
    next
      fix m
      assume "issue_tokens digest now fresh u ?rot = (?rot, Inl (Error m))"
      then have o: "out = Inl (Error m)" "db' = ?rot" using r by simp_all
      have "\<not> list_ex (\<lambda>r. rt_tokenHash r = digest token \<and> reused now r) (au_tokens db)"
      proof
        assume "list_ex (\<lambda>r. rt_tokenHash r = digest token \<and> reused now r) (au_tokens db)"
        then obtain r where "r \<in> set (au_tokens db)" "rt_tokenHash r = digest token" "reused now r" by (auto simp: list_ex_iff)
        then show False using assms(2) row(2-4) by (metis distinct_map inj_on_contraD)
      qed
      then show ?thesis unfolding o sum.case using live by simp
    qed
  qed
qed

text \<open>
  Rotation is not dated before the grace window, and a logout leaves what is revoked already as it is:
  a token that was rotated less than a minute before the logout still opens a session after it.
\<close>

lemma rotated_token_survives_logout:
  "\<exists>db1 db2 r1 r2.
     refresh (\<lambda>x. x) 1000 ''t2'' ''t1'' (demo_auth [demo_token ''t1'' None]) = (db1, Inr r1) \<and>
     refresh (\<lambda>x. x) 3000 ''t3'' ''t1'' (logout 2000 ''u1'' db1) = (db2, Inr r2)"
  by (simp add: refresh_def refresh_check_def refresh_rotate_def issue_tokens_def reused_def demo_auth_def demo_token_def demo_user_def
      tenant_admits_def find_tenant_def update_where_def Let_def logout_def revoke_all_for_user_def GRACE_MS_def)

text \<open>
  The rotation checks nothing again: when the user logs out between the checks of a refresh and its
  rotation, the refresh still opens a session.
\<close>

lemma refresh_in_flight_survives_logout:
  "\<exists>db1 row u db2 r.
     refresh_check (\<lambda>x. x) 1000 ''t1'' (demo_auth [demo_token ''t1'' None]) = (db1, Inr (row, u)) \<and>
     refresh_rotate (\<lambda>x. x) 1002 ''t2'' row u (logout 1001 ''u1'' db1) = (db2, Inr r)"
  by (simp add: refresh_check_def refresh_rotate_def issue_tokens_def reused_def demo_auth_def demo_token_def demo_user_def
      tenant_admits_def find_tenant_def update_where_def Let_def logout_def revoke_all_for_user_def)

end

