(* ===== verification/Pricing_Schedule.thy ===== *)
theory Pricing_Schedule
  imports Suggestion_Guard Auth
begin

text \<open>
  Scheduled applications: \<open>src/tenant-api/pricing/pricing-schedule.service.ts\<close> and
  \<open>pricing-schedule.cron.ts\<close>. A schedule keeps frozen items or recalculates them when it fires; a
  firing is one transaction that claims the oldest due schedule, applies its prices in bulk and marks
  it fired, or arms it again at the next occurrence of its cron expression. Instants are microseconds,
  as the database keeps them; a JavaScript date keeps the milliseconds. The cron library, that is the
  validity and the next occurrence of an expression, is a parameter. Messages are written without
  accents.
\<close>

section \<open>Instants as text\<close>

text \<open>The civil date of a day count from 1970, and \<open>toISOString\<close> of an instant.\<close>

definition civil_of_days :: "int \<Rightarrow> int \<times> int \<times> int" where
  "civil_of_days z =
     (let z = z + 719468; era = z div 146097; doe = z mod 146097;
          yoe = (doe - doe div 1460 + doe div 36524 - doe div 146096) div 365;
          doy = doe - (365 * yoe + yoe div 4 - yoe div 100);
          mp = (5 * doy + 2) div 153;
          month = (if mp < 10 then mp + 3 else mp - 9)
      in (yoe + era * 400 + (if month \<le> 2 then 1 else 0), month, doy - (153 * mp + 2) div 5 + 1))"

definition pad :: "nat \<Rightarrow> int \<Rightarrow> string" where
  "pad k n = (let s = show_nat (nat n) in replicate (k - length s) (CHR ''0'') @ s)"

definition iso_string :: "int \<Rightarrow> string" where
  "iso_string t =
     (let ms = t div 1000; day = ms div 86400000; rest = ms mod 86400000 in
      case civil_of_days day of (y, m, d) \<Rightarrow>
        (if 0 \<le> y \<and> y \<le> 9999 then pad 4 y else if y < 0 then ''-'' @ pad 6 (- y) else ''+'' @ pad 6 y) @
        ''-'' @ pad 2 m @ ''-'' @ pad 2 d @ ''T'' @ pad 2 (rest div 3600000) @ '':'' @ pad 2 (rest div 60000 mod 60) @
        '':'' @ pad 2 (rest div 1000 mod 60) @ ''.'' @ pad 3 (rest mod 1000) @ ''Z'')"

text \<open>A column read as a date: the microseconds are lost.\<close>

definition js_date :: "int \<Rightarrow> int" where
  "js_date t = t div 1000 * 1000"

section \<open>Schedules\<close>

datatype schedule_status = SchedulePending | ScheduleFired | ScheduleCancelled | ScheduleFailed

fun schedule_status_value :: "schedule_status \<Rightarrow> string" where
  "schedule_status_value SchedulePending = ''pending''"
| "schedule_status_value ScheduleFired = ''fired''"
| "schedule_status_value ScheduleCancelled = ''cancelled''"
| "schedule_status_value ScheduleFailed = ''failed''"

record schedule =
  sc_id :: string
  sc_runAt :: int
  sc_status :: schedule_status
  sc_requestedBy :: "string option"
  sc_items :: "apply_item_dto list"
  sc_applyRunId :: "string option"
  sc_firedAt :: "int option"
  sc_cronExpr :: "string option"
  sc_recalc :: bool
  sc_createdAt :: int
  sc_deleted :: bool

record sched_db =
  sd_tables :: suggestions_db
  sd_schedules :: "schedule list"

record schedule_view =
  vs_id :: string
  vs_runAt :: string
  vs_status :: string
  vs_applyRunId :: "string option"
  vs_itemCount :: nat
  vs_cronExpr :: "string option"
  vs_recalc :: bool
  vs_createdAt :: string

record create_schedule_dto =
  cs_runAt :: int
  cs_items :: "apply_item_dto list"
  cs_cronExpr :: "string option"
  cs_recalc :: "bool option"

definition to_view :: "schedule \<Rightarrow> schedule_view" where
  "to_view r = \<lparr>vs_id = sc_id r, vs_runAt = iso_string (sc_runAt r), vs_status = schedule_status_value (sc_status r),
     vs_applyRunId = sc_applyRunId r, vs_itemCount = length (sc_items r), vs_cronExpr = sc_cronExpr r,
     vs_recalc = sc_recalc r, vs_createdAt = iso_string (sc_createdAt r)\<rparr>"

definition create_schedule ::
  "(string \<Rightarrow> bool) \<Rightarrow> int \<Rightarrow> string \<Rightarrow> string \<Rightarrow> create_schedule_dto \<Rightarrow> sched_db \<Rightarrow> sched_db \<times> schedule_view outcome" where
  "create_schedule validCron now newId requestedBy dto db =
     (if (case given (cs_cronExpr dto) of None \<Rightarrow> False | Some c \<Rightarrow> \<not> validCron c)
      then (db, Inl (BadRequestException (''cron invalido: '' @ or_default (cs_cronExpr dto) [])))
      else
          let row = \<lparr>sc_id = newId, sc_runAt = cs_runAt dto, sc_status = SchedulePending, sc_requestedBy = Some requestedBy,
                 sc_items = cs_items dto, sc_applyRunId = None, sc_firedAt = None, sc_cronExpr = cs_cronExpr dto,
                 sc_recalc = or_default (cs_recalc dto) False, sc_createdAt = now, sc_deleted = False\<rparr>
          in (db\<lparr>sd_schedules := sd_schedules db @ [row]\<rparr>, Inr (to_view row)))"

definition list_schedules :: "sched_db \<Rightarrow> schedule_view list" where
  "list_schedules db = map to_view (rev (sort_key sc_runAt (filter (\<lambda>s. \<not> sc_deleted s) (sd_schedules db))))"

definition get_schedule :: "string \<Rightarrow> sched_db \<Rightarrow> schedule_view outcome" where
  "get_schedule i db =
     (case find (\<lambda>s. sc_id s = i \<and> \<not> sc_deleted s) (sd_schedules db) of
        None \<Rightarrow> Inl (NotFoundException (''schedule '' @ i @ '' not found'')) | Some s \<Rightarrow> Inr (to_view s))"

definition cancel_schedule :: "string \<Rightarrow> sched_db \<Rightarrow> sched_db \<times> string outcome" where
  "cancel_schedule i db =
     (if list_ex (\<lambda>s. sc_id s = i \<and> sc_status s = SchedulePending) (sd_schedules db)
      then (db\<lparr>sd_schedules := update_where (\<lambda>s. sc_id s = i \<and> sc_status s = SchedulePending)
              (\<lambda>s. s\<lparr>sc_status := ScheduleCancelled\<rparr>) (sd_schedules db)\<rparr>, Inr i)
      else (db, (case get_schedule i db of
          Inl e \<Rightarrow> Inl e
        | Inr v \<Rightarrow> Inl (ConflictException (''schedule '' @ i @ '' is '' @ vs_status v @ '' and cannot be cancelled'')))))"

section \<open>The path of the cron\<close>

definition due :: "int \<Rightarrow> schedule \<Rightarrow> bool" where
  "due now s \<longleftrightarrow> sc_status s = SchedulePending \<and> \<not> sc_deleted s \<and> sc_runAt s \<le> now"

text \<open>The oldest due schedule no other transaction holds.\<close>

definition claim_next :: "int \<Rightarrow> (string \<Rightarrow> bool) \<Rightarrow> sched_db \<Rightarrow> schedule option" where
  "claim_next now locked db =
     (case sort_key sc_runAt (filter (\<lambda>s. due now s \<and> \<not> locked (sc_id s)) (sd_schedules db)) of
        [] \<Rightarrow> None | s # _ \<Rightarrow> Some s)"

definition mark_fired :: "int \<Rightarrow> string \<Rightarrow> string option \<Rightarrow> sched_db \<Rightarrow> sched_db" where
  "mark_fired now i runId db = db\<lparr>sd_schedules := update_where (\<lambda>s. sc_id s = i)
     (\<lambda>s. s\<lparr>sc_status := ScheduleFired, sc_applyRunId := runId, sc_firedAt := Some now\<rparr>) (sd_schedules db)\<rparr>"

definition mark_failed :: "string \<Rightarrow> int \<Rightarrow> sched_db \<Rightarrow> sched_db" where
  "mark_failed i claimedRunAt db = db\<lparr>sd_schedules :=
     update_where (\<lambda>s. sc_id s = i \<and> sc_status s = SchedulePending \<and> sc_runAt s = claimedRunAt)
       (\<lambda>s. s\<lparr>sc_status := ScheduleFailed\<rparr>) (sd_schedules db)\<rparr>"

definition re_arm :: "(string \<Rightarrow> int \<Rightarrow> int) \<Rightarrow> int \<Rightarrow> string \<Rightarrow> string \<Rightarrow> string option \<Rightarrow> sched_db \<Rightarrow> sched_db" where
  "re_arm nextOccurrence now i cronExpr runId db = db\<lparr>sd_schedules := update_where (\<lambda>s. sc_id s = i)
     (\<lambda>s. s\<lparr>sc_runAt := nextOccurrence cronExpr now, sc_applyRunId := runId, sc_firedAt := Some now\<rparr>) (sd_schedules db)\<rparr>"

text \<open>\<open>UUID_RE\<close>: hexadecimal digits in groups of 8, 4, 4, 4 and 12.\<close>

definition uuid_re :: "string \<Rightarrow> bool" where
  "uuid_re s = (length s = 36 \<and>
     list_all (\<lambda>k. if k \<in> {8, 13, 18, 23} then s ! k = CHR ''-'' else hex_or_dash (s ! k) \<and> s ! k \<noteq> CHR ''-'') [0..<36])"

definition item_store :: "apply_item_dto \<Rightarrow> string" where
  "item_store i = or_default (it_storeId i) []"

definition active_store_ids :: "string \<Rightarrow> string list \<Rightarrow> catalog \<Rightarrow> string list" where
  "active_store_ids slug keys c =
     (let uuidKeys = filter (\<lambda>k. k \<noteq> [] \<and> uuid_re k) keys in
      map st_id (filter (\<lambda>s. ct_tenants c slug = Some (st_tenantId s) \<and> st_id s \<in> set uuidKeys \<and> st_active s \<and> \<not> st_deleted s)
        (ct_stores c)))"

text \<open>One price map per store of the items, over the barcodes scheduled for it.\<close>

fun price_maps ::
  "string \<Rightarrow> suggestions_db \<Rightarrow> apply_item_dto list \<Rightarrow> string list \<Rightarrow> string list \<Rightarrow>
   (string \<times> (string \<times> suggestion_target \<times> jsnum) list) list outcome" where
  "price_maps slug db items activeIds [] = Inr []"
| "price_maps slug db items activeIds (key # keys) =
     (if key \<noteq> [] \<and> key \<notin> set activeIds then price_maps slug db items activeIds keys
      else bind_outcome (price_map slug (if key = [] then None else Some key)
             (Some (dedup (map it_ean (filter (\<lambda>i. item_store i = key) items)))) db) (\<lambda>m.
        bind_outcome (price_maps slug db items activeIds keys) (\<lambda>ms. Inr ((key, m) # ms))))"

definition recalc_maps ::
  "string \<Rightarrow> apply_item_dto list \<Rightarrow> suggestions_db \<Rightarrow> (string \<times> (string \<times> suggestion_target \<times> jsnum) list) list outcome" where
  "recalc_maps slug items db =
     (let keys = dedup (map item_store items) in
      price_maps slug db items (active_store_ids slug keys (catalog_of (sg_apply db))) keys)"

definition recalc_item ::
  "(string \<times> (string \<times> suggestion_target \<times> jsnum) list) list \<Rightarrow> apply_item_dto \<Rightarrow> apply_item_dto list" where
  "recalc_item maps i =
     (case (case map_of maps (item_store i) of None \<Rightarrow> None | Some m \<Rightarrow> map_of m (it_ean i)) of
        None \<Rightarrow> []
      | Some (target, price) \<Rightarrow>
          [\<lparr>it_ean = it_ean i, it_target = target, it_storeId = it_storeId i, it_price = price,
            it_cadernoId = (if given (it_storeId i) = None then it_cadernoId i else None)\<rparr>])"

definition recalc_items ::
  "apply_item_dto list \<Rightarrow> (string \<times> (string \<times> suggestion_target \<times> jsnum) list) list \<Rightarrow> apply_item_dto list" where
  "recalc_items items maps = concat (map (recalc_item maps) items)"

definition items_to_apply :: "string \<Rightarrow> schedule \<Rightarrow> suggestions_db \<Rightarrow> apply_item_dto list outcome" where
  "items_to_apply slug s db =
     (if sc_recalc s then bind_outcome (recalc_maps slug (sc_items s) db) (\<lambda>maps. Inr (recalc_items (sc_items s) maps))
      else Inr (sc_items s))"

definition schedule_key :: "schedule \<Rightarrow> string" where
  "schedule_key s = ''sched:'' @ sc_id s @ '':'' @ iso_string (sc_runAt s)"

section \<open>Firing\<close>

text \<open>What a turn of the loop draws: its instant, ids and locks, and the faults of its transactions.\<close>

record turn_draw =
  td_now :: int
  td_runId :: string
  td_itemIds :: "nat \<Rightarrow> string"
  td_locked :: "string \<Rightarrow> bool"
  td_txFails :: bool
  td_applyFails :: bool
  td_parkFails :: bool

text \<open>The run of the items, if there are any; then the body of the transaction, once a schedule is claimed.\<close>

definition apply_scheduled :: "turn_draw \<Rightarrow> string \<Rightarrow> schedule \<Rightarrow> apply_item_dto list \<Rightarrow> apply_db \<Rightarrow> apply_db \<times> string option outcome" where
  "apply_scheduled td slug s items db =
     (if items = [] then (db, Inr None)
      else (case apply_prices (td_now td) (td_runId td) (td_itemIds td) slug (sc_requestedBy s)
              \<lparr>rq_idempotencyKey = schedule_key s, rq_mode = Some Agora, rq_items = items\<rparr> False db of
          (a, Inl e) \<Rightarrow> (a, Inl e)
        | (a, Inr r) \<Rightarrow> (a, Inr (Some (rs_applyRunId r)))))"

definition fire_claimed :: "(string \<Rightarrow> int \<Rightarrow> int) \<Rightarrow> turn_draw \<Rightarrow> string \<Rightarrow> schedule \<Rightarrow> sched_db \<Rightarrow> sched_db outcome" where
  "fire_claimed nextOccurrence td slug s db =
     bind_outcome (items_to_apply slug s (sd_tables db)) (\<lambda>items.
       case apply_scheduled td slug s items (sg_apply (sd_tables db)) of
         (a, Inl e) \<Rightarrow> Inl e
       | (a, Inr runId) \<Rightarrow>
           let db1 = db\<lparr>sd_tables := (sd_tables db)\<lparr>sg_apply := a\<rparr>\<rparr> in
           Inr (case given (sc_cronExpr s) of
               Some c \<Rightarrow> re_arm nextOccurrence (td_now td) (sc_id s) c runId db1
             | None \<Rightarrow> mark_fired (td_now td) (sc_id s) runId db1))"

datatype turn = NothingDue | Fired | FireFailed string int | ClaimFailed

definition fire_turn :: "(string \<Rightarrow> int \<Rightarrow> int) \<Rightarrow> turn_draw \<Rightarrow> string \<Rightarrow> sched_db \<Rightarrow> sched_db \<times> turn" where
  "fire_turn nextOccurrence td slug db =
     (if td_txFails td then (db, ClaimFailed)
      else (case claim_next (td_now td) (td_locked td) db of
          None \<Rightarrow> (db, NothingDue)
        | Some s \<Rightarrow>
            if td_applyFails td then (db, FireFailed (sc_id s) (js_date (sc_runAt s)))
            else (case fire_claimed nextOccurrence td slug s db of
                Inl e \<Rightarrow> (db, FireFailed (sc_id s) (js_date (sc_runAt s)))
              | Inr db' \<Rightarrow> (db', Fired))))"

text \<open>The loop over the due schedules of a tenant; it has no bound, so it runs on fuel.\<close>

fun fire_for_tenant :: "nat \<Rightarrow> (string \<Rightarrow> int \<Rightarrow> int) \<Rightarrow> (nat \<Rightarrow> turn_draw) \<Rightarrow> nat \<Rightarrow> string \<Rightarrow> sched_db \<Rightarrow> sched_db option" where
  "fire_for_tenant 0 nextOccurrence draws k slug db = None"
| "fire_for_tenant (Suc fuel) nextOccurrence draws k slug db =
     (case fire_turn nextOccurrence (draws k) slug db of
        (db', NothingDue) \<Rightarrow> Some db'
      | (db', ClaimFailed) \<Rightarrow> Some db'
      | (db', Fired) \<Rightarrow> fire_for_tenant fuel nextOccurrence draws (Suc k) slug db'
      | (db', FireFailed i claimed) \<Rightarrow>
          if td_parkFails (draws k) then Some db'
          else fire_for_tenant fuel nextOccurrence draws (Suc k) slug (mark_failed i claimed db'))"

text \<open>All active tenants that have the module; each has its own tables and draws.\<close>

fun fire_tenants ::
  "nat \<Rightarrow> (string \<Rightarrow> int \<Rightarrow> int) \<Rightarrow> (string \<Rightarrow> nat \<Rightarrow> turn_draw) \<Rightarrow> auth_tenant list \<Rightarrow> (string \<Rightarrow> sched_db) \<Rightarrow> (string \<Rightarrow> sched_db) option" where
  "fire_tenants fuel nextOccurrence draws [] dbs = Some dbs"
| "fire_tenants fuel nextOccurrence draws (t # ts) dbs =
     (if te_slug t = ''system'' \<or> PricingRulesModule \<notin> set (te_modules t) then fire_tenants fuel nextOccurrence draws ts dbs
      else (case fire_for_tenant fuel nextOccurrence (draws (te_slug t)) 0 (te_slug t) (dbs (te_slug t)) of
          None \<Rightarrow> None
        | Some db \<Rightarrow> fire_tenants fuel nextOccurrence draws ts (dbs(te_slug t := db))))"

definition fire ::
  "bool \<Rightarrow> nat \<Rightarrow> (string \<Rightarrow> int \<Rightarrow> int) \<Rightarrow> (string \<Rightarrow> nat \<Rightarrow> turn_draw) \<Rightarrow> auth_db \<Rightarrow> (string \<Rightarrow> sched_db) \<Rightarrow> (string \<Rightarrow> sched_db) option" where
  "fire workerMode fuel nextOccurrence draws auth dbs =
     (if workerMode then Some dbs else fire_tenants fuel nextOccurrence draws (list_active auth) dbs)"

section \<open>Settled schedules stay settled\<close>

text \<open>
  What happens to the schedules of a tenant: requests, the turns of any replica, and the parking of a
  claim that failed, at any later moment. The other tables change as they like.
\<close>

inductive schedule_step :: "(string \<Rightarrow> bool) \<Rightarrow> (string \<Rightarrow> int \<Rightarrow> int) \<Rightarrow> string \<Rightarrow> sched_db \<Rightarrow> sched_db \<Rightarrow> bool"
  for validCron nextOccurrence slug where
  Create: "newId \<notin> sc_id ` set (sd_schedules db) \<Longrightarrow>
    schedule_step validCron nextOccurrence slug db (fst (create_schedule validCron now newId requestedBy dto db))"
| Cancel: "schedule_step validCron nextOccurrence slug db (fst (cancel_schedule i db))"
| Turn: "schedule_step validCron nextOccurrence slug db (fst (fire_turn nextOccurrence td slug db))"
| Park: "schedule_step validCron nextOccurrence slug db (mark_failed i claimed db)"
| Tables: "schedule_step validCron nextOccurrence slug db (db\<lparr>sd_tables := others\<rparr>)"

lemma claim_next_Some:
  assumes "claim_next now locked db = Some s"
  shows "s \<in> set (sd_schedules db)" "due now s" "\<not> locked (sc_id s)"
proof -
  define xs where "xs = sort_key sc_runAt (filter (\<lambda>s. due now s \<and> \<not> locked (sc_id s)) (sd_schedules db))"
  have "s \<in> set xs" using assms by (auto simp: claim_next_def xs_def [symmetric] split: list.splits)
  then show "s \<in> set (sd_schedules db)" "due now s" "\<not> locked (sc_id s)" by (simp_all add: xs_def)
qed

lemma claim_next_None:
  assumes "claim_next now locked db = None" "s \<in> set (sd_schedules db)" "due now s"
  shows "locked (sc_id s)"
proof (rule ccontr)
  define xs where "xs = sort_key sc_runAt (filter (\<lambda>s. due now s \<and> \<not> locked (sc_id s)) (sd_schedules db))"
  assume "\<not> locked (sc_id s)"
  then have "s \<in> set xs" using assms(2,3) by (simp add: xs_def)
  moreover have "xs = []" using assms(1) by (auto simp: claim_next_def xs_def [symmetric] split: list.splits)
  ultimately show False by simp
qed

text \<open>What a firing does to the row it claimed.\<close>

definition settle :: "(string \<Rightarrow> int \<Rightarrow> int) \<Rightarrow> int \<Rightarrow> schedule \<Rightarrow> string option \<Rightarrow> schedule \<Rightarrow> schedule" where
  "settle nextOccurrence now s runId r =
     (case given (sc_cronExpr s) of
        Some c \<Rightarrow> r\<lparr>sc_runAt := nextOccurrence c now, sc_applyRunId := runId, sc_firedAt := Some now\<rparr>
      | None \<Rightarrow> r\<lparr>sc_status := ScheduleFired, sc_applyRunId := runId, sc_firedAt := Some now\<rparr>)"

lemma fire_turn_cases:
  assumes "fire_turn nextOccurrence td slug db = (db', t)"
  obtains (idle) "t = NothingDue" "db' = db" "claim_next (td_now td) (td_locked td) db = None"
  | (infra) "t = ClaimFailed" "db' = db" "td_txFails td"
  | (failed) s where "t = FireFailed (sc_id s) (js_date (sc_runAt s))" "db' = db" "claim_next (td_now td) (td_locked td) db = Some s"
  | (fired) s runId where "t = Fired" "claim_next (td_now td) (td_locked td) db = Some s"
      "sd_schedules db' = update_where (\<lambda>r. sc_id r = sc_id s) (settle nextOccurrence (td_now td) s runId) (sd_schedules db)"
proof -
  have fired: "\<exists>runId. sd_schedules d = update_where (\<lambda>r. sc_id r = sc_id s) (settle nextOccurrence (td_now td) s runId) (sd_schedules db)"
    if f: "fire_claimed nextOccurrence td slug s db = Inr d" for s d
  proof -
    obtain items where it: "items_to_apply slug s (sd_tables db) = Inr items"
      using f by (cases "items_to_apply slug s (sd_tables db)") (simp_all add: fire_claimed_def)
    obtain a runId where a: "apply_scheduled td slug s items (sg_apply (sd_tables db)) = (a, Inr runId)"
      using f it by (auto simp: fire_claimed_def split: prod.splits sum.splits)
    have "settle nextOccurrence (td_now td) s runId = (case given (sc_cronExpr s) of
        Some c \<Rightarrow> (\<lambda>r. r\<lparr>sc_runAt := nextOccurrence c (td_now td), sc_applyRunId := runId, sc_firedAt := Some (td_now td)\<rparr>)
      | None \<Rightarrow> (\<lambda>r. r\<lparr>sc_status := ScheduleFired, sc_applyRunId := runId, sc_firedAt := Some (td_now td)\<rparr>))"
      by (intro ext) (simp add: settle_def split: option.splits)
    then show ?thesis using f it a
      by (intro exI [of _ runId], cases "given (sc_cronExpr s)") (auto simp: fire_claimed_def Let_def re_arm_def mark_fired_def)
  qed
  show thesis
  proof (cases "td_txFails td")
    case True
    then show ?thesis using assms infra by (simp add: fire_turn_def)
  next
    case tx: False
    show ?thesis
    proof (cases "claim_next (td_now td) (td_locked td) db")
      case None
      then show ?thesis using assms tx idle by (simp add: fire_turn_def)
    next
      case (Some s)
      show ?thesis
      proof (cases "td_applyFails td")
        case True
        then show ?thesis using assms tx Some that(3) [of s] by (simp add: fire_turn_def)
      next
        case False
        show ?thesis
        proof (cases "fire_claimed nextOccurrence td slug s db")
          case (Inl e)
          then show ?thesis using assms tx Some False that(3) [of s] by (simp add: fire_turn_def)
        next
          case (Inr d)
          from fired [OF this] obtain runId where
            "sd_schedules d = update_where (\<lambda>r. sc_id r = sc_id s) (settle nextOccurrence (td_now td) s runId) (sd_schedules db)" ..
          then show ?thesis using assms tx Some False Inr that(4) [of s runId] by (simp add: fire_turn_def)
        qed
      qed
    qed
  qed
qed

lemma row_kept: "s \<in> set xs \<Longrightarrow> \<not> P s \<Longrightarrow> s \<in> set (update_where P f xs)"
  by (auto simp: set_update_where)

lemma settle_id [simp]: "sc_id (settle nextOccurrence now s runId r) = sc_id r"
  by (simp add: settle_def split: option.splits)

lemma turn_ids: "map sc_id (sd_schedules (fst (fire_turn nextOccurrence td slug db))) = map sc_id (sd_schedules db)"
  by (cases "fire_turn nextOccurrence td slug db"; cases rule: fire_turn_cases) (auto simp: map_update_where)

lemma turn_keeps_settled:
  assumes "distinct (map sc_id (sd_schedules db))" "s \<in> set (sd_schedules db)" "\<not> due (td_now td) s"
  shows "s \<in> set (sd_schedules (fst (fire_turn nextOccurrence td slug db)))"
proof (cases "fire_turn nextOccurrence td slug db")
  case (Pair db' t)
  then show ?thesis
  proof (cases rule: fire_turn_cases)
    case (fired c runId)
    have "sc_id s \<noteq> sc_id c"
      using assms claim_next_Some(1,2) [OF fired(2)] by (auto simp: distinct_map dest: inj_onD)
    then show ?thesis using Pair assms(2) fired(3) by (simp add: row_kept)
  qed (use Pair assms(2) in simp_all)
qed

lemma step_keeps_settled:
  assumes "schedule_step validCron nextOccurrence slug db db'" "distinct (map sc_id (sd_schedules db))"
  shows "distinct (map sc_id (sd_schedules db')) \<and>
    (\<forall>s. s \<in> set (sd_schedules db) \<longrightarrow> sc_status s \<noteq> SchedulePending \<longrightarrow> s \<in> set (sd_schedules db'))"
  using assms
proof (induction rule: schedule_step.induct)
  case (Create newId db now requestedBy dto)
  then show ?case by (auto simp: create_schedule_def Let_def)
next
  case (Cancel db i)
  then show ?case by (auto simp: cancel_schedule_def map_update_where intro: row_kept)
next
  case (Turn db td)
  then show ?case using turn_keeps_settled [of db _ td nextOccurrence slug] by (simp add: turn_ids) (simp add: due_def)
next
  case (Park db i claimed)
  then show ?case by (auto simp: mark_failed_def map_update_where intro: row_kept)
qed simp

text \<open>
  C35. A settled schedule is final. Once a schedule is fired, cancelled or parked as failed, nothing
  changes its row any more: not a cancellation that comes late, not another replica, and not the
  parking of an earlier claim of it, however late it runs.
\<close>

theorem settled_schedules_never_change:
  assumes "(schedule_step validCron nextOccurrence slug)\<^sup>*\<^sup>* db db'" "distinct (map sc_id (sd_schedules db))"
    and "s \<in> set (sd_schedules db)" "sc_status s \<noteq> SchedulePending"
  shows "s \<in> set (sd_schedules db')"
proof -
  have "distinct (map sc_id (sd_schedules db')) \<and> s \<in> set (sd_schedules db')"
    using assms(1)
  proof (induction rule: rtranclp_induct)
    case base
    then show ?case using assms(2,3) by simp
  next
    case (step y z)
    then show ?case using step_keeps_settled [OF step(2)] assms(4) by blast
  qed
  then show ?thesis ..
qed

section \<open>A tick settles everything that is due\<close>

lemma filter_update_shrinks:
  assumes "x \<in> set xs" "Q x" "P x" "\<And>y. y \<in> set xs \<Longrightarrow> Q y \<Longrightarrow> \<not> P (f y)"
  shows "length (filter P (update_where Q f xs)) < length (filter P xs)"
proof -
  have "length (filter P (update_where Q f xs)) = length (filter (\<lambda>y. P y \<and> \<not> Q y) xs)"
    using assms(4) by (induction xs) (auto simp: update_where_def)
  also have "\<dots> = length (filter (\<lambda>y. \<not> Q y) (filter P xs))" by (simp add: conj_commute)
  also have "\<dots> < length (filter P xs)" using assms(1-3) by (intro length_filter_less [of x]) simp_all
  finally show ?thesis .
qed

text \<open>The clock and the faults of a calm tick: it ends before any next occurrence, and no transaction fails but for its prices.\<close>

definition calm_tick :: "(string \<Rightarrow> int \<Rightarrow> int) \<Rightarrow> (nat \<Rightarrow> turn_draw) \<Rightarrow> int \<Rightarrow> bool" where
  "calm_tick nextOccurrence draws T \<longleftrightarrow>
     (\<forall>k. td_now (draws 0) \<le> td_now (draws k) \<and> td_now (draws k) \<le> T \<and> \<not> td_txFails (draws k) \<and> \<not> td_parkFails (draws k) \<and>
        (\<forall>i. \<not> td_locked (draws k) i) \<and> (\<forall>c. T < nextOccurrence c (td_now (draws k))))"

definition whole_milliseconds :: "int \<Rightarrow> sched_db \<Rightarrow> bool" where
  "whole_milliseconds T db \<longleftrightarrow> list_all (\<lambda>s. due T s \<longrightarrow> js_date (sc_runAt s) = sc_runAt s) (sd_schedules db)"

definition due_count :: "int \<Rightarrow> sched_db \<Rightarrow> nat" where
  "due_count T db = length (filter (due T) (sd_schedules db))"

text \<open>A row that one turn or its parking rewrites was due and is not due until the tick ends.\<close>

lemma update_due:
  assumes "distinct (map sc_id (sd_schedules db))" "s \<in> set (sd_schedules db)" "due T s"
    and rows: "sd_schedules db' = update_where (\<lambda>r. sc_id r = sc_id s \<and> Q r) f (sd_schedules db)" "Q s"
    and f: "\<And>r. \<not> due T (f r)" "\<And>r. sc_id (f r) = sc_id r"
  shows "due_count T db' < due_count T db \<and> distinct (map sc_id (sd_schedules db')) \<and>
    (whole_milliseconds T db \<longrightarrow> whole_milliseconds T db') \<and>
    (\<forall>r. r \<in> set (sd_schedules db) \<longrightarrow> \<not> due T r \<longrightarrow> r \<in> set (sd_schedules db'))"
proof -
  have s: "r = s" if "r \<in> set (sd_schedules db)" "sc_id r = sc_id s" for r
    using that assms(1,2) by (auto simp: distinct_map dest: inj_onD)
  have "due_count T db' < due_count T db"
    unfolding due_count_def rows(1) by (rule filter_update_shrinks [OF assms(2)]) (use assms(3) rows(2) f(1) in simp_all)
  moreover have "map sc_id (sd_schedules db') = map sc_id (sd_schedules db)" by (simp add: rows(1) map_update_where f(2))
  moreover have "whole_milliseconds T db \<longrightarrow> whole_milliseconds T db'"
    using f(1) by (auto simp: whole_milliseconds_def list_all_iff rows(1) set_update_where)
  moreover have "\<forall>r. r \<in> set (sd_schedules db) \<longrightarrow> \<not> due T r \<longrightarrow> r \<in> set (sd_schedules db')"
    using s assms(3) by (auto simp: rows(1) intro!: row_kept)
  ultimately show ?thesis using assms(1) by simp
qed

lemma due_mono: "due a s \<Longrightarrow> a \<le> b \<Longrightarrow> due b s"
  by (simp add: due_def)

lemma calm_loop:
  assumes calm: "calm_tick nextOccurrence draws T" and "distinct (map sc_id (sd_schedules db))" "whole_milliseconds T db" "due_count T db < fuel"
  shows "\<exists>db'. fire_for_tenant fuel nextOccurrence draws k slug db = Some db' \<and>
    (\<forall>s \<in> set (sd_schedules db'). \<not> due (td_now (draws 0)) s) \<and>
    (\<forall>s \<in> set (sd_schedules db). \<not> due T s \<longrightarrow> s \<in> set (sd_schedules db'))"
  using assms(2-4)
proof (induction fuel arbitrary: k db)
  case 0
  then show ?case by simp
next
  case (Suc fuel)
  have c: "td_now (draws 0) \<le> td_now (draws k)" "td_now (draws k) \<le> T" "\<not> td_txFails (draws k)" "\<not> td_parkFails (draws k)"
    "\<not> td_locked (draws k) i" "T < nextOccurrence e (td_now (draws k))" for i e
    using calm by (simp_all add: calm_tick_def)
  obtain db1 t where t: "fire_turn nextOccurrence (draws k) slug db = (db1, t)" by fastforce
  have go: ?case if step: "fire_for_tenant (Suc fuel) nextOccurrence draws k slug db = fire_for_tenant fuel nextOccurrence draws (Suc k) slug db2"
    and s: "claim_next (td_now (draws k)) (td_locked (draws k)) db = Some s"
    and rows: "sd_schedules db2 = update_where (\<lambda>r. sc_id r = sc_id s \<and> Q r) f (sd_schedules db)" "Q s"
    and f: "\<And>r. \<not> due T (f r)" "\<And>r. sc_id (f r) = sc_id r" for db2 s Q f
  proof -
    note cl = claim_next_Some [OF s]
    from update_due [OF Suc.prems(1) cl(1) due_mono [OF cl(2) c(2)] rows f] Suc.prems
    have "distinct (map sc_id (sd_schedules db2))" "whole_milliseconds T db2" "due_count T db2 < fuel"
      and keep: "\<And>r. r \<in> set (sd_schedules db) \<Longrightarrow> \<not> due T r \<Longrightarrow> r \<in> set (sd_schedules db2)" by auto
    from Suc.IH [OF this(1-3), of "Suc k"] keep show ?thesis unfolding step by blast
  qed
  from t show ?case
  proof (cases rule: fire_turn_cases)
    case idle
    have "\<not> due (td_now (draws 0)) s" if "s \<in> set (sd_schedules db)" for s
      using claim_next_None [OF idle(3) that] due_mono [OF _ c(1)] c(5) by blast
    then show ?thesis using t idle(1,2) by auto
  next
    case infra
    then show ?thesis using c(3) by simp
  next
    case (failed s)
    have al: "js_date (sc_runAt s) = sc_runAt s"
      using Suc.prems(2) claim_next_Some [OF failed(3)] due_mono [OF _ c(2)] by (auto simp: whole_milliseconds_def list_all_iff)
    have st: "sc_status s = SchedulePending" using claim_next_Some(2) [OF failed(3)] by (simp add: due_def)
    show ?thesis
      by (rule go [OF _ failed(3), of "mark_failed (sc_id s) (sc_runAt s) db"
          "\<lambda>r. sc_status r = SchedulePending \<and> sc_runAt r = sc_runAt s" "\<lambda>r. r\<lparr>sc_status := ScheduleFailed\<rparr>"])
        (use t failed(1,2) c(4) al st in \<open>simp_all add: mark_failed_def due_def\<close>)
  next
    case (fired s runId)
    have st: "sc_status s = SchedulePending" using claim_next_Some(2) [OF fired(2)] by (simp add: due_def)
    have nd: "\<not> due T (settle nextOccurrence (td_now (draws k)) s runId r)" for r
      using c(6) by (auto simp: settle_def due_def not_le split: option.splits)
    show ?thesis
      by (rule go [OF _ fired(2), of db1 "\<lambda>_. True" "settle nextOccurrence (td_now (draws k)) s runId"])
        (use t fired(1,3) nd in simp_all)
  qed
qed

text \<open>
  C36. A tick settles what is due. On a calm tick (no other replica holds a schedule, no transaction
  fails but for the prices it applies, and it ends before the next occurrence of any expression) the
  loop returns, whatever the prices do: with as much fuel as there are due schedules and one more, no
  schedule that was due when the tick began is left due, each was fired, armed again or parked, and
  schedules that were not due are as they were. Run times must be whole milliseconds.
\<close>

theorem tick_settles_due_schedules:
  assumes "calm_tick nextOccurrence draws T" "distinct (map sc_id (sd_schedules db))" "whole_milliseconds T db" "due_count T db < fuel"
  shows "\<exists>db'. fire_for_tenant fuel nextOccurrence draws 0 slug db = Some db' \<and>
    (\<forall>s \<in> set (sd_schedules db'). \<not> due (td_now (draws 0)) s) \<and>
    (\<forall>s \<in> set (sd_schedules db). \<not> due T s \<longrightarrow> s \<in> set (sd_schedules db'))"
  by (rule calm_loop [OF assms])

text \<open>
  The parking compares the run time with the date JavaScript read. When the stored time has
  microseconds they differ, the parking changes no row, and the loop claims the same schedule again:
  with prices that are refused every time, no amount of fuel ends it.
\<close>

lemma microseconds_never_park:
  assumes "claim_next now locked db = Some s" "js_date (sc_runAt s) \<noteq> sc_runAt s" "distinct (map sc_id (sd_schedules db))"
    and draw: "td_now d = now" "td_locked d = locked" "\<not> td_txFails d" "\<not> td_parkFails d" "td_applyFails d"
  shows "fire_for_tenant fuel nextOccurrence (\<lambda>_. d) k slug db = None"
proof (induction fuel arbitrary: k)
  case (Suc fuel)
  have "mark_failed (sc_id s) (js_date (sc_runAt s)) db = db"
  proof -
    have "r = s" if "r \<in> set (sd_schedules db)" "sc_id r = sc_id s" for r
      using that assms(3) claim_next_Some(1) [OF assms(1)] by (auto simp: distinct_map dest: inj_onD)
    then have "update_where (\<lambda>r. sc_id r = sc_id s \<and> sc_status r = SchedulePending \<and> sc_runAt r = js_date (sc_runAt s))
        (\<lambda>r. r\<lparr>sc_status := ScheduleFailed\<rparr>) (sd_schedules db) = sd_schedules db"
      using assms(2) by (intro update_where_none) metis
    then show ?thesis by (simp add: mark_failed_def)
  qed
  then show ?case using Suc assms(1) draw by (simp add: fire_turn_def)
qed simp

section \<open>Recalculated prices pass the guard rails\<close>

definition at_most :: "int \<Rightarrow> rat option \<Rightarrow> bool" where
  "at_most k v = (case v of None \<Rightarrow> True | Some r \<Rightarrow> r \<le> of_int k)"

definition small_columns :: "catalog \<Rightarrow> bool" where
  "small_columns c \<longleftrightarrow> list_all (\<lambda>p. at_most 20000 (pr_cost p) \<and> at_most (10 ^ 12) (pr_price p)) (ct_products c) \<and>
     list_all (\<lambda>i. at_most 20000 (pi_cost i) \<and> at_most (10 ^ 12) (pi_price i)) (ct_items c)"

lemma money_at_most:
  assumes "at_most k v" "0 \<le> k" "k \<le> 2 ^ 53"
  shows "js_le (money (num v)) (Num (of_int k))"
proof (cases v)
  case (Some r)
  then have "js_le (js_of_rat r) (js_of_rat (of_int k))" using assms(1) by (intro js_of_rat_mono) (simp add: at_most_def)
  then have "js_le (js_of_rat r) (Num (of_int k))" using assms(2,3) js_of_rat_of_int [of k] by simp
  then show ?thesis using Some assms(2) by (auto simp: money_def num_def or_default_def Let_def)
qed (use assms(2) in \<open>simp add: money_def num_def or_default_def\<close>)

lemma small_products:
  assumes "small_columns (catalog_of (sg_apply db))" "p \<in> set (ct_products (catalog_of (sg_apply db)))"
    and sp: "sp = product_of_response (response_product_of origins storeUuid db p)"
  shows "js_le (sp_custo sp) (Num 20000)" "js_le (sp_precoVenda sp) (Num (10 ^ 12))"
proof -
  define si where "si = store_item_of storeUuid p (catalog_of (sg_apply db))"
  have p: "at_most 20000 (pr_cost p)" "at_most (10 ^ 12) (pr_price p)"
    using assms(1,2) by (simp_all add: small_columns_def list_all_iff)
  have i: "at_most 20000 (pi_cost i) \<and> at_most (10 ^ 12) (pi_price i)" if "si = Some i" for i
    using assms(1) that find_SomeD [of _ "ct_items (catalog_of (sg_apply db))" i]
    by (auto simp: small_columns_def list_all_iff si_def store_item_of_def split: option.splits)
  have e: "at_most 20000 (effective_cost si p)" "at_most (10 ^ 12) (effective_price si p)"
    using p i by (auto simp: effective_cost_def effective_price_def or_else_def split: option.splits)
  have "js_le (money (num (effective_cost si p))) (Num (of_int 20000))" by (rule money_at_most [OF e(1)]) simp_all
  then show "js_le (sp_custo sp) (Num 20000)"
    by (simp add: sp product_of_response_def response_product_of_def Let_def si_def)
  have "js_le (money (num (effective_price si p))) (Num (of_int (10 ^ 12)))" by (rule money_at_most [OF e(2)]) simp_all
  then show "js_le (sp_precoVenda sp) (Num (10 ^ 12))"
    by (simp add: sp product_of_response_def response_product_of_def Let_def si_def)
qed

lemma price_maps_Some:
  assumes "price_maps slug db items activeIds keys = Inr maps" "map_of maps key = Some m"
  shows "(key = [] \<or> key \<in> set activeIds) \<and> (\<exists>eans. price_map slug (if key = [] then None else Some key) eans db = Inr m)"
  using assms
proof (induction slug db items activeIds keys arbitrary: maps rule: price_maps.induct)
  case (2 slug db items activeIds k keys)
  show ?case
  proof (cases "k \<noteq> [] \<and> k \<notin> set activeIds")
    case True
    then show ?thesis using 2 by simp
  next
    case False
    then obtain m' ms where m: "price_map slug (if k = [] then None else Some k) (Some (dedup (map it_ean (filter (\<lambda>i. item_store i = k) items)))) db = Inr m'"
      "price_maps slug db items activeIds keys = Inr ms" "maps = (k, m') # ms"
      using "2.prems"(1) by (auto simp: bind_outcome_Inr_iff split: if_splits)
    show ?thesis
    proof (cases "key = k")
      case True
      then show ?thesis using m(1,3) False "2.prems"(2) by auto
    next
      case other: False
      then have "map_of ms key = Some m" using m(3) "2.prems"(2) by simp
      from "2.IH"(2) [OF False m(2) this] show ?thesis .
    qed
  qed
qed simp

text \<open>The product and the rule behind an entry of the price map.\<close>

lemma price_map_entry:
  assumes "price_map slug storeUuid eans db = Inr m" "map_of m ean = Some (t, x)"
  obtains origins ctx p rule s where "rule_context slug None storeUuid db = Inr ctx" "p \<in> set (ct_products (catalog_of (sg_apply db)))"
    "fst (winner_of ctx (product_of_response (response_product_of origins storeUuid db p))) = Some rule"
    "compute_suggestion (product_of_response (response_product_of origins storeUuid db p)) rule
       (if sr_applyRounding rule then sx_roundingRanges ctx else []) = Suggestion s"
    "pr_ean p = ean" "ps_target s = t" "ps_price s = x"
proof -
  obtain origins ctx where o: "rule_context slug None storeUuid db = Inr ctx"
    "m = map_of_entries (concat (map (\<lambda>p. case rw_result (compute_row ctx p) of
        Suggestion s \<Rightarrow> [(rq_ean p, ps_target s, ps_price s)] | NoSuggestion _ _ \<Rightarrow> []) (load_products origins None None storeUuid eans db)))"
    using assms(1) by (auto simp: price_map_def bind_outcome_Inr_iff)
  from map_of_SomeD [OF assms(2)] set_map_of_entries_subset
  have "(ean, t, x) \<in> set (concat (map (\<lambda>p. case rw_result (compute_row ctx p) of
        Suggestion s \<Rightarrow> [(rq_ean p, ps_target s, ps_price s)] | NoSuggestion _ _ \<Rightarrow> []) (load_products origins None None storeUuid eans db)))"
    unfolding o(2) by fast
  then obtain q where q': "q \<in> set (load_products origins None None storeUuid eans db)"
    "(ean, t, x) \<in> set (case rw_result (compute_row ctx q) of Suggestion s \<Rightarrow> [(rq_ean q, ps_target s, ps_price s)] | NoSuggestion _ _ \<Rightarrow> [])"
    by auto
  then obtain s where q: "q \<in> set (load_products origins None None storeUuid eans db)" "rw_result (compute_row ctx q) = Suggestion s"
    "rq_ean q = ean" "ps_target s = t" "ps_price s = x"
    by (cases "rw_result (compute_row ctx q)") auto
  then obtain p where p: "p \<in> set (ct_products (catalog_of (sg_apply db)))" "q = response_product_of origins storeUuid db p"
    by (auto simp: load_products_def)
  have "rw_result (compute_row ctx q) = (case fst (winner_of ctx (product_of_response q)) of
      Some w \<Rightarrow> compute_suggestion (product_of_response q) w (if sr_applyRounding w then sx_roundingRanges ctx else []) | None \<Rightarrow> NoSuggestion SemRegra None)"
    by (cases "winner_of ctx (product_of_response q)") (simp add: compute_row_def Let_def)
  moreover have "pr_ean p = ean" using q(3) p(2) by (simp add: response_product_of_def Let_def)
  moreover from calculation(1) obtain rule where "fst (winner_of ctx (product_of_response q)) = Some rule"
    "compute_suggestion (product_of_response q) rule (if sr_applyRounding rule then sx_roundingRanges ctx else []) = Suggestion s"
    using q(2) by (cases "fst (winner_of ctx (product_of_response q))") simp_all
  ultimately show thesis using q(4,5) that [OF o(1) p(1), of origins rule s] unfolding p(2) by blast
qed

lemma recalculated_item:
  assumes "item \<in> set (recalc_items items maps)"
  obtains i m where "i \<in> set items" "map_of maps (item_store i) = Some m" "map_of m (it_ean item) = Some (it_target item, it_price item)"
    "it_storeId item = it_storeId i" "given (it_storeId item) = None \<or> it_cadernoId item = None"
  using assms by (fastforce simp: recalc_items_def recalc_item_def split: option.splits)

lemma frozen_caderno:
  assumes "check_item cx item = Inl ''caderno_nao_cobre_loja''"
  shows "given (it_storeId item) \<noteq> None \<and> it_cadernoId item \<noteq> None"
proof -
  have c: "given (it_storeId item) \<noteq> None \<and> it_cadernoId item \<noteq> None" if "item_caderno cx item row si = Inl ''caderno_nao_cobre_loja''" for row si
    using that by (auto simp: item_caderno_def Let_def split: option.splits if_splits)
  have s: "check_store cx item \<noteq> Inl ''caderno_nao_cobre_loja''" by (auto simp: check_store_def split: option.splits)
  show ?thesis
    using assms c s by (auto simp: check_item_def Let_def split: option.splits sum.splits if_splits)
qed

text \<open>What the check of one recalculated item says.\<close>

lemma recalculated_item_checked:
  assumes "recalc_maps slug items db = Inr maps" "item \<in> set (recalc_items items maps)"
    and "load_ctx slug (recalc_items items maps) (sg_apply db) = Inr cx"
    and "tables_sound db" "small_columns (catalog_of (sg_apply db))" "list_all (\<lambda>i. it_storeId i \<noteq> Some []) items"
  shows "case check_item cx item of
      Inr a \<Rightarrow> ac_ean a = it_ean item \<and> ac_price a = it_price item
    | Inl reason \<Rightarrow> reason \<in> {''variacao_excessiva'', ''sem_caderno''}"
proof -
  from recalculated_item [OF assms(2)] obtain i m where i: "i \<in> set items" "map_of maps (item_store i) = Some m"
    "map_of m (it_ean item) = Some (it_target item, it_price item)" "it_storeId item = it_storeId i"
    "given (it_storeId item) = None \<or> it_cadernoId item = None" .
  have key: "(if item_store i = [] then None else Some (item_store i)) = it_storeId item"
    using assms(6) i(1,4) by (cases "it_storeId i") (auto simp: item_store_def or_default_def list_all_iff)
  from price_maps_Some [OF assms(1) [unfolded recalc_maps_def Let_def] i(2)] obtain eans where
    act: "item_store i = [] \<or> item_store i \<in> set (active_store_ids slug (dedup (map item_store items)) (catalog_of (sg_apply db)))"
    and pm: "price_map slug (it_storeId item) eans db = Inr m" unfolding key by blast
  have store: "serving_store slug u (catalog_of (sg_apply db))" if "it_storeId item = Some u" for u
    using act that key by (auto simp: active_store_ids_def Let_def serving_store_def list_ex_iff resolve_tenant_id_def split: if_splits)
  from price_map_entry [OF pm i(3)] obtain origins ctx p rule s where
    e: "rule_context slug None (it_storeId item) db = Inr ctx" "p \<in> set (ct_products (catalog_of (sg_apply db)))"
    "fst (winner_of ctx (product_of_response (response_product_of origins (it_storeId item) db p))) = Some rule"
    "compute_suggestion (product_of_response (response_product_of origins (it_storeId item) db p)) rule
       (if sr_applyRounding rule then sx_roundingRanges ctx else []) = Suggestion s"
    "pr_ean p = it_ean item" "ps_target s = it_target item" "ps_price s = it_price item" .
  have "case check_item cx item of
      Inr a \<Rightarrow> ac_ean a = pr_ean p \<and> ac_price a = ps_price s \<and> ac_ruleId a = Some (sr_id (ps_rule s))
    | Inl reason \<Rightarrow> reason \<in> {''variacao_excessiva'', ''sem_caderno'', ''caderno_nao_cobre_loja''}"
  proof (rule guard_rails_cleared [OF e(1,2) refl e(3,4) _ assms(3,2)])
    show "serving_store slug u (catalog_of (sg_apply db))" if "it_storeId item = Some u" for u using that by (rule store)
    show "js_le (sp_custo (product_of_response (response_product_of origins (it_storeId item) db p))) (Num 20000)"
      "js_le (sp_precoVenda (product_of_response (response_product_of origins (it_storeId item) db p))) (Num (10 ^ 12))"
      by (rule small_products [OF assms(5) e(2) refl])+
  qed (simp_all add: e(5-7) assms(4))
  note res = this
  show ?thesis
  proof (cases "check_item cx item")
    case (Inl reason)
    then have "reason \<noteq> ''caderno_nao_cobre_loja''" using frozen_caderno [of cx item] i(5) by (intro notI) auto
    then show ?thesis using res unfolding Inl sum.case by blast
  next
    case (Inr a)
    then show ?thesis using res e(5,7) by simp
  qed
qed

text \<open>
  C34. A recalculated schedule is never stopped by its own prices. Whatever the stores of its items,
  each item that a firing recalculates and applies at once is priced by the rule of its store and
  clears the margin floor, the sale price and the cost check of the application; and since the offer
  book of a store item is not frozen, it cannot be refused for an offer book that does not cover the
  store either. So the revalidation of the firing rejects an item only for the ceiling on the
  variation, for the lack of any offer book, or as a duplicate of or in conflict with an offer of
  the same product on the same offer book, which is accepted; and whatever it accepts carries the
  recalculated price. The tables are sound (\<open>tables_sound\<close>), costs are at most 20000 and prices
  at most 10^12.
\<close>

theorem recalculated_prices_pass_the_guard_rails:
  assumes "recalc_maps slug items db = Inr maps"
    and "load_ctx slug (recalc_items items maps) (sg_apply db) = Inr cx"
    and "tables_sound db" "small_columns (catalog_of (sg_apply db))" "list_all (\<lambda>i. it_storeId i \<noteq> Some []) items"
  shows "(\<forall>item \<in> set (recalc_items items maps).
      case check_item cx item of
        Inr a \<Rightarrow> ac_ean a = it_ean item \<and> ac_price a = it_price item
      | Inl reason \<Rightarrow> reason \<in> {''variacao_excessiva'', ''sem_caderno''}) \<and>
    (\<exists>accepted rejected. revalidate slug (recalc_items items maps) (sg_apply db) = Inr (accepted, rejected) \<and>
      (\<forall>a \<in> set accepted. \<exists>item \<in> set (recalc_items items maps).
         outcome_key a = item_key item \<and> ac_price a = it_price item) \<and>
      (\<forall>r \<in> set rejected. rj_reason r \<in> {''variacao_excessiva'', ''sem_caderno''} \<or>
         rj_reason r \<in> {''caderno_duplicado'', ''caderno_conflitante''} \<and>
         (\<exists>b \<in> set accepted. ac_ean b = rj_ean r \<and> ac_target b = PrecoOferta)))"
proof -
  note checked = recalculated_item_checked [OF assms(1) _ assms(2-5)]
  obtain accepted rejected where c: "check_items cx (recalc_items items maps) = (accepted, rejected)" by fastforce
  then have "revalidate slug (recalc_items items maps) (sg_apply db) = Inr (accepted, rejected)"
    using assms(2) by (simp add: revalidate_def)
  moreover have "\<exists>item \<in> set (recalc_items items maps). outcome_key a = item_key item \<and> ac_price a = it_price item"
    if "a \<in> set accepted" for a
  proof -
    from check_items_member [OF c that] obtain item where "item \<in> set (recalc_items items maps)" "check_item cx item = Inr a" ..
    with checked [OF this(1)] check_item_fields [OF this(2)] show ?thesis by auto
  qed
  moreover have "rj_reason r \<in> {''variacao_excessiva'', ''sem_caderno''} \<or>
      rj_reason r \<in> {''caderno_duplicado'', ''caderno_conflitante''} \<and>
      (\<exists>b \<in> set accepted. ac_ean b = rj_ean r \<and> ac_target b = PrecoOferta)" if "r \<in> set rejected" for r
    using check_items_rejected [OF c that]
  proof (elim disjE bexE conjE)
    fix item assume "item \<in> set (recalc_items items maps)" "check_item cx item = Inl (rj_reason r)"
    with checked [OF this(1)] show ?thesis by simp
  qed blast
  ultimately show ?thesis using checked by blast
qed

section \<open>Witnesses\<close>

definition demo_schedule :: "schedule_status \<Rightarrow> schedule" where
  "demo_schedule st = \<lparr>sc_id = ''s1'', sc_runAt = 5000, sc_status = st, sc_requestedBy = None, sc_items = [demo_price_item],
     sc_applyRunId = None, sc_firedAt = None, sc_cronExpr = None, sc_recalc = True, sc_createdAt = 0, sc_deleted = False\<rparr>"

definition demo_sched :: "schedule_status \<Rightarrow> sched_db" where
  "demo_sched st = \<lparr>sd_tables = demo_suggestions, sd_schedules = [demo_schedule st]\<rparr>"

definition demo_draw :: turn_draw where
  "demo_draw = \<lparr>td_now = 9000, td_runId = ''run'', td_itemIds = show_nat, td_locked = (\<lambda>_. False),
     td_txFails = False, td_applyFails = False, td_parkFails = False\<rparr>"

lemma demo_recalc:
  obtains maps where "recalc_maps ''acme'' [demo_price_item] demo_suggestions = Inr maps" "recalc_items [demo_price_item] maps = [demo_price_item]"
proof -
  obtain r s where r: "map (compute_row demo_sctx) (load_products [] None None None None demo_suggestions) = [r]"
    "rq_ean (rw_product r) = ''789''" "rw_result r = Suggestion s" "ps_price s = Num 20" "ps_target s = PrecoVenda"
    using demo_rows by (auto split: list.splits suggestion_result.splits)
  then obtain p where p: "load_products [] None None None None demo_suggestions = [p]" "compute_row demo_sctx p = r" by auto
  have rp: "rq_ean p = ''789''" using r(2) p(2) by (auto simp: compute_row_def Let_def split: prod.splits)
  have "load_products [] None None None (Some [''789'']) demo_suggestions = load_products [] None None None None demo_suggestions"
    by (simp add: load_products_def product_selected_def demo_suggestions_def catalog_of_def demo_apply_def demo_catalog_def Let_def)
  then have m: "price_map ''acme'' None (Some [''789'']) demo_suggestions = Inr [(''789'', PrecoVenda, Num 20)]"
    using r(3-5) p rp by (simp add: price_map_def demo_origins demo_rule_context map_of_entries_def)
  have k: "item_store demo_price_item = []" "it_ean demo_price_item = ''789''"
    by (simp_all add: demo_price_item_def item_store_def or_default_def)
  have "recalc_maps ''acme'' [demo_price_item] demo_suggestions = Inr [([], [(''789'', PrecoVenda, Num 20)])]"
    by (simp add: recalc_maps_def Let_def k dedup_def m)
  moreover have "recalc_items [demo_price_item] [([], [(''789'', PrecoVenda, Num 20)])] = [demo_price_item]"
    by (simp add: recalc_items_def recalc_item_def k) (simp add: demo_price_item_def given_def truthy_string_def)
  ultimately show thesis by (rule that)
qed

theorem recalculated_prices_pass_the_guard_rails_witness:
  "\<exists>maps item cx. recalc_maps ''acme'' [demo_price_item] demo_suggestions = Inr maps \<and> item \<in> set (recalc_items [demo_price_item] maps) \<and>
     (case check_item cx item of Inr a \<Rightarrow> ac_price a = Num 20 | Inl reason \<Rightarrow> reason \<in> {''variacao_excessiva'', ''sem_caderno''})"
proof -
  obtain maps where m: "recalc_maps ''acme'' [demo_price_item] demo_suggestions = Inr maps" "recalc_items [demo_price_item] maps = [demo_price_item]"
    by (rule demo_recalc)
  obtain cx where cx: "load_ctx ''acme'' (recalc_items [demo_price_item] maps) (sg_apply demo_suggestions) = Inr cx"
    using demo_load_item m(2) by auto
  have s: "small_columns (catalog_of (sg_apply demo_suggestions))"
    by (simp add: small_columns_def at_most_def catalog_of_def demo_suggestions_def demo_apply_def demo_catalog_def)
  have i: "demo_price_item \<in> set (recalc_items [demo_price_item] maps)" by (simp only: m(2)) simp
  have pr: "it_price demo_price_item = Num 20" "list_all (\<lambda>i. it_storeId i \<noteq> Some []) [demo_price_item]"
    by (simp_all add: demo_price_item_def)
  from recalculated_prices_pass_the_guard_rails [OF m(1) cx demo_tables s pr(2)] i
  have "case check_item cx demo_price_item of Inr a \<Rightarrow> ac_ean a = it_ean demo_price_item \<and> ac_price a = it_price demo_price_item
      | Inl reason \<Rightarrow> reason \<in> {''variacao_excessiva'', ''sem_caderno''}" by blast
  with m(1) i pr(1)
  show ?thesis by (intro exI [of _ maps] exI [of _ demo_price_item] exI [of _ cx]) (simp split: sum.splits)
qed

theorem settled_schedules_never_change_witness:
  "demo_schedule ScheduleFired \<in> set (sd_schedules (mark_failed ''s1'' 5000 (fst (cancel_schedule ''s1'' (demo_sched ScheduleFired)))))"
proof -
  have "(schedule_step (\<lambda>_. True) (\<lambda>_ t. t + 1) ''acme'')\<^sup>*\<^sup>* (demo_sched ScheduleFired)
      (mark_failed ''s1'' 5000 (fst (cancel_schedule ''s1'' (demo_sched ScheduleFired))))"
    by (rule rtranclp.rtrancl_into_rtrancl [OF r_into_rtranclp [of "schedule_step (\<lambda>_. True) (\<lambda>_ t. t + 1) ''acme''"]])
      (rule schedule_step.Cancel, rule schedule_step.Park)
  then show ?thesis
    by (rule settled_schedules_never_change) (simp_all add: demo_sched_def demo_schedule_def)
qed

theorem tick_settles_due_schedules_witness:
  "\<exists>db'. fire_for_tenant 2 (\<lambda>_ t. t + 60000000) (\<lambda>_. demo_draw) 0 ''acme'' (demo_sched SchedulePending) = Some db' \<and>
     (\<forall>s \<in> set (sd_schedules db'). \<not> due 9000 s)"
proof -
  have "calm_tick (\<lambda>_ t. t + 60000000) (\<lambda>_. demo_draw) 9000" by (simp add: calm_tick_def demo_draw_def)
  moreover have "distinct (map sc_id (sd_schedules (demo_sched SchedulePending)))" "whole_milliseconds 9000 (demo_sched SchedulePending)"
    "due_count 9000 (demo_sched SchedulePending) < 2"
    by (simp_all add: demo_sched_def demo_schedule_def whole_milliseconds_def js_date_def due_count_def)
  moreover have "td_now demo_draw = 9000" by (simp add: demo_draw_def)
  ultimately show ?thesis
    using tick_settles_due_schedules [of "\<lambda>_ t. t + 60000000" "\<lambda>_. demo_draw" 9000 "demo_sched SchedulePending" 2 "''acme''"] by auto
qed

end
