(* ===== verification/Stores.thy ===== *)
theory Stores
  imports Pricing_Rules Apply_Price_Step Offer_Book_Execution
begin

text \<open>
  The stores of a tenant and their clusters: \<open>src/tenant-api/stores/stores.service.ts\<close> over
  \<open>core.tenant_store\<close> and \<open>core.store_cluster\<close>, and their import from the ERP,
  \<open>src/pipeline/steps/sync-stores.step.ts\<close>. The activation of a store is checked against the contracted
  quota under two row locks; the service is split where it waits for them, so that concurrent requests
  are a transition system over the same definitions. Text is ordered by code units.
\<close>

section \<open>Tables\<close>

record store_row = store +
  sw_cnpj :: "string option"
  sw_clusterId :: "string option"

record store_cluster =
  sl_id :: string
  sl_tenantId :: string
  sl_name :: string
  sl_createdAt :: int
  sl_updatedAt :: int
  sl_deleted :: bool

record stores_db =
  sb_stores :: "store_row list"
  sb_clusters :: "store_cluster list"
  sb_items :: "product_item list"
  sb_tenants :: "string \<Rightarrow> string option"
  sb_storeLimit :: "string \<Rightarrow> int option"

record store_api =
  sa_id :: string
  sa_externalId :: int
  sa_name :: string
  sa_cnpj :: "string option"
  sa_active :: bool
  sa_clusterId :: "string option"
  sa_clusterName :: "string option"

record store_quota_api =
  qa_limit :: "int option"
  qa_active :: nat

record store_cluster_api =
  ca_id :: string
  ca_name :: string
  ca_storeCount :: nat
  ca_createdAt :: int
  ca_updatedAt :: int

text \<open>An omitted field is \<open>None\<close>, a cluster of null is \<open>Some None\<close>.\<close>

record update_store_dto =
  ud_active :: "bool option"
  ud_clusterId :: "string option option"

section \<open>Stores\<close>

definition map_store :: "store_cluster list \<Rightarrow> store_row \<Rightarrow> store_api" where
  "map_store clusters s =
     \<lparr>sa_id = st_id s, sa_externalId = st_externalId s, sa_name = st_name s, sa_cnpj = sw_cnpj s,
      sa_active = st_active s, sa_clusterId = sw_clusterId s,
      sa_clusterName = map_option sl_name (case sw_clusterId s of None \<Rightarrow> None
        | Some c \<Rightarrow> find (\<lambda>cl. sl_id cl = c \<and> \<not> sl_deleted cl) clusters)\<rparr>"

definition list_stores :: "string \<Rightarrow> stores_db \<Rightarrow> store_api list outcome" where
  "list_stores slug db =
     bind_outcome (resolve_tenant_id slug (sb_tenants db)) (\<lambda>tenantId.
       Inr (map (map_store (sb_clusters db))
         (sort_key st_name (filter (\<lambda>s. st_tenantId s = tenantId \<and> \<not> st_deleted s) (sb_stores db)))))"

definition assert_store_cluster :: "string \<Rightarrow> string \<Rightarrow> stores_db \<Rightarrow> unit outcome" where
  "assert_store_cluster tenantId clusterId db =
     (if list_ex (\<lambda>c. sl_id c = clusterId \<and> sl_tenantId c = tenantId \<and> \<not> sl_deleted c) (sb_clusters db) then Inr ()
      else Inl (NotFoundException (''cluster '' @ clusterId @ '' not found'')))"

definition own_store :: "string \<Rightarrow> string \<Rightarrow> store_row \<Rightarrow> bool" where
  "own_store tenantId i s \<longleftrightarrow> st_id s = i \<and> st_tenantId s = tenantId \<and> \<not> st_deleted s"

text \<open>The count of the statement that checks the quota: the other active stores of the tenant.\<close>

definition active_others :: "string \<Rightarrow> string \<Rightarrow> stores_db \<Rightarrow> nat" where
  "active_others tenantId i db =
     length (filter (\<lambda>s. st_tenantId s = tenantId \<and> st_active s \<and> \<not> st_deleted s \<and> st_id s \<noteq> i) (sb_stores db))"

definition quota_check :: "bool \<Rightarrow> int option \<Rightarrow> nat \<Rightarrow> unit outcome" where
  "quota_check wasActive limit active =
     (case limit of
        None \<Rightarrow> Inr ()
      | Some l \<Rightarrow> if \<not> wasActive \<and> l \<le> int active
          then Inl (ConflictException (''store limit reached ('' @ show_int l @ '' active stores allowed)'')) else Inr ())"

text \<open>The waits of a request for locks of other transactions, and the error of a wait that is too long.\<close>

datatype lock_wait = TenantRow | StoreRow | ItemRows

definition lock_not_available :: exn where
  "lock_not_available = Error ''55P03''"

text \<open>
  The row of the store, read with its lock: the flag is the one at the time the lock is granted,
  the limit and the count are those of the snapshot of the statement.
\<close>

definition read_locked_store :: "string \<Rightarrow> string \<Rightarrow> int option \<times> nat \<Rightarrow> stores_db \<Rightarrow> unit outcome" where
  "read_locked_store tenantId i snapshot db =
     (case find (own_store tenantId i) (sb_stores db) of
        None \<Rightarrow> Inl (NotFoundException (''store '' @ i @ '' not found''))
      | Some s \<Rightarrow> quota_check (st_active s) (fst snapshot) (snd snapshot))"

definition quota_snapshot :: "string \<Rightarrow> string \<Rightarrow> stores_db \<Rightarrow> int option \<times> nat" where
  "quota_snapshot tenantId i db = (sb_storeLimit db tenantId, active_others tenantId i db)"

definition check_activation :: "(lock_wait \<Rightarrow> bool) \<Rightarrow> string \<Rightarrow> string \<Rightarrow> stores_db \<Rightarrow> unit outcome" where
  "check_activation timeout tenantId i db =
     (if timeout TenantRow then Inl lock_not_available
      else if timeout StoreRow \<and> list_ex (own_store tenantId i) (sb_stores db) then Inl lock_not_available
      else read_locked_store tenantId i (quota_snapshot tenantId i db) db)"

definition set_store :: "update_store_dto \<Rightarrow> store_row \<Rightarrow> store_row" where
  "set_store dto s =
     s\<lparr>st_active := (case ud_active dto of None \<Rightarrow> st_active s | Some a \<Rightarrow> a),
       sw_clusterId := (case ud_clusterId dto of None \<Rightarrow> sw_clusterId s | Some c \<Rightarrow> c)\<rparr>"

text \<open>The update, and the removal of the frozen prices of a store that was inactive.\<close>

definition write_store :: "(lock_wait \<Rightarrow> bool) \<Rightarrow> string \<Rightarrow> string \<Rightarrow> update_store_dto \<Rightarrow> stores_db \<Rightarrow> stores_db outcome" where
  "write_store timeout tenantId i dto db =
     (case find (own_store tenantId i) (sb_stores db) of
        None \<Rightarrow> Inl (NotFoundException (''store '' @ i @ '' not found''))
      | Some prev \<Rightarrow>
          let db1 = db\<lparr>sb_stores := update_where (own_store tenantId i) (set_store dto) (sb_stores db)\<rparr> in
          if ud_active dto = Some True \<and> \<not> st_active prev then
            (if timeout ItemRows then Inl lock_not_available
             else Inr (db1\<lparr>sb_items := filter (\<lambda>p. pi_storeId p \<noteq> i) (sb_items db1)\<rparr>))
          else Inr db1)"

definition apply_store_update ::
  "(lock_wait \<Rightarrow> bool) \<Rightarrow> string \<Rightarrow> string \<Rightarrow> update_store_dto \<Rightarrow> stores_db \<Rightarrow> (stores_db \<times> store_api option) outcome" where
  "apply_store_update timeout slug i dto db =
     (if ud_active dto = None \<and> ud_clusterId dto = None then Inl (BadRequestException ''no fields to update'')
      else bind_outcome (resolve_tenant_id slug (sb_tenants db)) (\<lambda>tenantId.
        bind_outcome (case ud_clusterId dto of Some (Some c) \<Rightarrow> if c = [] then Inr () else assert_store_cluster tenantId c db
                      | _ \<Rightarrow> Inr ()) (\<lambda>_.
        bind_outcome (if ud_active dto = Some True then check_activation timeout tenantId i db else Inr ()) (\<lambda>_.
        bind_outcome (write_store timeout tenantId i dto db) (\<lambda>db'.
        bind_outcome (list_stores slug db') (\<lambda>stores. Inr (db', find (\<lambda>s. sa_id s = i) stores)))))))"

definition update_store ::
  "(lock_wait \<Rightarrow> bool) \<Rightarrow> string \<Rightarrow> string \<Rightarrow> update_store_dto \<Rightarrow> stores_db \<Rightarrow> stores_db \<times> store_api option outcome" where
  "update_store timeout slug i dto db =
     (case apply_store_update timeout slug i dto db of
        Inr (db', s) \<Rightarrow> (db', Inr s)
      | Inl e \<Rightarrow> (db, Inl (if e = lock_not_available
          then ServiceUnavailableException ''another store change is in progress; retry'' else e)))"

definition get_quota :: "string \<Rightarrow> stores_db \<Rightarrow> store_quota_api outcome" where
  "get_quota slug db =
     bind_outcome (resolve_tenant_id slug (sb_tenants db)) (\<lambda>tenantId.
       Inr \<lparr>qa_limit = sb_storeLimit db tenantId,
            qa_active = length (filter (\<lambda>s. st_tenantId s = tenantId \<and> st_active s \<and> \<not> st_deleted s) (sb_stores db))\<rparr>)"

section \<open>Clusters of stores\<close>

definition map_store_cluster :: "store_row list \<Rightarrow> store_cluster \<Rightarrow> store_cluster_api" where
  "map_store_cluster stores c =
     \<lparr>ca_id = sl_id c, ca_name = sl_name c,
      ca_storeCount = length (filter (\<lambda>s. sw_clusterId s = Some (sl_id c) \<and> \<not> st_deleted s) stores),
      ca_createdAt = sl_createdAt c, ca_updatedAt = sl_updatedAt c\<rparr>"

definition list_store_clusters :: "string \<Rightarrow> stores_db \<Rightarrow> store_cluster_api list outcome" where
  "list_store_clusters slug db =
     bind_outcome (resolve_tenant_id slug (sb_tenants db)) (\<lambda>tenantId.
       Inr (map (map_store_cluster (sb_stores db))
         (sort_key sl_name (filter (\<lambda>c. sl_tenantId c = tenantId \<and> \<not> sl_deleted c) (sb_clusters db)))))"

definition create_store_cluster ::
  "int \<Rightarrow> string \<Rightarrow> string \<Rightarrow> string \<Rightarrow> stores_db \<Rightarrow> stores_db \<times> store_cluster_api option outcome" where
  "create_store_cluster now fresh slug name db =
     (case resolve_tenant_id slug (sb_tenants db) of
        Inl e \<Rightarrow> (db, Inl e)
      | Inr tenantId \<Rightarrow>
          let db' = db\<lparr>sb_clusters := sb_clusters db @
            [\<lparr>sl_id = fresh, sl_tenantId = tenantId, sl_name = js_trim name, sl_createdAt = now, sl_updatedAt = now, sl_deleted = False\<rparr>]\<rparr>
          in (db', bind_outcome (list_store_clusters slug db') (\<lambda>cs. Inr (find (\<lambda>c. ca_id c = fresh) cs))))"

definition own_cluster :: "string \<Rightarrow> string \<Rightarrow> store_cluster \<Rightarrow> bool" where
  "own_cluster tenantId i c \<longleftrightarrow> sl_id c = i \<and> sl_tenantId c = tenantId \<and> \<not> sl_deleted c"

definition rename_store_cluster ::
  "int \<Rightarrow> string \<Rightarrow> string \<Rightarrow> string \<Rightarrow> stores_db \<Rightarrow> stores_db \<times> store_cluster_api option outcome" where
  "rename_store_cluster now slug i name db =
     (case resolve_tenant_id slug (sb_tenants db) of
        Inl e \<Rightarrow> (db, Inl e)
      | Inr tenantId \<Rightarrow>
          if \<not> list_ex (own_cluster tenantId i) (sb_clusters db)
          then (db, Inl (NotFoundException (''cluster '' @ i @ '' not found'')))
          else let db' = db\<lparr>sb_clusters := update_where (own_cluster tenantId i)
                 (\<lambda>c. c\<lparr>sl_name := js_trim name, sl_updatedAt := now\<rparr>) (sb_clusters db)\<rparr>
               in (db', bind_outcome (list_store_clusters slug db') (\<lambda>cs. Inr (find (\<lambda>c. ca_id c = i) cs))))"

definition delete_store_cluster ::
  "int \<Rightarrow> string \<Rightarrow> string \<Rightarrow> stores_db \<Rightarrow> stores_db \<times> (string \<times> string) outcome" where
  "delete_store_cluster now slug i db =
     (case resolve_tenant_id slug (sb_tenants db) of
        Inl e \<Rightarrow> (db, Inl e)
      | Inr tenantId \<Rightarrow>
          (case find (own_cluster tenantId i) (sb_clusters db) of
             None \<Rightarrow> (db, Inl (NotFoundException (''cluster '' @ i @ '' not found'')))
           | Some c \<Rightarrow>
               (db\<lparr>sb_clusters := update_where (own_cluster tenantId i)
                    (\<lambda>c. c\<lparr>sl_deleted := True, sl_updatedAt := now\<rparr>) (sb_clusters db),
                  sb_stores := update_where (\<lambda>s. sw_clusterId s = Some i \<and> st_tenantId s = tenantId)
                    (\<lambda>s. s\<lparr>sw_clusterId := None\<rparr>) (sb_stores db)\<rparr>,
                Inr (i, sl_name c))))"

section \<open>The import of stores\<close>

record unidade_negocio =
  un_id :: int
  un_status :: string
  un_nome :: "string option"
  un_nomefantasia :: "string option"
  un_razaosocial :: "string option"
  un_cnpj :: "string option"

definition find_all_active :: "unidade_negocio list \<Rightarrow> unidade_negocio list" where
  "find_all_active rows = sort_key un_id (filter (\<lambda>u. un_status u = ''A'' \<and> un_cnpj u \<noteq> None) rows)"

definition digits_only :: "string option \<Rightarrow> string option" where
  "digits_only cnpj = (case given cnpj of None \<Rightarrow> None
     | Some s \<Rightarrow> let digits = digits_of s in if digits \<noteq> [] then Some digits else None)"

definition store_name :: "unidade_negocio \<Rightarrow> string \<Rightarrow> string" where
  "store_name u cnpj = or_default (or_else (given (un_nomefantasia u)) (or_else (given (un_razaosocial u)) (given (un_nome u)))) cnpj"

definition cnpj_taken :: "string \<Rightarrow> int \<Rightarrow> string \<Rightarrow> store_row list \<Rightarrow> bool" where
  "cnpj_taken tenantId externalId cnpj stores =
     list_ex (\<lambda>s. st_tenantId s = tenantId \<and> sw_cnpj s = Some cnpj \<and> st_externalId s \<noteq> externalId) stores"

text \<open>
  One row of the insert: the row of the same external id is refreshed, removed or not; the unique
  index on the registration number refuses a number another row has.
\<close>

definition upsert_store :: "(int \<Rightarrow> string) \<Rightarrow> string \<Rightarrow> int \<times> string \<times> string \<Rightarrow> store_row list \<Rightarrow> store_row list outcome" where
  "upsert_store fresh tenantId row stores =
     (case row of (externalId, name, cnpj) \<Rightarrow>
        if cnpj_taken tenantId externalId cnpj stores then Inl (Error ''23505'')
        else if list_ex (\<lambda>s. st_tenantId s = tenantId \<and> st_externalId s = externalId) stores
        then Inr (update_where (\<lambda>s. st_tenantId s = tenantId \<and> st_externalId s = externalId)
               (\<lambda>s. s\<lparr>st_name := name, sw_cnpj := Some cnpj\<rparr>) stores)
        else Inr (stores @ [\<lparr>st_id = fresh externalId, st_tenantId = tenantId, st_externalId = externalId, st_name = name,
               st_active = False, st_deleted = False, sw_cnpj = Some cnpj, sw_clusterId = None\<rparr>]))"

fun upsert_stores :: "(int \<Rightarrow> string) \<Rightarrow> string \<Rightarrow> (int \<times> string \<times> string) list \<Rightarrow> store_row list \<Rightarrow> store_row list outcome" where
  "upsert_stores fresh tenantId [] stores = Inr stores"
| "upsert_stores fresh tenantId (row # rows) stores =
     bind_outcome (upsert_store fresh tenantId row stores) (upsert_stores fresh tenantId rows)"

definition store_values :: "unidade_negocio list \<Rightarrow> (int \<times> string \<times> string) list" where
  "store_values stores = List.map_filter (\<lambda>u. map_option (\<lambda>cnpj. (un_id u, store_name u cnpj, cnpj)) (digits_only (un_cnpj u))) stores"

text \<open>The counts of processed and skipped stores; without a source nothing is read.\<close>

definition sync_stores ::
  "(int \<Rightarrow> string) \<Rightarrow> unidade_negocio list option \<Rightarrow> string \<Rightarrow> stores_db \<Rightarrow> stores_db \<times> (nat \<times> nat) outcome" where
  "sync_stores fresh integrationDs tenantSlug db =
     (case integrationDs of
        None \<Rightarrow> (db, Inr (0, 0))
      | Some erp \<Rightarrow>
          (case resolve_tenant_id tenantSlug (sb_tenants db) of
             Inl e \<Rightarrow> (db, Inl e)
           | Inr tenantId \<Rightarrow>
               let stores = find_all_active erp; values = store_values stores in
               (case upsert_stores fresh tenantId values (sb_stores db) of
                  Inl e \<Rightarrow> (db, Inl e)
                | Inr rows \<Rightarrow> (db\<lparr>sb_stores := rows\<rparr>, Inr (length values, length stores - length values)))))"

section \<open>Concurrent requests\<close>

text \<open>
  A request that activates a store locks the row of the tenant, takes the snapshot of the statement
  that checks the quota, waits for the row of the store, checks, and commits at its write. All other
  writers of a store wait for its row; a change of the limit waits for the row of the tenant.
\<close>

datatype activation_phase = HoldsTenant | HasSnapshot "int option \<times> nat" | Checked

record activation =
  ac_tenant :: string
  ac_store :: string
  ac_dto :: update_store_dto
  ac_phase :: activation_phase

record stores_world =
  wl_db :: stores_db
  wl_running :: "nat \<Rightarrow> activation option"

definition tenant_free :: "string \<Rightarrow> stores_world \<Rightarrow> bool" where
  "tenant_free t w \<longleftrightarrow> (\<forall>k a. wl_running w k = Some a \<longrightarrow> ac_tenant a \<noteq> t)"

definition row_free :: "string \<Rightarrow> stores_world \<Rightarrow> bool" where
  "row_free i w \<longleftrightarrow> (\<forall>k a. wl_running w k = Some a \<longrightarrow> ac_phase a = Checked \<longrightarrow> ac_store a \<noteq> i)"

inductive store_step :: "stores_world \<Rightarrow> stores_world \<Rightarrow> bool" where
  lock_tenant: "wl_running w k = None \<Longrightarrow> tenant_free t w \<Longrightarrow> ud_active dto = Some True \<Longrightarrow>
    store_step w (w\<lparr>wl_running := (wl_running w)(k \<mapsto>
      \<lparr>ac_tenant = t, ac_store = i, ac_dto = dto, ac_phase = HoldsTenant\<rparr>)\<rparr>)"
| take_snapshot: "wl_running w k = Some a \<Longrightarrow> ac_phase a = HoldsTenant \<Longrightarrow>
    store_step w (w\<lparr>wl_running := (wl_running w)(k \<mapsto>
      a\<lparr>ac_phase := HasSnapshot (quota_snapshot (ac_tenant a) (ac_store a) (wl_db w))\<rparr>)\<rparr>)"
| lock_row: "wl_running w k = Some a \<Longrightarrow> ac_phase a = HasSnapshot s \<Longrightarrow> row_free (ac_store a) w \<Longrightarrow>
    read_locked_store (ac_tenant a) (ac_store a) s (wl_db w) = Inr () \<Longrightarrow>
    store_step w (w\<lparr>wl_running := (wl_running w)(k \<mapsto> a\<lparr>ac_phase := Checked\<rparr>)\<rparr>)"
| commit_activation: "wl_running w k = Some a \<Longrightarrow> ac_phase a = Checked \<Longrightarrow>
    write_store timeout (ac_tenant a) (ac_store a) (ac_dto a) (wl_db w) = Inr db \<Longrightarrow>
    store_step w \<lparr>wl_db = db, wl_running = (wl_running w)(k := None)\<rparr>"
| abandon: "store_step w (w\<lparr>wl_running := (wl_running w)(k := None)\<rparr>)"
| other_update: "ud_active dto \<noteq> Some True \<Longrightarrow> row_free i w \<Longrightarrow> write_store timeout t i dto (wl_db w) = Inr db \<Longrightarrow>
    store_step w (w\<lparr>wl_db := db\<rparr>)"
| set_limit: "tenant_free t w \<Longrightarrow>
    store_step w (w\<lparr>wl_db := (wl_db w)\<lparr>sb_storeLimit := (sb_storeLimit (wl_db w))(t := l)\<rparr>\<rparr>)"
| import_stores: "sync_stores fresh erp slug (wl_db w) = (db, r) \<Longrightarrow> distinct (map st_id (sb_stores db)) \<Longrightarrow>
    store_step w (w\<lparr>wl_db := db\<rparr>)"
| remove_cluster: "delete_store_cluster now slug i (wl_db w) = (db, r) \<Longrightarrow> store_step w (w\<lparr>wl_db := db\<rparr>)"


definition active_count :: "string \<Rightarrow> stores_db \<Rightarrow> nat" where
  "active_count t db = length (filter (\<lambda>s. st_tenantId s = t \<and> st_active s \<and> \<not> st_deleted s) (sb_stores db))"

lemma filter_update_le:
  assumes "\<And>x. Q x \<Longrightarrow> P (f x) \<Longrightarrow> P x"
  shows "length (filter P (update_where Q f xs)) \<le> length (filter P xs)"
  using assms by (induction xs) (auto simp: update_where_def)

lemma filter_update_same:
  assumes "\<And>x. Q x \<Longrightarrow> P (f x) = P x"
  shows "length (filter P (update_where Q f xs)) = length (filter P xs)"
  using assms by (induction xs) (auto simp: update_where_def)

lemma set_store_fields [simp]:
  "st_id (set_store dto s) = st_id s" "st_tenantId (set_store dto s) = st_tenantId s" "st_deleted (set_store dto s) = st_deleted s"
  "st_active (set_store dto s) = (case ud_active dto of None \<Rightarrow> st_active s | Some a \<Rightarrow> a)"
  by (simp_all add: set_store_def)

lemma write_store_Inr:
  assumes "write_store timeout t i dto db = Inr db'"
  obtains s where "find (own_store t i) (sb_stores db) = Some s"
    "sb_stores db' = update_where (own_store t i) (set_store dto) (sb_stores db)" "sb_storeLimit db' = sb_storeLimit db"
  using assms by (auto simp: write_store_def Let_def split: option.splits if_splits)

lemma write_store_limit: "write_store timeout t i dto db = Inr db' \<Longrightarrow> sb_storeLimit db' = sb_storeLimit db"
  by (erule write_store_Inr)

lemma write_store_counts:
  assumes "write_store timeout t i dto db = Inr db'"
  shows "t' \<noteq> t \<or> j = i \<Longrightarrow> active_others t' j db' = active_others t' j db"
    and "t' \<noteq> t \<Longrightarrow> active_count t' db' = active_count t' db"
    and "ud_active dto \<noteq> Some True \<Longrightarrow> active_others t' j db' \<le> active_others t' j db \<and> active_count t' db' \<le> active_count t' db"
    and "map st_id (sb_stores db') = map st_id (sb_stores db)"
proof -
  obtain s where s: "sb_stores db' = update_where (own_store t i) (set_store dto) (sb_stores db)"
    using write_store_Inr [OF assms] by metis
  show "t' \<noteq> t \<or> j = i \<Longrightarrow> active_others t' j db' = active_others t' j db"
    unfolding active_others_def s by (rule filter_update_same) (auto simp: own_store_def)
  show "t' \<noteq> t \<Longrightarrow> active_count t' db' = active_count t' db"
    unfolding active_count_def s by (rule filter_update_same) (auto simp: own_store_def)
  show "ud_active dto \<noteq> Some True \<Longrightarrow> active_others t' j db' \<le> active_others t' j db \<and> active_count t' db' \<le> active_count t' db"
    unfolding active_others_def active_count_def s by (intro conjI filter_update_le) (auto split: option.splits)
  show "map st_id (sb_stores db') = map st_id (sb_stores db)" unfolding s by (rule map_update_where) simp
qed

lemma find_update_where:
  assumes "\<And>x. Q x \<Longrightarrow> P (f x) = P x"
  shows "find P (update_where Q f xs) = map_option (\<lambda>x. if Q x then f x else x) (find P xs)"
  using assms by (induction xs) (auto simp: update_where_def)

text \<open>The flag of a store, as the requests see it.\<close>

definition active_flag :: "string \<Rightarrow> string \<Rightarrow> stores_db \<Rightarrow> bool option" where
  "active_flag t i db = map_option st_active (find (own_store t i) (sb_stores db))"

lemma find_own: "find (own_store t i) xs = Some s \<Longrightarrow> st_id s = i \<and> st_tenantId s = t \<and> \<not> st_deleted s"
  by (auto simp: find_Some_iff own_store_def)

lemma write_store_flag:
  assumes "write_store timeout t i dto db = Inr db'" "t' \<noteq> t \<or> j \<noteq> i"
  shows "active_flag t' j db' = active_flag t' j db"
proof -
  obtain s where s: "sb_stores db' = update_where (own_store t i) (set_store dto) (sb_stores db)"
    using write_store_Inr [OF assms(1)] by metis
  have "find (own_store t' j) (sb_stores db') =
      map_option (\<lambda>x. if own_store t i x then set_store dto x else x) (find (own_store t' j) (sb_stores db))"
    unfolding s by (rule find_update_where) (auto simp: own_store_def)
  then show ?thesis using assms(2) find_own [of t' j "sb_stores db"]
    by (cases "find (own_store t' j) (sb_stores db)") (auto simp: active_flag_def own_store_def)
qed

text \<open>The import and the removal of a cluster change no flag and no count.\<close>

definition same_activity :: "stores_db \<Rightarrow> stores_db \<Rightarrow> bool" where
  "same_activity db db' \<longleftrightarrow> sb_storeLimit db' = sb_storeLimit db \<and>
     (\<forall>t j. active_others t j db' = active_others t j db) \<and> (\<forall>t. active_count t db' = active_count t db) \<and>
     (\<forall>t j b. active_flag t j db = Some b \<longrightarrow> active_flag t j db' = Some b)"

lemma same_activity_refl [simp]: "same_activity db db"
  by (simp add: same_activity_def)

lemma upsert_store_activity:
  assumes "upsert_store fresh t row (sb_stores db) = Inr rows"
  shows "same_activity db (db\<lparr>sb_stores := rows\<rparr>)"
proof -
  obtain e n c where row: "row = (e, n, c)" by (cases row)
  let ?Q = "\<lambda>s. st_tenantId s = t \<and> st_externalId s = e" and ?f = "\<lambda>s. s\<lparr>st_name := n, sw_cnpj := Some c\<rparr>"
  consider "rows = update_where ?Q ?f (sb_stores db)"
    | s where "rows = sb_stores db @ [s]" "\<not> st_active s"
    using assms by (auto simp: upsert_store_def row split: if_splits)
  then show ?thesis
  proof cases
    case 1
    have f: "find (own_store t' j) rows = map_option (\<lambda>x. if ?Q x then ?f x else x) (find (own_store t' j) (sb_stores db))" for t' j
      unfolding 1 by (rule find_update_where) (auto simp: own_store_def)
    have "active_flag t' j (db\<lparr>sb_stores := rows\<rparr>) = active_flag t' j db" for t' j
      unfolding active_flag_def by (cases "find (own_store t' j) (sb_stores db)") (auto simp: f)
    then show ?thesis
      unfolding same_activity_def active_others_def active_count_def by (auto simp: 1 filter_update_same)
  next
    case 2
    have "find P (xs @ [s]) = Some x" if "find P xs = Some x" for P xs and x :: store_row
      using that by (induction xs) (auto split: if_splits)
    then show ?thesis using 2
      by (auto simp: same_activity_def active_others_def active_count_def active_flag_def)
  qed
qed

lemma same_activity_trans: "same_activity a b \<Longrightarrow> same_activity b c \<Longrightarrow> same_activity a c"
  by (simp add: same_activity_def)

lemma upsert_stores_activity:
  "upsert_stores fresh t values (sb_stores db) = Inr rows \<Longrightarrow> same_activity db (db\<lparr>sb_stores := rows\<rparr>)"
proof (induction "values" arbitrary: db)
  case Nil
  then have "rows = sb_stores db" by simp
  then show ?case by simp
next
  case (Cons v vs)
  then obtain rows1 where r: "upsert_store fresh t v (sb_stores db) = Inr rows1" "upsert_stores fresh t vs rows1 = Inr rows"
    by (auto simp: bind_outcome_Inr_iff)
  from Cons.IH [of "db\<lparr>sb_stores := rows1\<rparr>"] r(2)
  have "same_activity (db\<lparr>sb_stores := rows1\<rparr>) (db\<lparr>sb_stores := rows\<rparr>)" by simp
  then show ?case by (rule same_activity_trans [OF upsert_store_activity [OF r(1)]])
qed

lemma sync_stores_activity: "sync_stores fresh erp slug db = (db', r) \<Longrightarrow> same_activity db db'"
  by (auto simp: sync_stores_def Let_def upsert_stores_activity split: option.splits sum.splits)

lemma delete_cluster_activity:
  assumes "delete_store_cluster now slug i db = (db', r)"
  shows "same_activity db db' \<and> map st_id (sb_stores db') = map st_id (sb_stores db)"
proof (cases "db' = db")
  case False
  then obtain t where s: "sb_stores db' = update_where (\<lambda>s. sw_clusterId s = Some i \<and> st_tenantId s = t)
      (\<lambda>s. s\<lparr>sw_clusterId := None\<rparr>) (sb_stores db)" and l: "sb_storeLimit db' = sb_storeLimit db"
    using assms by (auto simp: delete_store_cluster_def split: sum.splits option.splits)
  have f: "find (own_store t' j) (sb_stores db') =
      map_option (\<lambda>x. if sw_clusterId x = Some i \<and> st_tenantId x = t then x\<lparr>sw_clusterId := None\<rparr> else x)
        (find (own_store t' j) (sb_stores db))" for t' j
    unfolding s by (rule find_update_where) (auto simp: own_store_def)
  have m: "map st_id (sb_stores db') = map st_id (sb_stores db)" unfolding s by (rule map_update_where) simp
  have "active_flag t' j db' = active_flag t' j db" for t' j
    unfolding active_flag_def f by (cases "find (own_store t' j) (sb_stores db)") auto
  then have "same_activity db db'"
    unfolding same_activity_def active_others_def active_count_def by (auto simp: s l filter_update_same)
  then show ?thesis using m by simp
qed simp

text \<open>
  What a running activation relies on until it commits: the limit and the count it read, and after
  the check the flag it saw on the locked row.
\<close>

definition holds :: "stores_db \<Rightarrow> activation \<Rightarrow> bool" where
  "holds db a \<longleftrightarrow> ud_active (ac_dto a) = Some True \<and>
     (case ac_phase a of
        HoldsTenant \<Rightarrow> True
      | HasSnapshot s \<Rightarrow> fst s = sb_storeLimit db (ac_tenant a) \<and> active_others (ac_tenant a) (ac_store a) db \<le> snd s
      | Checked \<Rightarrow> (\<exists>b. active_flag (ac_tenant a) (ac_store a) db = Some b \<and>
          (b \<or> (\<forall>l. sb_storeLimit db (ac_tenant a) = Some l \<longrightarrow> int (active_others (ac_tenant a) (ac_store a) db) < l))))"

definition world_ok :: "stores_world \<Rightarrow> bool" where
  "world_ok w \<longleftrightarrow> distinct (map st_id (sb_stores (wl_db w))) \<and>
     (\<forall>k a. wl_running w k = Some a \<longrightarrow> holds (wl_db w) a) \<and>
     (\<forall>k k' a a'. wl_running w k = Some a \<longrightarrow> wl_running w k' = Some a' \<longrightarrow> k \<noteq> k' \<longrightarrow> ac_tenant a \<noteq> ac_tenant a')"

lemma holds_mono:
  assumes "holds db a" "sb_storeLimit db' (ac_tenant a) = sb_storeLimit db (ac_tenant a)"
    and "active_others (ac_tenant a) (ac_store a) db' \<le> active_others (ac_tenant a) (ac_store a) db"
    and "\<And>b. ac_phase a = Checked \<Longrightarrow> active_flag (ac_tenant a) (ac_store a) db = Some b \<Longrightarrow>
      active_flag (ac_tenant a) (ac_store a) db' = Some b"
  shows "holds db' a"
  using assms by (fastforce simp: holds_def split: activation_phase.splits)

lemma holds_same:
  assumes "holds db a" "same_activity db db'"
  shows "holds db' a"
  using assms(2) by (intro holds_mono [OF assms(1)]) (simp_all add: same_activity_def)

lemma read_locked_store_Inr:
  assumes "read_locked_store t i s db = Inr ()"
  obtains b where "active_flag t i db = Some b" "b \<or> (\<forall>l. fst s = Some l \<longrightarrow> int (snd s) < l)"
  using assms by (auto simp: read_locked_store_def active_flag_def quota_check_def split: option.splits if_splits)

lemma world_ok_db:
  assumes "world_ok w" "map st_id (sb_stores db) = map st_id (sb_stores (wl_db w)) \<or> distinct (map st_id (sb_stores db))"
    and "\<And>k a. wl_running w k = Some a \<Longrightarrow> holds (wl_db w) a \<Longrightarrow> holds db a"
  shows "world_ok (w\<lparr>wl_db := db\<rparr>)"
  using assms unfolding world_ok_def by auto

lemma world_ok_phase:
  assumes "world_ok w" "wl_running w k = Some a" "holds (wl_db w) (a\<lparr>ac_phase := p\<rparr>)"
  shows "world_ok (w\<lparr>wl_running := (wl_running w)(k \<mapsto> a\<lparr>ac_phase := p\<rparr>)\<rparr>)"
  using assms unfolding world_ok_def by (auto split: if_splits)

lemma step_keeps_ok:
  assumes "store_step w w'" "world_ok w"
  shows "world_ok w'"
  using assms
proof (induction rule: store_step.induct)
  case (lock_tenant w k t dto i)
  then show ?case unfolding world_ok_def tenant_free_def by (auto simp: holds_def)
next
  case (take_snapshot w k a)
  then have "ud_active (ac_dto a) = Some True" unfolding world_ok_def holds_def by blast
  then show ?case using take_snapshot by (intro world_ok_phase) (simp_all add: holds_def quota_snapshot_def)
next
  case (lock_row w k a s)
  obtain b where b: "active_flag (ac_tenant a) (ac_store a) (wl_db w) = Some b"
    "b \<or> (\<forall>l. fst s = Some l \<longrightarrow> int (snd s) < l)" by (rule read_locked_store_Inr [OF lock_row(4)])
  have "holds (wl_db w) a" using lock_row(1,5) unfolding world_ok_def by blast
  then have "holds (wl_db w) (a\<lparr>ac_phase := Checked\<rparr>)" using b lock_row(2) by (force simp: holds_def)
  then show ?case using lock_row by (intro world_ok_phase)
next
  case (commit_activation w k a timeout db)
  have "holds db a'" if "k' \<noteq> k" "wl_running w k' = Some a'" for k' a'
  proof -
    have "ac_tenant a' \<noteq> ac_tenant a" and h: "holds (wl_db w) a'"
      using that commit_activation(1,4) unfolding world_ok_def by blast+
    then show ?thesis
      using write_store_counts(1) [OF commit_activation(3)] write_store_flag [OF commit_activation(3)]
        write_store_limit [OF commit_activation(3)] by (intro holds_mono [OF h]) simp_all
  qed
  then show ?case using commit_activation(1,4) write_store_counts(4) [OF commit_activation(3)]
    unfolding world_ok_def by (auto split: if_splits)
next
  case (abandon w k)
  then show ?case unfolding world_ok_def by (auto split: if_splits)
next
  case (other_update dto i w timeout t db)
  have "holds db a" if "wl_running w k = Some a" "holds (wl_db w) a" for k a
  proof (rule holds_mono [OF that(2)])
    have "ac_phase a = Checked \<Longrightarrow> ac_store a \<noteq> i" using other_update(2) that(1) by (simp add: row_free_def)
    then show "active_flag (ac_tenant a) (ac_store a) db = Some b"
      if "ac_phase a = Checked" "active_flag (ac_tenant a) (ac_store a) (wl_db w) = Some b" for b
      using that write_store_flag [OF other_update(3)] by simp
  qed (use write_store_counts(3) [OF other_update(3,1)] write_store_limit [OF other_update(3)] in simp_all)
  then show ?case using other_update write_store_counts(4) [OF other_update(3)] by (intro world_ok_db) auto
next
  case (set_limit t w l)
  have "holds ((wl_db w)\<lparr>sb_storeLimit := (sb_storeLimit (wl_db w))(t := l)\<rparr>) a"
    if "wl_running w k = Some a" "holds (wl_db w) a" for k a
    using set_limit(1) that by (intro holds_mono [OF that(2)]) (auto simp: tenant_free_def active_others_def active_flag_def)
  then show ?case using set_limit by (intro world_ok_db) auto
next
  case (import_stores fresh erp slug w db r)
  then show ?case using sync_stores_activity holds_same by (intro world_ok_db) auto
next
  case (remove_cluster now slug i w db r)
  then show ?case using delete_cluster_activity holds_same by (intro world_ok_db) blast+
qed

lemma count_one:
  assumes "distinct (map st_id xs)"
  shows "length (filter (\<lambda>s. st_tenantId s = t \<and> st_active s \<and> \<not> st_deleted s) xs) =
    length (filter (\<lambda>s. st_tenantId s = t \<and> st_active s \<and> \<not> st_deleted s \<and> st_id s \<noteq> i) xs) +
    (if map_option st_active (find (own_store t i) xs) = Some True then 1 else 0)"
proof -
  define A where "A s \<longleftrightarrow> st_tenantId s = t \<and> st_active s \<and> \<not> st_deleted s" for s :: store_row
  have "length (filter A xs) = length (filter (\<lambda>s. A s \<and> st_id s \<noteq> i) xs) +
      (if map_option st_active (find (own_store t i) xs) = Some True then 1 else 0)"
    using assms
  proof (induction xs)
    case (Cons x xs)
    show ?case
    proof (cases "st_id x = i")
      case True
      have "st_id x \<notin> st_id ` set xs" using Cons.prems by simp
      then have other: "\<forall>y \<in> set xs. st_id y \<noteq> i" unfolding True by (metis imageI)
      then have "find (own_store t i) xs = None" "filter (\<lambda>s. A s \<and> st_id s \<noteq> i) xs = filter A xs"
        by (auto simp: find_None_iff own_store_def intro!: filter_cong)
      moreover have "own_store t i x = (st_tenantId x = t \<and> \<not> st_deleted x)" using True by (simp add: own_store_def)
      ultimately show ?thesis using True by (cases "A x"; cases "own_store t i x") (simp_all add: A_def [of x])
    next
      case False
      then show ?thesis using Cons by (simp add: own_store_def)
    qed
  qed simp
  then show ?thesis unfolding A_def [abs_def] conj_assoc .
qed

lemma active_count_flag:
  "distinct (map st_id (sb_stores db)) \<Longrightarrow>
   active_count t db = active_others t i db + (if active_flag t i db = Some True then 1 else 0)"
  unfolding active_count_def active_others_def active_flag_def by (rule count_one)

lemma written_flag:
  assumes "write_store timeout t i dto db = Inr db'" "ud_active dto = Some True"
  shows "active_flag t i db' = Some True"
proof -
  obtain s where s: "find (own_store t i) (sb_stores db) = Some s"
    "sb_stores db' = update_where (own_store t i) (set_store dto) (sb_stores db)" by (rule write_store_Inr [OF assms(1)])
  have "find (own_store t i) (sb_stores db') =
      map_option (\<lambda>x. if own_store t i x then set_store dto x else x) (find (own_store t i) (sb_stores db))"
    unfolding s(2) by (rule find_update_where) (auto simp: own_store_def)
  then show ?thesis using s(1) find_own [OF s(1)] assms(2) by (simp add: active_flag_def own_store_def)
qed

lemma reachable_world_ok: "store_step\<^sup>*\<^sup>* w0 w \<Longrightarrow> world_ok w0 \<Longrightarrow> world_ok w"
  by (induction rule: rtranclp_induct) (auto intro: step_keeps_ok)

lemma idle_ok: "distinct (map st_id (sb_stores (wl_db w))) \<Longrightarrow> wl_running w = (\<lambda>_. None) \<Longrightarrow> world_ok w"
  by (simp add: world_ok_def)

lemma committed_within_quota:
  assumes "world_ok w" "wl_running w k = Some a" "ac_phase a = Checked"
    and "write_store timeout (ac_tenant a) (ac_store a) (ac_dto a) (wl_db w) = Inr db"
    and "active_count t (wl_db w) < active_count t db" "sb_storeLimit (wl_db w) t = Some l"
  shows "int (active_count t db) \<le> l"
proof -
  have d: "distinct (map st_id (sb_stores (wl_db w)))" and h: "holds (wl_db w) a"
    using assms(1,2) unfolding world_ok_def by blast+
  have d': "distinct (map st_id (sb_stores db))" using d write_store_counts(4) [OF assms(4)] by simp
  have t: "t = ac_tenant a" using write_store_counts(2) [OF assms(4), of t] assms(5) by fastforce
  obtain b where b: "active_flag t (ac_store a) (wl_db w) = Some b"
    "b \<or> int (active_others t (ac_store a) (wl_db w)) < l" "ud_active (ac_dto a) = Some True"
    using h assms(3,6) by (auto simp: holds_def t)
  have "active_others t (ac_store a) db = active_others t (ac_store a) (wl_db w)"
    using write_store_counts(1) [OF assms(4)] by (simp add: t)
  moreover have "active_flag t (ac_store a) db = Some True" using written_flag [OF assms(4) b(3)] by (simp add: t)
  ultimately show ?thesis
    using active_count_flag [OF d, of t "ac_store a"] active_count_flag [OF d', of t "ac_store a"] b assms(5) by (auto split: if_splits)
qed

text \<open>
  C37. The contracted quota holds against concurrency: whatever requests run, whatever they interleave
  with (other activations and deactivations, changes of the limit, imports, removals of clusters), no
  step takes the number of active stores of a tenant above its limit.
\<close>

theorem activation_within_quota:
  assumes "store_step\<^sup>*\<^sup>* w0 w" "store_step w w'"
    and "wl_running w0 = (\<lambda>_. None)" "distinct (map st_id (sb_stores (wl_db w0)))"
    and "active_count t (wl_db w) < active_count t (wl_db w')" "sb_storeLimit (wl_db w') t = Some l"
  shows "int (active_count t (wl_db w')) \<le> l"
  using assms(2)
proof (cases rule: store_step.cases)
  case (commit_activation k a timeout db)
  have "world_ok w" using reachable_world_ok [OF assms(1) idle_ok [OF assms(4,3)]] .
  then show ?thesis
    using committed_within_quota [of w k a timeout db t l] commit_activation assms(5,6) write_store_limit by fastforce
next
  case (other_update dto i timeout t' db)
  then show ?thesis using write_store_counts(3) [OF other_update(4,2), of t undefined] assms(5) by simp
next
  case (import_stores fresh erp slug db r)
  then show ?thesis using sync_stores_activity assms(5) by (fastforce simp: same_activity_def)
next
  case (remove_cluster now slug i db r)
  then show ?thesis using delete_cluster_activity assms(5) by (fastforce simp: same_activity_def)
qed (use assms(5) in \<open>simp_all add: active_count_def\<close>)

text \<open>A request that meets no other one is these steps in a row.\<close>

lemma update_store_runs:
  assumes "update_store (\<lambda>_. False) slug i dto db = (db', Inr s)" "ud_active dto = Some True"
  shows "store_step\<^sup>*\<^sup>* \<lparr>wl_db = db, wl_running = (\<lambda>_. None)\<rparr> \<lparr>wl_db = db', wl_running = (\<lambda>_. None)\<rparr>"
proof -
  obtain t where t: "read_locked_store t i (quota_snapshot t i db) db = Inr ()" "write_store (\<lambda>_. False) t i dto db = Inr db'"
    using assms by (auto simp: update_store_def apply_store_update_def check_activation_def bind_outcome_Inr_iff split: sum.splits if_splits)
  define a where "a p = \<lparr>ac_tenant = t, ac_store = i, ac_dto = dto, ac_phase = p\<rparr>" for p
  define w where "w p = \<lparr>wl_db = db, wl_running = [0 \<mapsto> a p]\<rparr>" for p
  have 1: "store_step \<lparr>wl_db = db, wl_running = (\<lambda>_. None)\<rparr> (w HoldsTenant)"
    using store_step.lock_tenant [of "\<lparr>wl_db = db, wl_running = (\<lambda>_. None)\<rparr>" 0 t dto i] assms(2)
    by (simp add: w_def a_def tenant_free_def)
  have 2: "store_step (w HoldsTenant) (w (HasSnapshot (quota_snapshot t i db)))"
    using store_step.take_snapshot [of "w HoldsTenant" 0 "a HoldsTenant"] by (simp add: w_def a_def)
  have 3: "store_step (w (HasSnapshot (quota_snapshot t i db))) (w Checked)"
    using store_step.lock_row [of "w (HasSnapshot (quota_snapshot t i db))" 0 "a (HasSnapshot (quota_snapshot t i db))"] t(1)
    by (simp add: w_def a_def row_free_def)
  have 4: "store_step (w Checked) \<lparr>wl_db = db', wl_running = (\<lambda>_. None)\<rparr>"
    using store_step.commit_activation [of "w Checked" 0 "a Checked"] t(2) by (simp add: w_def a_def fun_upd_idem_iff)
  show ?thesis using 1 2 3 4 by (meson converse_rtranclp_into_rtranclp rtranclp.rtrancl_refl)
qed

section \<open>A concrete tenant with one free place\<close>

definition demo_shop :: "string \<Rightarrow> bool \<Rightarrow> store_row" where
  "demo_shop i active = \<lparr>st_id = i, st_tenantId = ''t'', st_externalId = int (length i), st_name = i, st_active = active,
     st_deleted = False, sw_cnpj = None, sw_clusterId = None\<rparr>"

definition demo_shops :: "store_row list \<Rightarrow> stores_db" where
  "demo_shops rows = \<lparr>sb_stores = rows, sb_clusters = [], sb_items = [], sb_tenants = (\<lambda>s. if s = ''acme'' then Some ''t'' else None),
     sb_storeLimit = (\<lambda>_. Some 2)\<rparr>"

definition activate :: update_store_dto where
  "activate = \<lparr>ud_active = Some True, ud_clusterId = None\<rparr>"

lemmas demo_shop_defs = demo_shops_def demo_shop_def activate_def own_store_def set_store_def active_count_def active_others_def

lemma demo_activation:
  "sb_stores (fst (update_store (\<lambda>_. False) ''acme'' ''bb'' activate
     (demo_shops [demo_shop ''a'' True, demo_shop ''bb'' False, demo_shop ''ccc'' False]))) =
   [demo_shop ''a'' True, demo_shop ''bb'' True, demo_shop ''ccc'' False]"
  by code_simp

text \<open>The last place of the quota is taken; the third store is refused.\<close>

theorem activation_within_quota_witness:
  "let db = demo_shops [demo_shop ''a'' True, demo_shop ''bb'' False, demo_shop ''ccc'' False];
       db' = demo_shops [demo_shop ''a'' True, demo_shop ''bb'' True, demo_shop ''ccc'' False] in
   sb_stores (fst (update_store (\<lambda>_. False) ''acme'' ''bb'' activate db)) = sb_stores db' \<and> int (active_count ''t'' db') \<le> 2 \<and>
   snd (update_store (\<lambda>_. False) ''acme'' ''ccc'' activate db') = Inl (ConflictException ''store limit reached (2 active stores allowed)'')"
proof -
  define db db' where "db = demo_shops [demo_shop ''a'' True, demo_shop ''bb'' False, demo_shop ''ccc'' False]"
    and "db' = demo_shops [demo_shop ''a'' True, demo_shop ''bb'' True, demo_shop ''ccc'' False]"
  define w where "w = \<lparr>wl_db = db, wl_running = [0 \<mapsto> \<lparr>ac_tenant = ''t'', ac_store = ''bb'', ac_dto = activate, ac_phase = Checked\<rparr>]\<rparr>"
  define w0 where "w0 = \<lparr>wl_db = db, wl_running = (\<lambda>_. None)\<rparr>"
  let ?a = "\<lambda>p. \<lparr>ac_tenant = ''t'', ac_store = ''bb'', ac_dto = activate, ac_phase = p\<rparr>"
  let ?w = "\<lambda>p. \<lparr>wl_db = db, wl_running = [0 \<mapsto> ?a p]\<rparr>"
  let ?s = "quota_snapshot ''t'' ''bb'' db"
  have locked: "read_locked_store ''t'' ''bb'' ?s db = Inr ()" unfolding db_def by code_simp
  have "store_step w0 (?w HoldsTenant)"
    using store_step.lock_tenant [of w0 0 "''t''" activate "''bb''"] by (simp add: w0_def tenant_free_def activate_def)
  moreover have "store_step (?w HoldsTenant) (?w (HasSnapshot ?s))"
    using store_step.take_snapshot [of "?w HoldsTenant" 0 "?a HoldsTenant"] by simp
  moreover have "store_step (?w (HasSnapshot ?s)) w"
    using store_step.lock_row [of "?w (HasSnapshot ?s)" 0 "?a (HasSnapshot ?s)"] locked by (simp add: w_def row_free_def)
  ultimately have r: "store_step\<^sup>*\<^sup>* w0 w" by (meson converse_rtranclp_into_rtranclp rtranclp.rtrancl_refl)
  have "write_store (\<lambda>_. False) ''t'' ''bb'' activate db = Inr db'"
    by (simp add: write_store_def db_def db'_def demo_shop_defs update_where_def)
  then have s: "store_step w \<lparr>wl_db = db', wl_running = (\<lambda>_. None)\<rparr>"
    using store_step.commit_activation [of w 0 "?a Checked"] by (simp add: w_def fun_upd_idem_iff)
  have "int (active_count ''t'' (wl_db \<lparr>wl_db = db', wl_running = (\<lambda>_. None)\<rparr>)) \<le> 2"
    by (rule activation_within_quota [OF r s]) (simp_all add: w0_def w_def db_def db'_def demo_shop_defs)
  moreover have "snd (update_store (\<lambda>_. False) ''acme'' ''ccc'' activate db') = Inl (ConflictException ''store limit reached (2 active stores allowed)'')"
    unfolding db'_def by code_simp
  ultimately show ?thesis using demo_activation by (simp add: db_def db'_def demo_shops_def)
qed

text \<open>
  The import is keyed on the id of the ERP, not on the registration number: two stores of the ERP
  with one number fail it, and no store is imported.
\<close>

lemma same_cnpj_fails_import:
  "let u = (\<lambda>i. \<lparr>un_id = i, un_status = ''A'', un_nome = None, un_nomefantasia = Some ''x'', un_razaosocial = None, un_cnpj = Some ''12-3''\<rparr>)
   in snd (sync_stores (\<lambda>_. ''n'') (Some [u 1, u 2]) ''acme'' (demo_shops [])) = Inl (Error ''23505'')"
  by code_simp

end
