(* ===== verification/Erp_Reads.thy ===== *)
theory Erp_Reads
  imports Pipeline_Graph Catalog_Mutation
begin

text \<open>
  What the import steps read from the ERP: the repositories under
  \<open>src/integration/repositories/a7pharma\<close> as queries on the rows of the entities under
  \<open>src/integration/entities/a7pharma\<close>. The database keeps exact decimals and computes with them; a
  number reaches the code as the nearest double. A query without \<open>ORDER BY\<close> returns table order. The
  winning offer of a store is a loop over an order that tells all items apart.
\<close>

section \<open>Rows\<close>

record erp_embalagem = embalagem +
  ee_produtoid :: int
  ee_apresentacao :: "string option"
  ee_quantidadeporembalagem :: int
  ee_precoreferencial :: rat
  ee_precovenda :: rat
  ee_gruporemarcacaoid :: "int option"
  ee_descricao :: string

record erp_produto =
  ep_id :: int
  ep_status :: string
  ep_tipopreco :: string
  ep_fabricanteid :: int

record erp_classificacao =
  cl_id :: int
  cl_principal :: bool
  cl_caminho :: string

record erp_custo =
  cu_produtoid :: int
  cu_unidadenegocioid :: int
  cu_custo :: rat
  cu_customedio :: rat
  cu_itemnotafiscalid :: "int option"

record erp_estoque =
  et_embalagemid :: int
  et_unidadenegocioid :: int
  et_estoque :: rat

record erp_preco =
  eu_embalagemid :: int
  eu_unidadenegocioid :: int
  eu_precovenda :: rat
  eu_precoreferencial :: "rat option"

record erp_caderno =
  co_id :: int
  co_nome :: string
  co_status :: string
  co_datahorainicial :: "int option"
  co_datahorafinal :: "int option"
  co_crmapenasgrupoconsumidor :: bool
  co_validoapenascupomdesconto :: bool
  co_validoapenasprevencido :: bool
  co_formapagamentoaceita :: string
  co_diasemanasegunda :: bool
  co_diasemanaterca :: bool
  co_diasemanaquarta :: bool
  co_diasemanaquinta :: bool
  co_diasemanasexta :: bool
  co_diasemanasabado :: bool
  co_diasemanadomingo :: bool

record erp_item =
  io_id :: int
  io_embalagemid :: "int option"
  io_cadernoofertaid :: int
  io_tipooferta :: char
  io_precooferta :: "rat option"
  io_descontooferta :: "rat option"
  io_tipoitem :: char
  io_gruporemarcacaoid :: "int option"
  io_fabricanteid :: "int option"
  io_classificacaoid :: "int option"
  io_markup :: "rat option"
  io_descontoporqtdtipo :: char
  io_comboofertaid :: "int option"

record erp_quantidade =
  iq_id :: int
  iq_itemcadernoofertaid :: int
  iq_quantidade :: int
  iq_desconto :: "rat option"
  iq_preco :: "rat option"
  iq_precototal :: "rat option"
  iq_markup :: "rat option"
  iq_descontototal :: "rat option"

text \<open>
  The tables, with the clock of the database. The maker of a product is its name; the stores that
  take part in an offer book and the classifications of a product are pairs of ids; a receipt is a
  package and an instant.
\<close>

record erp =
  er_embalagens :: "erp_embalagem list"
  er_produtos :: "erp_produto list"
  er_fabricantes :: "(int \<times> string) list"
  er_classificacoes :: "erp_classificacao list"
  er_classificacaoProduto :: "(int \<times> int) list"
  er_custos :: "erp_custo list"
  er_estoques :: "erp_estoque list"
  er_precos :: "erp_preco list"
  er_cadernos :: "erp_caderno list"
  er_itens :: "erp_item list"
  er_quantidades :: "erp_quantidade list"
  er_participantes :: "(int \<times> int) list"
  er_recebimentos :: "(int \<times> int) list"
  er_now :: int

section \<open>Packages, products, costs and stock\<close>

definition valid_package :: "erp_embalagem \<Rightarrow> bool" where
  "valid_package e \<longleftrightarrow> emb_codigobarras e \<noteq> None \<and> emb_codigobarras e \<noteq> Some [] \<and> ee_quantidadeporembalagem e = 1"

definition find_all_valid_with_barcode :: "erp \<Rightarrow> embalagem list" where
  "find_all_valid_with_barcode e = map embalagem.truncate (sort_key emb_id (filter valid_package (er_embalagens e)))"

definition find_by_ids_with_relations :: "int list \<Rightarrow> erp \<Rightarrow> erp_embalagem list" where
  "find_by_ids_with_relations ids e = sort_key emb_id (filter (\<lambda>p. valid_package p \<and> emb_id p \<in> set ids) (er_embalagens e))"

definition find_produto_ids_by_ids :: "int list \<Rightarrow> erp \<Rightarrow> (int \<times> int) list" where
  "find_produto_ids_by_ids ids e = map (\<lambda>p. (emb_id p, ee_produtoid p)) (filter (\<lambda>p. emb_id p \<in> set ids) (er_embalagens e))"

definition produto_of :: "erp_embalagem \<Rightarrow> erp \<Rightarrow> erp_produto option" where
  "produto_of p e = find (\<lambda>r. ep_id r = ee_produtoid p) (er_produtos e)"

definition fabricante_of :: "erp_embalagem \<Rightarrow> erp \<Rightarrow> string option" where
  "fabricante_of p e = (case produto_of p e of None \<Rightarrow> None | Some r \<Rightarrow> map_of (er_fabricantes e) (ep_fabricanteid r))"

text \<open>The product and the path of every principal classification.\<close>

definition find_principal_classification :: "int list \<Rightarrow> erp \<Rightarrow> (int \<times> string) list" where
  "find_principal_classification produtoIds e =
     concat (map (\<lambda>(produtoid, classificacaoid).
         map (\<lambda>c. (produtoid, cl_caminho c)) (filter (\<lambda>c. cl_id c = classificacaoid \<and> cl_principal c) (er_classificacoes e)))
       (filter (\<lambda>(produtoid, _). produtoid \<in> set produtoIds) (er_classificacaoProduto e)))"

text \<open>\<open>MAX\<close> over a column that may be null.\<close>

definition max_of :: "int list \<Rightarrow> int option" where
  "max_of xs = (if xs = [] then None else Some (Max (set xs)))"

definition find_latest_cost :: "int list \<Rightarrow> erp \<Rightarrow> erp_custo list" where
  "find_latest_cost produtoIds e =
     filter (\<lambda>c. cu_produtoid c \<in> set produtoIds \<and> cu_itemnotafiscalid c \<noteq> None \<and>
         cu_itemnotafiscalid c = max_of (List.map_filter cu_itemnotafiscalid (filter (\<lambda>c2. cu_produtoid c2 = cu_produtoid c) (er_custos e))))
       (er_custos e)"

definition find_cost_by_unidade :: "int list \<Rightarrow> int \<Rightarrow> erp \<Rightarrow> erp_custo list" where
  "find_cost_by_unidade produtoIds unidade e =
     filter (\<lambda>c. cu_produtoid c \<in> set produtoIds \<and> cu_unidadenegocioid c = unidade) (er_custos e)"

definition find_price_by_unidade :: "int list \<Rightarrow> int \<Rightarrow> erp \<Rightarrow> erp_preco list" where
  "find_price_by_unidade embalagemIds unidade e =
     filter (\<lambda>p. eu_embalagemid p \<in> set embalagemIds \<and> eu_unidadenegocioid p = unidade) (er_precos e)"

definition find_stock :: "int list \<Rightarrow> erp \<Rightarrow> erp_estoque list" where
  "find_stock embalagemIds e = filter (\<lambda>r. et_embalagemid r \<in> set embalagemIds \<and> 0 < et_estoque r) (er_estoques e)"

definition find_latest_receipt_date :: "int list \<Rightarrow> erp \<Rightarrow> (int \<times> int) list" where
  "find_latest_receipt_date embalagemIds e =
     (let rows = filter (\<lambda>(i, _). i \<in> set embalagemIds) (er_recebimentos e) in
      map (\<lambda>i. (i, Max (snd ` set (filter (\<lambda>r. fst r = i) rows)))) (dedup (map fst rows)))"

section \<open>Offers\<close>

text \<open>The filter of the offer books that hold for everybody on every day.\<close>

definition unrestricted_caderno :: "erp \<Rightarrow> erp_caderno \<Rightarrow> bool" where
  "unrestricted_caderno e c \<longleftrightarrow>
     co_status c = ''A'' \<and> \<not> co_crmapenasgrupoconsumidor c \<and> \<not> co_validoapenascupomdesconto c \<and>
     \<not> co_validoapenasprevencido c \<and> co_formapagamentoaceita c = ''A'' \<and>
     \<not> co_diasemanasegunda c \<and> \<not> co_diasemanaterca c \<and> \<not> co_diasemanaquarta c \<and> \<not> co_diasemanaquinta c \<and>
     \<not> co_diasemanasexta c \<and> \<not> co_diasemanasabado c \<and> \<not> co_diasemanadomingo c \<and>
     (case co_datahorafinal c of None \<Rightarrow> True | Some t \<Rightarrow> er_now e \<le> t)"

definition find_caderno :: "erp \<Rightarrow> int \<Rightarrow> erp_caderno option" where
  "find_caderno e i = find (\<lambda>c. co_id c = i) (er_cadernos e)"

text \<open>The price of a direct offer: its own price, or the discount on the sale price.\<close>

definition effective_offer_price :: "erp_item \<Rightarrow> erp_embalagem \<Rightarrow> rat option" where
  "effective_offer_price i p =
     (case io_precooferta i of Some x \<Rightarrow> Some x
      | None \<Rightarrow> map_option (\<lambda>d. ee_precovenda p * (1 - d / 100)) (io_descontooferta i))"

definition positive_column :: "rat option \<Rightarrow> bool" where
  "positive_column x = (case x of None \<Rightarrow> False | Some r \<Rightarrow> 0 < r)"

record best_offer =
  bo_embalagemid :: int
  bo_caderno :: erp_caderno
  bo_precooferta :: "rat option"
  bo_effectivePrice :: "rat option"

definition offer_candidates :: "int list \<Rightarrow> erp \<Rightarrow> best_offer list" where
  "offer_candidates embalagemIds e =
     concat (map (\<lambda>i. case (io_embalagemid i, find_caderno e (io_cadernoofertaid i)) of
         (Some m, Some c) \<Rightarrow>
           if m \<in> set embalagemIds \<and> io_comboofertaid i = None \<and> unrestricted_caderno e c \<and>
             (positive_column (io_precooferta i) \<or> positive_column (io_descontooferta i) \<or>
              list_ex (\<lambda>q. iq_itemcadernoofertaid q = io_id i) (er_quantidades e))
           then map (\<lambda>p. \<lparr>bo_embalagemid = m, bo_caderno = c, bo_precooferta = io_precooferta i,
                          bo_effectivePrice = effective_offer_price i p\<rparr>) (filter (\<lambda>p. emb_id p = m) (er_embalagens e))
           else []
       | _ \<Rightarrow> []) (er_itens e))"

text \<open>Ascending, nulls last.\<close>

definition cheaper_offer :: "best_offer \<Rightarrow> best_offer \<Rightarrow> bool" where
  "cheaper_offer a b =
     (case (bo_effectivePrice a, bo_effectivePrice b) of
        (Some x, Some y) \<Rightarrow> x < y | (Some _, None) \<Rightarrow> True | (None, _) \<Rightarrow> False)"

definition find_best_offers :: "int list \<Rightarrow> erp \<Rightarrow> best_offer list" where
  "find_best_offers embalagemIds e =
     (let rows = offer_candidates embalagemIds e in
      List.map_filter (\<lambda>m. pick_best cheaper_offer (filter (\<lambda>o'. bo_embalagemid o' = m) rows))
        (sort (remdups (map bo_embalagemid rows))))"

text \<open>The price tiers of the direct offers, with the package they belong to.\<close>

definition find_quantities :: "int list \<Rightarrow> erp \<Rightarrow> (erp_quantidade \<times> int) list" where
  "find_quantities embalagemIds e =
     List.map_filter (\<lambda>q.
       case find (\<lambda>i. io_id i = iq_itemcadernoofertaid q) (er_itens e) of None \<Rightarrow> None
       | Some i \<Rightarrow> (case (io_embalagemid i, find_caderno e (io_cadernoofertaid i)) of
           (Some m, Some c) \<Rightarrow> if m \<in> set embalagemIds \<and> unrestricted_caderno e c then Some (q, m) else None
         | _ \<Rightarrow> None)) (er_quantidades e)"

section \<open>The winning offer of a store\<close>

record priced_offer =
  po_tipoitem :: char
  po_itemid :: int
  po_cadernoofertaid :: int
  po_cadernoNome :: string
  po_precoCadastro :: rat
  po_precoFinalOferta :: "rat option"

record store_offer_row =
  so_embalagemid :: int
  so_unidadenegocioid :: int
  so_cadernoofertaid :: int
  so_cadernoNome :: string
  so_precoFinalOferta :: "jsnum option"
  so_precoCadastro :: jsnum

definition started_caderno :: "erp \<Rightarrow> erp_caderno \<Rightarrow> bool" where
  "started_caderno e c \<longleftrightarrow> unrestricted_caderno e c \<and>
     (case co_datahorainicial c of None \<Rightarrow> True | Some t \<Rightarrow> t \<le> er_now e)"

text \<open>An item names a package, a group of packages, a maker or a classification.\<close>

definition item_reaches :: "erp \<Rightarrow> erp_item \<Rightarrow> erp_embalagem \<Rightarrow> bool" where
  "item_reaches e i a \<longleftrightarrow>
     io_tipoitem i = CHR ''A'' \<and> io_embalagemid i = Some (emb_id a) \<or>
     io_tipoitem i = CHR ''B'' \<and> io_gruporemarcacaoid i \<noteq> None \<and> io_gruporemarcacaoid i = ee_gruporemarcacaoid a \<or>
     io_tipoitem i = CHR ''C'' \<and> list_ex (\<lambda>p. Some (ep_fabricanteid p) = io_fabricanteid i \<and> ep_id p = ee_produtoid a) (er_produtos e) \<or>
     io_tipoitem i = CHR ''D'' \<and> list_ex (\<lambda>(p, c). Some c = io_classificacaoid i \<and> p = ee_produtoid a) (er_classificacaoProduto e)"

definition caderno_covers :: "erp \<Rightarrow> int \<Rightarrow> int \<Rightarrow> bool" where
  "caderno_covers e caderno unidade \<longleftrightarrow>
     (let us = map snd (filter (\<lambda>(c, _). c = caderno) (er_participantes e)) in us = [] \<or> unidade \<in> set us)"

definition percent :: "rat option \<Rightarrow> rat" where
  "percent x = (case x of None \<Rightarrow> 0 | Some d \<Rightarrow> d / 100)"

definition store_price :: "erp \<Rightarrow> erp_embalagem \<Rightarrow> int \<Rightarrow> erp_preco option" where
  "store_price e a unidade = find (\<lambda>p. eu_embalagemid p = emb_id a \<and> eu_unidadenegocioid p = unidade) (er_precos e)"

definition shelf_price :: "erp \<Rightarrow> erp_embalagem \<Rightarrow> int \<Rightarrow> rat" where
  "shelf_price e a unidade = (case store_price e a unidade of None \<Rightarrow> ee_precovenda a | Some p \<Rightarrow> eu_precovenda p)"

definition reference_price :: "erp \<Rightarrow> erp_embalagem \<Rightarrow> int \<Rightarrow> rat" where
  "reference_price e a unidade =
     (case store_price e a unidade of None \<Rightarrow> ee_precoreferencial a
      | Some p \<Rightarrow> (case eu_precoreferencial p of None \<Rightarrow> ee_precoreferencial a | Some r \<Rightarrow> r))"

definition store_cost :: "erp \<Rightarrow> erp_embalagem \<Rightarrow> int \<Rightarrow> erp_custo option" where
  "store_cost e a unidade = find (\<lambda>c. cu_produtoid c = ee_produtoid a \<and> cu_unidadenegocioid c = unidade) (er_custos e)"

text \<open>The price tier for one unit.\<close>

definition unit_tier :: "erp \<Rightarrow> erp_item \<Rightarrow> erp_quantidade option" where
  "unit_tier e i = pick_best (\<lambda>x y. iq_id y < iq_id x)
     (filter (\<lambda>q. iq_itemcadernoofertaid q = io_id i \<and> iq_quantidade q = 1) (er_quantidades e))"

definition tier_price :: "erp \<Rightarrow> erp_item \<Rightarrow> erp_embalagem \<Rightarrow> int \<Rightarrow> rat option" where
  "tier_price e i a unidade =
     (let q1 = unit_tier e i; field = (\<lambda>f. case q1 of None \<Rightarrow> None | Some q \<Rightarrow> f q); t = io_descontoporqtdtipo i in
      if t = CHR ''A'' then Some (shelf_price e a unidade * (1 - percent (field iq_desconto)))
      else if t = CHR ''B'' then field iq_preco
      else if t = CHR ''C'' then field iq_precototal
      else if t = CHR ''D'' then map_option (\<lambda>c. cu_custo c * (1 + percent (field iq_markup))) (store_cost e a unidade)
      else if t = CHR ''E'' then map_option (\<lambda>c. cu_customedio c * (1 + percent (field iq_markup))) (store_cost e a unidade)
      else if t = CHR ''F'' then Some (reference_price e a unidade * (1 + percent (field iq_markup)))
      else None)"

definition offer_price :: "erp \<Rightarrow> erp_item \<Rightarrow> erp_embalagem \<Rightarrow> int \<Rightarrow> rat option" where
  "offer_price e i a unidade =
     (let t = io_tipooferta i in
      if t = CHR ''P'' then io_precooferta i
      else if t = CHR ''D'' then Some (shelf_price e a unidade * (1 - percent (io_descontooferta i)))
      else if t = CHR ''L'' then Some (shelf_price e a unidade)
      else if t = CHR ''R'' then Some (reference_price e a unidade * (1 + percent (io_markup i)))
      else if t = CHR ''C'' then map_option (\<lambda>c. cu_custo c * (1 + percent (io_markup i))) (store_cost e a unidade)
      else if t = CHR ''E'' then map_option (\<lambda>c. cu_customedio c * (1 + percent (io_markup i))) (store_cost e a unidade)
      else if t = CHR ''Q'' then tier_price e i a unidade
      else None)"

definition store_candidates :: "erp \<Rightarrow> erp_embalagem \<Rightarrow> int \<Rightarrow> priced_offer list" where
  "store_candidates e a unidade =
     List.map_filter (\<lambda>i. case find_caderno e (io_cadernoofertaid i) of None \<Rightarrow> None
       | Some c \<Rightarrow>
           if started_caderno e c \<and> item_reaches e i a \<and> caderno_covers e (co_id c) unidade \<and> io_comboofertaid i = None
           then Some \<lparr>po_tipoitem = io_tipoitem i, po_itemid = io_id i, po_cadernoofertaid = co_id c, po_cadernoNome = co_nome c,
                      po_precoCadastro = shelf_price e a unidade,
                      po_precoFinalOferta = (let p = offer_price e i a unidade in if positive_column p then p else None)\<rparr>
           else None) (er_itens e)"

text \<open>
  The most specific kind of item, then the lowest price the customer pays, then the lowest offer book,
  then the lowest item.
\<close>

definition sell_price :: "priced_offer \<Rightarrow> rat" where
  "sell_price o' = (case po_precoFinalOferta o' of None \<Rightarrow> po_precoCadastro o' | Some p \<Rightarrow> min p (po_precoCadastro o'))"

definition offer_beats :: "priced_offer \<Rightarrow> priced_offer \<Rightarrow> bool" where
  "offer_beats x y \<longleftrightarrow>
     po_tipoitem x < po_tipoitem y \<or> po_tipoitem x = po_tipoitem y \<and>
     (sell_price x < sell_price y \<or> sell_price x = sell_price y \<and>
      (po_cadernoofertaid x < po_cadernoofertaid y \<or> po_cadernoofertaid x = po_cadernoofertaid y \<and> po_itemid x < po_itemid y))"

definition store_offer :: "erp \<Rightarrow> int \<Rightarrow> erp_embalagem \<Rightarrow> store_offer_row option" where
  "store_offer e unidade a =
     map_option (\<lambda>w. \<lparr>so_embalagemid = emb_id a, so_unidadenegocioid = unidade, so_cadernoofertaid = po_cadernoofertaid w,
         so_cadernoNome = po_cadernoNome w, so_precoFinalOferta = map_option js_of_rat (po_precoFinalOferta w),
         so_precoCadastro = js_of_rat (po_precoCadastro w)\<rparr>)
       (pick_best offer_beats (store_candidates e a unidade))"

definition find_store_offers :: "int list \<Rightarrow> int list \<Rightarrow> erp \<Rightarrow> store_offer_row list" where
  "find_store_offers embalagemIds unidadeIds e =
     concat (map (\<lambda>u. List.map_filter (store_offer e u) (filter (\<lambda>a. emb_id a \<in> set embalagemIds) (er_embalagens e)))
       (dedup unidadeIds))"

interpretation offers: strict_preference offer_beats po_itemid
  by unfold_locales (auto simp: offer_beats_def)

end
