(* ===== verification/Upserts.thy ===== *)
theory Upserts
  imports Prelude
begin

text \<open>
  \<open>INSERT ... ON CONFLICT (key) DO UPDATE\<close>, the write of the import steps: a row with the key is
  merged with the new one, else the new row is appended. The locale \<open>upsert_table\<close> is what its clients
  rely on; every table of the import steps interprets it.
\<close>

definition upsert_row :: "('r \<Rightarrow> 'k) \<Rightarrow> ('r \<Rightarrow> 'r \<Rightarrow> 'r) \<Rightarrow> 'r \<Rightarrow> 'r list \<Rightarrow> 'r list" where
  "upsert_row key merge i table =
     (if list_ex (\<lambda>r. key r = key i) table then update_where (\<lambda>r. key r = key i) (merge i) table else table @ [i])"

definition upsert_rows :: "('r \<Rightarrow> 'k) \<Rightarrow> ('r \<Rightarrow> 'r \<Rightarrow> 'r) \<Rightarrow> 'r list \<Rightarrow> 'r list \<Rightarrow> 'r list" where
  "upsert_rows key merge is table = fold (upsert_row key merge) is table"

definition row_at :: "('r \<Rightarrow> 'k) \<Rightarrow> 'r list \<Rightarrow> 'k \<Rightarrow> 'r option" where
  "row_at key table k = find (\<lambda>r. key r = k) table"

lemma find_append: "find P (xs @ ys) = (case find P xs of None \<Rightarrow> find P ys | Some x \<Rightarrow> Some x)"
  by (induction xs) auto

lemma row_at_Nil [simp]: "row_at key [] k = None"
  by (simp add: row_at_def)

lemma row_at_Cons: "row_at key (r # rs) k = (if key r = k then Some r else row_at key rs k)"
  by (simp add: row_at_def)

lemma row_at_Some: "row_at key table k = Some r \<Longrightarrow> r \<in> set table \<and> key r = k"
  by (auto simp: row_at_def find_Some_iff)

lemma row_at_None: "row_at key table k = None \<longleftrightarrow> k \<notin> key ` set table"
  by (auto simp: row_at_def find_None_iff)

lemma row_at_unique: "distinct (map key table) \<Longrightarrow> r \<in> set table \<Longrightarrow> row_at key table (key r) = Some r"
  by (induction table) (auto simp: row_at_def)

lemma row_at_filter:
  assumes "\<And>r. r \<in> set table \<Longrightarrow> key r = k \<Longrightarrow> P r = b"
  shows "row_at key (filter P table) k = (if b then row_at key table k else None)"
  using assms by (induction table) (auto simp: row_at_def)

text \<open>\<open>new Map\<close> over distinct keys keeps the entries as they are.\<close>

lemma update_new_key: "k \<notin> fst ` set al \<Longrightarrow> AList.update k v al = al @ [(k, v)]"
  by (induction al) auto

lemma map_of_entries_distinct:
  assumes "distinct (map fst es)"
  shows "map_of_entries es = es"
proof -
  have "distinct (map fst (acc @ es)) \<Longrightarrow> fold (\<lambda>(k, v). AList.update k v) es acc = acc @ es" for acc
  proof (induction es arbitrary: acc)
    case (Cons e es)
    obtain k v where e: "e = (k, v)" by (cases e)
    have "AList.update k v acc = acc @ [e]" using Cons.prems by (simp add: e update_new_key)
    then show ?case using Cons by (simp add: e)
  qed simp
  from this [of "[]"] assms show ?thesis by (simp add: map_of_entries_def)
qed

lemma dedupe_distinct: "distinct (map key xs) \<Longrightarrow> map snd (map_of_entries (map (\<lambda>x. (key x, x)) xs)) = xs"
  by (simp add: map_of_entries_distinct comp_def)

locale upsert_table =
  fixes key :: "'r \<Rightarrow> 'k" and merge :: "'r \<Rightarrow> 'r \<Rightarrow> 'r"
  assumes key_merge: "key i = key r \<Longrightarrow> key (merge i r) = key r"
begin

lemma row_at_upsert:
  "row_at key (upsert_row key merge i table) k =
     (if key i = k then Some (case row_at key table k of None \<Rightarrow> i | Some r \<Rightarrow> merge i r) else row_at key table k)"
proof (cases "list_ex (\<lambda>r. key r = key i) table")
  case True
  have "find (\<lambda>r. key r = k) (update_where (\<lambda>r. key r = key i) (merge i) table) =
      (if key i = k then map_option (merge i) (find (\<lambda>r. key r = k) table) else find (\<lambda>r. key r = k) table)"
    by (induction table) (auto simp: update_where_def key_merge)
  moreover have "find (\<lambda>r. key r = key i) table \<noteq> None" using True by (auto simp: find_None_iff list_ex_iff)
  ultimately show ?thesis using True by (auto simp: upsert_row_def row_at_def)
next
  case False
  then have "find (\<lambda>r. key r = key i) table = None" by (auto simp: find_None_iff list_ex_iff)
  then show ?thesis using False by (auto simp: upsert_row_def row_at_def find_append split: option.splits)
qed

lemma distinct_upsert: "distinct (map key table) \<Longrightarrow> distinct (map key (upsert_row key merge i table))"
proof -
  assume d: "distinct (map key table)"
  have "map key (update_where (\<lambda>r. key r = key i) (merge i) table) = map key table"
    by (rule map_update_where) (simp add: key_merge)
  then show ?thesis using d by (auto simp: upsert_row_def list_ex_iff)
qed

lemma distinct_upserts: "distinct (map key table) \<Longrightarrow> distinct (map key (upsert_rows key merge is table))"
  unfolding upsert_rows_def by (induction "is" arbitrary: table) (simp_all add: distinct_upsert)

lemma row_at_upserts:
  assumes "distinct (map key is)"
  shows "row_at key (upsert_rows key merge is table) k =
    (case row_at key is k of None \<Rightarrow> row_at key table k
     | Some i \<Rightarrow> Some (case row_at key table k of None \<Rightarrow> i | Some r \<Rightarrow> merge i r))"
  using assms
proof (induction "is" arbitrary: table)
  case Nil
  then show ?case by (simp add: upsert_rows_def)
next
  case (Cons i "is")
  have step: "upsert_rows key merge (i # is) table = upsert_rows key merge is (upsert_row key merge i table)"
    by (simp add: upsert_rows_def)
  have "row_at key is (key i) = None" using Cons.prems by (simp add: row_at_None)
  then show ?case unfolding step using Cons
    by (auto simp: row_at_upsert row_at_Cons split: option.splits)
qed

end

text \<open>A map built from rows with distinct keys is a lookup by key.\<close>

lemma map_of_rows:
  assumes "distinct (map k (filter P xs))"
  shows "map_of (map_of_entries (map (\<lambda>r. (k r, f r)) (filter P xs))) m = map_option f (find (\<lambda>r. P r \<and> k r = m) xs)"
proof -
  have "map_of (map (\<lambda>r. (k r, f r)) (filter P xs)) m = map_option f (find (\<lambda>r. P r \<and> k r = m) xs)"
    by (induction xs) auto
  moreover have "map_of_entries (map (\<lambda>r. (k r, f r)) (filter P xs)) = map (\<lambda>r. (k r, f r)) (filter P xs)"
    using assms by (intro map_of_entries_distinct) (simp add: comp_def)
  ultimately show ?thesis by simp
qed

lemma map_of_entries_only:
  assumes "\<And>w. (k, w) \<in> set es \<longleftrightarrow> v = Some w"
  shows "map_of (map_of_entries es) k = v"
proof (cases v)
  case None
  then have "k \<notin> fst ` set es" using assms by force
  then show ?thesis using None by (simp add: map_of_map_of_entries map_of_eq_None_iff)
next
  case (Some w)
  then have "k \<in> fst ` set (rev es)" using assms by force
  then obtain w' where "map_of (rev es) k = Some w'" by (metis map_of_eq_None_iff option.exhaust)
  then show ?thesis using assms [of w'] map_of_SomeD [of "rev es" k w'] Some by (simp add: map_of_map_of_entries)
qed

end
