(* ===== verification/Stock_Sync.thy ===== *)
theory Stock_Sync
  imports Erp_Reads Upserts
begin

text \<open>
  The stock of the stores: \<open>src/pipeline/steps/sync-base-product-stock.step.ts\<close> over the table
  \<open>product_stock\<close> of \<open>src/database/repositories/tenant/product-stock.repository.ts\<close>. A batch refreshes
  the barcodes of its packages: it sums the whole units of every store, deletes the rows of the
  barcodes and inserts the sums. Sums of whole units stay far below \<open>2\<^bsup>53\<^esup>\<close>, so they are integers.
\<close>

section \<open>The table\<close>

record stock_row =
  sk_ean :: string
  sk_storeExternalId :: int
  sk_quantity :: int

definition delete_by_eans :: "string list \<Rightarrow> stock_row list \<Rightarrow> stock_row list" where
  "delete_by_eans eans table = filter (\<lambda>r. sk_ean r \<notin> set eans) table"

definition stock_key :: "stock_row \<Rightarrow> string \<times> int" where
  "stock_key r = (sk_ean r, sk_storeExternalId r)"

definition refresh_stock :: "stock_row \<Rightarrow> stock_row \<Rightarrow> stock_row" where
  "refresh_stock i r = r\<lparr>sk_quantity := sk_quantity i\<rparr>"

definition dedupe_stock :: "stock_row list \<Rightarrow> stock_row list" where
  "dedupe_stock is = map snd (map_of_entries (map (\<lambda>i. (stock_key i, i)) is))"

text \<open>The column holds 32 bits; a value that does not fit fails the statement.\<close>

definition fits_int4 :: "int \<Rightarrow> bool" where
  "fits_int4 q \<longleftrightarrow> - (2 ^ 31) \<le> q \<and> q < 2 ^ 31"

definition upsert_stock :: "stock_row list \<Rightarrow> stock_row list \<Rightarrow> stock_row list outcome" where
  "upsert_stock is table =
     (let deduped = dedupe_stock is in
      if list_all (\<lambda>i. fits_int4 (sk_quantity i)) deduped then Inr (upsert_rows stock_key refresh_stock deduped table)
      else Inl (Error ''22003''))"

interpretation stock: upsert_table stock_key refresh_stock
  by unfold_locales (simp add: stock_key_def refresh_stock_def)

section \<open>The step\<close>

text \<open>\<open>Math.floor(Number(estoque) || 0)\<close>.\<close>

definition whole_units :: "rat \<Rightarrow> int" where
  "whole_units x = (case js_of_rat x of Num r \<Rightarrow> \<lfloor>r\<rfloor> | _ \<Rightarrow> 0)"

text \<open>The barcode of every package, and the number of packages without one.\<close>

definition ean_by_embalagem :: "erp_embalagem list \<Rightarrow> (int \<times> string) list" where
  "ean_by_embalagem es =
     map_of_entries (List.map_filter (\<lambda>p. map_option (\<lambda>ean. (emb_id p, ean)) (parse_ean (emb_codigobarras p))) es)"

definition unparsed :: "erp_embalagem list \<Rightarrow> nat" where
  "unparsed es = length (filter (\<lambda>p. parse_ean (emb_codigobarras p) = None) es)"

text \<open>Adding to a sum keeps its place; a new pair is appended.\<close>

fun add_units :: "string \<times> int \<Rightarrow> int \<Rightarrow> ((string \<times> int) \<times> int) list \<Rightarrow> ((string \<times> int) \<times> int) list" where
  "add_units k q [] = [(k, q)]"
| "add_units k q ((k', n) # acc) = (if k' = k then (k', n + q) # acc else (k', n) # add_units k q acc)"

definition add_stock_row ::
  "(int \<times> string) list \<Rightarrow> ((string \<times> int) \<times> int) list \<Rightarrow> erp_estoque \<Rightarrow> ((string \<times> int) \<times> int) list" where
  "add_stock_row eans acc row =
     (case map_of eans (et_embalagemid row) of
        None \<Rightarrow> acc
      | Some ean \<Rightarrow>
          let qty = whole_units (et_estoque row) in
          if qty \<le> 0 then acc else add_units (ean, et_unidadenegocioid row) qty acc)"

definition sum_by_pair :: "(int \<times> string) list \<Rightarrow> erp_estoque list \<Rightarrow> ((string \<times> int) \<times> int) list" where
  "sum_by_pair eans rows = foldl (add_stock_row eans) [] rows"

definition sync_stock ::
  "erp option \<Rightarrow> int list \<Rightarrow> stock_row list \<Rightarrow> (stock_row list \<times> nat \<times> nat) outcome" where
  "sync_stock integrationDs embalagemIds table =
     (case integrationDs of
        None \<Rightarrow> Inr (table, 0, length embalagemIds)
      | Some e \<Rightarrow>
          if embalagemIds = [] then Inr (table, 0, 0)
          else
            let embalagens = find_by_ids_with_relations embalagemIds e in
            if embalagens = [] then Inr (table, 0, 0)
            else
              let eans = ean_by_embalagem embalagens; skipped = unparsed embalagens in
              if eans = [] then Inr (table, 0, skipped)
              else
                let estoques = find_stock (map fst eans) e;
                    inputs = map (\<lambda>((ean, s), q). \<lparr>sk_ean = ean, sk_storeExternalId = s, sk_quantity = q\<rparr>) (sum_by_pair eans estoques)
                in bind_outcome (upsert_stock inputs (delete_by_eans (map snd eans) table)) (\<lambda>table'.
                     Inr (table', length inputs, skipped)))"

section \<open>What a batch does\<close>

text \<open>The rows a barcode has, as a map from stores to quantities.\<close>

definition stock_at :: "stock_row list \<Rightarrow> string \<Rightarrow> int \<Rightarrow> int option" where
  "stock_at table ean s = map_option sk_quantity (row_at stock_key table (ean, s))"

text \<open>The units of a barcode in a store: the whole units of all its valid packages.\<close>

definition units_of :: "erp \<Rightarrow> string \<Rightarrow> int \<Rightarrow> int" where
  "units_of e ean s =
     (\<Sum>row \<leftarrow> filter (\<lambda>r. et_unidadenegocioid r = s \<and> 0 < et_estoque r \<and>
         (\<exists>p \<in> set (er_embalagens e). valid_package p \<and> emb_id p = et_embalagemid r \<and> parse_ean (emb_codigobarras p) = Some ean))
       (er_estoques e). max 0 (whole_units (et_estoque row)))"

text \<open>A store that has none has no row.\<close>

definition stock_of_erp :: "erp \<Rightarrow> string \<Rightarrow> int \<Rightarrow> int option" where
  "stock_of_erp e ean s = (let n = units_of e ean s in if n = 0 then None else Some n)"

lemma map_of_add_units:
  "map_of (add_units k q acc) = (map_of acc)(k \<mapsto> (case map_of acc k of None \<Rightarrow> q | Some n \<Rightarrow> n + q))"
  by (induction k q acc rule: add_units.induct) (auto simp: fun_eq_iff split: option.splits)

lemma keys_add_units: "fst ` set (add_units k q acc) = insert k (fst ` set acc)"
  by (induction k q acc rule: add_units.induct) auto

lemma distinct_add_units: "distinct (map fst acc) \<Longrightarrow> distinct (map fst (add_units k q acc))"
proof (induction k q acc rule: add_units.induct)
  case (2 k q k' n acc)
  then show ?case using keys_add_units [of k q acc] by auto
qed simp

text \<open>The sum of a pair over a list of rows.\<close>

definition row_units :: "(int \<times> string) list \<Rightarrow> string \<times> int \<Rightarrow> erp_estoque \<Rightarrow> int" where
  "row_units eans k row = (if map_of eans (et_embalagemid row) = Some (fst k) \<and> et_unidadenegocioid row = snd k
     then max 0 (whole_units (et_estoque row)) else 0)"

lemma row_units_nonneg: "0 \<le> row_units eans k row"
  by (simp add: row_units_def)

lemma sum_units_nonneg: "0 \<le> (\<Sum>row \<leftarrow> rows. row_units eans k row)"
  by (rule sum_list_nonneg) (auto simp: row_units_nonneg)

lemma sum_by_pair_units:
  "distinct (map fst (sum_by_pair eans rows)) \<and>
   map_of (sum_by_pair eans rows) k = (let n = \<Sum>row \<leftarrow> rows. row_units eans k row in if n = 0 then None else Some n)"
proof (induction rows rule: rev_induct)
  case Nil
  then show ?case by (simp add: sum_by_pair_def)
next
  case (snoc row rows)
  define n where "n = (\<Sum>r \<leftarrow> rows. row_units eans k r)"
  have n: "0 \<le> n" unfolding n_def by (rule sum_units_nonneg)
  have step: "sum_by_pair eans (rows @ [row]) = add_stock_row eans (sum_by_pair eans rows) row" by (simp add: sum_by_pair_def)
  have IH: "distinct (map fst (sum_by_pair eans rows))" "map_of (sum_by_pair eans rows) k = (if n = 0 then None else Some n)"
    using snoc by (simp_all add: n_def Let_def)
  consider "add_stock_row eans (sum_by_pair eans rows) row = sum_by_pair eans rows" "row_units eans k row = 0"
    | ean q where "add_stock_row eans (sum_by_pair eans rows) row = add_units (ean, et_unidadenegocioid row) q (sum_by_pair eans rows)"
        "0 < q" "row_units eans k row = (if k = (ean, et_unidadenegocioid row) then q else 0)"
    by (cases "map_of eans (et_embalagemid row)"; cases k)
      (fastforce simp: add_stock_row_def row_units_def Let_def split: if_splits)+
  then show ?case
  proof cases
    case 1
    then show ?thesis using IH by (simp add: step n_def Let_def)
  next
    case 2
    then show ?thesis using IH n
      by (auto simp: step map_of_add_units distinct_add_units Let_def simp flip: n_def)
  qed
qed

text \<open>The barcodes of a batch, and a batch that has all packages of its barcodes.\<close>

definition barcodes_in :: "erp \<Rightarrow> int list \<Rightarrow> string set" where
  "barcodes_in e ids =
     {ean. \<exists>p \<in> set (er_embalagens e). valid_package p \<and> emb_id p \<in> set ids \<and> parse_ean (emb_codigobarras p) = Some ean}"

definition whole_barcodes :: "erp \<Rightarrow> int list \<Rightarrow> bool" where
  "whole_barcodes e ids \<longleftrightarrow> (\<forall>p \<in> set (er_embalagens e). \<forall>ean \<in> barcodes_in e ids.
     valid_package p \<longrightarrow> parse_ean (emb_codigobarras p) = Some ean \<longrightarrow> emb_id p \<in> set ids)"

lemma set_ean_by_embalagem:
  assumes "distinct (map emb_id es)"
  shows "distinct (map fst (ean_by_embalagem es))"
    and "set (ean_by_embalagem es) = {(emb_id p, ean) | p ean. p \<in> set es \<and> parse_ean (emb_codigobarras p) = Some ean}"
proof -
  let ?f = "\<lambda>p. map_option (\<lambda>ean. (emb_id p, ean)) (parse_ean (emb_codigobarras p))"
  have sub: "fst ` set (List.map_filter ?f xs) \<subseteq> emb_id ` set xs" for xs :: "erp_embalagem list"
    by (auto simp: List.map_filter_def)
  have d: "distinct (map fst (List.map_filter ?f es))"
    using assms
  proof (induction es)
    case (Cons p es)
    then show ?case using sub [of es] by (auto simp: List.map_filter_def split: option.splits)
  qed (simp add: List.map_filter_def)
  show "distinct (map fst (ean_by_embalagem es))" by (simp add: ean_by_embalagem_def)
  show "set (ean_by_embalagem es) = {(emb_id p, ean) | p ean. p \<in> set es \<and> parse_ean (emb_codigobarras p) = Some ean}"
    unfolding ean_by_embalagem_def map_of_entries_distinct [OF d] by (force simp: List.map_filter_def)
qed

lemma sorted_packages:
  assumes "distinct (map emb_id (er_embalagens e))"
  shows "distinct (map emb_id (find_by_ids_with_relations ids e))"
    and "set (find_by_ids_with_relations ids e) = {p \<in> set (er_embalagens e). valid_package p \<and> emb_id p \<in> set ids}"
  using assms by (auto simp: find_by_ids_with_relations_def distinct_map inj_on_def)

lemma eans_of_batch:
  fixes ids :: "int list"
  assumes "distinct (map emb_id (er_embalagens e))"
  defines "eans \<equiv> ean_by_embalagem (find_by_ids_with_relations ids e)"
  shows "map_of eans i = Some ean \<longleftrightarrow> (\<exists>p \<in> set (er_embalagens e). valid_package p \<and> emb_id p \<in> set ids \<and> emb_id p = i \<and>
      parse_ean (emb_codigobarras p) = Some ean)"
    and "set (map snd eans) = barcodes_in e ids"
  using set_ean_by_embalagem [OF sorted_packages(1) [OF assms(1), of ids]] sorted_packages(2) [OF assms(1), of ids]
  unfolding eans_def barcodes_in_def by (auto simp: map_of_eq_Some_iff image_iff)

lemma batch_sum:
  fixes ids :: "int list"
  assumes "distinct (map emb_id (er_embalagens e))" "whole_barcodes e ids"
  defines "eans \<equiv> ean_by_embalagem (find_by_ids_with_relations ids e)"
  shows "(\<Sum>row \<leftarrow> find_stock (map fst eans) e. row_units eans (ean, s) row) =
    (if ean \<in> barcodes_in e ids then units_of e ean s else 0)"
proof -
  note look = eans_of_batch [OF assms(1), of ids, folded eans_def]
  have key: "i \<in> set (map fst eans)" if "map_of eans i = Some b" for i b
    using map_of_SomeD [OF that] by force
  have "(\<Sum>row \<leftarrow> find_stock (map fst eans) e. row_units eans (ean, s) row) =
      (\<Sum>row \<leftarrow> er_estoques e. if map_of eans (et_embalagemid row) = Some ean \<and> et_unidadenegocioid row = s \<and> 0 < et_estoque row
         then max 0 (whole_units (et_estoque row)) else 0)"
    unfolding find_stock_def sum_list_map_filter'
    by (rule arg_cong [where f = sum_list], rule map_cong [OF refl]) (auto simp: row_units_def dest: key)
  also have "\<dots> = (if ean \<in> barcodes_in e ids then units_of e ean s else 0)"
  proof (cases "ean \<in> barcodes_in e ids")
    case True
    then have "map_of eans i = Some ean \<longleftrightarrow> (\<exists>p \<in> set (er_embalagens e). valid_package p \<and> emb_id p = i \<and>
        parse_ean (emb_codigobarras p) = Some ean)" for i
      using assms(2) look(1) unfolding whole_barcodes_def by blast
    then show ?thesis using True unfolding units_of_def sum_list_map_filter'
      by (simp, intro arg_cong [where f = sum_list] map_cong [OF refl]) auto
  next
    case False
    then have "map_of eans i \<noteq> Some ean" for i unfolding look(1) barcodes_in_def by blast
    then show ?thesis using False by (simp add: sum_list_0)
  qed
  finally show ?thesis .
qed

lemma row_at_inputs:
  "row_at stock_key (map (\<lambda>((ean, s), q). \<lparr>sk_ean = ean, sk_storeExternalId = s, sk_quantity = q\<rparr>) acc) (ean, s) =
   map_option (\<lambda>q. \<lparr>sk_ean = ean, sk_storeExternalId = s, sk_quantity = q\<rparr>) (map_of acc (ean, s))"
  by (induction acc) (auto simp: row_at_Cons stock_key_def)

text \<open>A batch sets the rows of its barcodes to what the ERP has, and leaves all other rows.\<close>

lemma batch_refreshes:
  assumes "distinct (map emb_id (er_embalagens e))" "whole_barcodes e ids" "\<And>ean s. units_of e ean s < 2 ^ 31"
  shows "\<exists>table' n. sync_stock (Some e) ids table = Inr (table', n) \<and>
    (\<forall>ean s. stock_at table' ean s = (if ean \<in> barcodes_in e ids then stock_of_erp e ean s else stock_at table ean s))"
proof -
  define es where "es = find_by_ids_with_relations ids e"
  define eans where "eans = ean_by_embalagem es"
  have bs: "set (map snd eans) = barcodes_in e ids"
    unfolding eans_def es_def by (rule eans_of_batch(2) [OF assms(1)])
  show ?thesis
  proof (cases "ids = [] \<or> es = [] \<or> eans = []")
    case True
    then have "barcodes_in e ids = {}" using bs by (auto simp: eans_def es_def find_by_ids_with_relations_def ean_by_embalagem_def
        map_of_entries_def List.map_filter_def)
    moreover have "\<exists>n. sync_stock (Some e) ids table = Inr (table, n)"
      using True by (auto simp: sync_stock_def Let_def simp flip: es_def eans_def)
    ultimately show ?thesis by auto
  next
    case False
    define acc where "acc = sum_by_pair eans (find_stock (map fst eans) e)"
    define inputs where "inputs = map (\<lambda>((ean, s), q). \<lparr>sk_ean = ean, sk_storeExternalId = s, sk_quantity = q\<rparr>) acc"
    define table' where "table' = upsert_rows stock_key refresh_stock inputs (delete_by_eans (map snd eans) table)"
    have acc: "map_of acc (ean, s) = (if ean \<in> barcodes_in e ids then stock_of_erp e ean s else None)" and d: "distinct (map fst acc)" for ean s
      using sum_by_pair_units [of eans "find_stock (map fst eans) e" "(ean, s)"] batch_sum [OF assms(1,2), of ean s]
      unfolding acc_def eans_def es_def by (simp_all add: stock_of_erp_def Let_def)
    have k: "map stock_key inputs = map fst acc" by (auto simp: inputs_def stock_key_def)
    have dd: "dedupe_stock inputs = inputs" using dedupe_distinct [of stock_key inputs] d k by (simp add: dedupe_stock_def)
    have "fits_int4 (sk_quantity i)" if member: "i \<in> set inputs" for i
    proof -
      obtain ean s q where i: "((ean, s), q) \<in> set acc" "sk_quantity i = q"
        using member by (fastforce simp: inputs_def)
      then have "map_of acc (ean, s) = Some q" using d by (simp add: map_of_eq_Some_iff)
      then have "stock_of_erp e ean s = Some q" using acc [of ean s] by (simp split: if_splits)
      then have q: "q = units_of e ean s" by (auto simp: stock_of_erp_def Let_def split: if_splits)
      have "0 \<le> q" unfolding q units_of_def by (rule sum_list_nonneg) auto
      then show ?thesis using assms(3) [of ean s] i(2) q by (simp add: fits_int4_def)
    qed
    moreover have len: "length acc = length inputs" by (simp add: inputs_def)
    ultimately have run: "sync_stock (Some e) ids table = Inr (table', length inputs, unparsed es)"
      using False len by (simp add: sync_stock_def Let_def upsert_stock_def dd list_all_iff table'_def
          flip: es_def eans_def acc_def inputs_def)
    have gone: "row_at stock_key (delete_by_eans (map snd eans) table) (ean, s) =
        (if ean \<in> barcodes_in e ids then None else row_at stock_key table (ean, s))" for ean s
    proof -
      have "row_at stock_key (filter (\<lambda>r. sk_ean r \<notin> barcodes_in e ids) table) (ean, s) =
          (if ean \<notin> barcodes_in e ids then row_at stock_key table (ean, s) else None)"
        by (rule row_at_filter) (auto simp: stock_key_def)
      then show ?thesis unfolding delete_by_eans_def bs by simp
    qed
    have "stock_at table' ean s = (if ean \<in> barcodes_in e ids then stock_of_erp e ean s else stock_at table ean s)" for ean s
    proof -
      have dk: "distinct (map stock_key inputs)" using d k by simp
      show ?thesis
        using acc [of ean s]
        by (simp add: stock_at_def table'_def stock.row_at_upserts [OF dk] gone row_at_inputs [of acc ean s, folded inputs_def] refresh_stock_def
            split: option.splits)
    qed
    then show ?thesis using run by blast
  qed
qed

section \<open>A run over all packages\<close>

lemma push_group_sound:
  "(k', vs) \<in> set (push_group k v g) \<Longrightarrow> x \<in> set vs \<Longrightarrow>
   k' = k \<and> x = v \<or> (\<exists>vs'. (k', vs') \<in> set g \<and> x \<in> set vs')"
  by (induction k v g rule: push_group.induct) (auto split: if_splits)

lemma push_group_nonempty: "\<forall>(k, vs) \<in> set g. vs \<noteq> [] \<Longrightarrow> \<forall>(k', vs) \<in> set (push_group k v g). vs \<noteq> []"
  by (induction k v g rule: push_group.induct) auto

text \<open>The groups of the dispatcher are the barcodes with exactly their packages.\<close>

lemma ids_by_ean_iff:
  "grouped (ids_by_ean rows) ean i \<longleftrightarrow> (\<exists>r \<in> set rows. emb_id r = i \<and> parse_ean (emb_codigobarras r) = Some ean)"
proof
  show "grouped (ids_by_ean rows) ean i \<Longrightarrow> \<exists>r \<in> set rows. emb_id r = i \<and> parse_ean (emb_codigobarras r) = Some ean"
  proof (induction rows rule: rev_induct)
    case (snoc r rows)
    then show ?case
      by (cases "parse_ean (emb_codigobarras r)")
        (auto simp: grouped_def ids_by_ean_snoc dest!: push_group_sound)
  qed (simp add: grouped_def ids_by_ean_def)
qed (use ids_by_ean_props [of rows] in auto)

lemma ids_by_ean_nonempty: "\<forall>(k, vs) \<in> set (ids_by_ean rows). vs \<noteq> []"
proof (induction rows rule: rev_induct)
  case (snoc r rows)
  then show ?case by (cases "parse_ean (emb_codigobarras r)") (simp_all add: ids_by_ean_snoc push_group_nonempty)
qed (simp add: ids_by_ean_def)

lemma ids_by_ean_keys:
  "fst ` set (ids_by_ean rows) = {ean. \<exists>r \<in> set rows. parse_ean (emb_codigobarras r) = Some ean}"
proof -
  have "ean \<in> fst ` set (ids_by_ean rows) \<longleftrightarrow> (\<exists>i. grouped (ids_by_ean rows) ean i)" for ean
  proof
    assume "ean \<in> fst ` set (ids_by_ean rows)"
    then obtain vs where "(ean, vs) \<in> set (ids_by_ean rows)" by force
    moreover from this have "hd vs \<in> set vs" using ids_by_ean_nonempty [of rows] by auto
    ultimately show "\<exists>i. grouped (ids_by_ean rows) ean i" unfolding grouped_def by blast
  qed (force simp: grouped_def)
  then show ?thesis unfolding set_eq_iff mem_Collect_eq ids_by_ean_iff by blast
qed

text \<open>Every slice is the packages of a set of barcodes; together the slices have all of them.\<close>

lemma chunk_slices:
  assumes "0 < n"
  shows "ids \<in> set (chunk_embalagens_by_ean rows n) \<Longrightarrow>
      \<exists>eans \<subseteq> fst ` set (ids_by_ean rows). \<forall>i. i \<in> set ids \<longleftrightarrow> (\<exists>ean \<in> eans. grouped (ids_by_ean rows) ean i)"
    and "ean \<in> fst ` set (ids_by_ean rows) \<Longrightarrow> grouped (ids_by_ean rows) ean i \<Longrightarrow>
      \<exists>ids \<in> set (chunk_embalagens_by_ean rows n). i \<in> set ids"
proof -
  let ?g = "ids_by_ean rows"
  have look: "i \<in> set (the (map_of ?g ean)) \<longleftrightarrow> grouped ?g ean i" if "ean \<in> fst ` set ?g" for ean i
    using that ids_by_ean_props [of rows] by (auto simp: grouped_def dest: map_of_is_SomeI)
  have keys: "set sl \<subseteq> fst ` set ?g" if "sl \<in> set (chunks n (map fst ?g))" for sl
    
  proof -
    have "set sl \<subseteq> set (concat (chunks n (map fst ?g)))" using that by auto
    then show ?thesis by (simp add: concat_chunks [OF assms])
  qed
  show "ids \<in> set (chunk_embalagens_by_ean rows n) \<Longrightarrow>
      \<exists>eans \<subseteq> fst ` set ?g. \<forall>i. i \<in> set ids \<longleftrightarrow> (\<exists>ean \<in> eans. grouped ?g ean i)"
  proof -
    assume "ids \<in> set (chunk_embalagens_by_ean rows n)"
    then obtain sl where sl: "sl \<in> set (chunks n (map fst ?g))" "ids = concat (map (\<lambda>ean. the (map_of ?g ean)) sl)"
      by (auto simp: chunk_embalagens_by_ean_def Let_def)
    have "i \<in> set ids \<longleftrightarrow> (\<exists>ean \<in> set sl. i \<in> set (the (map_of ?g ean)))" for i by (simp add: sl(2))
    then have "i \<in> set ids \<longleftrightarrow> (\<exists>ean \<in> set sl. grouped ?g ean i)" for i
      using keys [OF sl(1)] look by blast
    then show ?thesis using keys [OF sl(1)] by blast
  qed
  show "\<exists>ids \<in> set (chunk_embalagens_by_ean rows n). i \<in> set ids" if e: "ean \<in> fst ` set ?g" "grouped ?g ean i"
  proof -
    have "ean \<in> set (concat (chunks n (map fst ?g)))" using e(1) assms by (simp add: concat_chunks)
    then obtain sl where "sl \<in> set (chunks n (map fst ?g))" "ean \<in> set sl" by auto
    then show ?thesis using look [OF e(1)] e(2) by (force simp: chunk_embalagens_by_ean_def Let_def)
  qed
qed

lemma dispatched_slices:
  assumes "distinct (map emb_id (er_embalagens e))" "0 < n"
  shows "ids \<in> set (chunk_embalagens_by_ean (find_all_valid_with_barcode e) n) \<Longrightarrow> whole_barcodes e ids"
    and "(\<Union>ids \<in> set (chunk_embalagens_by_ean (find_all_valid_with_barcode e) n). barcodes_in e ids) =
      barcodes_in e (map emb_id (er_embalagens e))"
proof -
  let ?rows = "find_all_valid_with_barcode e"
  have rows: "grouped (ids_by_ean ?rows) ean i \<longleftrightarrow>
      (\<exists>p \<in> set (er_embalagens e). valid_package p \<and> emb_id p = i \<and> parse_ean (emb_codigobarras p) = Some ean)" for ean i
    unfolding ids_by_ean_iff by (auto simp: find_all_valid_with_barcode_def embalagem.truncate_def)
  have same: "p = q" if "p \<in> set (er_embalagens e)" "q \<in> set (er_embalagens e)" "emb_id p = emb_id q" for p q
    using that assms(1) by (auto simp: distinct_map dest: inj_onD)
  show "whole_barcodes e ids" if slice: "ids \<in> set (chunk_embalagens_by_ean ?rows n)" for ids
  proof -
    obtain eans where eans: "\<And>i. i \<in> set ids \<longleftrightarrow> (\<exists>ean \<in> eans. grouped (ids_by_ean ?rows) ean i)"
      using chunk_slices(1) [OF assms(2) slice] by metis
    have "ean \<in> eans" if "ean \<in> barcodes_in e ids" for ean
      using that same unfolding barcodes_in_def mem_Collect_eq eans rows by fastforce
    then show ?thesis unfolding whole_barcodes_def eans rows by blast
  qed
  show "(\<Union>ids \<in> set (chunk_embalagens_by_ean ?rows n). barcodes_in e ids) = barcodes_in e (map emb_id (er_embalagens e))"
  proof (intro equalityI subsetI)
    fix ean assume "ean \<in> barcodes_in e (map emb_id (er_embalagens e))"
    then obtain p where p: "p \<in> set (er_embalagens e)" "valid_package p" "parse_ean (emb_codigobarras p) = Some ean"
      by (auto simp: barcodes_in_def)
    then have "grouped (ids_by_ean ?rows) ean (emb_id p)" unfolding rows by blast
    moreover from this have "ean \<in> fst ` set (ids_by_ean ?rows)" by (force simp: grouped_def)
    ultimately obtain ids where "ids \<in> set (chunk_embalagens_by_ean ?rows n)" "emb_id p \<in> set ids"
      using chunk_slices(2) [OF assms(2)] by blast
    then show "ean \<in> (\<Union>ids \<in> set (chunk_embalagens_by_ean ?rows n). barcodes_in e ids)"
      using p by (auto simp: barcodes_in_def)
  qed (auto simp: barcodes_in_def)
qed

text \<open>The batches of a run, as the workers deliver them.\<close>

fun deliver_stock :: "erp \<Rightarrow> int list list \<Rightarrow> stock_row list \<Rightarrow> stock_row list outcome" where
  "deliver_stock e [] table = Inr table"
| "deliver_stock e (ids # rest) table = bind_outcome (sync_stock (Some e) ids table) (\<lambda>r. deliver_stock e rest (fst r))"

lemma deliveries_refresh:
  assumes "distinct (map emb_id (er_embalagens e))" "\<And>ean s. units_of e ean s < 2 ^ 31" "\<And>ids. ids \<in> set ds \<Longrightarrow> whole_barcodes e ids"
  shows "\<exists>table'. deliver_stock e ds table = Inr table' \<and>
    (\<forall>ean s. stock_at table' ean s = (if \<exists>ids \<in> set ds. ean \<in> barcodes_in e ids then stock_of_erp e ean s else stock_at table ean s))"
  using assms(3)
proof (induction ds arbitrary: table)
  case (Cons ids ds)
  obtain t n where t: "sync_stock (Some e) ids table = Inr (t, n)"
    "\<And>ean s. stock_at t ean s = (if ean \<in> barcodes_in e ids then stock_of_erp e ean s else stock_at table ean s)"
    using batch_refreshes [OF assms(1) _ assms(2), of ids table] Cons.prems by auto
  obtain table' where "deliver_stock e ds t = Inr table'"
    "\<And>ean s. stock_at table' ean s = (if \<exists>ids \<in> set ds. ean \<in> barcodes_in e ids then stock_of_erp e ean s else stock_at t ean s)"
    using Cons.IH [of t] Cons.prems by auto
  then show ?case by (intro exI [of _ table']) (simp add: t)
qed simp

text \<open>
  C38. A run of the stock import leaves the stock of the ERP: when every batch the dispatcher announced
  was delivered, in any order and any number of times, every valid barcode has, in every store, the
  whole units of all its packages (no row when there are none), and every other barcode keeps its rows.
  The hypotheses are the key of the packages and the width of the column.
\<close>

theorem stock_run_mirrors_erp:
  assumes "distinct (map emb_id (er_embalagens e))" "\<And>ean s. units_of e ean s < 2 ^ 31"
    and "set deliveries = set (chunk_embalagens_by_ean (find_all_valid_with_barcode e) BATCH_SIZE)"
  shows "\<exists>table'. deliver_stock e deliveries table = Inr table' \<and>
    (\<forall>ean s. stock_at table' ean s =
       (if ean \<in> barcodes_in e (map emb_id (er_embalagens e)) then stock_of_erp e ean s else stock_at table ean s))"
proof -
  have n: "0 < BATCH_SIZE" by (simp add: BATCH_SIZE_def)
  have w: "whole_barcodes e ids" if "ids \<in> set deliveries" for ids
    using dispatched_slices(1) [OF assms(1) n] that unfolding assms(3) .
  have "(\<exists>ids \<in> set deliveries. ean \<in> barcodes_in e ids) \<longleftrightarrow> ean \<in> barcodes_in e (map emb_id (er_embalagens e))" for ean
    using dispatched_slices(2) [OF assms(1) n] unfolding assms(3) by blast
  then show ?thesis using deliveries_refresh [OF assms(1,2) w, of deliveries table] by simp
qed

definition demo_package :: "int \<Rightarrow> string \<Rightarrow> erp_embalagem" where
  "demo_package i barcode = \<lparr>emb_id = i, emb_codigobarras = Some barcode, ee_produtoid = 1, ee_apresentacao = None,
     ee_quantidadeporembalagem = 1, ee_precoreferencial = 1, ee_precovenda = 10, ee_gruporemarcacaoid = None, ee_descricao = ''x''\<rparr>"

definition demo_erp :: "erp_estoque list \<Rightarrow> erp" where
  "demo_erp stock = \<lparr>er_embalagens = [demo_package 1 ''789'', demo_package 2 ''0789''], er_produtos = [], er_fabricantes = [],
     er_classificacoes = [], er_classificacaoProduto = [], er_custos = [], er_estoques = stock, er_precos = [], er_cadernos = [],
     er_itens = [], er_quantidades = [], er_participantes = [], er_recebimentos = [], er_now = 0\<rparr>"

definition demo_stock :: "erp_estoque list" where
  "demo_stock = [\<lparr>et_embalagemid = 1, et_unidadenegocioid = 5, et_estoque = 3\<rparr>, \<lparr>et_embalagemid = 2, et_unidadenegocioid = 5, et_estoque = 5 / 2\<rparr>]"

text \<open>Two packages of one barcode: three and two and a half units make five; the row of a store without stock goes.\<close>

lemma demo_units: "whole_units 3 = 3" "whole_units (5 / 2) = 2"
  by code_simp+

lemma demo_dispatched: "chunk_embalagens_by_ean (find_all_valid_with_barcode (demo_erp demo_stock)) BATCH_SIZE = [[1, 2]]"
  by code_simp

theorem stock_run_mirrors_erp_witness:
  "\<exists>table'. deliver_stock (demo_erp demo_stock) [[1, 2], [1, 2]]
       [\<lparr>sk_ean = ''789'', sk_storeExternalId = 6, sk_quantity = 9\<rparr>, \<lparr>sk_ean = ''5'', sk_storeExternalId = 6, sk_quantity = 9\<rparr>] = Inr table' \<and>
     stock_at table' ''789'' 5 = Some 5 \<and> stock_at table' ''789'' 6 = None \<and> stock_at table' ''5'' 6 = Some 9"
proof -
  let ?e = "demo_erp demo_stock"
    and ?t = "[\<lparr>sk_ean = ''789'', sk_storeExternalId = 6, sk_quantity = 9\<rparr>, \<lparr>sk_ean = ''5'', sk_storeExternalId = 6, sk_quantity = 9\<rparr>]"
  have parse: "parse_ean (Some ''789'') = Some ''789''" "parse_ean (Some ''0789'') = Some ''789''" by code_simp+
  have small: "units_of ?e ean s < 2 ^ 31" for ean s
    by (simp add: units_of_def demo_erp_def demo_stock_def demo_units)
  have bar: "ean \<in> barcodes_in ?e (map emb_id (er_embalagens ?e)) \<longleftrightarrow> ean = ''789''" for ean
    by (auto simp: barcodes_in_def demo_erp_def demo_package_def valid_package_def parse)
  have "units_of ?e ''789'' 5 = 5" "units_of ?e ''789'' 6 = 0"
    by (simp_all add: units_of_def demo_erp_def demo_stock_def demo_package_def valid_package_def parse demo_units)
  note units = this
  have "\<exists>table'. deliver_stock ?e [[1, 2], [1, 2]] ?t = Inr table' \<and>
      (\<forall>ean s. stock_at table' ean s =
         (if ean \<in> barcodes_in ?e (map emb_id (er_embalagens ?e)) then stock_of_erp ?e ean s else stock_at ?t ean s))"
    by (rule stock_run_mirrors_erp [OF _ small]) (simp add: demo_erp_def demo_package_def, simp add: demo_dispatched)
  then obtain table' where t: "deliver_stock ?e [[1, 2], [1, 2]] ?t = Inr table'"
    "\<And>ean s. stock_at table' ean s = (if ean = ''789'' then stock_of_erp ?e ean s else stock_at ?t ean s)"
    unfolding bar by blast
  have "stock_at ?t ''5'' 6 = Some 9" by (simp add: stock_at_def row_at_def stock_key_def)
  then show ?thesis
    using t(1) t(2) [of "''789''" 5] t(2) [of "''789''" 6] t(2) [of "''5''" 6] units
    by (intro exI [of _ table']) (simp add: stock_of_erp_def)
qed

end
