(* ===== verification/Item_Sync.thy ===== *)
theory Item_Sync
  imports Stock_Sync Pricing_Rules
begin

text \<open>
  The prices of the stores: \<open>src/pipeline/steps/sync-product-items.step.ts\<close> over the table
  \<open>product_item\<close> of \<open>src/database/repositories/tenant/product-item.repository.ts\<close>. A batch writes one
  row per product of the batch and store of the run. Values are within the range of their columns.
\<close>

section \<open>The table\<close>

record item_row = product_item +
  ir_offerDescription :: "string option"

definition item_key :: "item_row \<Rightarrow> string \<times> string" where
  "item_key r = (pi_productId r, pi_storeId r)"

text \<open>The upsert replaces every column but the key.\<close>

definition replace_item :: "item_row \<Rightarrow> item_row \<Rightarrow> item_row" where
  "replace_item i r = r\<lparr>pi_price := pi_price i, pi_priceOffer := pi_priceOffer i, pi_cost := pi_cost i,
     pi_offerExternalId := pi_offerExternalId i, ir_offerDescription := ir_offerDescription i\<rparr>"

definition upsert_items :: "item_row list \<Rightarrow> item_row list \<Rightarrow> item_row list" where
  "upsert_items = upsert_rows item_key replace_item"

interpretation items: upsert_table item_key replace_item
  by unfold_locales (simp add: item_key_def replace_item_def)

section \<open>The step\<close>

text \<open>\<open>toNumericString\<close>, read by the column.\<close>

definition to_numeric_string :: "jsnum option \<Rightarrow> rat option" where
  "to_numeric_string x = (case x of Some (Num r) \<Rightarrow> Some (decimal_of r) | _ \<Rightarrow> None)"

definition unidade_of :: "store_ref \<Rightarrow> int" where
  "unidade_of s = int (nat_of_digits 10 (store_externalId s))"

definition undercuts :: "store_offer_row option \<Rightarrow> bool" where
  "undercuts o' = (case o' of None \<Rightarrow> False
     | Some w \<Rightarrow> (case so_precoFinalOferta w of None \<Rightarrow> False | Some p \<Rightarrow> js_le p (so_precoCadastro w)))"

text \<open>The row of a product in a store, from the maps of the batch.\<close>

definition item_input ::
  "(int \<times> int) list \<Rightarrow> (int \<times> jsnum) list \<Rightarrow> (int \<times> jsnum) list \<Rightarrow> ((int \<times> int) \<times> store_offer_row) list
   \<Rightarrow> store_ref \<Rightarrow> product \<Rightarrow> item_row" where
  "item_input produtoIdByEmbalagem priceByEmbalagem costByProduto offerByStoreEmbalagem store p =
     (let embalagemId = or_default (pr_externalId p) 0;
          offer = map_of offerByStoreEmbalagem (unidade_of store, embalagemId) in
      \<lparr>pi_productId = pr_id p, pi_storeId = store_id store,
       pi_price = map_option numeric_12_2 (to_numeric_string (map_of priceByEmbalagem embalagemId)),
       pi_priceOffer = (if undercuts offer
         then map_option numeric_12_2 (to_numeric_string (case offer of None \<Rightarrow> None | Some w \<Rightarrow> so_precoFinalOferta w)) else None),
       pi_cost = (case map_of produtoIdByEmbalagem embalagemId of None \<Rightarrow> None
         | Some produtoId \<Rightarrow> map_option numeric_12_4 (to_numeric_string (map_of costByProduto produtoId))),
       pi_offerExternalId = map_option so_cadernoofertaid offer,
       ir_offerDescription = map_option so_cadernoNome offer\<rparr>)"

text \<open>The products of the batch; \<open>deleted\<close> says which have their \<open>deleted_at\<close> set.\<close>

definition batch_products :: "string list \<Rightarrow> (string \<Rightarrow> bool) \<Rightarrow> product list \<Rightarrow> product list" where
  "batch_products productIds deleted products =
     filter (\<lambda>p. pr_id p \<in> set productIds \<and> pr_externalId p \<noteq> None \<and> \<not> deleted (pr_id p)) products"

definition store_inputs :: "erp \<Rightarrow> product list \<Rightarrow> store_ref list \<Rightarrow> store_ref \<Rightarrow> item_row list" where
  "store_inputs e products stores store =
     (let embalagemIds = map (\<lambda>p. or_default (pr_externalId p) 0) products;
          produtoIdByEmbalagem = map_of_entries (find_produto_ids_by_ids embalagemIds e);
          produtoIds = dedup (map snd produtoIdByEmbalagem);
          offers = find_store_offers embalagemIds (map unidade_of stores) e;
          priceRows = find_price_by_unidade embalagemIds (unidade_of store) e;
          costRows = find_cost_by_unidade produtoIds (unidade_of store) e
      in map (item_input produtoIdByEmbalagem
            (map_of_entries (map (\<lambda>r. (eu_embalagemid r, js_of_rat (eu_precovenda r))) priceRows))
            (map_of_entries (map (\<lambda>r. (cu_produtoid r, js_of_rat (cu_custo r))) costRows))
            (map_of_entries (map (\<lambda>o'. ((so_unidadenegocioid o', so_embalagemid o'), o')) offers))
            store) products)"

definition sync_items ::
  "erp option \<Rightarrow> string list \<Rightarrow> store_ref list \<Rightarrow> (string \<Rightarrow> bool) \<Rightarrow> product list \<Rightarrow> item_row list \<Rightarrow>
   item_row list \<times> nat" where
  "sync_items integrationDs productIds stores deleted products table =
     (case integrationDs of
        None \<Rightarrow> (table, 0)
      | Some e \<Rightarrow>
          let batch = batch_products productIds deleted products in
          if productIds = [] \<or> stores = [] \<or> batch = [] then (table, 0)
          else (fold (\<lambda>store. upsert_items (store_inputs e batch stores store)) stores table, length stores * length batch))"

section \<open>The row the ERP determines\<close>

definition column_price :: "rat \<Rightarrow> rat option" where
  "column_price x = map_option numeric_12_2 (to_numeric_string (Some (js_of_rat x)))"

definition offer_in_store :: "erp \<Rightarrow> int \<Rightarrow> int \<Rightarrow> store_offer_row option" where
  "offer_in_store e unidade embalagemId =
     (case find (\<lambda>a. emb_id a = embalagemId) (er_embalagens e) of None \<Rightarrow> None | Some a \<Rightarrow> store_offer e unidade a)"

definition erp_item_row :: "erp \<Rightarrow> store_ref \<Rightarrow> product \<Rightarrow> int \<Rightarrow> item_row" where
  "erp_item_row e store p embalagemId =
     (let u = unidade_of store; offer = offer_in_store e u embalagemId in
      \<lparr>pi_productId = pr_id p, pi_storeId = store_id store,
       pi_price = (case find (\<lambda>r. eu_embalagemid r = embalagemId \<and> eu_unidadenegocioid r = u) (er_precos e) of
           None \<Rightarrow> None | Some r \<Rightarrow> column_price (eu_precovenda r)),
       pi_priceOffer = (if undercuts offer
         then map_option numeric_12_2 (to_numeric_string (case offer of None \<Rightarrow> None | Some w \<Rightarrow> so_precoFinalOferta w)) else None),
       pi_cost = (case find (\<lambda>a. emb_id a = embalagemId) (er_embalagens e) of None \<Rightarrow> None
         | Some a \<Rightarrow> (case store_cost e a u of None \<Rightarrow> None
             | Some c \<Rightarrow> map_option numeric_12_4 (to_numeric_string (Some (js_of_rat (cu_custo c)))))),
       pi_offerExternalId = map_option so_cadernoofertaid offer,
       ir_offerDescription = map_option so_cadernoNome offer\<rparr>)"

text \<open>The keys of the tables of the ERP.\<close>

definition erp_keyed :: "erp \<Rightarrow> bool" where
  "erp_keyed e \<longleftrightarrow> distinct (map emb_id (er_embalagens e)) \<and>
     distinct (map (\<lambda>r. (eu_embalagemid r, eu_unidadenegocioid r)) (er_precos e)) \<and>
     distinct (map (\<lambda>c. (cu_produtoid c, cu_unidadenegocioid c)) (er_custos e))"

lemma find_unique: "distinct (map k xs) \<Longrightarrow> x \<in> set xs \<Longrightarrow> find (\<lambda>y. k y = k x) xs = Some x"
  using row_at_unique [of k xs x] by (simp add: row_at_def)

lemma distinct_filter_key:
  assumes "distinct (map (\<lambda>r. (k r, u r)) xs)"
  shows "distinct (map k (filter (\<lambda>r. Q r \<and> u r = c) xs))"
  using assms by (fastforce simp: distinct_map inj_on_def)

lemma find_cong_filter: "(\<And>x. P x = Q x) \<Longrightarrow> find P xs = find Q xs"
  by presburger

lemma offers_of_batch:
  assumes "distinct (map emb_id (er_embalagens e))" "u \<in> set us" "m \<in> set ids"
  shows "map_of (map_of_entries (map (\<lambda>o'. ((so_unidadenegocioid o', so_embalagemid o'), o')) (find_store_offers ids us e))) (u, m) =
    offer_in_store e u m"
proof (rule map_of_entries_only)
  fix w
  have fields: "so_embalagemid o' = emb_id a \<and> so_unidadenegocioid o' = v" if "store_offer e v a = Some o'" for v a o'
    using that by (auto simp: store_offer_def)
  have "((u, m), w) \<in> set (map (\<lambda>o'. ((so_unidadenegocioid o', so_embalagemid o'), o')) (find_store_offers ids us e)) \<longleftrightarrow>
      (\<exists>a \<in> set (er_embalagens e). emb_id a = m \<and> store_offer e u a = Some w)"
    using assms(2,3) fields by (fastforce simp: find_store_offers_def List.map_filter_def image_iff)
  also have "\<dots> \<longleftrightarrow> offer_in_store e u m = Some w"
  proof
    assume "\<exists>a \<in> set (er_embalagens e). emb_id a = m \<and> store_offer e u a = Some w"
    then show "offer_in_store e u m = Some w" using find_unique [OF assms(1)] by (auto simp: offer_in_store_def)
  next
    assume "offer_in_store e u m = Some w"
    then show "\<exists>a \<in> set (er_embalagens e). emb_id a = m \<and> store_offer e u a = Some w"
      by (auto simp: offer_in_store_def find_Some_iff split: option.splits)
  qed
  finally show "((u, m), w) \<in> set (map (\<lambda>o'. ((so_unidadenegocioid o', so_embalagemid o'), o')) (find_store_offers ids us e)) \<longleftrightarrow>
      offer_in_store e u m = Some w" .
qed

text \<open>The maps of a batch give every product the row the ERP determines.\<close>

lemma store_inputs_rows:
  assumes "erp_keyed e" "store \<in> set stores" "\<forall>p \<in> set batch. pr_externalId p \<noteq> None"
  shows "store_inputs e batch stores store = map (\<lambda>p. erp_item_row e store p (the (pr_externalId p))) batch"
proof -
  define ids where "ids = map (\<lambda>p. or_default (pr_externalId p) 0) batch"
  define produtos where "produtos = map_of_entries (find_produto_ids_by_ids ids e)"
  define u where "u = unidade_of store"
  have keys: "distinct (map emb_id (er_embalagens e))" "distinct (map (\<lambda>r. (eu_embalagemid r, eu_unidadenegocioid r)) (er_precos e))"
    "distinct (map (\<lambda>c. (cu_produtoid c, cu_unidadenegocioid c)) (er_custos e))"
    using assms(1) by (simp_all add: erp_keyed_def)
  have pk: "distinct (map emb_id (filter P (er_embalagens e)))" for P using keys(1) by (simp add: distinct_map_filter)
  have price: "map_of (map_of_entries (map (\<lambda>r. (eu_embalagemid r, js_of_rat (eu_precovenda r))) (find_price_by_unidade ids u e))) m =
      map_option (\<lambda>r. js_of_rat (eu_precovenda r)) (find (\<lambda>r. eu_embalagemid r = m \<and> eu_unidadenegocioid r = u) (er_precos e))"
    if "m \<in> set ids" for m
    unfolding find_price_by_unidade_def map_of_rows [OF distinct_filter_key [OF keys(2)]]
    by (rule arg_cong [where f = "map_option _"], rule find_cong_filter) (use that in auto)
  have produto: "map_of produtos m = map_option ee_produtoid (find (\<lambda>a. emb_id a = m) (er_embalagens e))" if "m \<in> set ids" for m
    unfolding produtos_def find_produto_ids_by_ids_def map_of_rows [OF pk]
    by (rule arg_cong [where f = "map_option _"], rule find_cong_filter) (use that in auto)
  have cost: "map_of (map_of_entries (map (\<lambda>r. (cu_produtoid r, js_of_rat (cu_custo r))) (find_cost_by_unidade (dedup (map snd produtos)) u e)))
        (ee_produtoid a) = map_option (\<lambda>r. js_of_rat (cu_custo r)) (store_cost e a u)"
    if a: "find (\<lambda>a. emb_id a = m) (er_embalagens e) = Some a" "m \<in> set ids" for m a
  proof -
    have "map_of produtos m = Some (ee_produtoid a)" using produto [OF a(2)] a(1) by simp
    then have pid: "ee_produtoid a \<in> set (dedup (map snd produtos))" by (force dest: map_of_SomeD)
    show ?thesis
      unfolding find_cost_by_unidade_def map_of_rows [OF distinct_filter_key [OF keys(3)]] store_cost_def
      by (rule arg_cong [where f = "map_option _"], rule find_cong_filter) (use pid in metis)
  qed
  have offer: "map_of (map_of_entries (map (\<lambda>o'. ((so_unidadenegocioid o', so_embalagemid o'), o')) (find_store_offers ids (map unidade_of stores) e))) (u, m) =
      offer_in_store e u m" if "m \<in> set ids" for m
    by (rule offers_of_batch [OF keys(1) _ that]) (use assms(2) in \<open>simp add: u_def\<close>)
  show ?thesis
    unfolding store_inputs_def Let_def ids_def [symmetric] produtos_def [symmetric] u_def [symmetric]
  proof (rule map_cong [OF refl])
    fix p assume p: "p \<in> set batch"
    then obtain m where m: "pr_externalId p = Some m" using assms(3) by auto
    then have mem: "m \<in> set ids" using p by (force simp: ids_def or_default_def)
    show "item_input produtos
        (map_of_entries (map (\<lambda>r. (eu_embalagemid r, js_of_rat (eu_precovenda r))) (find_price_by_unidade ids u e)))
        (map_of_entries (map (\<lambda>r. (cu_produtoid r, js_of_rat (cu_custo r))) (find_cost_by_unidade (dedup (map snd produtos)) u e)))
        (map_of_entries (map (\<lambda>o'. ((so_unidadenegocioid o', so_embalagemid o'), o')) (find_store_offers ids (map unidade_of stores) e)))
        store p = erp_item_row e store p (the (pr_externalId p))"
      using m cost [OF _ mem]
      by (auto simp: item_input_def erp_item_row_def Let_def or_default_def price [OF mem] produto [OF mem] offer [OF mem]
          column_price_def to_numeric_string_def simp flip: u_def split: option.splits)
  qed
qed

section \<open>What a batch leaves\<close>

lemma replaced_item: "item_key i = item_key r \<Longrightarrow> replace_item i r = i"
  by (simp add: item_key_def replace_item_def)

lemma replaced_at: "row_at item_key is k = Some i \<Longrightarrow> row_at item_key rs k = Some r \<Longrightarrow> replace_item i r = i"
  by (drule row_at_Some, drule row_at_Some) (simp add: replaced_item)

lemma row_at_map:
  assumes "\<And>p. p \<in> set ps \<Longrightarrow> key (f p) = (k p, s)"
  shows "row_at key (map f ps) (i, s') = (if s' = s then map_option f (row_at k ps i) else None)"
  using assms by (induction ps) (auto simp: row_at_Cons)

text \<open>The stores of a run, one after the other.\<close>

lemma stores_written:
  assumes "distinct (map pr_id batch)" "\<And>s. s \<in> set stores \<Longrightarrow> inputs s = map (row s) batch"
    and "\<And>s p. item_key (row s p) = (pr_id p, store_id s)" "distinct (map store_id stores)"
  shows "row_at item_key (fold (\<lambda>s. upsert_items (inputs s)) stores table) (i, j) =
    (case (row_at pr_id batch i, row_at store_id stores j) of
       (Some p, Some s) \<Rightarrow> Some (row s p) | _ \<Rightarrow> row_at item_key table (i, j))"
  using assms(2,4)
proof (induction stores arbitrary: table)
  case Nil
  then show ?case by (simp split: option.splits)
next
  case (Cons s stores)
  let ?t = "upsert_items (inputs s) table"
  have inp: "inputs s = map (row s) batch" using Cons.prems by simp
  have rows: "row_at item_key (inputs s) (i, j) = (if j = store_id s then map_option (row s) (row_at pr_id batch i) else None)"
    unfolding inp by (rule row_at_map) (simp add: assms(3))
  have "distinct (map item_key (inputs s))" using assms(1,3) by (auto simp: inp distinct_map inj_on_def)
  then have t: "row_at item_key ?t (i, j) = (case row_at item_key (inputs s) (i, j) of None \<Rightarrow> row_at item_key table (i, j) | Some r \<Rightarrow> Some r)"
    unfolding upsert_items_def items.row_at_upserts [OF \<open>distinct (map item_key (inputs s))\<close>]
    by (cases "row_at item_key (inputs s) (i, j)"; cases "row_at item_key table (i, j)") (simp_all add: replaced_at)
  have IH: "row_at item_key (fold (\<lambda>s. upsert_items (inputs s)) stores ?t) (i, j) =
      (case (row_at pr_id batch i, row_at store_id stores j) of
         (Some p, Some s) \<Rightarrow> Some (row s p) | _ \<Rightarrow> row_at item_key ?t (i, j))"
    by (rule Cons.IH) (use Cons.prems in auto)
  have "row_at store_id stores (store_id s) = None" using Cons.prems(2) by (simp add: row_at_None)
  then show ?case
    unfolding fold.simps comp_def IH t rows by (auto simp: row_at_Cons split: option.splits)
qed

lemma synced_rows:
  assumes "erp_keyed e" "distinct (map pr_id products)" "distinct (map store_id stores)"
  shows "row_at item_key (fst (sync_items (Some e) productIds stores deleted products table)) (i, j) =
    (case (row_at pr_id (batch_products productIds deleted products) i, row_at store_id stores j) of
       (Some p, Some s) \<Rightarrow> Some (erp_item_row e s p (the (pr_externalId p)))
     | _ \<Rightarrow> row_at item_key table (i, j))"
proof (cases "productIds = [] \<or> stores = [] \<or> batch_products productIds deleted products = []")
  case True
  then have "batch_products productIds deleted products = [] \<or> stores = []" by (auto simp: batch_products_def)
  then have "row_at pr_id (batch_products productIds deleted products) i = None \<or> row_at store_id stores j = None"
    by fastforce
  moreover have "fst (sync_items (Some e) productIds stores deleted products table) = table" using True by (auto simp: sync_items_def Let_def)
  ultimately show ?thesis by (auto split: option.splits)
next
  case False
  let ?b = "batch_products productIds deleted products"
  have b: "distinct (map pr_id ?b)" "\<forall>p \<in> set ?b. pr_externalId p \<noteq> None"
    using assms(2) by (simp_all add: batch_products_def distinct_map_filter)
  have "fst (sync_items (Some e) productIds stores deleted products table) = fold (\<lambda>s. upsert_items (store_inputs e ?b stores s)) stores table"
    using False by (auto simp: sync_items_def Let_def)
  moreover have "item_key (erp_item_row e s p m) = (pr_id p, store_id s)" for s p m
    by (simp add: erp_item_row_def item_key_def Let_def)
  ultimately show ?thesis
    using stores_written [where row = "\<lambda>s p. erp_item_row e s p (the (pr_externalId p))" and inputs = "store_inputs e ?b stores",
        OF b(1) store_inputs_rows [OF assms(1) _ b(2)] _ assms(3)] by simp
qed

section \<open>Offers undercut the shelf\<close>

text \<open>Doubles round to themselves.\<close>

lemma rd_representable:
  assumes m: "0 < m" "m < 2 ^ 53" and e: "-1074 \<le> e"
  shows "round_double (of_int m * 2 powi e) = of_int m * 2 powi e"
proof -
  define f :: rat where "f = of_int m * 2 powi e"
  define ef where "ef = max (binade f - 52) (-1074)"
  have f: "0 < f" using m by (simp add: f_def)
  have "(of_int m :: rat) < of_int (2 ^ 53)" using m(2) by (simp only: of_int_less_iff)
  then have "f < 2 powi 53 * 2 powi e" by (simp add: f_def)
  also have "(2::rat) powi 53 * 2 powi e = 2 powi (53 + e)" by (rule power_int_add [symmetric]) simp
  finally have "(2::rat) powi binade f < 2 powi (53 + e)" using binade_bounds [OF f] by linarith
  then have "binade f < 53 + e" using power_int_increasing [of "53 + e" "binade f" "2::rat"] by (cases "binade f < 53 + e") auto
  then have le: "ef \<le> e" using e by (simp add: ef_def)
  have u: "ulp f = 2 powi ef" using f by (simp add: ulp_def ef_def)
  have "(2::rat) powi e = 2 powi (e - ef) * 2 powi ef" by (simp flip: power_int_add)
  also have "(2::rat) powi (e - ef) = of_int (2 ^ nat (e - ef))" using le by (simp add: power_int_def)
  finally have "f = of_int (m * 2 ^ nat (e - ef)) * 2 powi ef" unfolding f_def by simp
  then have "f = of_int (m * 2 ^ nat (e - ef)) * ulp f" unfolding u .
  then have q: "f / ulp f = of_int (m * 2 ^ nat (e - ef))" by (metis nonzero_mult_div_cancel_right ulp_nonzero)
  have "round_double f = f / ulp f * ulp f" using f unfolding round_double_def q rne_of_int by simp
  then show ?thesis by (simp add: f_def)
qed

lemma rd_idempotent:
  assumes "0 \<le> z"
  shows "round_double (round_double z) = round_double z"
proof (cases "z = 0 \<or> round_double z = 0")
  case False
  then have z: "0 < z" "round_double z = of_int (rne (z / ulp z)) * ulp z" using assms by (auto simp: round_double_def)
  define n e where "n = rne (z / ulp z)" and "e = max (binade z - 52) (-1074)"
  have u: "ulp z = 2 powi e" using z by (simp add: ulp_def e_def)
  have "0 \<le> n" using rne_mono [of 0 "z / ulp z"] rne_of_int [of 0] z less_imp_le [OF ulp_pos, of z] by (simp add: n_def)
  moreover have "n \<noteq> 0" using False z by (auto simp: n_def)
  ultimately have n0: "0 < n" by simp
  have "z < 2 powi (binade z + 1)" using z binade_bounds by blast
  also have "\<dots> \<le> 2 powi (53 + e)" by (rule power_int_increasing) (auto simp: e_def)
  also have "\<dots> = 2 powi 53 * 2 powi e" by (rule power_int_add) simp
  finally have "z / ulp z \<le> of_int (2 ^ 53)" using u by (simp add: pos_divide_le_eq)
  then have n1: "n \<le> 2 ^ 53" using rne_mono rne_of_int unfolding n_def by metis
  have rz: "round_double z = of_int n * 2 powi e" using z u by (simp add: n_def)
  show ?thesis
  proof (cases "n < 2 ^ 53")
    case True
    then show ?thesis unfolding rz by (intro rd_representable n0) (simp_all add: e_def)
  next
    case False
    then have "of_int n * 2 powi e = (of_int (2 ^ 52) * 2 powi (e + 1) :: rat)" using n1 by (simp add: power_int_add)
    then show ?thesis unfolding rz by (simp only:) (rule rd_representable, simp_all add: e_def)
  qed
qed auto

lemma round_decimal_of: "round_double x = x \<Longrightarrow> round_double (decimal_of x) = x"
  by (auto simp: decimal_of_def find_Some_iff split: option.splits)

lemma decimal_of_mono:
  assumes "round_double x = x" "round_double y = y" "x \<le> y"
  shows "decimal_of x \<le> decimal_of y"
proof (rule ccontr)
  assume "\<not> decimal_of x \<le> decimal_of y"
  then have "decimal_of y \<le> decimal_of x" by simp
  then have "round_double (decimal_of y) \<le> round_double (decimal_of x)" by (rule round_double_mono)
  then have "x = y" using assms by (simp add: round_decimal_of)
  then show False using \<open>\<not> decimal_of x \<le> decimal_of y\<close> by simp
qed

lemma column_price_mono:
  assumes "js_le (js_of_rat x) (js_of_rat y)" "0 \<le> x"
    and "column_price x = Some a" "column_price y = Some b"
  shows "a \<le> b"
proof -
  obtain r s where r: "js_of_rat x = Num r" "a = numeric_12_2 (decimal_of r)"
    and s: "js_of_rat y = Num s" "b = numeric_12_2 (decimal_of s)"
    using assms(3,4) by (auto simp: column_price_def to_numeric_string_def split: jsnum.splits)
  have rs: "r = round_double x" "s = round_double y" using r s by (auto simp: js_of_rat_def Let_def split: if_splits)
  have le: "r \<le> s" using assms(1) r s by (auto simp: js_le_def)
  have "round_double r = r" unfolding rs by (rule rd_idempotent [OF assms(2)])
  moreover have "round_double s = s"
  proof (cases "0 \<le> y")
    case False
    then have "s \<le> 0" using round_double_mono [of y 0] by (simp add: rs)
    then have "s = 0" using le round_double_nonneg [OF assms(2)] by (simp add: rs)
    then show ?thesis by simp
  qed (simp add: rs rd_idempotent)
  ultimately show ?thesis unfolding r s by (intro numeric_12_2_mono decimal_of_mono le)
qed

text \<open>The winning offer of a store carries the shelf price it was compared with.\<close>

lemma store_offer_shelf:
  assumes "store_offer e u a = Some w"
  shows "so_precoCadastro w = js_of_rat (shelf_price e a u)"
    and "so_precoFinalOferta w = Some q \<Longrightarrow> \<exists>x > 0. q = js_of_rat x"
proof -
  obtain o' where o': "pick_best offer_beats (store_candidates e a u) = Some o'" and w: "so_precoCadastro w = js_of_rat (po_precoCadastro o')"
    "so_precoFinalOferta w = map_option js_of_rat (po_precoFinalOferta o')" using assms by (auto simp: store_offer_def)
  have "o' \<in> set (store_candidates e a u)" using offers.pick_best_Some [OF o'] by blast
  then have c: "po_precoCadastro o' = shelf_price e a u" "\<And>x. po_precoFinalOferta o' = Some x \<Longrightarrow> 0 < x"
    by (auto simp: store_candidates_def List.map_filter_def positive_column_def Let_def split: option.splits if_splits)
  show "so_precoCadastro w = js_of_rat (shelf_price e a u)" using w c by simp
  show "so_precoFinalOferta w = Some q \<Longrightarrow> \<exists>x > 0. q = js_of_rat x" using w c by auto
qed

lemma erp_row_undercuts:
  assumes "erp_keyed e" "pi_price (erp_item_row e s p m) = Some shelf" "pi_priceOffer (erp_item_row e s p m) = Some offer"
  shows "offer \<le> shelf"
proof -
  let ?u = "unidade_of s"
  obtain a w where a: "find (\<lambda>a. emb_id a = m) (er_embalagens e) = Some a" and w: "store_offer e ?u a = Some w"
    using assms(3) by (auto simp: erp_item_row_def Let_def undercuts_def offer_in_store_def split: option.splits if_splits)
  have o': "offer_in_store e ?u m = Some w" using a w by (simp add: offer_in_store_def)
  obtain q where q: "so_precoFinalOferta w = Some q" "js_le q (so_precoCadastro w)" "map_option numeric_12_2 (to_numeric_string (Some q)) = Some offer"
    using assms(3) by (auto simp: erp_item_row_def Let_def undercuts_def o' split: option.splits if_splits)
  obtain x where x: "0 < x" "q = js_of_rat x" using store_offer_shelf(2) [OF w q(1)] by blast
  have em: "emb_id a = m" using a by (auto simp: find_Some_iff)
  have "column_price (shelf_price e a ?u) = Some shelf"
    using assms(2) by (auto simp: erp_item_row_def Let_def shelf_price_def store_price_def em split: option.splits)
  moreover have "column_price x = Some offer" using q(3) by (simp add: column_price_def x)
  moreover have "js_le (js_of_rat x) (js_of_rat (shelf_price e a ?u))" using q(2) x store_offer_shelf(1) [OF w] by simp
  ultimately show ?thesis using column_price_mono x by force
qed

section \<open>What a batch of the import guarantees\<close>

lemma row_at_batch:
  assumes "distinct (map pr_id products)"
  shows "row_at pr_id (batch_products productIds deleted products) i =
    (case row_at pr_id products i of None \<Rightarrow> None
     | Some p \<Rightarrow> if i \<in> set productIds \<and> pr_externalId p \<noteq> None \<and> \<not> deleted i then Some p else None)"
  using assms
proof (induction products)
  case (Cons p ps)
  show ?case
  proof (cases "pr_id p = i")
    case True
    with Cons.prems have "row_at pr_id ps i = None" by (simp add: row_at_None)
    with Cons True show ?thesis by (simp add: batch_products_def row_at_Cons)
  next
    case False
    with Cons show ?thesis by (simp add: batch_products_def row_at_Cons)
  qed
qed (simp add: batch_products_def)

text \<open>
  C39. A batch of the item import writes what the ERP determines, and nothing else: every product of the
  batch that has an external id and is not deleted gets, in every store of the run, the price and the
  cost the ERP keeps for the store and the winning offer of the store; every other row stays, those of
  deleted products included. The code looks prices, costs and offers up in maps it builds for the
  batch; the right-hand side looks every row up in the tables of the tenant and of the ERP. The
  hypotheses are the keys of the tables.
\<close>

theorem item_batch_mirrors_erp:
  assumes "erp_keyed e" "distinct (map pr_id products)" "distinct (map store_id stores)"
  shows "row_at item_key (fst (sync_items (Some e) productIds stores deleted products table)) (i, j) =
    (case (row_at pr_id products i, row_at store_id stores j) of
       (Some p, Some s) \<Rightarrow>
         if i \<in> set productIds \<and> pr_externalId p \<noteq> None \<and> \<not> deleted i
         then Some (erp_item_row e s p (the (pr_externalId p)))
         else row_at item_key table (i, j)
     | _ \<Rightarrow> row_at item_key table (i, j))"
  unfolding synced_rows [OF assms] row_at_batch [OF assms(2)] by (auto split: option.splits)

text \<open>
  C40. A row the import writes never asks the customer for more than the shelf: where the row of a product
  of the batch in a store of the run has a price and an offer price, the offer price is at most the
  price. The code compares the offer in binary64 with the price the offer query returns, and writes the
  price another query returns; both are read from texts and rounded by their columns.
\<close>

theorem synced_offer_undercuts_shelf:
  assumes "erp_keyed e" "distinct (map pr_id products)" "distinct (map store_id stores)"
    and "i \<in> pr_id ` set (batch_products productIds deleted products)" "j \<in> store_id ` set stores"
    and "row_at item_key (fst (sync_items (Some e) productIds stores deleted products table)) (i, j) = Some r"
    and "pi_price r = Some shelf" "pi_priceOffer r = Some offer"
  shows "offer \<le> shelf"
proof -
  obtain p s where "row_at pr_id (batch_products productIds deleted products) i = Some p" "row_at store_id stores j = Some s"
    using assms(4,5) by (metis not_None_eq row_at_None)
  then have "r = erp_item_row e s p (the (pr_externalId p))" using assms(6) synced_rows [OF assms(1-3)] by simp
  then show ?thesis using erp_row_undercuts [OF assms(1)] assms(7,8) by blast
qed

section \<open>A batch, evaluated\<close>

text \<open>
  One package sold at 12,50 in store 5, with a direct offer at 8,00 in an open offer book; a product of
  another batch stays as it is.
\<close>

definition demo_offer_book :: erp_caderno where
  "demo_offer_book = \<lparr>co_id = 7, co_nome = ''julho'', co_status = ''A'', co_datahorainicial = Some 0, co_datahorafinal = None,
     co_crmapenasgrupoconsumidor = False, co_validoapenascupomdesconto = False, co_validoapenasprevencido = False,
     co_formapagamentoaceita = ''A'', co_diasemanasegunda = False, co_diasemanaterca = False, co_diasemanaquarta = False,
     co_diasemanaquinta = False, co_diasemanasexta = False, co_diasemanasabado = False, co_diasemanadomingo = False\<rparr>"

definition demo_offer_item :: erp_item where
  "demo_offer_item = \<lparr>io_id = 70, io_embalagemid = Some 1, io_cadernoofertaid = 7, io_tipooferta = CHR ''P'', io_precooferta = Some 8,
     io_descontooferta = None, io_tipoitem = CHR ''A'', io_gruporemarcacaoid = None, io_fabricanteid = None,
     io_classificacaoid = None, io_markup = None, io_descontoporqtdtipo = CHR ''A'', io_comboofertaid = None\<rparr>"

definition demo_prices :: erp where
  "demo_prices = (demo_erp demo_stock)\<lparr>er_custos := [\<lparr>cu_produtoid = 1, cu_unidadenegocioid = 5, cu_custo = 4, cu_customedio = 4, cu_itemnotafiscalid = None\<rparr>],
     er_precos := [\<lparr>eu_embalagemid = 1, eu_unidadenegocioid = 5, eu_precovenda = 25 / 2, eu_precoreferencial = None\<rparr>],
     er_cadernos := [demo_offer_book], er_itens := [demo_offer_item]\<rparr>"

definition demo_row :: "string \<Rightarrow> int \<Rightarrow> product" where
  "demo_row i m = \<lparr>pr_id = i, pr_ean = ''789'', pr_externalId = Some m, pr_name = None, pr_active = True, pr_price = None,
     pr_cost = None, pr_averageUnitCost = None, pr_unitSalePrice = None, pr_supplier = None, pr_monitored = False, pr_classificationId = None\<rparr>"

definition demo_stores :: "store_ref list" where
  "demo_stores = [\<lparr>store_id = ''s5'', store_externalId = ''5''\<rparr>]"

definition demo_table :: "item_row list" where
  "demo_table = [\<lparr>pi_productId = ''b'', pi_storeId = ''s5'', pi_price = Some 3, pi_priceOffer = None, pi_cost = None,
     pi_offerExternalId = None, ir_offerDescription = None\<rparr>]"

definition demo_products :: "product list" where
  "demo_products = [demo_row ''a'' 1, demo_row ''b'' 2, demo_row ''c'' 1]"

lemma demo_keys: "erp_keyed demo_prices" "distinct (map pr_id demo_products)" "distinct (map store_id demo_stores)"
  by code_simp+

lemma demo_batch: "row_at pr_id (batch_products [''a''] (\<lambda>i. i = ''c'') demo_products) ''a'' = Some (demo_row ''a'' 1)"
  "row_at pr_id (batch_products [''a''] (\<lambda>i. i = ''c'') demo_products) ''b'' = None"
  "row_at store_id demo_stores ''s5'' = Some (hd demo_stores)"
  by (simp_all add: batch_products_def demo_products_def demo_row_def row_at_def demo_stores_def)

lemma demo_item: "pi_price (erp_item_row demo_prices (hd demo_stores) (demo_row ''a'' 1) 1) = Some (25 / 2)"
  "pi_priceOffer (erp_item_row demo_prices (hd demo_stores) (demo_row ''a'' 1) 1) = Some 8"
  by code_simp+

theorem item_batch_mirrors_erp_witness:
  "let table' = fst (sync_items (Some demo_prices) [''a'', ''c''] demo_stores (\<lambda>i. i = ''c'') demo_products demo_table) in
   map_option pi_priceOffer (row_at item_key table' (''a'', ''s5'')) = Some (Some 8) \<and>
   map_option pi_price (row_at item_key table' (''b'', ''s5'')) = Some (Some 3) \<and>
   row_at item_key table' (''c'', ''s5'') = None"
proof -
  have p: "row_at pr_id demo_products ''a'' = Some (demo_row ''a'' 1)" "row_at pr_id demo_products ''b'' = Some (demo_row ''b'' 2)"
    "row_at pr_id demo_products ''c'' = Some (demo_row ''c'' 1)" "row_at store_id demo_stores ''s5'' = Some (hd demo_stores)"
    by (simp_all add: demo_products_def demo_row_def row_at_def demo_stores_def)
  have x: "pr_externalId (demo_row i m) = Some m" for i m by (simp add: demo_row_def)
  have t: "row_at item_key demo_table (''b'', ''s5'') = Some (hd demo_table)" "row_at item_key demo_table (''c'', ''s5'') = None"
    "pi_price (hd demo_table) = Some 3"
    by (simp_all add: row_at_def demo_table_def item_key_def)
  show ?thesis
    unfolding Let_def item_batch_mirrors_erp [OF demo_keys] p by (simp add: x t demo_item)
qed

theorem synced_offer_undercuts_shelf_witness:
  "\<exists>r. row_at item_key (fst (sync_items (Some demo_prices) [''a''] demo_stores (\<lambda>i. i = ''c'') demo_products demo_table)) (''a'', ''s5'') = Some r \<and>
     pi_priceOffer r = Some 8 \<and> pi_price r = Some (25 / 2) \<and> (8::rat) \<le> 25 / 2"
proof -
  let ?t = "fst (sync_items (Some demo_prices) [''a''] demo_stores (\<lambda>i. i = ''c'') demo_products demo_table)"
  have r: "row_at item_key ?t (''a'', ''s5'') = Some (erp_item_row demo_prices (hd demo_stores) (demo_row ''a'' 1) 1)"
    unfolding synced_rows [OF demo_keys] demo_batch by (simp add: demo_row_def)
  have "(8::rat) \<le> 25 / 2"
    by (rule synced_offer_undercuts_shelf [OF demo_keys _ _ r demo_item])
      (simp_all add: batch_products_def demo_products_def demo_row_def demo_stores_def)
  then show ?thesis using r demo_item by blast
qed

end
