(* ===== verification/Spec2Isabelle.thy ===== *)
theory Spec2Isabelle
  imports Classification_Index Suggestion_Engine Pipeline_Graph Catalog_Mutation Apply_Price_Step
    Pricing_Rules Pricing_Apply Offer_Book_Engine Price_Rounding Offer_Book_Rules Offer_Book_Execution
    Offer_Book_Worker Offer_Book_Schedule Pricing_Schedule Stores Stock_Sync Item_Sync
begin

text \<open>
  FarmaCore is a multi-tenant back office for pharmacies: it mirrors the catalogue of a tenant's ERP
  (A7 Pharma), collects the prices of competitors, suggests sale and offer prices, and writes approved
  prices back to the ERP. The code is the TypeScript server under \<open>src/src\<close>: an HTTP process
  (controllers and services) and a worker (RabbitMQ consumers), over one PostgreSQL database with a
  core schema and a schema per tenant. This development models the part of it that decides prices
  and the part that makes the work of the queues reliable. Paths below are relative to \<open>src/src\<close>.

  \<^bold>\<open>How the parts interact.\<close> The pipeline (\<open>queue\<close>, \<open>pipeline\<close>) runs steps as messages: a dispatcher splits
  a step into numbered batches, every batch closes a fan-in counter in \<open>core.pipeline_run\<close>, the last one
  stages the next steps in the outbox of the same transaction, and a poller publishes the outbox. What
  the steps import feeds the catalogue tables. The suggestion listing (\<open>tenant-api/pricing\<close>) computes for
  every product the rule that governs it and the price the rule suggests. Approved prices go through the
  bulk application, which revalidates them against guard rails, freezes them as items of a run and
  dispatches the run to the worker, which pushes item by item through the catalogue write-back. A
  schedule applies prices later, frozen or recalculated. Offer-book rules (\<open>tenant-api/offer-book-rules\<close>)
  are a second engine: they price an offer book of the ERP; an execution freezes the prices as a ledger,
  and a worker pushes the ledger.

  \<^bold>\<open>Theories, and the code they model.\<close>
  \<^item> \<open>Prelude\<close>: exceptions, \<open>Set\<close> and \<open>Map\<close> with insertion order, slicing loops, table updates; the locales
    \<open>preference\<close> and \<open>strict_preference\<close> (the loop "keep the best element seen so far") and \<open>lease\<close>
    (a row claimed for a time), which the components interpret.
  \<^item> \<open>Js_Number\<close>, \<open>Js_String\<close>: the numbers and strings of the language. A number is an exact rational, a
    NaN or an infinity; every operation is the exact one followed by the rounding to binary64. The
    locale \<open>rounding\<close> is what the price lemmas need of it.
  \<^item> \<open>Classification_Index\<close>: \<open>tenant-api/classification/classification-index.ts\<close>; locale \<open>subtree_filter\<close>.
  \<^item> \<open>Suggestion_Engine\<close>: \<open>tenant-api/pricing/pricing-suggestion.engine.ts\<close>.
  \<^item> \<open>Pricing_Rules\<close>: \<open>suggestion-rules.service.ts\<close>, \<open>pricing-rules.util.ts\<close>, \<open>clusters.service.ts\<close>,
    \<open>competitor-origins.service.ts\<close>; the state is the record \<open>rules_db\<close>.
  \<^item> \<open>Price_Rounding\<close>: \<open>tenant-api/config/price-rounding.service.ts\<close>; the record \<open>rounding_db\<close>.
  \<^item> \<open>Pricing_Suggestions\<close>: \<open>pricing-suggestions.service.ts\<close>; \<open>Suggestion_Guard\<close> proves how it fits the application.
  \<^item> \<open>Catalog_Mutation\<close>: \<open>tenant-api/catalog/catalog-mutation.service.ts\<close>; the record \<open>catalog\<close> holds the tenant
    tables and the ERP; locale \<open>write_back\<close> is the contract of the three writes.
  \<^item> \<open>Pricing_Apply\<close>: \<open>pricing-apply.service.ts\<close>; \<open>Apply_Price_Step\<close>: \<open>pipeline/steps/apply-price.step.ts\<close> and its
    two consumers; \<open>Pricing_Schedule\<close>: \<open>pricing-schedule.service.ts\<close> and its cron.
  \<^item> \<open>Offer_Book_Engine\<close>, \<open>Offer_Book_Rules\<close>, \<open>Offer_Book_Execution\<close>, \<open>Offer_Book_Schedule\<close>: the services of
    \<open>tenant-api/offer-book-rules\<close>; \<open>Offer_Book_Worker\<close>: \<open>pipeline/steps/execute-offer-book-rule.step.ts\<close>.
  \<^item> \<open>Queue_Constants\<close>, \<open>Pipeline_Runs\<close>, \<open>Outbox\<close>, \<open>Consumers\<close>: \<open>queue\<close>; \<open>Pipeline_Graph\<close>: \<open>pipeline/consumers\<close>.
    Locale \<open>batch_contract\<close> is what a batch consumer asks of its step.
  \<^item> \<open>Stores\<close>: \<open>tenant-api/stores/stores.service.ts\<close> and \<open>pipeline/steps/sync-stores.step.ts\<close>; the record
    \<open>stores_db\<close>.
  \<^item> \<open>Erp_Reads\<close>: the queries of \<open>integration/repositories/a7pharma\<close> on the record \<open>erp\<close>, a field per table;
    \<open>Upserts\<close>: \<open>INSERT ... ON CONFLICT DO UPDATE\<close>, with the locale \<open>upsert_table\<close> the written tables interpret.
  \<^item> \<open>Stock_Sync\<close>, \<open>Item_Sync\<close>: \<open>pipeline/steps/sync-base-product-stock.step.ts\<close> and
    \<open>sync-product-items.step.ts\<close> with the repositories of their tables.
  \<^item> \<open>Auth\<close>: \<open>auth/auth.service.ts\<close>, the guards of roles and modules, \<open>tenant/tenant.service.ts\<close>.

  \<^bold>\<open>State and errors.\<close> A table is a list of rows in table order (a map for \<open>core.pipeline_run\<close>, whose unique key
  addresses it); a service operation maps the tables to the tables and a result. An exception is the
  left value of \<open>outcome\<close>; a request that throws leaves its tables as they were, because it runs in one
  transaction, while pushes the ERP confirmed survive. Columns of money are exact decimals
  (\<open>numeric(12,2)\<close> rounds half away from zero), requests carry JavaScript numbers. Concurrency is a
  transition system where it matters: \<open>fan_in_step\<close> (workers of a step; a repeated start reads and writes in
  two statements, so starts in flight interleave with the batches), \<open>exec_step\<close> (requests, deliveries
  and foreign changes around the ledger), \<open>schedule_step\<close> (requests and replicas of the cron),
  \<open>session_step\<close> (requests on sessions), \<open>store_step\<close> (requests on stores, split where they wait for locks).

  \<^bold>\<open>What the database decides.\<close> Errors of statements carry their SQLSTATE (\<open>22003\<close>: a number past its column;
  \<open>23505\<close>: a unique index; \<open>55P03\<close>: a lock). Overflow is modelled where a request or a computed price reaches a
  column (rounding ranges, offer-book rules and ledgers, accepted prices, stock quantities); values copied from
  columns of the ERP and single product edits are taken to fit. Where an \<open>ORDER BY\<close> leaves ties, the order of
  the ties is a parameter for the buckets of a rounding range and for the rows of the outbox, and the order
  of the table elsewhere; the properties on other sorted reads compare runs over one table.
  External ids of products are text columns written only as decimals of the ERP's numbers, and are numbers here.
  Messages of errors leave out accents, and doubles printed into them.

  \<^bold>\<open>What the lemmas show.\<close>
  \<^item> Prices: a suggested price keeps the margin floor to half a cent and is actionable; the rule that
    governs is the best one whatever the order of the rules; an accepted price covers its floor, the
    sale price and the ceiling of variation; no two writes collide; a preview accepts and rejects what the
    application does, which then writes its rows unless a price overflows its column; a suggested price, requested
    as it is, passes the guard rails, also when a schedule recalculates it, and the revalidation
    refuses it for its variation or its offer book only.
  \<^item> Offer books: validated rules are unambiguous, locked prices cover the margin, the dry run predicts the
    execution of requests of two decimals (a third decimal is rounded by the column and may change the price), an offer book has one rule, an execution is exclusive, at most one scheduled execution a
    day in sequential firings.
  \<^item> Writes: the local mirror follows confirmed pushes; the worker pushes for each waiting item at
    most its own product, frozen price and target, and reports as applied exactly what was confirmed; without
    faults it settles everything.
  \<^item> Queues: a delivery commits all or nothing; the fan-in reports the last batch exactly when all are
    completed, unless a stale start reopens a closed run (\<open>stale_start_closes_early\<close>), and never stalls; a
    batch stages its successors exactly when it is the last; the outbox marks only what was sent; the emission checkpoint is sound.
  \<^item> Stores and imports: no interleaving of requests takes a tenant above its quota of active stores; a run
    of the stock import leaves the stock of the ERP; a batch of the item import writes the prices, costs
    and offers the ERP determines, and no offer above the price of its row.
  \<^item> Sessions: a logout ends live sessions for good; a refresh rotates or refuses.

  \<^bold>\<open>Bounds and fuel.\<close> The walks up the classification tree carry a unit per row and one more, enough on acyclic
  tables (\<open>index_builds_on_acyclic_rows\<close>). The push loop of an offer-book execution carries a round per
  item, and running out is shown not to occur. The loop of the schedule cron carries a unit per due
  schedule and one more, enough for a tick without faults (\<open>tick_settles_due_schedules\<close>); with a run time
  between two milliseconds no amount is enough (\<open>microseconds_never_park\<close>). Lemmas on margins bound costs
  (by 20000 or 100000, stated in each) so that the binary64 error stays below half a cent.

  \<^bold>\<open>Parameters.\<close> Not under \<open>src\<close>, hence arguments: generated ids, clocks, random tokens, digests and password
  checks, the calendar of a time zone, the cron library, the collation of a locale, the answers of the
  ERP and of the broker, locks held by other sessions, and which transactions fail.

  \<^bold>\<open>Not modelled.\<close> The server before the port (\<open>legacy-app\<close>); controllers, DTO decorators, modules, and
  bootstrap (framework declarations); logs, spans and metrics (\<open>observability\<close>, \<open>presentation\<close>); the HTTP
  scrapers and the image storage (network code over foreign formats); the connection pool and the
  credentials of the ERP database; the import steps for products, offers, classifications, competitors and
  metrics (their place in the pipeline is); settings, audit and administration screens; migrations,
  scripts, tests and documentation.
\<close>

end
